(* ===== verification/Prelude.thy ===== *)
theory Prelude
  imports Main "HOL-Library.Word"
begin

text \<open>
  Shared vocabulary of the development: the result of running a piece of C code that may fail an
  assertion or wait for ever, the small array and list helpers that the components use (the
  ``first matching slot'' loop, \<^verbatim>\<open>memcpy\<close> into a buffer, circular arrays), and the two
  interfaces that several components implement: a bounded first-in-first-out queue and a bounded
  byte stream.
\<close>

unbundle bit_operations_syntax

section \<open>Outcomes of C code\<close>

text \<open>
  The library is always built with assertions on (\<^verbatim>\<open>NDEBUG\<close> is never set), so
  \<^verbatim>\<open>_IOC_LogAssert\<close>, \<^verbatim>\<open>_IOC_LogBug\<close> and \<^verbatim>\<open>_IOC_LogNotTested\<close>
  end the process: \<open>Abort\<close>.  \<open>Block\<close> is a call that never returns: it waits on a
  condition nobody will signal, or locks a non-recursive mutex that the same thread holds.
  A dereference of a null or dangling pointer, which C leaves undefined, is counted as \<open>Abort\<close>.
\<close>

datatype 'a outcome = Done 'a | Abort | Block

named_theorems outcome_simps

primrec bindO :: "'a outcome \<Rightarrow> ('a \<Rightarrow> 'b outcome) \<Rightarrow> 'b outcome" where
  "bindO (Done x) k = k x"
| "bindO Abort k = Abort"
| "bindO Block k = Block"

definition log_assert :: "bool \<Rightarrow> 'a outcome \<Rightarrow> 'a outcome" where
  "log_assert b k = (if b then k else Abort)"

lemma log_assert_simps [simp, outcome_simps]:
  "log_assert True k = k" "log_assert False k = Abort"
  by (simp_all add: log_assert_def)

lemma bindO_eq_Done [outcome_simps]:
  "bindO m k = Done y \<longleftrightarrow> (\<exists>x. m = Done x \<and> k x = Done y)"
  by (cases m) auto

lemma bindO_eq_Abort [outcome_simps]:
  "bindO m k = Abort \<longleftrightarrow> m = Abort \<or> (\<exists>x. m = Done x \<and> k x = Abort)"
  by (cases m) auto

lemma bindO_eq_Block [outcome_simps]:
  "bindO m k = Block \<longleftrightarrow> m = Block \<or> (\<exists>x. m = Done x \<and> k x = Block)"
  by (cases m) auto

lemma bindO_assoc [outcome_simps]: "bindO (bindO m k) h = bindO m (\<lambda>x. bindO (k x) h)"
  by (cases m) auto

lemma log_assert_eq_Done [outcome_simps]:
  "log_assert b k = Done y \<longleftrightarrow> b \<and> k = Done y"
  by (simp add: log_assert_def)

text \<open>\<open>ensures m P\<close>: if the code returns, its result satisfies \<open>P\<close>.  A lemma about a call whose result
  the code goes on with is used with \<open>ensures_bind\<close>, one about a last call with \<open>ensures_call\<close>.\<close>

definition ensures :: "'a outcome \<Rightarrow> ('a \<Rightarrow> bool) \<Rightarrow> bool" where
  "ensures m P \<longleftrightarrow> (\<forall>x. m = Done x \<longrightarrow> P x)"

lemma ensures_basic [simp]:
  "ensures (Done x) P \<longleftrightarrow> P x" "ensures Abort P" "ensures Block P"
  "ensures (log_assert b m) P \<longleftrightarrow> (b \<longrightarrow> ensures m P)"
  by (simp_all add: ensures_def log_assert_def)

lemma ensures_bind: "ensures m P \<Longrightarrow> (\<And>x. P x \<Longrightarrow> ensures (k x) Q) \<Longrightarrow> ensures (bindO m k) Q"
  by (cases m) (simp_all add: ensures_def)

lemma ensures_call: "ensures m P \<Longrightarrow> (\<And>x. P x \<Longrightarrow> Q x) \<Longrightarrow> ensures m Q"
  by (simp add: ensures_def)

lemma ensuresD: "ensures m P \<Longrightarrow> m = Done x \<Longrightarrow> P x"
  by (simp add: ensures_def)

section \<open>The first matching slot of a table\<close>

text \<open>The loop \<^verbatim>\<open>for (i = 0; i < N; i++) if (P(a[i])) break;\<close> and its index.\<close>

fun first_index :: "('a \<Rightarrow> bool) \<Rightarrow> 'a list \<Rightarrow> nat option" where
  "first_index P [] = None"
| "first_index P (x # xs) = (if P x then Some 0 else map_option Suc (first_index P xs))"

lemma first_index_None [simp]: "first_index P xs = None \<longleftrightarrow> (\<forall>x\<in>set xs. \<not> P x)"
  by (induction xs) auto

lemma first_index_Some:
  "first_index P xs = Some i \<longleftrightarrow> i < length xs \<and> P (xs ! i) \<and> (\<forall>j<i. \<not> P (xs ! j))"
proof (induction xs arbitrary: i)
  case (Cons x xs)
  show ?case
  proof (cases i)
    case (Suc k)
    then show ?thesis using Cons by (auto simp: less_Suc_eq_0_disj)
  qed auto
qed simp

lemma first_indexD:
  "first_index P xs = Some i \<Longrightarrow> i < length xs" "first_index P xs = Some i \<Longrightarrow> P (xs ! i)"
  by (simp_all add: first_index_Some)

lemma first_index_ex: "i < length xs \<Longrightarrow> P (xs ! i) \<Longrightarrow> \<exists>j. first_index P xs = Some j"
  by (cases "first_index P xs") auto

section \<open>Byte buffers\<close>

type_synonym byte = "8 word"

text \<open>\<open>blit off src dst\<close> is \<^verbatim>\<open>memcpy(dst + off, src, len)\<close> with \<^verbatim>\<open>len\<close> the length
  of \<open>src\<close>.\<close>

definition blit :: "nat \<Rightarrow> 'a list \<Rightarrow> 'a list \<Rightarrow> 'a list" where
  "blit off src dst = take off dst @ src @ drop (off + length src) dst"

lemma length_blit [simp]: "off + length src \<le> length dst \<Longrightarrow> length (blit off src dst) = length dst"
  by (simp add: blit_def)

lemma blit_Nil [simp]: "blit off [] dst = dst"
  by (simp add: blit_def)

lemma nth_blit:
  "off + length src \<le> length dst \<Longrightarrow> i < length dst \<Longrightarrow>
   blit off src dst ! i = (if off \<le> i \<and> i < off + length src then src ! (i - off) else dst ! i)"
  by (auto simp: blit_def nth_append)

lemma take_blit [simp]: "take (length src) (blit 0 src dst) = src"
  by (simp add: blit_def)

section \<open>Words below a power of two\<close>

lemma take_bit_word_less:
  fixes w :: "'a::len word"
  assumes "w < 2 ^ n" "n < LENGTH('a)"
  shows "take_bit n w = w"
proof -
  have "uint w < 2 ^ n" using assms word_2p_lem [of n w] by (simp add: word_size)
  then show ?thesis by (simp add: take_bit_eq_mask mask_eq_iff)
qed

lemma unat_mod_less: "unat (a mod b) = unat a mod unat b"
  by (simp add: unat_mod_distrib)

section \<open>Circular arrays\<close>

text \<open>The \<open>n\<close> elements of a circular array that start at position \<open>p\<close>.\<close>

definition ring_contents :: "'a list \<Rightarrow> nat \<Rightarrow> nat \<Rightarrow> 'a list" where
  "ring_contents buf p n = map (\<lambda>i. buf ! ((p + i) mod length buf)) [0..<n]"

lemma ring_contents_0 [simp]: "ring_contents buf p 0 = []"
  by (simp add: ring_contents_def)

lemma length_ring_contents [simp]: "length (ring_contents buf p n) = n"
  by (simp add: ring_contents_def)

lemma ring_contents_mod [simp]: "ring_contents buf (p mod length buf) n = ring_contents buf p n"
  by (simp add: ring_contents_def mod_add_left_eq)

lemma ring_contents_add:
  "ring_contents buf p (m + n) = ring_contents buf p m @ ring_contents buf (p + m) n"
  by (rule nth_equalityI) (auto simp: ring_contents_def nth_append add.assoc)

lemma ring_contents_Suc:
  "ring_contents buf p (Suc n) = buf ! (p mod length buf) # ring_contents buf (Suc p) n"
  using ring_contents_add [of buf p 1 n] by (simp add: ring_contents_def)

lemma mod_eq_less_diff:
  fixes p i j k :: nat
  assumes "(p + i) mod k = (p + j) mod k" "i < k" "j < k"
  shows "i = j"
proof -
  have "int k dvd int i - int j"
    using arg_cong [OF assms(1), of int] by (simp add: zmod_int mod_eq_dvd_iff)
  then show ?thesis using assms(2,3) zdvd_imp_le [of "int k" "\<bar>int i - int j\<bar>"] by force
qed

lemma ring_contents_update_other:
  assumes "n \<le> m" "m < length buf"
  shows "ring_contents (buf[(p + m) mod length buf := x]) p n = ring_contents buf p n"
proof -
  have "(p + m) mod length buf \<noteq> (p + i) mod length buf" if "i < n" for i
    using mod_eq_less_diff [of p m "length buf" i] assms that by auto
  then show ?thesis by (simp add: ring_contents_def)
qed

lemma ring_contents_snoc:
  assumes "n < length buf"
  shows "ring_contents (buf[(p + n) mod length buf := x]) p (Suc n) = ring_contents buf p n @ [x]"
proof -
  have "ring_contents (buf[(p + n) mod length buf := x]) p (Suc n) =
      ring_contents (buf[(p + n) mod length buf := x]) p n @
      ring_contents (buf[(p + n) mod length buf := x]) (p + n) 1"
    using ring_contents_add [of _ p n 1] by simp
  moreover have "(p + n) mod length buf < length buf"
    using assms by (intro mod_less_divisor) linarith
  ultimately show ?thesis
    using ring_contents_update_other [OF order.refl assms, of p x] by (simp add: ring_contents_def)
qed

section \<open>Circular arrays of 64 entries with counters\<close>

text \<open>Two 64-bit counters that only grow index an array of 64 entries modulo 64: \<open>cring_inv k\<close> says
  that they are in order, at most 64 apart and good for \<open>k\<close> more insertions.\<close>

definition cring_inv :: "nat \<Rightarrow> 'a list \<Rightarrow> 64 word \<Rightarrow> 64 word \<Rightarrow> bool" where
  "cring_inv k buf q p \<longleftrightarrow> length buf = 64 \<and> unat p \<le> unat q \<and> unat q - unat p \<le> 64 \<and>
     unat q + k < 2 ^ 64"

definition cring :: "'a list \<Rightarrow> 64 word \<Rightarrow> 64 word \<Rightarrow> 'a list" where
  "cring buf q p = ring_contents buf (unat p) (unat q - unat p)"

lemma length_cring: "length (cring buf q p) = unat q - unat p"
  by (simp add: cring_def)

lemma cring_mono: "cring_inv k buf q p \<Longrightarrow> j \<le> k \<Longrightarrow> cring_inv j buf q p"
  by (simp add: cring_inv_def)

lemma cring_count:
  assumes "cring_inv k buf q p"
  shows "unat (q - p) = length (cring buf q p)" "q - p \<ge> 64 \<longleftrightarrow> length (cring buf q p) \<ge> 64"
    "q = p \<longleftrightarrow> cring buf q p = []" "length (cring buf q p) \<le> 64"
proof -
  have le: "p \<le> q" using assms by (simp add: cring_inv_def word_le_nat_alt)
  then show u: "unat (q - p) = length (cring buf q p)" by (simp add: length_cring unat_sub)
  then show "q - p \<ge> 64 \<longleftrightarrow> length (cring buf q p) \<ge> 64" by (simp add: word_le_nat_alt)
  show "q = p \<longleftrightarrow> cring buf q p = []"
    using u by (metis eq_iff_diff_eq_0 length_0_conv unat_eq_zero)
  show "length (cring buf q p) \<le> 64" using assms by (simp add: length_cring cring_inv_def)
qed

lemma unat_Suc_word: "unat (q :: 64 word) + Suc k < 2 ^ 64 \<Longrightarrow> unat (q + 1) = Suc (unat q)"
  by (simp add: unat_word_ariths)

lemma cring_put:
  assumes "cring_inv (Suc k) buf q p" "length (cring buf q p) < 64"
  shows "cring_inv k (buf[unat (q mod 64) := x]) (q + 1) p"
    "cring (buf[unat (q mod 64) := x]) (q + 1) p = cring buf q p @ [x]"
proof -
  define n where "n = unat q - unat p"
  have i: "length buf = 64" "unat p \<le> unat q" "unat q + Suc k < 2 ^ 64" "n < 64" "unat q = unat p + n"
    using assms by (simp_all add: cring_inv_def length_cring n_def)
  show "cring_inv k (buf[unat (q mod 64) := x]) (q + 1) p"
    using i unat_Suc_word [OF i(3)] by (simp add: cring_inv_def)
  have "cring (buf[unat (q mod 64) := x]) (q + 1) p =
      ring_contents (buf[(unat p + n) mod length buf := x]) (unat p) (Suc n)"
    using i unat_Suc_word [OF i(3)] by (simp add: cring_def unat_mod_less Suc_diff_le)
  also have "\<dots> = ring_contents buf (unat p) n @ [x]" using i by (intro ring_contents_snoc) simp
  finally show "cring (buf[unat (q mod 64) := x]) (q + 1) p = cring buf q p @ [x]"
    by (simp add: cring_def n_def)
qed

lemma cring_get:
  assumes "cring_inv k buf q p" "cring buf q p = x # xs"
  shows "buf ! unat (p mod 64) = x" "cring_inv k buf q (p + 1)" "cring buf q (p + 1) = xs"
proof -
  define n where "n = unat q - unat p"
  have i: "length buf = 64" "unat p \<le> unat q" "unat q < 2 ^ 64" "unat q = unat p + n"
    using assms(1) by (simp_all add: cring_inv_def n_def)
  obtain m where m: "n = Suc m"
    using arg_cong [OF assms(2), of length] by (auto simp: length_cring n_def)
  have suc: "unat (p + 1) = Suc (unat p)" using i m by (simp add: unat_word_ariths)
  have c: "cring buf q p = buf ! (unat p mod 64) # ring_contents buf (Suc (unat p)) m"
    using i m by (simp add: cring_def n_def [symmetric] ring_contents_Suc)
  show "buf ! unat (p mod 64) = x" using c assms(2) by (simp add: unat_mod_less)
  show "cring_inv k buf q (p + 1)" using assms(1) m suc by (auto simp: cring_inv_def n_def)
  show "cring buf q (p + 1) = xs" using c assms(2) m i suc by (simp add: cring_def)
qed

text \<open>Dropping the first \<open>j\<close> entries.\<close>

lemma cring_drop:
  assumes "cring_inv k buf q p" "j \<le> length (cring buf q p)"
  shows "cring_inv k buf q (p + of_nat j)" "cring buf q (p + of_nat j) = drop j (cring buf q p)"
proof -
  have j: "j \<le> unat q - unat p" "unat p \<le> unat q" "unat q < 2 ^ 64"
    using assms by (simp_all add: length_cring cring_inv_def)
  have "unat (of_nat j :: 64 word) = j" using j by (simp add: unat_of_nat)
  then have u: "unat (p + of_nat j) = unat p + j" using j by (subst unat_add_lem [THEN iffD1]) auto
  show "cring_inv k buf q (p + of_nat j)" using assms(1) u j by (auto simp: cring_inv_def)
  have "ring_contents buf (unat p) (unat q - unat p) =
      ring_contents buf (unat p) j @ ring_contents buf (unat p + j) (unat q - unat p - j)"
    using ring_contents_add [of buf "unat p" j "unat q - unat p - j"] j by simp
  then show "cring buf q (p + of_nat j) = drop j (cring buf q p)" using u by (simp add: cring_def)
qed

lemma nth_cring: "i < unat q - unat p \<Longrightarrow> cring buf q p ! i = buf ! ((unat p + i) mod length buf)"
  by (simp add: cring_def ring_contents_def)

section \<open>The interface of a bounded queue\<close>

text \<open>
  A client of a queue sees two operations: \<open>enq\<close> answers whether the element was taken, \<open>deq\<close>
  the oldest element or nothing.  \<open>inv k q\<close> says that the queue is well formed and good for
  \<open>k\<close> more insertions (a queue that counts its insertions in a machine word is not good for
  arbitrarily many).  \<open>run_queue\<close> executes a sequence of such calls and collects what was
  accepted and what was handed out.
\<close>

datatype 'a queue_op = Enq 'a | Deq

fun run_queue ::
  "('a \<Rightarrow> 'q \<Rightarrow> (bool \<times> 'q) outcome) \<Rightarrow> ('q \<Rightarrow> ('a option \<times> 'q) outcome) \<Rightarrow> 'a queue_op list \<Rightarrow> 'q \<Rightarrow>
   ('a list \<times> 'a list \<times> 'q) outcome" where
  "run_queue enq deq [] q = Done ([], [], q)"
| "run_queue enq deq (Enq x # ops) q = bindO (enq x q) (\<lambda>(ok, q').
     bindO (run_queue enq deq ops q') (\<lambda>(acc, del, q'').
       Done ((if ok then x # acc else acc), del, q'')))"
| "run_queue enq deq (Deq # ops) q = bindO (deq q) (\<lambda>(y, q').
     bindO (run_queue enq deq ops q') (\<lambda>(acc, del, q'').
       Done (acc, (case y of None \<Rightarrow> del | Some x \<Rightarrow> x # del), q'')))"

fun num_enqs :: "'a queue_op list \<Rightarrow> nat" where
  "num_enqs [] = 0"
| "num_enqs (Enq x # ops) = Suc (num_enqs ops)"
| "num_enqs (Deq # ops) = num_enqs ops"

locale bounded_queue =
  fixes inv :: "nat \<Rightarrow> 'q \<Rightarrow> bool"
    and contents :: "'q \<Rightarrow> 'a list"
    and cap :: nat
    and enq :: "'a \<Rightarrow> 'q \<Rightarrow> (bool \<times> 'q) outcome"
    and deq :: "'q \<Rightarrow> ('a option \<times> 'q) outcome"
  assumes inv_cap: "inv k q \<Longrightarrow> length (contents q) \<le> cap"
    and enq_room: "inv (Suc k) q \<Longrightarrow> length (contents q) < cap \<Longrightarrow>
      \<exists>q'. enq x q = Done (True, q') \<and> inv k q' \<and> contents q' = contents q @ [x]"
    and enq_full: "inv k q \<Longrightarrow> length (contents q) = cap \<Longrightarrow> enq x q = Done (False, q)"
    and deq_empty: "inv k q \<Longrightarrow> contents q = [] \<Longrightarrow> deq q = Done (None, q)"
    and deq_first: "inv k q \<Longrightarrow> contents q = x # xs \<Longrightarrow>
      \<exists>q'. deq q = Done (Some x, q') \<and> inv k q' \<and> contents q' = xs"
    and inv_weaken: "inv (Suc k) q \<Longrightarrow> inv k q"
begin

lemma enq_spec:
  assumes "inv (Suc k) q"
  shows "\<exists>ok q'. enq x q = Done (ok, q') \<and> inv k q' \<and> ok = (length (contents q) < cap) \<and>
    contents q' = contents q @ (if ok then [x] else [])"
proof (cases "length (contents q) < cap")
  case True
  then show ?thesis using enq_room [OF assms True] by auto
next
  case False
  then have "length (contents q) = cap" using inv_cap [OF assms] by simp
  then show ?thesis using enq_full [OF assms] inv_weaken [OF assms] by auto
qed

lemma deq_spec:
  assumes "inv k q"
  shows "\<exists>q'. deq q = Done ((case contents q of [] \<Rightarrow> None | x # _ \<Rightarrow> Some x), q') \<and> inv k q' \<and>
    contents q' = tl (contents q)"
proof (cases "contents q")
  case Nil
  then show ?thesis using deq_empty [OF assms] assms by simp
next
  case (Cons x xs)
  then show ?thesis using deq_first [OF assms Cons] by simp
qed

text \<open>Nothing is lost, duplicated or reordered: what was in the queue followed by what was accepted
  is what was handed out followed by what is still there.\<close>

lemma run_fifo:
  "inv (num_enqs ops + k) q \<Longrightarrow>
   \<exists>acc del q'. run_queue enq deq ops q = Done (acc, del, q') \<and> inv k q' \<and>
     contents q @ acc = del @ contents q'"
proof (induction ops arbitrary: q)
  case Nil
  then show ?case by simp
next
  case (Cons op ops)
  show ?case
  proof (cases op)
    case (Enq x)
    then have "inv (Suc (num_enqs ops + k)) q" using Cons.prems by simp
    from enq_spec [OF this, of x] obtain ok q1 where
      1: "enq x q = Done (ok, q1)" "inv (num_enqs ops + k) q1"
         "contents q1 = contents q @ (if ok then [x] else [])" by blast
    from Cons.IH [OF 1(2)] obtain acc del q2 where
      2: "run_queue enq deq ops q1 = Done (acc, del, q2)" "inv k q2"
         "contents q1 @ acc = del @ contents q2" by blast
    show ?thesis using 1 2 Enq by (cases ok) auto
  next
    case Deq
    then have "inv (num_enqs ops + k) q" using Cons.prems by simp
    from deq_spec [OF this] obtain q1 where
      1: "deq q = Done ((case contents q of [] \<Rightarrow> None | x # _ \<Rightarrow> Some x), q1)"
         "inv (num_enqs ops + k) q1" "contents q1 = tl (contents q)" by blast
    from Cons.IH [OF 1(2)] obtain acc del q2 where
      2: "run_queue enq deq ops q1 = Done (acc, del, q2)" "inv k q2"
         "contents q1 @ acc = del @ contents q2" by blast
    show ?thesis using 1 2 Deq by (cases "contents q") auto
  qed
qed

end

section \<open>The interface of a bounded byte stream\<close>

text \<open>
  A byte stream takes a whole block of bytes or refuses it, and hands out up to \<open>n\<close> of the
  oldest bytes.  \<open>run_stream\<close> executes a sequence of writes and reads.
\<close>

datatype stream_op = Wr "byte list" | Rd nat

fun run_stream ::
  "(byte list \<Rightarrow> 'b \<Rightarrow> bool \<times> 'b) \<Rightarrow> (nat \<Rightarrow> 'b \<Rightarrow> byte list \<times> 'b) \<Rightarrow> stream_op list \<Rightarrow> 'b \<Rightarrow>
   byte list \<times> byte list \<times> 'b" where
  "run_stream wr rd [] b = ([], [], b)"
| "run_stream wr rd (Wr d # ops) b = (let (ok, b') = wr d b; (w, r, b'') = run_stream wr rd ops b'
     in ((if ok then d @ w else w), r, b''))"
| "run_stream wr rd (Rd n # ops) b = (let (d, b') = rd n b; (w, r, b'') = run_stream wr rd ops b'
     in (w, d @ r, b''))"

locale byte_stream =
  fixes inv :: "'b \<Rightarrow> bool"
    and bytes :: "'b \<Rightarrow> byte list"
    and cap :: nat
    and wr :: "byte list \<Rightarrow> 'b \<Rightarrow> bool \<times> 'b"
    and rd :: "nat \<Rightarrow> 'b \<Rightarrow> byte list \<times> 'b"
  assumes inv_cap: "inv b \<Longrightarrow> length (bytes b) \<le> cap"
    and wr_fits: "inv b \<Longrightarrow> length (bytes b) + length d \<le> cap \<Longrightarrow>
      \<exists>b'. wr d b = (True, b') \<and> inv b' \<and> bytes b' = bytes b @ d"
    and wr_refused: "inv b \<Longrightarrow> \<not> length (bytes b) + length d \<le> cap \<Longrightarrow> wr d b = (False, b)"
    and rd_prefix: "inv b \<Longrightarrow>
      \<exists>b'. rd n b = (take n (bytes b), b') \<and> inv b' \<and> bytes b' = drop n (bytes b)"
begin

lemma wr_spec:
  assumes "inv b"
  shows "\<exists>ok b'. wr d b = (ok, b') \<and> inv b' \<and> ok = (length (bytes b) + length d \<le> cap) \<and>
    bytes b' = bytes b @ (if ok then d else [])"
  using wr_fits [OF assms, of d] wr_refused [OF assms, of d] assms by fastforce

lemma run_in_order:
  "inv b \<Longrightarrow> \<exists>w r b'. run_stream wr rd ops b = (w, r, b') \<and> inv b' \<and> bytes b @ w = r @ bytes b'"
proof (induction ops arbitrary: b)
  case Nil
  then show ?case by simp
next
  case (Cons op ops)
  show ?case
  proof (cases op)
    case (Wr d)
    from wr_spec [OF Cons.prems, of d] obtain ok b1 where
      1: "wr d b = (ok, b1)" "inv b1" "bytes b1 = bytes b @ (if ok then d else [])" by blast
    from Cons.IH [OF 1(2)] obtain w r b2 where
      2: "run_stream wr rd ops b1 = (w, r, b2)" "inv b2" "bytes b1 @ w = r @ bytes b2" by blast
    show ?thesis using 1 2 Wr by (cases ok) auto
  next
    case (Rd n)
    from rd_prefix [OF Cons.prems, of n] obtain b1 where
      1: "rd n b = (take n (bytes b), b1)" "inv b1" "bytes b1 = drop n (bytes b)" by blast
    from Cons.IH [OF 1(2)] obtain w r b2 where
      2: "run_stream wr rd ops b1 = (w, r, b2)" "inv b2" "bytes b1 @ w = r @ bytes b2" by blast
    have "bytes b @ w = take n (bytes b) @ bytes b1 @ w"
      using 1(3) by (metis append_assoc append_take_drop_id)
    then show ?thesis using 1(1) 2 Rd by simp
  qed
qed

end

end
