(* ===== verification/BaseTypes.thy ===== *)
theory BaseTypes
  imports Prelude
begin

text \<open>
  The types of the public headers (\<^verbatim>\<open>src/Include/IOC\<close>): result codes and their names, link
  and sub states, link usages, the call options, and the composition of event and command
  identifiers.
\<close>

type_synonym ULONG = "64 word"

abbreviation (input) ULONG_MAX :: ULONG where "ULONG_MAX \<equiv> - 1"

section \<open>Result codes\<close>

text \<open>
  One constructor per distinct numeric value of \<^verbatim>\<open>IOC_Result_T\<close>; the other enumerators are
  aliases (\<^verbatim>\<open>errno\<close> values of Linux).
\<close>

datatype IOC_Result_T =
    IOC_RESULT_SUCCESS
  | IOC_RESULT_FAILURE
  | IOC_RESULT_POSIX_ENOMEM
  | IOC_RESULT_POSIX_EINVAL
  | IOC_RESULT_POSIX_EAGAIN
  | IOC_RESULT_NOT_IMPLEMENTED
  | IOC_RESULT_NOT_SUPPORT
  | IOC_RESULT_NO_EVENT_CONSUMER
  | IOC_RESULT_TOO_MANY
  | IOC_RESULT_CONFLICT
  | IOC_RESULT_NOT_EXIST
  | IOC_RESULT_TIMEOUT
  | IOC_RESULT_BUSY
  | IOC_RESULT_LINK_BROKEN
  | IOC_RESULT_CMD_EXEC_FAILED
  | IOC_RESULT_NO_CMD_EXECUTOR
  | IOC_RESULT_BUFFER_FULL
  | IOC_RESULT_BUFFER_TOO_SMALL
  | IOC_RESULT_DATA_TOO_LARGE
  | IOC_RESULT_NO_DATA
  | IOC_RESULT_NOT_EXIST_STREAM
  | IOC_RESULT_ACK_CMD_FAILED
  | IOC_RESULT_INCOMPATIBLE_USAGE
  | IOC_RESULT_EVTDESC_QUEUE_EMPTY
  | IOC_RESULT_TOO_LONG_EMPTYING_EVTDESC_QUEUE
  | IOC_RESULT_INVALID_AUTO_LINK_ID
  | IOC_RESULT_NOT_SUPPORT_MANUAL_ACCEPT
  | IOC_RESULT_BUG
  | IOC_RESULT_FORBIDDEN

primrec result_code :: "IOC_Result_T \<Rightarrow> int" where
  "result_code IOC_RESULT_SUCCESS = 0"
| "result_code IOC_RESULT_FAILURE = - 1"
| "result_code IOC_RESULT_POSIX_ENOMEM = - 12"
| "result_code IOC_RESULT_POSIX_EINVAL = - 22"
| "result_code IOC_RESULT_POSIX_EAGAIN = - 11"
| "result_code IOC_RESULT_NOT_IMPLEMENTED = - 500"
| "result_code IOC_RESULT_NOT_SUPPORT = - 501"
| "result_code IOC_RESULT_NO_EVENT_CONSUMER = - 502"
| "result_code IOC_RESULT_TOO_MANY = - 503"
| "result_code IOC_RESULT_CONFLICT = - 504"
| "result_code IOC_RESULT_NOT_EXIST = - 505"
| "result_code IOC_RESULT_TIMEOUT = - 506"
| "result_code IOC_RESULT_BUSY = - 507"
| "result_code IOC_RESULT_LINK_BROKEN = - 508"
| "result_code IOC_RESULT_CMD_EXEC_FAILED = - 509"
| "result_code IOC_RESULT_NO_CMD_EXECUTOR = - 510"
| "result_code IOC_RESULT_BUFFER_FULL = - 511"
| "result_code IOC_RESULT_BUFFER_TOO_SMALL = - 512"
| "result_code IOC_RESULT_DATA_TOO_LARGE = - 515"
| "result_code IOC_RESULT_NO_DATA = - 516"
| "result_code IOC_RESULT_NOT_EXIST_STREAM = - 517"
| "result_code IOC_RESULT_ACK_CMD_FAILED = - 518"
| "result_code IOC_RESULT_INCOMPATIBLE_USAGE = - 519"
| "result_code IOC_RESULT_EVTDESC_QUEUE_EMPTY = - 520"
| "result_code IOC_RESULT_TOO_LONG_EMPTYING_EVTDESC_QUEUE = - 521"
| "result_code IOC_RESULT_INVALID_AUTO_LINK_ID = - 522"
| "result_code IOC_RESULT_NOT_SUPPORT_MANUAL_ACCEPT = - 523"
| "result_code IOC_RESULT_BUG = - 999"
| "result_code IOC_RESULT_FORBIDDEN = - 1000"

abbreviation "IOC_RESULT_POSIX_EPERM \<equiv> IOC_RESULT_FAILURE"
abbreviation "IOC_RESULT_INVALID_PARAM \<equiv> IOC_RESULT_POSIX_EINVAL"
abbreviation "IOC_RESULT_TOO_MANY_EVENT_CONSUMER \<equiv> IOC_RESULT_TOO_MANY"
abbreviation "IOC_RESULT_TOO_MANY_QUEUING_EVTDESC \<equiv> IOC_RESULT_TOO_MANY"
abbreviation "IOC_RESULT_TOO_MANY_SERVICES \<equiv> IOC_RESULT_TOO_MANY"
abbreviation "IOC_RESULT_TOO_MANY_LINKS \<equiv> IOC_RESULT_TOO_MANY"
abbreviation "IOC_RESULT_TOO_MANY_CLIENTS \<equiv> IOC_RESULT_TOO_MANY"
abbreviation "IOC_RESULT_FULL_QUEUING_EVTDESC \<equiv> IOC_RESULT_TOO_MANY"
abbreviation "IOC_RESULT_CONFLICT_EVENT_CONSUMER \<equiv> IOC_RESULT_CONFLICT"
abbreviation "IOC_RESULT_CONFLICT_SRVARGS \<equiv> IOC_RESULT_CONFLICT"
abbreviation "IOC_RESULT_NOT_EXIST_LINK \<equiv> IOC_RESULT_NOT_EXIST"
abbreviation "IOC_RESULT_NOT_EXIST_SERVICE \<equiv> IOC_RESULT_NOT_EXIST"
abbreviation "IOC_RESULT_NO_EVENT_PENDING \<equiv> IOC_RESULT_NOT_EXIST"
abbreviation "IOC_RESULT_NO_CMD_PENDING \<equiv> IOC_RESULT_NOT_EXIST"
abbreviation "IOC_RESULT_ZERO_DATA \<equiv> IOC_RESULT_NO_DATA"
abbreviation "IOC_RESULT_NOT_EMPTY_EVTDESC_QUEUE \<equiv> IOC_RESULT_TOO_LONG_EMPTYING_EVTDESC_QUEUE"
abbreviation "IOC_RESULT_NOT_SUPPORT_BROADCAST_EVENT \<equiv> IOC_RESULT_NOT_SUPPORT"

lemma result_code_inj [simp]: "result_code a = result_code b \<longleftrightarrow> a = b"
  by (cases a; cases b) simp_all

text \<open>\<^verbatim>\<open>IOC_getResultStr\<close> switches over the numeric value.\<close>

definition IOC_getResultStr :: "int \<Rightarrow> string" where
  "IOC_getResultStr r = (
     if r = result_code IOC_RESULT_SUCCESS then ''IOC_RESULT_SUCCESS'' else
     if r = result_code IOC_RESULT_FAILURE then ''IOC_RESULT_FAILURE'' else
     if r = result_code IOC_RESULT_POSIX_ENOMEM then ''IOC_RESULT_POSIX_ENOMEM'' else
     if r = result_code IOC_RESULT_POSIX_EAGAIN then ''IOC_RESULT_POSIX_EAGAIN'' else
     if r = result_code IOC_RESULT_NOT_IMPLEMENTED then ''IOC_RESULT_NOT_IMPLEMENTED'' else
     if r = result_code IOC_RESULT_NOT_SUPPORT then ''IOC_RESULT_NOT_SUPPORT'' else
     if r = result_code IOC_RESULT_TOO_MANY then ''IOC_RESULT_TOO_MANY'' else
     if r = result_code IOC_RESULT_CONFLICT then ''IOC_RESULT_CONFLICT'' else
     if r = result_code IOC_RESULT_NOT_EXIST then ''IOC_RESULT_NOT_EXIST'' else
     if r = result_code IOC_RESULT_TIMEOUT then ''IOC_RESULT_TIMEOUT'' else
     if r = result_code IOC_RESULT_BUSY then ''IOC_RESULT_BUSY'' else
     if r = result_code IOC_RESULT_LINK_BROKEN then ''IOC_RESULT_LINK_BROKEN'' else
     if r = result_code IOC_RESULT_CMD_EXEC_FAILED then ''IOC_RESULT_CMD_EXEC_FAILED'' else
     if r = result_code IOC_RESULT_NO_CMD_EXECUTOR then ''IOC_RESULT_NO_CMD_EXECUTOR'' else
     if r = result_code IOC_RESULT_BUFFER_FULL then ''IOC_RESULT_BUFFER_FULL'' else
     if r = result_code IOC_RESULT_BUFFER_TOO_SMALL then ''IOC_RESULT_BUFFER_TOO_SMALL'' else
     if r = result_code IOC_RESULT_DATA_TOO_LARGE then ''IOC_RESULT_DATA_TOO_LARGE'' else
     if r = result_code IOC_RESULT_NO_DATA then ''IOC_RESULT_NO_DATA'' else
     if r = result_code IOC_RESULT_NOT_EXIST_STREAM then ''IOC_RESULT_NOT_EXIST_STREAM'' else
     if r = result_code IOC_RESULT_ACK_CMD_FAILED then ''IOC_RESULT_ACK_CMD_FAILED'' else
     if r = result_code IOC_RESULT_EVTDESC_QUEUE_EMPTY then ''IOC_RESULT_EVTDESC_QUEUE_EMPTY'' else
     if r = result_code IOC_RESULT_TOO_LONG_EMPTYING_EVTDESC_QUEUE then ''IOC_RESULT_TOO_LONG_EMPTYING_EVTDESC_QUEUE'' else
     if r = result_code IOC_RESULT_INVALID_AUTO_LINK_ID then ''IOC_RESULT_INVALID_AUTO_LINK_ID'' else
     if r = result_code IOC_RESULT_NO_EVENT_CONSUMER then ''IOC_RESULT_NO_EVENT_CONSUMER'' else
     if r = result_code IOC_RESULT_INVALID_PARAM then ''IOC_RESULT_INVALID_PARAM'' else
     if r = result_code IOC_RESULT_BUG then ''IOC_RESULT_BUG'' else
     ''IOC_RESULT_UNKNOWN'')"

section \<open>States and usages of a link\<close>

datatype IOC_LinkConnState_T =
    IOC_LinkConnStateDisconnected
  | IOC_LinkConnStateConnecting
  | IOC_LinkConnStateConnected
  | IOC_LinkConnStateDisconnecting
  | IOC_LinkConnStateBroken

datatype IOC_LinkState_T =
    IOC_LinkStateUndefined
  | IOC_LinkStateReady
  | IOC_LinkStateBusyCbProcEvt
  | IOC_LinkStateBusySubEvt
  | IOC_LinkStateBusyUnsubEvt

datatype IOC_LinkSubState_T =
    IOC_LinkSubStateDefault
  | IOC_LinkSubStateDatSenderReady
  | IOC_LinkSubStateDatSenderBusySendDat
  | IOC_LinkSubStateDatReceiverReady
  | IOC_LinkSubStateDatReceiverBusyRecvDat
  | IOC_LinkSubStateDatReceiverBusyCbRecvDat
  | IOC_LinkSubStateCmdInitiatorReady
  | IOC_LinkSubStateCmdInitiatorBusyExecCmd
  | IOC_LinkSubStateCmdExecutorReady
  | IOC_LinkSubStateCmdExecutorBusyExecCmd
  | IOC_LinkSubStateCmdExecutorBusyWaitCmd

text \<open>Usages are bits of a 32-bit mask (an enumeration in C).\<close>

type_synonym usage = "32 word"

definition IOC_LinkUsageUndefined :: usage where "IOC_LinkUsageUndefined = 0"
definition IOC_LinkUsageEvtProducer :: usage where "IOC_LinkUsageEvtProducer = 1"
definition IOC_LinkUsageEvtConsumer :: usage where "IOC_LinkUsageEvtConsumer = 2"
definition IOC_LinkUsageCmdInitiator :: usage where "IOC_LinkUsageCmdInitiator = 4"
definition IOC_LinkUsageCmdExecutor :: usage where "IOC_LinkUsageCmdExecutor = 8"
definition IOC_LinkUsageDatSender :: usage where "IOC_LinkUsageDatSender = 16"
definition IOC_LinkUsageDatReceiver :: usage where "IOC_LinkUsageDatReceiver = 32"
definition IOC_LinkUsageMask :: usage where
  "IOC_LinkUsageMask = IOC_LinkUsageEvtProducer OR IOC_LinkUsageEvtConsumer OR IOC_LinkUsageCmdInitiator OR
     IOC_LinkUsageCmdExecutor OR IOC_LinkUsageDatSender OR IOC_LinkUsageDatReceiver"

lemmas usage_defs = IOC_LinkUsageUndefined_def IOC_LinkUsageEvtProducer_def
  IOC_LinkUsageEvtConsumer_def IOC_LinkUsageCmdInitiator_def IOC_LinkUsageCmdExecutor_def
  IOC_LinkUsageDatSender_def IOC_LinkUsageDatReceiver_def

text \<open>\<^verbatim>\<open>(mask & usage)\<close> used as a C condition.\<close>

definition has_usage :: "usage \<Rightarrow> usage \<Rightarrow> bool" where
  "has_usage m u \<longleftrightarrow> m AND u \<noteq> 0"

section \<open>Call options\<close>

text \<open>\<^verbatim>\<open>IOC_Options_T\<close>: a mask of option identifiers and the timeout (the payload union).  A
  pointer to options is an \<open>option\<close>, \<^verbatim>\<open>NULL\<close> being \<open>None\<close>.\<close>

record IOC_Options_T =
  IDs :: "32 word"
  TimeoutUS :: ULONG

definition IOC_OPTID_TIMEOUT :: "32 word" where "IOC_OPTID_TIMEOUT = 1"
definition IOC_OPTID_SYNC_MODE :: "32 word" where "IOC_OPTID_SYNC_MODE = 2"

abbreviation (input) IOC_TIMEOUT_INFINITE :: ULONG where "IOC_TIMEOUT_INFINITE \<equiv> ULONG_MAX"
abbreviation (input) IOC_TIMEOUT_NONBLOCK :: ULONG where "IOC_TIMEOUT_NONBLOCK \<equiv> 0"
abbreviation (input) IOC_TIMEOUT_IMMEDIATE :: ULONG where "IOC_TIMEOUT_IMMEDIATE \<equiv> 1000"

text \<open>The value for a build with unit testing, which is the default of the build files.\<close>

abbreviation (input) IOC_TIMEOUT_MAX :: ULONG where "IOC_TIMEOUT_MAX \<equiv> 9000000"

definition IOC_Option_isAsyncMode :: "IOC_Options_T option \<Rightarrow> bool" where
  "IOC_Option_isAsyncMode o' = (case o' of None \<Rightarrow> True
     | Some op \<Rightarrow> if IDs op AND IOC_OPTID_SYNC_MODE \<noteq> 0 then False else True)"

definition IOC_Option_isSyncMode :: "IOC_Options_T option \<Rightarrow> bool" where
  "IOC_Option_isSyncMode o' = (\<not> IOC_Option_isAsyncMode o')"

definition IOC_Option_isNonBlockMode :: "IOC_Options_T option \<Rightarrow> bool" where
  "IOC_Option_isNonBlockMode o' = (case o' of None \<Rightarrow> False
     | Some op \<Rightarrow> if IDs op AND IOC_OPTID_TIMEOUT \<noteq> 0 then TimeoutUS op = IOC_TIMEOUT_NONBLOCK
                 else False)"

definition IOC_Option_getTimeoutUS :: "IOC_Options_T option \<Rightarrow> ULONG" where
  "IOC_Option_getTimeoutUS o' = (case o' of None \<Rightarrow> IOC_TIMEOUT_INFINITE
     | Some op \<Rightarrow> if IDs op AND IOC_OPTID_TIMEOUT \<noteq> 0 then TimeoutUS op
                 else IOC_TIMEOUT_INFINITE)"

definition IOC_Option_isTimeoutMode :: "IOC_Options_T option \<Rightarrow> bool" where
  "IOC_Option_isTimeoutMode o' = (let t = IOC_Option_getTimeoutUS o'
     in if 0 < t \<and> t < IOC_TIMEOUT_MAX then True else False)"

definition IOC_Option_isMayBlockMode :: "IOC_Options_T option \<Rightarrow> bool" where
  "IOC_Option_isMayBlockMode o' =
     (let nb = IOC_Option_isNonBlockMode o'; tm = IOC_Option_isTimeoutMode o'
      in if \<not> nb \<and> \<not> tm then True else False)"

lemmas option_mode_defs = IOC_Option_isAsyncMode_def IOC_Option_isSyncMode_def
  IOC_Option_isNonBlockMode_def IOC_Option_getTimeoutUS_def IOC_Option_isTimeoutMode_def
  IOC_Option_isMayBlockMode_def

text \<open>The constructors of the options (macros of \<^verbatim>\<open>IOC_Option.h\<close>).\<close>

definition opt_NonBlock :: IOC_Options_T where
  "opt_NonBlock = \<lparr>IDs = IOC_OPTID_TIMEOUT, TimeoutUS = IOC_TIMEOUT_NONBLOCK\<rparr>"
definition opt_Timeout :: "ULONG \<Rightarrow> IOC_Options_T" where
  "opt_Timeout us = \<lparr>IDs = IOC_OPTID_TIMEOUT, TimeoutUS = us\<rparr>"
definition opt_ASyncMayBlock :: IOC_Options_T where
  "opt_ASyncMayBlock = \<lparr>IDs = 0, TimeoutUS = 0\<rparr>"
definition opt_SyncNonBlock :: IOC_Options_T where
  "opt_SyncNonBlock = \<lparr>IDs = IOC_OPTID_SYNC_MODE OR IOC_OPTID_TIMEOUT,
     TimeoutUS = IOC_TIMEOUT_NONBLOCK\<rparr>"
definition opt_SyncTimeout :: "ULONG \<Rightarrow> IOC_Options_T" where
  "opt_SyncTimeout us = \<lparr>IDs = IOC_OPTID_SYNC_MODE OR IOC_OPTID_TIMEOUT, TimeoutUS = us\<rparr>"
definition opt_SyncMayBlock :: IOC_Options_T where
  "opt_SyncMayBlock = \<lparr>IDs = IOC_OPTID_SYNC_MODE, TimeoutUS = 0\<rparr>"

section \<open>Event and command identifiers\<close>

definition IOC_defineEvtID :: "ULONG \<Rightarrow> ULONG \<Rightarrow> ULONG" where
  "IOC_defineEvtID cls name = cls OR push_bit 16 name"
definition IOC_getEvtClassID :: "ULONG \<Rightarrow> ULONG" where
  "IOC_getEvtClassID ev = ev AND 0xFFFF"
definition IOC_getEvtNameID :: "ULONG \<Rightarrow> ULONG" where
  "IOC_getEvtNameID ev = drop_bit 16 ev"

definition IOC_EVT_CLASS_TEST :: ULONG where "IOC_EVT_CLASS_TEST = 1"

definition IOC_getEvtClassStr :: "ULONG \<Rightarrow> string" where
  "IOC_getEvtClassStr ev =
     (if IOC_getEvtClassID ev = IOC_EVT_CLASS_TEST then ''TEST'' else ''UNKNOWN'')"

definition IOC_getTestClassEvtNameStr :: "64 word \<Rightarrow> string" where
  "IOC_getTestClassEvtNameStr n = (
     if n = push_bit 0 1 then ''KEEPALIVE'' else
     if n = push_bit 1 1 then ''KEEPALIVE_RELAY'' else
     if n = push_bit 2 1 then ''HELLO_FROM_ODD_TO_EVEN'' else
     if n = push_bit 3 1 then ''HELLO_FROM_EVEN_TO_ODD'' else
     if n = push_bit 4 1 then ''SLEEP_9MS'' else
     if n = push_bit 5 1 then ''SLEEP_99MS'' else
     if n = push_bit 6 1 then ''SLEEP_999MS'' else
     if n = push_bit 7 1 then ''SLEEP_9US'' else
     if n = push_bit 8 1 then ''SLEEP_99US'' else
     if n = push_bit 9 1 then ''SLEEP_999US'' else
     if n = push_bit 10 1 then ''MOVE_STARTED'' else
     if n = push_bit 11 1 then ''MOVE_KEEPING'' else
     if n = push_bit 12 1 then ''MOVE_STOPPED'' else
     if n = push_bit 13 1 then ''PUSH_STARTED'' else
     if n = push_bit 14 1 then ''PUSH_KEEPING'' else
     if n = push_bit 15 1 then ''PUSH_STOPPED'' else
     if n = push_bit 16 1 then ''PULL_STARTED'' else
     if n = push_bit 17 1 then ''PULL_KEEPING'' else
     if n = push_bit 18 1 then ''PULL_STOPPED'' else
     ''UNKNOWN'')"

definition IOC_getEvtNameStr :: "ULONG \<Rightarrow> string" where
  "IOC_getEvtNameStr ev = (if IOC_getEvtClassID ev = IOC_EVT_CLASS_TEST
     then IOC_getTestClassEvtNameStr (IOC_getEvtNameID ev) else ''UNKNOWN'')"

definition IOC_defineCmdID :: "ULONG \<Rightarrow> ULONG \<Rightarrow> ULONG" where
  "IOC_defineCmdID cls name = cls OR push_bit 16 name"
definition IOC_getCmdClassID :: "ULONG \<Rightarrow> ULONG" where
  "IOC_getCmdClassID c = c AND 0xFFFF"
definition IOC_getCmdNameID :: "ULONG \<Rightarrow> ULONG" where
  "IOC_getCmdNameID c = drop_bit 16 c"

definition IOC_CMD_CLASS_TEST :: ULONG where "IOC_CMD_CLASS_TEST = 1"
definition IOC_CMD_CLASS_SYSTEM :: ULONG where "IOC_CMD_CLASS_SYSTEM = 2"
definition IOC_CMD_CLASS_DIAG :: ULONG where "IOC_CMD_CLASS_DIAG = 4"

definition IOC_getCmdClassStr :: "ULONG \<Rightarrow> string" where
  "IOC_getCmdClassStr c =
     (if IOC_getCmdClassID c = IOC_CMD_CLASS_TEST then ''TEST''
      else if IOC_getCmdClassID c = IOC_CMD_CLASS_SYSTEM then ''SYSTEM''
      else if IOC_getCmdClassID c = IOC_CMD_CLASS_DIAG then ''DIAG''
      else ''UNKNOWN'')"

definition IOC_getCmdNameStr :: "64 word \<Rightarrow> string" where
  "IOC_getCmdNameStr c = (let n = IOC_getCmdNameID c in
     if IOC_getCmdClassID c = IOC_CMD_CLASS_TEST then (
       if n = push_bit 0 1 then ''PING'' else
       if n = push_bit 1 1 then ''ECHO'' else
       if n = push_bit 2 1 then ''DELAY'' else
       if n = push_bit 3 1 then ''CALC'' else
       ''UNKNOWN_TEST'')
     else if IOC_getCmdClassID c = IOC_CMD_CLASS_SYSTEM then (
       if n = push_bit 0 1 then ''GET_VERSION'' else
       if n = push_bit 1 1 then ''GET_STATUS'' else
       if n = push_bit 2 1 then ''SHUTDOWN'' else
       if n = push_bit 3 1 then ''RESET'' else
       ''UNKNOWN_SYSTEM'')
     else if IOC_getCmdClassID c = IOC_CMD_CLASS_DIAG then (
       if n = push_bit 0 1 then ''GET_STATS'' else
       if n = push_bit 1 1 then ''DUMP_STATE'' else
       if n = push_bit 2 1 then ''TRACE_ENABLE'' else
       if n = push_bit 3 1 then ''TRACE_DISABLE'' else
       ''UNKNOWN_DIAG'')
     else ''UNKNOWN'')"

section \<open>Lemmas\<close>

lemma isNonBlockMode_timeout: "IOC_Option_isNonBlockMode o' \<longleftrightarrow> IOC_Option_getTimeoutUS o' = 0"
  by (auto simp: option_mode_defs split: option.splits)

lemma isMayBlockMode_timeout:
  "IOC_Option_isMayBlockMode o' \<longleftrightarrow> IOC_TIMEOUT_MAX \<le> IOC_Option_getTimeoutUS o'"
  unfolding IOC_Option_isMayBlockMode_def isNonBlockMode_timeout Let_def
    IOC_Option_isTimeoutMode_def
  by (auto simp: word_gt_0 not_less)

lemma isTimeoutMode_timeout:
  "IOC_Option_isTimeoutMode o' \<longleftrightarrow>
   IOC_Option_getTimeoutUS o' \<noteq> 0 \<and> IOC_Option_getTimeoutUS o' < IOC_TIMEOUT_MAX"
  by (simp add: IOC_Option_isTimeoutMode_def Let_def word_gt_0)

lemma option_modes_none [simp]:
  "IOC_Option_isAsyncMode None" "\<not> IOC_Option_isNonBlockMode None"
  "\<not> IOC_Option_isTimeoutMode None" "IOC_Option_isMayBlockMode None"
  "IOC_Option_getTimeoutUS None = IOC_TIMEOUT_INFINITE"
  by (simp_all add: option_mode_defs)

lemma define_id_class:
  fixes cls name :: ULONG
  assumes "cls < 2 ^ 16"
  shows "(cls OR push_bit 16 name) AND 0xFFFF = cls"
proof -
  have m: "(0xFFFF :: ULONG) = mask 16" by (simp add: mask_eq_exp_minus_1)
  have "cls AND mask 16 = cls"
    using assms by (simp flip: take_bit_eq_mask add: take_bit_word_less)
  moreover have "push_bit 16 name AND mask 16 = 0"
    by (rule bit_word_eqI) (auto simp: bit_simps)
  ultimately show ?thesis by (simp add: m bit.conj_disj_distrib2)
qed

lemma define_id_name:
  fixes cls name :: ULONG
  assumes "cls < 2 ^ 16" "name < 2 ^ 48"
  shows "drop_bit 16 (cls OR push_bit 16 name) = name"
proof -
  have c: "take_bit 16 cls = cls" and n: "take_bit 48 name = name"
    using assms by (simp_all add: take_bit_word_less)
  have "drop_bit 16 cls = 0"
    by (subst c [symmetric]) (simp add: drop_bit_take_bit)
  moreover have "drop_bit 16 (push_bit 16 name) = take_bit 48 name"
    by (rule bit_word_eqI) (auto simp: bit_simps)
  ultimately show ?thesis using n by simp
qed

lemma define_id_split:
  fixes ev :: ULONG
  shows "(ev AND 0xFFFF) OR push_bit 16 (drop_bit 16 ev) = ev"
proof -
  have m: "(0xFFFF :: ULONG) = mask 16" by (simp add: mask_eq_exp_minus_1)
  show ?thesis unfolding m
    by (rule bit_word_eqI, auto simp: bit_simps) (metis le_add_diff_inverse not_less)
qed

section \<open>Properties\<close>

text \<open>Every pointer to options, the null pointer included, is in exactly one of the three blocking
  modes, decided by its timeout: zero is non-blocking, below nine seconds a timed wait, and nine
  seconds or more blocks without limit.\<close>

theorem option_modes_partition:
  "IOC_Option_isNonBlockMode o' = (IOC_Option_getTimeoutUS o' = 0) \<and>
   IOC_Option_isTimeoutMode o' = (0 < IOC_Option_getTimeoutUS o' \<and> IOC_Option_getTimeoutUS o' < 9000000) \<and>
   IOC_Option_isMayBlockMode o' = (9000000 \<le> IOC_Option_getTimeoutUS o') \<and>
   IOC_Option_isSyncMode o' = (\<not> IOC_Option_isAsyncMode o')"
  by (auto simp: isNonBlockMode_timeout isTimeoutMode_timeout isMayBlockMode_timeout word_gt_0
      IOC_Option_isSyncMode_def)

text \<open>An event identifier composed from a class below \<open>2 ^ 16\<close> and a name below \<open>2 ^ 48\<close>
  decomposes into them, and every 64-bit identifier is composed of its class and its name.\<close>

theorem evt_id_roundtrip:
  assumes "cls < 2 ^ 16" "name < 2 ^ 48"
  shows "IOC_getEvtClassID (IOC_defineEvtID cls name) = cls \<and>
    IOC_getEvtNameID (IOC_defineEvtID cls name) = name \<and>
    IOC_defineEvtID (IOC_getEvtClassID ev) (IOC_getEvtNameID ev) = ev"
  using define_id_class [OF assms(1), of name] define_id_name [OF assms] define_id_split [of ev]
  by (simp add: IOC_getEvtClassID_def IOC_defineEvtID_def IOC_getEvtNameID_def)

theorem evt_id_roundtrip_witness:
  "IOC_getEvtNameID (IOC_defineEvtID 1 0x40000) = 0x40000"
  using evt_id_roundtrip [of 1 "0x40000" 0] by simp

text \<open>The printable names of result codes: a result of the library prints as unknown exactly when
  it is a forbidden call, an incompatible usage or an unsupported manual accept; all others have a
  name.\<close>

theorem result_names_unknown:
  "IOC_getResultStr (result_code r) = ''IOC_RESULT_UNKNOWN'' \<longleftrightarrow>
   r \<in> {IOC_RESULT_FORBIDDEN, IOC_RESULT_INCOMPATIBLE_USAGE, IOC_RESULT_NOT_SUPPORT_MANUAL_ACCEPT}"
  by (cases r) (simp_all add: IOC_getResultStr_def)

end
