(* ===== verification/EvtDescQueue.thy ===== *)
theory EvtDescQueue
  imports BaseTypes
begin

text \<open>
  \<^verbatim>\<open>src/Source/_IOC_EvtDescQueue.c\<close>: the circular queue of event descriptors, with its two
  64-bit counters that are only ever incremented.  It is an instance of the bounded queue
  interface for as long as the counters do not wrap.
\<close>

section \<open>Event descriptors\<close>

record timespec =
  tv_sec :: int
  tv_nsec :: int

record IOC_MsgDesc_T =
  SeqID :: ULONG
  TimeStamp :: timespec

record IOC_EvtDesc_T =
  MsgDesc :: IOC_MsgDesc_T
  EvtID :: ULONG
  EvtValue :: ULONG

text \<open>An element after \<^verbatim>\<open>memset(.., 0, ..)\<close>.\<close>

definition zero_msg :: IOC_MsgDesc_T where
  "zero_msg = \<lparr>SeqID = 0, TimeStamp = \<lparr>tv_sec = 0, tv_nsec = 0\<rparr>\<rparr>"

definition zero_evt :: IOC_EvtDesc_T where
  "zero_evt = \<lparr>MsgDesc = zero_msg, EvtID = 0, EvtValue = 0\<rparr>"

section \<open>The queue\<close>

definition CONLES_EVENT_MAX_QUEUING_EVTDESC :: ULONG where
  "CONLES_EVENT_MAX_QUEUING_EVTDESC = 64"

record IOC_EvtDescQueue_T =
  QueuedEvtNum :: ULONG
  ProcedEvtNum :: ULONG
  QueuedEvtDescs :: "IOC_EvtDesc_T list"

definition EvtDescQueue_initOne :: IOC_EvtDescQueue_T where
  "EvtDescQueue_initOne =
     \<lparr>QueuedEvtNum = 0, ProcedEvtNum = 0, QueuedEvtDescs = replicate 64 zero_evt\<rparr>"

definition EvtDescQueue_isEmpty :: "IOC_EvtDescQueue_T \<Rightarrow> bool" where
  "EvtDescQueue_isEmpty q \<longleftrightarrow> QueuedEvtNum q = ProcedEvtNum q"

text \<open>\<open>destroy_ok\<close>: \<^verbatim>\<open>pthread_mutex_destroy\<close> returned zero.\<close>

definition EvtDescQueue_deinitOne :: "bool \<Rightarrow> IOC_EvtDescQueue_T \<Rightarrow> unit outcome" where
  "EvtDescQueue_deinitOne destroy_ok q =
     log_assert (QueuedEvtNum q = ProcedEvtNum q) (
       if \<not> destroy_ok then Abort else Done ())"

definition EvtDescQueue_enqueueElementLast ::
  "IOC_EvtDescQueue_T \<Rightarrow> IOC_EvtDesc_T \<Rightarrow> (IOC_Result_T \<times> IOC_EvtDescQueue_T) outcome" where
  "EvtDescQueue_enqueueElementLast q e =
    (let queued = QueuedEvtNum q; proced = ProcedEvtNum q; queuing = queued - proced
     in log_assert (queuing \<ge> 0) (
        log_assert (queuing \<le> CONLES_EVENT_MAX_QUEUING_EVTDESC) (
        if queuing = CONLES_EVENT_MAX_QUEUING_EVTDESC
        then Done (IOC_RESULT_TOO_MANY_QUEUING_EVTDESC, q)
        else log_assert (QueuedEvtNum q \<ge> ProcedEvtNum q) (
          let pos = queued mod CONLES_EVENT_MAX_QUEUING_EVTDESC
          in Done (IOC_RESULT_SUCCESS,
               q\<lparr>QueuedEvtDescs := (QueuedEvtDescs q)[unat pos := e],
                 QueuedEvtNum := queued + 1\<rparr>)))))"

text \<open>The descriptor is written to the caller's variable on success only.\<close>

definition EvtDescQueue_dequeueElementFirst ::
  "IOC_EvtDescQueue_T \<Rightarrow> (IOC_Result_T \<times> IOC_EvtDesc_T option \<times> IOC_EvtDescQueue_T) outcome"
where
  "EvtDescQueue_dequeueElementFirst q =
    (let queued = QueuedEvtNum q; proced = ProcedEvtNum q; queuing = queued - proced
     in log_assert (queuing \<ge> 0) (
        log_assert (queuing \<le> CONLES_EVENT_MAX_QUEUING_EVTDESC) (
        if queuing = 0 then Done (IOC_RESULT_EVTDESC_QUEUE_EMPTY, None, q)
        else let pos = proced mod CONLES_EVENT_MAX_QUEUING_EVTDESC
          in Done (IOC_RESULT_SUCCESS, Some (QueuedEvtDescs q ! unat pos),
               q\<lparr>ProcedEvtNum := proced + 1\<rparr>))))"

section \<open>Invariant and contents\<close>

text \<open>\<open>evtq_inv k q\<close>: the counters are in order, at most 64 apart, and \<open>k\<close> more insertions keep
  the first below \<open>2 ^ 64\<close>.\<close>

definition evtq_inv :: "nat \<Rightarrow> IOC_EvtDescQueue_T \<Rightarrow> bool" where
  "evtq_inv k q \<longleftrightarrow> length (QueuedEvtDescs q) = 64 \<and>
     unat (ProcedEvtNum q) \<le> unat (QueuedEvtNum q) \<and>
     unat (QueuedEvtNum q) - unat (ProcedEvtNum q) \<le> 64 \<and>
     unat (QueuedEvtNum q) + k < 2 ^ 64"

definition evtq_contents :: "IOC_EvtDescQueue_T \<Rightarrow> IOC_EvtDesc_T list" where
  "evtq_contents q = ring_contents (QueuedEvtDescs q) (unat (ProcedEvtNum q))
     (unat (QueuedEvtNum q) - unat (ProcedEvtNum q))"

lemma evtq_inv_init [simp]: "k < 2 ^ 64 \<Longrightarrow> evtq_inv k EvtDescQueue_initOne"
  by (simp add: evtq_inv_def EvtDescQueue_initOne_def)

lemma evtq_contents_init [simp]: "evtq_contents EvtDescQueue_initOne = []"
  by (simp add: evtq_contents_def EvtDescQueue_initOne_def)

lemma evtq_inv_mono: "evtq_inv k q \<Longrightarrow> j \<le> k \<Longrightarrow> evtq_inv j q"
  by (simp add: evtq_inv_def)

lemma evtq_queuing:
  assumes "evtq_inv k q"
  shows "unat (QueuedEvtNum q - ProcedEvtNum q) = length (evtq_contents q)"
    and "QueuedEvtNum q - ProcedEvtNum q \<le> 64"
    and "QueuedEvtNum q - ProcedEvtNum q = 64 \<longleftrightarrow> length (evtq_contents q) = 64"
    and "QueuedEvtNum q = ProcedEvtNum q \<longleftrightarrow> evtq_contents q = []"
    and "ProcedEvtNum q \<le> QueuedEvtNum q"
proof -
  show le: "ProcedEvtNum q \<le> QueuedEvtNum q"
    using assms by (simp add: evtq_inv_def word_le_nat_alt)
  show u: "unat (QueuedEvtNum q - ProcedEvtNum q) = length (evtq_contents q)"
    using le by (simp add: evtq_contents_def unat_sub)
  show "QueuedEvtNum q - ProcedEvtNum q \<le> 64"
    using assms u by (simp add: word_le_nat_alt evtq_inv_def evtq_contents_def)
  show "QueuedEvtNum q - ProcedEvtNum q = 64 \<longleftrightarrow> length (evtq_contents q) = 64"
    unfolding word_unat_eq_iff u by simp
  show "QueuedEvtNum q = ProcedEvtNum q \<longleftrightarrow> evtq_contents q = []"
    using u by (metis eq_iff_diff_eq_0 length_0_conv unat_eq_zero)
qed

lemma evtq_inv_length: "evtq_inv k q \<Longrightarrow> length (evtq_contents q) \<le> 64"
  by (simp add: evtq_inv_def evtq_contents_def)

section \<open>What each operation does to the contents\<close>

lemma enqueue_room:
  assumes "evtq_inv (Suc k) q" "length (evtq_contents q) < 64"
  shows "\<exists>q'. EvtDescQueue_enqueueElementLast q e = Done (IOC_RESULT_SUCCESS, q') \<and>
    evtq_inv k q' \<and> evtq_contents q' = evtq_contents q @ [e]"
proof -
  define n where "n = unat (QueuedEvtNum q) - unat (ProcedEvtNum q)"
  define q' where "q' = q\<lparr>QueuedEvtDescs := (QueuedEvtDescs q)[unat (QueuedEvtNum q mod 64) := e],
    QueuedEvtNum := QueuedEvtNum q + 1\<rparr>"
  have inv: "length (QueuedEvtDescs q) = 64" "unat (ProcedEvtNum q) \<le> unat (QueuedEvtNum q)"
    "unat (QueuedEvtNum q) + Suc k < 2 ^ 64"
    using assms by (simp_all add: evtq_inv_def)
  have n: "n < 64" "unat (QueuedEvtNum q) = unat (ProcedEvtNum q) + n"
    using assms inv by (simp_all add: n_def evtq_contents_def)
  have suc: "unat (QueuedEvtNum q + 1) = Suc (unat (QueuedEvtNum q))"
    using inv(3) by (simp add: unat_word_ariths)
  have "EvtDescQueue_enqueueElementLast q e = Done (IOC_RESULT_SUCCESS, q')"
    using evtq_queuing [OF assms(1)] assms(2)
    by (simp add: EvtDescQueue_enqueueElementLast_def CONLES_EVENT_MAX_QUEUING_EVTDESC_def q'_def
        Let_def)
  moreover have "evtq_inv k q'"
    using inv n by (simp add: evtq_inv_def q'_def suc)
  moreover have "evtq_contents q' = evtq_contents q @ [e]"
  proof -
    have "evtq_contents q' = ring_contents
        ((QueuedEvtDescs q)[(unat (ProcedEvtNum q) + n) mod length (QueuedEvtDescs q) := e])
        (unat (ProcedEvtNum q)) (Suc n)"
      using n inv by (simp add: evtq_contents_def q'_def suc unat_mod_less Suc_diff_le)
    also have "\<dots> = ring_contents (QueuedEvtDescs q) (unat (ProcedEvtNum q)) n @ [e]"
      using n inv by (intro ring_contents_snoc) simp
    finally show ?thesis by (simp add: evtq_contents_def n_def)
  qed
  ultimately show ?thesis by blast
qed

lemma enqueue_full:
  assumes "evtq_inv k q" "length (evtq_contents q) = 64"
  shows "EvtDescQueue_enqueueElementLast q e = Done (IOC_RESULT_TOO_MANY_QUEUING_EVTDESC, q)"
  using evtq_queuing [OF assms(1)] assms(2)
  by (simp add: EvtDescQueue_enqueueElementLast_def CONLES_EVENT_MAX_QUEUING_EVTDESC_def Let_def)

lemma dequeue_empty:
  assumes "evtq_inv k q" "evtq_contents q = []"
  shows "EvtDescQueue_dequeueElementFirst q = Done (IOC_RESULT_EVTDESC_QUEUE_EMPTY, None, q)"
  using evtq_queuing [OF assms(1)] assms(2)
  by (simp add: EvtDescQueue_dequeueElementFirst_def CONLES_EVENT_MAX_QUEUING_EVTDESC_def Let_def)

lemma dequeue_first:
  assumes "evtq_inv k q" "evtq_contents q = e # es"
  shows "\<exists>q'. EvtDescQueue_dequeueElementFirst q = Done (IOC_RESULT_SUCCESS, Some e, q') \<and>
    evtq_inv k q' \<and> evtq_contents q' = es"
proof -
  define n where "n = unat (QueuedEvtNum q) - unat (ProcedEvtNum q)"
  define q' where "q' = q\<lparr>ProcedEvtNum := ProcedEvtNum q + 1\<rparr>"
  have inv: "length (QueuedEvtDescs q) = 64" "unat (ProcedEvtNum q) \<le> unat (QueuedEvtNum q)"
    "unat (QueuedEvtNum q) < 2 ^ 64"
    using assms by (simp_all add: evtq_inv_def)
  have n: "0 < n" "unat (QueuedEvtNum q) = unat (ProcedEvtNum q) + n"
    using assms inv by (auto simp: n_def evtq_contents_def intro: ccontr)
  have suc: "unat (ProcedEvtNum q + 1) = Suc (unat (ProcedEvtNum q))"
    using inv n by (simp add: unat_word_ariths)
  obtain m where m: "n = Suc m" using n(1) gr0_conv_Suc by auto
  have c: "evtq_contents q = QueuedEvtDescs q ! (unat (ProcedEvtNum q) mod 64) #
      ring_contents (QueuedEvtDescs q) (Suc (unat (ProcedEvtNum q))) m"
    using inv m by (simp add: evtq_contents_def n_def [symmetric] ring_contents_Suc)
  have "EvtDescQueue_dequeueElementFirst q = Done (IOC_RESULT_SUCCESS, Some e, q')"
    using evtq_queuing [OF assms(1)] assms(2) c
    by (simp add: EvtDescQueue_dequeueElementFirst_def CONLES_EVENT_MAX_QUEUING_EVTDESC_def q'_def
        Let_def unat_mod_less)
  moreover have "evtq_inv k q'"
    using assms(1) n by (auto simp: evtq_inv_def q'_def suc)
  moreover have "evtq_contents q' = es"
    using assms(2) c m n by (simp add: evtq_contents_def q'_def suc)
  ultimately show ?thesis by blast
qed

text \<open>The queue as a client of the interface sees it.\<close>

definition evtq_enq :: "IOC_EvtDesc_T \<Rightarrow> IOC_EvtDescQueue_T \<Rightarrow> (bool \<times> IOC_EvtDescQueue_T) outcome" where
  "evtq_enq e q = bindO (EvtDescQueue_enqueueElementLast q e)
     (\<lambda>(r, q'). Done (r = IOC_RESULT_SUCCESS, q'))"

definition evtq_deq :: "IOC_EvtDescQueue_T \<Rightarrow> (IOC_EvtDesc_T option \<times> IOC_EvtDescQueue_T) outcome" where
  "evtq_deq q = bindO (EvtDescQueue_dequeueElementFirst q) (\<lambda>(r, e, q'). Done (e, q'))"

interpretation evtq: bounded_queue evtq_inv evtq_contents 64 evtq_enq evtq_deq
proof (unfold_locales, goal_cases)
  case (1 k q)
  then show ?case by (rule evtq_inv_length)
next
  case (2 k q x)
  then show ?case using enqueue_room [of k q x] by (auto simp: evtq_enq_def)
next
  case (3 k q x)
  then show ?case using enqueue_full [of k q x] by (auto simp: evtq_enq_def)
next
  case (4 k q)
  then show ?case using dequeue_empty [of k q] by (auto simp: evtq_deq_def)
next
  case (5 k q x xs)
  then show ?case using dequeue_first [of k q x xs] by (auto simp: evtq_deq_def)
next
  case (6 k q)
  then show ?case by (rule evtq_inv_mono) simp
qed

section \<open>Properties\<close>

text \<open>C13: Nothing is lost, duplicated or reordered by the event queue.  For any sequence of insertions
  and removals from a well-formed queue that is good for as many insertions as the sequence has
  (a fresh queue is good for \<open>2 ^ 64 - 1\<close>), no assertion fails, and the events queued before,
  followed by those accepted, are those handed out followed by those still queued, at most 64.\<close>

theorem evtq_run_fifo:
  assumes "evtq_inv (num_enqs ops) q"
  shows "\<exists>acc del q'. run_queue evtq_enq evtq_deq ops q = Done (acc, del, q') \<and>
    evtq_contents q @ acc = del @ evtq_contents q' \<and> length (evtq_contents q') \<le> 64"
  using evtq.run_fifo [of ops 0 q] evtq_inv_length assms by fastforce

theorem evtq_run_fifo_witness:
  "\<exists>acc del q'. run_queue evtq_enq evtq_deq [Enq zero_evt, Deq, Deq] EvtDescQueue_initOne =
      Done (acc, del, q') \<and> acc = del @ evtq_contents q' \<and> length (evtq_contents q') \<le> 64"
  using evtq_run_fifo [of "[Enq zero_evt, Deq, Deq]" EvtDescQueue_initOne] by simp

end
