(* ===== verification/Helpers.thy ===== *)
theory Helpers
  imports EvtDescQueue
begin

text \<open>
  The inline helpers of \<^verbatim>\<open>src/Include/IOC/IOC_Helpers.h\<close> (time differences, names of link
  usages), \<^verbatim>\<open>IOC_SrvTypes.h\<close> (equality of service URIs), and the descriptors of
  \<^verbatim>\<open>IOC_CmdDesc.h\<close> and \<^verbatim>\<open>IOC_DatDesc.h\<close> with their payload accessors.
\<close>

section \<open>Time differences\<close>

text \<open>
  The differences are 64-bit unsigned: seconds are compared (and a later start ends the process),
  the fractions are added and subtracted modulo \<open>2 ^ 64\<close>.  \<open>scaled_delta\<close> is the computation the
  millisecond, microsecond and nanosecond versions share.
\<close>

definition scaled_delta :: "ULONG \<Rightarrow> int \<Rightarrow> int \<times> int \<Rightarrow> int \<times> int \<Rightarrow> ULONG outcome" where
  "scaled_delta per_sec unit from to =
     (if fst from \<le> fst to
      then Done (of_int (fst to - fst from) * per_sec + of_int (snd to div unit)
                 - of_int (snd from div unit))
      else Abort)"

definition ts_pair :: "timespec \<Rightarrow> int \<times> int" where
  "ts_pair t = (tv_sec t, tv_nsec t)"

definition IOC_deltaTimeSpecInSec :: "timespec \<Rightarrow> timespec \<Rightarrow> ULONG outcome" where
  "IOC_deltaTimeSpecInSec from to =
     (if tv_sec from \<le> tv_sec to then Done (of_int (tv_sec to - tv_sec from)) else Abort)"
definition IOC_deltaTimeSpecInMS :: "timespec \<Rightarrow> timespec \<Rightarrow> ULONG outcome" where
  "IOC_deltaTimeSpecInMS from to = scaled_delta 1000 1000000 (ts_pair from) (ts_pair to)"
definition IOC_deltaTimeSpecInUS :: "timespec \<Rightarrow> timespec \<Rightarrow> ULONG outcome" where
  "IOC_deltaTimeSpecInUS from to = scaled_delta 1000000 1000 (ts_pair from) (ts_pair to)"
definition IOC_deltaTimeSpecInNS :: "timespec \<Rightarrow> timespec \<Rightarrow> ULONG outcome" where
  "IOC_deltaTimeSpecInNS from to = scaled_delta 1000000000 1 (ts_pair from) (ts_pair to)"

text \<open>\<^verbatim>\<open>struct timeval\<close> is a pair of seconds and microseconds.\<close>

definition IOC_deltaTimevalInSec :: "int \<times> int \<Rightarrow> int \<times> int \<Rightarrow> ULONG outcome" where
  "IOC_deltaTimevalInSec from to =
     (if fst from \<le> fst to then Done (of_int (fst to - fst from)) else Abort)"
definition IOC_deltaTimevalInMS :: "int \<times> int \<Rightarrow> int \<times> int \<Rightarrow> ULONG outcome" where
  "IOC_deltaTimevalInMS from to = scaled_delta 1000 1000 from to"
definition IOC_deltaTimevalInUS :: "int \<times> int \<Rightarrow> int \<times> int \<Rightarrow> ULONG outcome" where
  "IOC_deltaTimevalInUS from to = scaled_delta 1000000 1 from to"

section \<open>Names of link usages\<close>

definition IOC_getLinkUsageName :: "usage \<Rightarrow> string" where
  "IOC_getLinkUsageName u =
    (if u = IOC_LinkUsageEvtProducer then ''EvtProducer''
     else if u = IOC_LinkUsageEvtConsumer then ''EvtConsumer''
     else if u = IOC_LinkUsageCmdInitiator then ''CmdInitiator''
     else if u = IOC_LinkUsageCmdExecutor then ''CmdExecutor''
     else if u = IOC_LinkUsageDatSender then ''DatSender''
     else if u = IOC_LinkUsageDatReceiver then ''DatReceiver''
     else ''Undefined'')"

definition usage_items :: "(usage \<times> string) list" where
  "usage_items =
    [(IOC_LinkUsageEvtProducer, ''EvtProducer''), (IOC_LinkUsageEvtConsumer, ''EvtConsumer''),
     (IOC_LinkUsageCmdInitiator, ''CmdInitiator''), (IOC_LinkUsageCmdExecutor, ''CmdExecutor''),
     (IOC_LinkUsageDatSender, ''DatSender''), (IOC_LinkUsageDatReceiver, ''DatReceiver'')]"

text \<open>
  \<open>snprintf_at buf wrote size s\<close> is \<^verbatim>\<open>wrote += snprintf(buf + wrote, size - wrote, "%s", s)\<close>: the
  text is cut to what fits before the terminating zero, but the length of the whole \<open>s\<close> is added.
  \<open>buf\<close> is the text of the buffer up to its terminator.
\<close>

definition snprintf_at :: "nat \<Rightarrow> string \<times> nat \<Rightarrow> string \<Rightarrow> string \<times> nat" where
  "snprintf_at sz bw s = (case bw of (buf, wrote) \<Rightarrow>
     (take wrote buf @ take (sz - wrote - 1) s, wrote + length s))"

text \<open>One turn of the loop; \<open>int sz - 1\<close> is the C expression \<^verbatim>\<open>(int)size - 1\<close> for sizes below
  \<open>2 ^ 31\<close>.\<close>

definition format_item :: "nat \<Rightarrow> usage \<Rightarrow> usage \<times> string \<Rightarrow> string \<times> nat \<Rightarrow> string \<times> nat" where
  "format_item sz m item bw =
    (if has_usage m (fst item) then
       let bw1 = (if snd bw > 0 \<and> int (snd bw) < int sz - 1 then snprintf_at sz bw ''|'' else bw)
       in if int (snd bw1) < int sz - 1 then snprintf_at sz bw1 (snd item) else bw1
     else bw)"

definition IOC_formatLinkUsageMask :: "usage \<Rightarrow> nat \<Rightarrow> string" where
  "IOC_formatLinkUsageMask m sz =
    (if sz = 0 then ''''
     else let (buf, wrote) = fold (format_item sz m) usage_items ('''', 0)
       in if wrote = 0 then take (sz - 1) ''Undefined'' else buf)"

section \<open>Service URIs\<close>

record IOC_SrvURI_T =
  pProtocol :: string
  pHost :: string
  pPath :: string
  Port :: "16 word"

definition IOC_Helper_isEqualSrvURI :: "IOC_SrvURI_T \<Rightarrow> IOC_SrvURI_T \<Rightarrow> bool" where
  "IOC_Helper_isEqualSrvURI a b \<longleftrightarrow>
     (if pProtocol a = pProtocol b \<and> pHost a = pHost b \<and> pPath a = pPath b \<and> Port a = Port b
      then True else False)"

lemma isEqualSrvURI_eq: "IOC_Helper_isEqualSrvURI a b \<longleftrightarrow> a = b"
  by (cases a; cases b) (auto simp: IOC_Helper_isEqualSrvURI_def)

section \<open>Command descriptors\<close>

datatype IOC_CmdStatus_E =
    IOC_CMD_STATUS_INVALID
  | IOC_CMD_STATUS_INITIALIZED
  | IOC_CMD_STATUS_PENDING
  | IOC_CMD_STATUS_PROCESSING
  | IOC_CMD_STATUS_SUCCESS
  | IOC_CMD_STATUS_FAILED
  | IOC_CMD_STATUS_TIMEOUT

text \<open>A payload: the heap block \<open>pData\<close> names (\<^verbatim>\<open>NULL\<close> is \<open>None\<close>) with its allocated size and
  length, and the 64 embedded bytes.\<close>

record IOC_CmdPayload_T =
  cpData :: "byte list option"
  cPtrDataSize :: ULONG
  cPtrDataLen :: ULONG
  cEmdDataSize :: ULONG
  cEmdData :: "byte list"

record IOC_CmdDesc_T =
  CmdMsgDesc :: IOC_MsgDesc_T
  CmdID :: ULONG
  Status :: IOC_CmdStatus_E
  CmdResult :: IOC_Result_T
  InPayload :: IOC_CmdPayload_T
  OutPayload :: IOC_CmdPayload_T
  TimeoutMs :: ULONG
  pExecContext :: "nat option"

definition zero_payload :: IOC_CmdPayload_T where
  "zero_payload = \<lparr>cpData = None, cPtrDataSize = 0, cPtrDataLen = 0, cEmdDataSize = 0,
     cEmdData = replicate 64 0\<rparr>"

definition zero_cmd :: IOC_CmdDesc_T where
  "zero_cmd = \<lparr>CmdMsgDesc = zero_msg, CmdID = 0, Status = IOC_CMD_STATUS_INVALID,
     CmdResult = IOC_RESULT_SUCCESS, InPayload = zero_payload, OutPayload = zero_payload,
     TimeoutMs = 0, pExecContext = None\<rparr>"

definition IOC_CmdDesc_initVar :: "IOC_CmdDesc_T \<Rightarrow> IOC_CmdDesc_T" where
  "IOC_CmdDesc_initVar c =
     zero_cmd\<lparr>Status := IOC_CMD_STATUS_INITIALIZED, CmdResult := IOC_RESULT_SUCCESS\<rparr>"

primrec IOC_CmdDesc_getStatusStr :: "IOC_CmdStatus_E \<Rightarrow> string" where
  "IOC_CmdDesc_getStatusStr IOC_CMD_STATUS_INVALID = ''INVALID''"
| "IOC_CmdDesc_getStatusStr IOC_CMD_STATUS_INITIALIZED = ''INITIALIZED''"
| "IOC_CmdDesc_getStatusStr IOC_CMD_STATUS_PENDING = ''PENDING''"
| "IOC_CmdDesc_getStatusStr IOC_CMD_STATUS_PROCESSING = ''PROCESSING''"
| "IOC_CmdDesc_getStatusStr IOC_CMD_STATUS_SUCCESS = ''SUCCESS''"
| "IOC_CmdDesc_getStatusStr IOC_CMD_STATUS_FAILED = ''FAILED''"
| "IOC_CmdDesc_getStatusStr IOC_CMD_STATUS_TIMEOUT = ''TIMEOUT''"

text \<open>
  Setting a payload.  \<open>d\<close> is the caller's block (\<^verbatim>\<open>NULL\<close> is \<open>None\<close>), \<open>n\<close> the size argument and
  \<open>mem\<close> whether \<^verbatim>\<open>malloc\<close> succeeds.  Up to 64 bytes are embedded; a larger payload goes to a
  fresh block one byte longer than the data.
\<close>

definition setPayload ::
  "bool \<Rightarrow> IOC_CmdPayload_T \<Rightarrow> byte list option \<Rightarrow> ULONG \<Rightarrow> IOC_Result_T \<times> IOC_CmdPayload_T" where
  "setPayload mem p d n =
    (if d = None \<and> n > 0 then (IOC_RESULT_INVALID_PARAM, p)
     else let src = take (unat n) (case d of None \<Rightarrow> [] | Some bs \<Rightarrow> bs)
       in if n \<le> 64 then
         (IOC_RESULT_SUCCESS, p\<lparr>cEmdDataSize := n, cEmdData := blit 0 src (cEmdData p),
            cpData := None, cPtrDataSize := 0, cPtrDataLen := 0\<rparr>)
       else if \<not> mem then (IOC_RESULT_POSIX_ENOMEM, p\<lparr>cpData := None\<rparr>)
       else (IOC_RESULT_SUCCESS, p\<lparr>cpData := Some (src @ replicate (unat (n + 1) - length src) 0),
            cEmdDataSize := 0, cPtrDataSize := n + 1, cPtrDataLen := n\<rparr>))"

definition IOC_CmdDesc_setInPayload ::
  "bool \<Rightarrow> IOC_CmdDesc_T option \<Rightarrow> byte list option \<Rightarrow> ULONG \<Rightarrow> IOC_Result_T \<times> IOC_CmdDesc_T option"
where
  "IOC_CmdDesc_setInPayload mem c d n = (case c of
     None \<Rightarrow> (IOC_RESULT_INVALID_PARAM, None)
   | Some cmd \<Rightarrow> let (r, p) = setPayload mem (InPayload cmd) d n
       in (r, Some (cmd\<lparr>InPayload := p\<rparr>)))"

definition IOC_CmdDesc_setOutPayload ::
  "bool \<Rightarrow> IOC_CmdDesc_T option \<Rightarrow> byte list option \<Rightarrow> ULONG \<Rightarrow> IOC_Result_T \<times> IOC_CmdDesc_T option"
where
  "IOC_CmdDesc_setOutPayload mem c d n = (case c of
     None \<Rightarrow> (IOC_RESULT_INVALID_PARAM, None)
   | Some cmd \<Rightarrow> let (r, p) = setPayload mem (OutPayload cmd) d n
       in (r, Some (cmd\<lparr>OutPayload := p\<rparr>)))"

definition payload_data :: "IOC_CmdPayload_T \<Rightarrow> byte list option" where
  "payload_data p = (if cEmdDataSize p > 0 then Some (cEmdData p) else cpData p)"
definition payload_size :: "IOC_CmdPayload_T \<Rightarrow> ULONG" where
  "payload_size p = (if cPtrDataSize p > 0 then cPtrDataSize p else 0)"
definition payload_len :: "IOC_CmdPayload_T \<Rightarrow> ULONG" where
  "payload_len p = (if cPtrDataLen p > 0 then cPtrDataLen p else cEmdDataSize p)"

definition IOC_CmdDesc_getInData :: "IOC_CmdDesc_T option \<Rightarrow> byte list option" where
  "IOC_CmdDesc_getInData c = (case c of None \<Rightarrow> None | Some cmd \<Rightarrow> payload_data (InPayload cmd))"
definition IOC_CmdDesc_getInDataSize :: "IOC_CmdDesc_T option \<Rightarrow> ULONG" where
  "IOC_CmdDesc_getInDataSize c = (case c of None \<Rightarrow> 0 | Some cmd \<Rightarrow> payload_size (InPayload cmd))"
definition IOC_CmdDesc_getInDataLen :: "IOC_CmdDesc_T option \<Rightarrow> ULONG" where
  "IOC_CmdDesc_getInDataLen c = (case c of None \<Rightarrow> 0 | Some cmd \<Rightarrow> payload_len (InPayload cmd))"
definition IOC_CmdDesc_getOutData :: "IOC_CmdDesc_T option \<Rightarrow> byte list option" where
  "IOC_CmdDesc_getOutData c = (case c of None \<Rightarrow> None | Some cmd \<Rightarrow> payload_data (OutPayload cmd))"
definition IOC_CmdDesc_getOutDataSize :: "IOC_CmdDesc_T option \<Rightarrow> ULONG" where
  "IOC_CmdDesc_getOutDataSize c = (case c of None \<Rightarrow> 0 | Some cmd \<Rightarrow> payload_size (OutPayload cmd))"
definition IOC_CmdDesc_getOutDataLen :: "IOC_CmdDesc_T option \<Rightarrow> ULONG" where
  "IOC_CmdDesc_getOutDataLen c = (case c of None \<Rightarrow> 0 | Some cmd \<Rightarrow> payload_len (OutPayload cmd))"

definition cleanup_payload :: "IOC_CmdPayload_T \<Rightarrow> IOC_CmdPayload_T" where
  "cleanup_payload p = (if cpData p \<noteq> None
     then p\<lparr>cpData := None, cPtrDataSize := 0, cPtrDataLen := 0\<rparr> else p)"
definition IOC_CmdDesc_cleanup :: "IOC_CmdDesc_T option \<Rightarrow> IOC_CmdDesc_T option" where
  "IOC_CmdDesc_cleanup c = (case c of None \<Rightarrow> None
   | Some cmd \<Rightarrow> Some (cmd\<lparr>InPayload := cleanup_payload (InPayload cmd),
                         OutPayload := cleanup_payload (OutPayload cmd)\<rparr>))"

section \<open>Data descriptors\<close>

text \<open>The sender's or receiver's block \<open>pData\<close> with its size and length, and 128 embedded bytes
  (sixteen unsigned longs).\<close>

record IOC_DatDesc_T =
  DatMsgDesc :: IOC_MsgDesc_T
  pData :: "byte list option"
  PtrDataSize :: ULONG
  PtrDataLen :: ULONG
  EmdDataLen :: ULONG
  EmdData :: "byte list"

definition IOC_initDatDesc :: "IOC_DatDesc_T" where
  "IOC_initDatDesc = \<lparr>DatMsgDesc = zero_msg, pData = None, PtrDataSize = 0, PtrDataLen = 0,
     EmdDataLen = 0, EmdData = replicate 128 0\<rparr>"

text \<open>The answer is the block and the length; the length may exceed the block.\<close>

definition IOC_getDatPayload :: "IOC_DatDesc_T option \<Rightarrow> IOC_Result_T \<times> byte list option \<times> ULONG" where
  "IOC_getDatPayload dd = (case dd of
     None \<Rightarrow> (IOC_RESULT_INVALID_PARAM, None, 0)
   | Some d \<Rightarrow>
       if EmdDataLen d > 0 then (IOC_RESULT_SUCCESS, Some (EmdData d), EmdDataLen d)
       else if pData d \<noteq> None \<and> PtrDataLen d > 0 then (IOC_RESULT_SUCCESS, pData d, PtrDataLen d)
       else (IOC_RESULT_NO_DATA, None, 0))"

definition IOC_getDatPayloadSize :: "IOC_DatDesc_T option \<Rightarrow> IOC_Result_T \<times> byte list option \<times> ULONG" where
  "IOC_getDatPayloadSize dd = (case dd of
     None \<Rightarrow> (IOC_RESULT_INVALID_PARAM, None, 0)
   | Some d \<Rightarrow>
       if pData d \<noteq> None \<and> PtrDataSize d > 0 then (IOC_RESULT_SUCCESS, pData d, PtrDataSize d)
       else (IOC_RESULT_SUCCESS, Some (EmdData d), 128))"

section \<open>Lemmas\<close>

lemma setPayload_stored:
  assumes "setPayload True p (Some bs) n = (r, p')" "length bs = unat n" "length (cEmdData p) = 64"
    "n < ULONG_MAX" "n \<noteq> 0"
  shows "r = IOC_RESULT_SUCCESS" "payload_len p' = n"
    "\<exists>blk. payload_data p' = Some blk \<and> take (unat n) blk = bs"
    "length (cEmdData p') = 64"
proof -
  have "unat n \<le> 64" if "n \<le> 64" using that by (simp add: word_le_nat_alt)
  moreover have "n + 1 \<noteq> 0" using assms(4) by (auto simp flip: eq_neg_iff_add_eq_0)
  then have "0 < n + 1" by (simp add: word_gt_0)
  moreover have "0 < n" using assms(5) by (simp add: word_gt_0)
  ultimately show "r = IOC_RESULT_SUCCESS" "payload_len p' = n"
    "\<exists>blk. payload_data p' = Some blk \<and> take (unat n) blk = bs" "length (cEmdData p') = 64"
    using assms take_blit [of bs "cEmdData p"]
    by (auto simp: setPayload_def payload_len_def payload_data_def Let_def split: if_splits)
qed

text \<open>Microseconds of a time, the unit of the library's timeouts.\<close>

definition us_of :: "timespec \<Rightarrow> int" where
  "us_of t = tv_sec t * 1000000 + tv_nsec t div 1000"

lemma deltaUS_eq:
  "tv_sec a \<le> tv_sec b \<Longrightarrow> IOC_deltaTimeSpecInUS a b = Done (of_int (us_of b - us_of a))"
  by (simp add: IOC_deltaTimeSpecInUS_def scaled_delta_def ts_pair_def us_of_def algebra_simps)

lemma deltaUS_abort: "tv_sec b < tv_sec a \<Longrightarrow> IOC_deltaTimeSpecInUS a b = Abort"
  by (simp add: IOC_deltaTimeSpecInUS_def scaled_delta_def ts_pair_def)

fun join_bar :: "string list \<Rightarrow> string" where
  "join_bar [] = ''''"
| "join_bar [s] = s"
| "join_bar (s # t # ss) = s @ ''|'' @ join_bar (t # ss)"

section \<open>Properties\<close>

text \<open>A command's input payload set from a block of up to \<open>2 ^ 64 - 2\<close> bytes is read back
  complete, whether it was embedded (up to 64 bytes) or copied to the heap: the reported length is
  the length set and the reported block begins with the bytes set.\<close>

theorem cmd_in_payload_roundtrip:
  assumes "length bs = unat n" "n \<noteq> 0" "n < ULONG_MAX" "length (cEmdData (InPayload c)) = 64"
  shows "\<exists>c' blk. IOC_CmdDesc_setInPayload True (Some c) (Some bs) n = (IOC_RESULT_SUCCESS, Some c') \<and>
    IOC_CmdDesc_getInDataLen (Some c') = n \<and> IOC_CmdDesc_getInData (Some c') = Some blk \<and>
    take (unat n) blk = bs \<and> OutPayload c' = OutPayload c"
proof -
  obtain r p where "setPayload True (InPayload c) (Some bs) n = (r, p)" by fastforce
  from setPayload_stored [OF this] this assms show ?thesis
    by (auto simp: IOC_CmdDesc_setInPayload_def IOC_CmdDesc_getInDataLen_def
        IOC_CmdDesc_getInData_def)
qed

theorem cmd_in_payload_roundtrip_witness:
  "\<exists>c' blk. IOC_CmdDesc_setInPayload True (Some zero_cmd) (Some (replicate 65 7)) 65 =
      (IOC_RESULT_SUCCESS, Some c') \<and> IOC_CmdDesc_getInDataLen (Some c') = 65 \<and>
    IOC_CmdDesc_getInData (Some c') = Some blk \<and> take 65 blk = replicate 65 7"
  using cmd_in_payload_roundtrip [of "replicate 65 7" 65 zero_cmd]
  by (auto simp: zero_cmd_def zero_payload_def)

text \<open>Elapsed microseconds.  For two clock readings in order and less than \<open>2 ^ 64\<close> microseconds
  apart the 64-bit computation is exact; a reading from an earlier second ends the process; a
  reading that is earlier within the same second wraps around to a huge elapsed time.\<close>

theorem deltaTimeSpecInUS_cases:
  assumes "0 \<le> tv_nsec a" "tv_nsec a < 1000000000" "0 \<le> tv_nsec b" "tv_nsec b < 1000000000"
    "us_of b - us_of a < 2 ^ 64"
  shows "case IOC_deltaTimeSpecInUS a b of
      Done us \<Rightarrow> tv_sec a \<le> tv_sec b \<and>
        (if us_of a \<le> us_of b then uint us = us_of b - us_of a
         else uint us = 2 ^ 64 - (us_of a - us_of b) \<and> uint us > 2 ^ 64 - 1000000)
    | Abort \<Rightarrow> tv_sec b < tv_sec a
    | Block \<Rightarrow> False"
proof (cases "tv_sec a \<le> tv_sec b")
  case True
  have near: "us_of a - us_of b < 1000000"
  proof -
    have "tv_nsec a div 1000 < 1000000" "0 \<le> tv_nsec b div 1000"
      using assms by (simp_all add: pos_imp_zdiv_nonneg_iff div_less_iff_less_mult)
    then show ?thesis using True unfolding us_of_def by linarith
  qed
  have "uint (word_of_int (us_of b - us_of a) :: ULONG) =
      (if us_of a \<le> us_of b then us_of b - us_of a else 2 ^ 64 - (us_of a - us_of b))"
  proof (cases "us_of a \<le> us_of b")
    case False
    have "(us_of b - us_of a) mod 2 ^ 64 = (us_of b - us_of a + 2 ^ 64) mod 2 ^ 64" by simp
    also have "\<dots> = us_of b - us_of a + 2 ^ 64"
      using False near by (intro mod_pos_pos_trivial) auto
    finally show ?thesis using False unfolding uint_word_of_int by simp
  next
    case True
    then show ?thesis using assms(5) unfolding uint_word_of_int by simp
  qed
  then show ?thesis using near True by (simp add: deltaUS_eq)
qed (simp add: deltaUS_abort)

theorem deltaTimeSpecInUS_witness:
  "IOC_deltaTimeSpecInUS \<lparr>tv_sec = 5, tv_nsec = 0\<rparr> \<lparr>tv_sec = 4, tv_nsec = 999999999\<rparr> = Abort"
  using deltaTimeSpecInUS_cases [of "\<lparr>tv_sec = 5, tv_nsec = 0\<rparr>" "\<lparr>tv_sec = 4, tv_nsec = 999999999\<rparr>"]
  by (simp add: us_of_def split: outcome.splits)

text \<open>The formatted usage mask, written to the internal buffer of 96 bytes, is never cut: it is
  the names of exactly the usages in the mask, in bit order, separated by bars, and
  \<open>Undefined\<close> for a mask without known bits.\<close>

theorem formatLinkUsageMask_complete:
  "IOC_formatLinkUsageMask m 96 =
    (let names = map snd (filter (\<lambda>it. has_usage m (fst it)) usage_items)
     in if names = [] then ''Undefined'' else join_bar names)"
  by (cases "has_usage m IOC_LinkUsageEvtProducer"; cases "has_usage m IOC_LinkUsageEvtConsumer";
      cases "has_usage m IOC_LinkUsageCmdInitiator"; cases "has_usage m IOC_LinkUsageCmdExecutor";
      cases "has_usage m IOC_LinkUsageDatSender"; cases "has_usage m IOC_LinkUsageDatReceiver")
    (simp_all add: IOC_formatLinkUsageMask_def usage_items_def format_item_def snprintf_at_def)

end
