(* ===== verification/Printers.thy ===== *)
theory Printers
  imports Helpers
begin

text \<open>
  The one-line texts of event descriptors, command descriptors and service URIs (\<^verbatim>\<open>IOC_EvtDesc.h\<close>,
  \<^verbatim>\<open>IOC_CmdDesc.h\<close>, \<^verbatim>\<open>IOC_SrvTypes.h\<close>), and what can be read back from them.
\<close>

section \<open>Formatted output\<close>

text \<open>The digits that \<^verbatim>\<open>%lu\<close> and \<^verbatim>\<open>%d\<close> print.\<close>

fun dec :: "nat \<Rightarrow> string" where
  "dec n = (if n < 10 then [char_of (48 + n)] else dec (n div 10) @ [char_of (48 + n mod 10)])"

declare dec.simps [simp del]

definition fmt_lu :: "ULONG \<Rightarrow> string" where
  "fmt_lu w = dec (unat w)"

definition fmt_d :: "int \<Rightarrow> string" where
  "fmt_d i = (if i < 0 then ''-'' @ dec (nat (- i)) else dec (nat i))"

text \<open>What \<^verbatim>\<open>snprintf\<close> leaves in a buffer of size \<open>sz\<close>: nothing is written when the size is zero, and otherwise the
  text is cut so that its terminating zero fits.  A caller that passes a null pointer gets a static buffer of size
  \<open>own\<close>; the answer is the text, or \<open>None\<close> for a buffer that was left alone.\<close>

definition snprintf :: "nat \<Rightarrow> string \<Rightarrow> string option" where
  "snprintf sz s = (if sz = 0 then None else Some (take (sz - 1) s))"

definition print_to :: "nat \<Rightarrow> nat option \<Rightarrow> string \<Rightarrow> string option" where
  "print_to own buf s = snprintf (case buf of None \<Rightarrow> own | Some sz \<Rightarrow> sz) s"

section \<open>Event descriptors\<close>

definition IOC_EvtDesc_getEvtClassStr :: "IOC_EvtDesc_T \<Rightarrow> string" where
  "IOC_EvtDesc_getEvtClassStr e = IOC_getEvtClassStr (EvtID e)"

definition IOC_EvtDesc_getEvtNameStr :: "IOC_EvtDesc_T \<Rightarrow> string" where
  "IOC_EvtDesc_getEvtNameStr e = IOC_getEvtNameStr (EvtID e)"

definition IOC_EvtDesc_getEvtFullNameStr :: "IOC_EvtDesc_T \<Rightarrow> nat option \<Rightarrow> string option" where
  "IOC_EvtDesc_getEvtFullNameStr e buf =
     print_to 32 buf (IOC_EvtDesc_getEvtClassStr e @ '':'' @ IOC_EvtDesc_getEvtNameStr e)"

definition IOC_EvtDesc_printDetail :: "IOC_EvtDesc_T \<Rightarrow> nat option \<Rightarrow> string option" where
  "IOC_EvtDesc_printDetail e buf =
     print_to 64 buf (''SeqID='' @ fmt_lu (SeqID (MsgDesc e)) @ '', ID='' @ fmt_lu (EvtID e) @
       ''('' @ the (IOC_EvtDesc_getEvtFullNameStr e (Some 32)) @ ''), Value='' @ fmt_lu (EvtValue e))"

section \<open>Command descriptors\<close>

definition IOC_CmdDesc_getCmdClassStr :: "IOC_CmdDesc_T \<Rightarrow> string" where
  "IOC_CmdDesc_getCmdClassStr c = IOC_getCmdClassStr (CmdID c)"

definition IOC_CmdDesc_getCmdNameStr :: "IOC_CmdDesc_T \<Rightarrow> string" where
  "IOC_CmdDesc_getCmdNameStr c = IOC_getCmdNameStr (CmdID c)"

definition IOC_CmdDesc_getCmdFullNameStr :: "IOC_CmdDesc_T \<Rightarrow> nat option \<Rightarrow> string option" where
  "IOC_CmdDesc_getCmdFullNameStr c buf =
     print_to 64 buf (IOC_CmdDesc_getCmdClassStr c @ '':'' @ IOC_CmdDesc_getCmdNameStr c)"

definition IOC_CmdDesc_toPrintableStr :: "IOC_CmdDesc_T \<Rightarrow> nat option \<Rightarrow> string option" where
  "IOC_CmdDesc_toPrintableStr c buf =
     print_to 128 buf (''CmdDesc[SeqID='' @ fmt_lu (SeqID (CmdMsgDesc c)) @
       '', Cmd='' @ the (IOC_CmdDesc_getCmdFullNameStr c None) @ '', Status='' @ IOC_CmdDesc_getStatusStr (Status c) @
       '', Result='' @ fmt_d (result_code (CmdResult c)) @ '', TimeoutMs='' @ fmt_lu (TimeoutMs c) @ '']'')"

section \<open>Service URIs\<close>

definition IOC_Helper_printSingleLineSrvURI :: "IOC_SrvURI_T \<Rightarrow> nat option \<Rightarrow> string option" where
  "IOC_Helper_printSingleLineSrvURI u buf =
     print_to 128 buf (pProtocol u @ ''://'' @ pHost u @ '':'' @ fmt_d (uint (Port u)) @ ''/'' @ pPath u)"

section \<open>Reading numbers\<close>

definition is_dig :: "char \<Rightarrow> bool" where
  "is_dig c \<longleftrightarrow> 48 \<le> (of_char c :: nat) \<and> (of_char c :: nat) < 58"

fun scan_nat :: "nat \<Rightarrow> string \<Rightarrow> nat \<times> string" where
  "scan_nat a [] = (a, [])"
| "scan_nat a (c # cs) = (if is_dig c then scan_nat (a * 10 + (of_char c - 48)) cs else (a, c # cs))"

lemma scan_dec: "scan_nat a (dec n @ r) = scan_nat (a * 10 ^ length (dec n) + n) r"
proof (induction n arbitrary: a r rule: dec.induct)
  case (1 n)
  have d: "is_dig (char_of (48 + m))" "of_char (char_of (48 + m)) - 48 = m" if "m < 10" for m :: nat
    using that by (simp_all add: is_dig_def)
  show ?case
  proof (cases "n < 10")
    case True
    then show ?thesis by (subst (1 2) dec.simps) (simp add: d)
  next
    case False
    have "scan_nat a (dec n @ r) = scan_nat a (dec (n div 10) @ char_of (48 + n mod 10) # r)"
      using False by (subst dec.simps) simp
    also have "\<dots> = scan_nat ((a * 10 ^ length (dec (n div 10)) + n div 10) * 10 + n mod 10) r"
      using 1 [OF False] by (simp add: d)
    also have "length (dec n) = Suc (length (dec (n div 10)))" using False by (subst dec.simps) simp
    ultimately show ?thesis by (simp add: algebra_simps)
  qed
qed

lemma scan_lu: "r = [] \<or> \<not> is_dig (hd r) \<Longrightarrow> scan_nat 0 (fmt_lu w @ r) = (unat w, r)"
  unfolding fmt_lu_def scan_dec by (cases r) auto

lemma dec_length: "length (dec n) = (if n < 10 then 1 else Suc (length (dec (n div 10))))"
  by (subst dec.simps) simp

lemma length_dec: "n < 10 ^ k \<Longrightarrow> 0 < k \<Longrightarrow> length (dec n) \<le> k"
proof (induction n arbitrary: k rule: dec.induct)
  case (1 n)
  show ?case
  proof (cases "n < 10")
    case False
    obtain j where k: "k = Suc j" using 1(3) by (cases k) auto
    have "0 < j" using False 1(2) by (cases j) (auto simp: k)
    note j = k this
    then have "n div 10 < 10 ^ j" using 1(2) by (simp add: div_less_iff_less_mult mult.commute)
    from 1(1) [OF False this j(2)] show ?thesis using False j(1) by (subst dec.simps) simp
  qed (use 1(3) in \<open>subst dec.simps, simp\<close>)
qed

lemma length_lu: "length (fmt_lu w) \<le> 20"
proof -
  have "unat w < 2 ^ 64" using unsigned_less [of w] by simp
  then have "unat w < 10 ^ 20" by simp
  then show ?thesis unfolding fmt_lu_def by (rule length_dec) simp
qed

section \<open>The names fit\<close>

lemma evt_full_name:
  "\<exists>s. IOC_EvtDesc_getEvtFullNameStr e (Some 32) = Some s \<and> length s \<le> 27 \<and>
     s = IOC_getEvtClassStr (EvtID e) @ '':'' @ IOC_getEvtNameStr (EvtID e) \<and> CHR '')'' \<notin> set s"
proof -
  have n: "length (IOC_getTestClassEvtNameStr k) \<le> 22 \<and> CHR '')'' \<notin> set (IOC_getTestClassEvtNameStr k)" for k
    unfolding IOC_getTestClassEvtNameStr_def by (simp split del: if_split add: if_distrib [of length] if_distrib [of set] cong: if_cong)
      (simp split: if_split)
  let ?s = "IOC_getEvtClassStr (EvtID e) @ '':'' @ IOC_getEvtNameStr (EvtID e)"
  have "length ?s \<le> 27 \<and> CHR '')'' \<notin> set ?s"
    using n [of "IOC_getEvtNameID (EvtID e)"] by (simp add: IOC_getEvtClassStr_def IOC_getEvtNameStr_def)
  moreover from this have "take 31 ?s = ?s" by (intro take_all) simp
  ultimately show ?thesis
    by (simp add: IOC_EvtDesc_getEvtFullNameStr_def IOC_EvtDesc_getEvtClassStr_def IOC_EvtDesc_getEvtNameStr_def print_to_def snprintf_def
        del: take_append)
qed

lemma cmd_full_name:
  "\<exists>s. IOC_CmdDesc_getCmdFullNameStr c None = Some s \<and> length s \<le> 21 \<and>
     s = IOC_getCmdClassStr (CmdID c) @ '':'' @ IOC_getCmdNameStr (CmdID c)"
proof -
  let ?s = "IOC_getCmdClassStr (CmdID c) @ '':'' @ IOC_getCmdNameStr (CmdID c)"
  have "length ?s \<le> 21"
    unfolding IOC_getCmdClassStr_def IOC_getCmdNameStr_def Let_def IOC_CMD_CLASS_TEST_def IOC_CMD_CLASS_SYSTEM_def IOC_CMD_CLASS_DIAG_def
    by (simp split: if_split)
  moreover from this have "take 63 ?s = ?s" by (intro take_all) simp
  ultimately show ?thesis
    by (simp del: take_append add: IOC_CmdDesc_getCmdFullNameStr_def IOC_CmdDesc_getCmdClassStr_def IOC_CmdDesc_getCmdNameStr_def print_to_def snprintf_def)
qed

lemma length_status: "length (IOC_CmdDesc_getStatusStr s) \<le> 11"
  by (cases s) simp_all

lemma length_result: "length (fmt_d (result_code r)) \<le> 5"
proof -
  have "- 1000 \<le> result_code r" "result_code r \<le> 0" by (cases r; simp)+
  moreover from this have "nat (- result_code r) < 10 ^ 4" "nat (result_code r) < 10 ^ 4" by simp_all
  note length_dec [OF this(1)] length_dec [OF this(2)]
  ultimately show ?thesis by (simp add: fmt_d_def)
qed

section \<open>Reading the texts\<close>

definition expect :: "string \<Rightarrow> string \<Rightarrow> string option" where
  "expect p s = (if take (length p) s = p then Some (drop (length p) s) else None)"

lemma expect_append [simp]: "expect p (p @ s) = Some s"
  by (simp add: expect_def)

text \<open>The sequence number, the identifier and the value of an event from its text.\<close>

definition read_detail :: "string \<Rightarrow> (nat \<times> nat \<times> nat) option" where
  "read_detail s = Option.bind (expect ''SeqID='' s) (\<lambda>s. case scan_nat 0 s of (q, s) \<Rightarrow>
     Option.bind (expect '', ID='' s) (\<lambda>s. case scan_nat 0 s of (i, s) \<Rightarrow>
     Option.bind (expect ''), Value='' (dropWhile (\<lambda>c. c \<noteq> CHR '')'') s)) (\<lambda>s. Some (q, i, fst (scan_nat 0 s)))))"

definition evt_line :: "IOC_EvtDesc_T \<Rightarrow> string" where
  "evt_line e = ''SeqID='' @ fmt_lu (SeqID (MsgDesc e)) @ '', ID='' @ fmt_lu (EvtID e) @
     (''('' @ IOC_getEvtClassStr (EvtID e) @ '':'' @ IOC_getEvtNameStr (EvtID e)) @ ''), Value='' @ fmt_lu (EvtValue e) @ []"

lemma evt_line: "IOC_EvtDesc_printDetail e buf = print_to 64 buf (evt_line e)" "length (evt_line e) \<le> 108"
proof -
  obtain n where n: "IOC_EvtDesc_getEvtFullNameStr e (Some 32) = Some n" "length n \<le> 27"
    "n = IOC_getEvtClassStr (EvtID e) @ '':'' @ IOC_getEvtNameStr (EvtID e)" using evt_full_name by blast
  then show "IOC_EvtDesc_printDetail e buf = print_to 64 buf (evt_line e)" by (simp add: IOC_EvtDesc_printDetail_def evt_line_def)
  show "length (evt_line e) \<le> 108"
    using n(2,3) length_lu [of "SeqID (MsgDesc e)"] length_lu [of "EvtID e"] length_lu [of "EvtValue e"] by (simp add: evt_line_def)
qed

lemma read_evt_line: "read_detail (evt_line e) = Some (unat (SeqID (MsgDesc e)), unat (EvtID e), unat (EvtValue e))"
proof -
  let ?n = "''('' @ IOC_getEvtClassStr (EvtID e) @ '':'' @ IOC_getEvtNameStr (EvtID e)" and ?v = "''), Value='' @ fmt_lu (EvtValue e) @ []"
  have n: "CHR '')'' \<notin> set ?n" using evt_full_name [of e] by auto
  have "dropWhile (\<lambda>c. c \<noteq> CHR '')'') (?n @ ?v) = dropWhile (\<lambda>c. c \<noteq> CHR '')'') ?v"
    using n by (intro dropWhile_append2) blast
  then have "dropWhile (\<lambda>c. c \<noteq> CHR '')'') (?n @ ?v) = ?v" by simp
  moreover have "scan_nat 0 (fmt_lu w @ '', ID='' @ r) = (unat w, '', ID='' @ r)" "scan_nat 0 (fmt_lu w @ ?n @ r) = (unat w, ?n @ r)"
    "scan_nat 0 (fmt_lu w @ []) = (unat w, [])" for w r
    by (rule scan_lu; simp add: is_dig_def)+
  ultimately show ?thesis unfolding evt_line_def read_detail_def expect_append bind.simps(2) by (simp only: prod.case expect_append bind.simps(2) fst_conv)
qed

definition cmd_line :: "IOC_CmdDesc_T \<Rightarrow> string" where
  "cmd_line c = ''CmdDesc[SeqID='' @ fmt_lu (SeqID (CmdMsgDesc c)) @ '', Cmd='' @ IOC_getCmdClassStr (CmdID c) @ '':'' @
     IOC_getCmdNameStr (CmdID c) @ '', Status='' @ IOC_CmdDesc_getStatusStr (Status c) @
     '', Result='' @ fmt_d (result_code (CmdResult c)) @ '', TimeoutMs='' @ fmt_lu (TimeoutMs c)"

lemma cmd_line: "IOC_CmdDesc_toPrintableStr c buf = print_to 128 buf (cmd_line c @ '']'')" "length (cmd_line c) \<le> 127"
proof -
  obtain n where n: "IOC_CmdDesc_getCmdFullNameStr c None = Some n" "length n \<le> 21"
    "n = IOC_getCmdClassStr (CmdID c) @ '':'' @ IOC_getCmdNameStr (CmdID c)" using cmd_full_name by blast
  then show "IOC_CmdDesc_toPrintableStr c buf = print_to 128 buf (cmd_line c @ '']'')"
    by (simp add: IOC_CmdDesc_toPrintableStr_def cmd_line_def)
  show "length (cmd_line c) \<le> 127"
    using n(2,3) length_lu [of "SeqID (CmdMsgDesc c)"] length_lu [of "TimeoutMs c"] length_status [of "Status c"]
      length_result [of "CmdResult c"] by (simp add: cmd_line_def)
qed

text \<open>The text of a service URI, when it fits, determines the URI, if neither its protocol nor its host has a colon.\<close>

lemma split_at: "x \<notin> set p \<Longrightarrow> x \<notin> set q \<Longrightarrow> p @ x # r = q @ x # s \<longleftrightarrow> p = q \<and> r = s"
proof (induction p arbitrary: q)
  case (Cons c p)
  then show ?case by (cases q) auto
next
  case Nil
  then show ?case by (cases q) auto
qed

lemma port_inj: "fmt_d (uint a) @ CHR ''/'' # r = fmt_d (uint b) @ CHR ''/'' # s \<longleftrightarrow> a = b \<and> r = s" for a b :: "16 word"
proof
  assume "fmt_d (uint a) @ CHR ''/'' # r = fmt_d (uint b) @ CHR ''/'' # s"
  then have "scan_nat 0 (dec (unat a) @ CHR ''/'' # r) = scan_nat 0 (dec (unat b) @ CHR ''/'' # s)"
    by (simp add: fmt_d_def)
  then show "a = b \<and> r = s" unfolding scan_dec by (simp add: is_dig_def word_unat_eq_iff)
qed simp

definition uri_line :: "IOC_SrvURI_T \<Rightarrow> string" where
  "uri_line u = pProtocol u @ ''://'' @ pHost u @ '':'' @ fmt_d (uint (Port u)) @ ''/'' @ pPath u"

theorem srv_uri_line_injective:
  assumes "CHR '':'' \<notin> set (pProtocol u)" "CHR '':'' \<notin> set (pProtocol v)" "CHR '':'' \<notin> set (pHost u)" "CHR '':'' \<notin> set (pHost v)"
    "length (uri_line u) < n" "length (uri_line v) < n"
  shows "IOC_Helper_printSingleLineSrvURI u (Some n) = IOC_Helper_printSingleLineSrvURI v (Some n) \<longleftrightarrow> u = v"
proof -
  have "IOC_Helper_printSingleLineSrvURI u (Some n) = Some (uri_line u)" "IOC_Helper_printSingleLineSrvURI v (Some n) = Some (uri_line v)"
    using assms(5,6) unfolding IOC_Helper_printSingleLineSrvURI_def print_to_def snprintf_def uri_line_def [symmetric] by simp_all
  moreover have "uri_line u = uri_line v \<longleftrightarrow> pProtocol u = pProtocol v \<and> pHost u = pHost v \<and> Port u = Port v \<and> pPath u = pPath v"
    using assms(1-4) by (simp add: uri_line_def split_at port_inj)
  ultimately show ?thesis by (cases u; cases v) auto
qed

section \<open>Properties\<close>

text \<open>C40: The text of an event.  With a buffer of 109 bytes the sequence number, the identifier and the value can be
  read back from it, whatever they are.  The static buffer of 64 bytes is too small: two events that differ in their
  value alone have the same text.\<close>

theorem evt_detail_roundtrip:
  assumes "109 \<le> n"
  shows "(\<exists>s. IOC_EvtDesc_printDetail e (Some n) = Some s \<and>
      read_detail s = Some (unat (SeqID (MsgDesc e)), unat (EvtID e), unat (EvtValue e))) \<and>
    (\<exists>a b. MsgDesc a = MsgDesc b \<and> EvtID a = EvtID b \<and> EvtValue a \<noteq> EvtValue b \<and>
      IOC_EvtDesc_printDetail a None = IOC_EvtDesc_printDetail b None)"
proof (rule conjI)
  have "length (evt_line e) \<le> n - 1" using assms evt_line(2) [of e] by simp
  then have "IOC_EvtDesc_printDetail e (Some n) = Some (evt_line e)" using assms by (simp add: evt_line(1) print_to_def snprintf_def)
  then show "\<exists>s. IOC_EvtDesc_printDetail e (Some n) = Some s \<and>
      read_detail s = Some (unat (SeqID (MsgDesc e)), unat (EvtID e), unat (EvtValue e))" by (simp add: read_evt_line)
  let ?e = "\<lambda>v. \<lparr>MsgDesc = zero_msg\<lparr>SeqID := 1000000000\<rparr>, EvtID = 262145, EvtValue = v\<rparr>"
  have "length (fmt_lu 1000000000) = 10" "length (fmt_lu 262145) = 6" by (simp_all add: fmt_lu_def dec_length)
  moreover have "IOC_getEvtClassStr 262145 = ''TEST''" "IOC_getEvtNameStr 262145 = ''HELLO_FROM_ODD_TO_EVEN''"
    by (simp_all add: IOC_getEvtClassStr_def IOC_getEvtNameStr_def IOC_getEvtClassID_def IOC_getEvtNameID_def IOC_EVT_CLASS_TEST_def
        IOC_getTestClassEvtNameStr_def)
  ultimately have "take 63 (evt_line (?e v)) = take 63 (evt_line (?e 0))" for v by (simp add: evt_line_def)
  from this [of 12345] this [of 12346] have "IOC_EvtDesc_printDetail (?e 12345) None = IOC_EvtDesc_printDetail (?e 12346) None"
    by (simp add: evt_line(1) print_to_def snprintf_def)
  then show "\<exists>a b. MsgDesc a = MsgDesc b \<and> EvtID a = EvtID b \<and> EvtValue a \<noteq> EvtValue b \<and>
      IOC_EvtDesc_printDetail a None = IOC_EvtDesc_printDetail b None"
    by (intro exI [of _ "?e 12345"] exI [of _ "?e 12346"]) simp
qed

theorem evt_detail_roundtrip_witness:
  "\<exists>s. IOC_EvtDesc_printDetail (zero_evt\<lparr>EvtID := 65537, EvtValue := 42\<rparr>) (Some 109) = Some s \<and>
    read_detail s = Some (0, 65537, 42)"
  using evt_detail_roundtrip [of 109 "zero_evt\<lparr>EvtID := 65537, EvtValue := 42\<rparr>"] by (simp add: zero_evt_def zero_msg_def)

text \<open>The text of a command in the static buffer of 128 bytes is complete but for at most its closing bracket, which
  can really be missing.\<close>

theorem cmd_printable_fits:
  "(\<exists>s t. IOC_CmdDesc_toPrintableStr c None = Some s \<and> IOC_CmdDesc_toPrintableStr c (Some 129) = Some (s @ t) \<and>
      (t = '''' \<or> t = '']'')) \<and>
   (\<exists>d s. IOC_CmdDesc_toPrintableStr d None = Some s \<and> IOC_CmdDesc_toPrintableStr d (Some 129) = Some (s @ '']''))"
proof (rule conjI)
  have l: "length (cmd_line c) \<le> 127" by (rule cmd_line)
  show "\<exists>s t. IOC_CmdDesc_toPrintableStr c None = Some s \<and> IOC_CmdDesc_toPrintableStr c (Some 129) = Some (s @ t) \<and>
      (t = '''' \<or> t = '']'')"
  proof (cases "length (cmd_line c) = 127")
    case False
    then show ?thesis using l by (auto simp: cmd_line(1) print_to_def snprintf_def intro!: exI [of _ "''''"])
  qed (simp add: cmd_line(1) print_to_def snprintf_def)
  let ?d = "zero_cmd\<lparr>CmdMsgDesc := zero_msg\<lparr>SeqID := - 1\<rparr>, CmdID := IOC_CMD_CLASS_SYSTEM, Status := IOC_CMD_STATUS_INITIALIZED,
    CmdResult := IOC_RESULT_FORBIDDEN, TimeoutMs := - 1\<rparr>"
  have "unat (- 1 :: ULONG) = 18446744073709551615" by (simp add: unsigned_minus_1_eq_mask mask_eq_exp_minus_1)
  then have "length (fmt_lu (- 1)) = 20" by (simp only: fmt_lu_def) (simp add: dec_length)
  moreover have "length (fmt_d (- 1000)) = 5" by (simp add: fmt_d_def dec_length)
  moreover have "IOC_getCmdClassStr IOC_CMD_CLASS_SYSTEM = ''SYSTEM''" "IOC_getCmdNameStr IOC_CMD_CLASS_SYSTEM = ''UNKNOWN_SYSTEM''"
    by (simp_all add: IOC_getCmdClassStr_def IOC_getCmdNameStr_def IOC_getCmdClassID_def IOC_getCmdNameID_def
        IOC_CMD_CLASS_SYSTEM_def IOC_CMD_CLASS_TEST_def)
  ultimately have "length (cmd_line ?d) = 127" by (simp add: cmd_line_def)
  then show "\<exists>d s. IOC_CmdDesc_toPrintableStr d None = Some s \<and> IOC_CmdDesc_toPrintableStr d (Some 129) = Some (s @ '']'')"
    by (intro exI [of _ ?d]) (simp add: cmd_line(1) print_to_def snprintf_def)
qed

end
