(* ===== verification/PollingBuffer.thy ===== *)
theory PollingBuffer
  imports BaseTypes
begin

text \<open>
  The 64 KB circular byte buffer of a link in polling mode, which both protocols have:
  \<^verbatim>\<open>DatReceiver.PollingBuffer\<close> of \<^verbatim>\<open>src/Source/_IOC_SrvProtoFifo.c\<close>, written and read with at
  most two \<^verbatim>\<open>memcpy\<close> calls, and \<^verbatim>\<open>PollingBuffer\<close> of \<^verbatim>\<open>src/Source/_IOC_SrvProtoTCP.c\<close>, written
  and read by a loop over chunks.  Positions and sizes are natural numbers: under the invariant
  they stay below 65537, so that \<^verbatim>\<open>size_t\<close> arithmetic on them is exact.
  Both implement the byte stream interface.
\<close>

section \<open>State\<close>

record PollingBuffer_T =
  pDataBuffer :: "byte list"
  BufferSize :: nat
  DataStart :: nat
  DataEnd :: nat
  AvailableData :: nat
  IsPollingMode :: bool

definition POLLING_BUFFER_SIZE :: nat where "POLLING_BUFFER_SIZE = 64 * 1024"

text \<open>\<open>mem\<close> is the block \<^verbatim>\<open>malloc(64 KB)\<close> answered (its bytes are arbitrary), \<open>None\<close> a failure.
  The condition variable carries no data.\<close>

definition fifo_initPollingBuffer ::
  "byte list option \<Rightarrow> PollingBuffer_T \<Rightarrow> IOC_Result_T \<times> PollingBuffer_T" where
  "fifo_initPollingBuffer mem b = (case mem of
     None \<Rightarrow> (IOC_RESULT_POSIX_ENOMEM, b\<lparr>pDataBuffer := []\<rparr>)
   | Some block \<Rightarrow> (IOC_RESULT_SUCCESS,
       b\<lparr>pDataBuffer := block, BufferSize := POLLING_BUFFER_SIZE, DataStart := 0, DataEnd := 0,
         AvailableData := 0, IsPollingMode := False\<rparr>))"

definition tcp_initPollingBuffer ::
  "byte list option \<Rightarrow> PollingBuffer_T \<Rightarrow> IOC_Result_T \<times> PollingBuffer_T" where
  "tcp_initPollingBuffer mem b = (let sz = 64 * 1024 in case mem of
     None \<Rightarrow> (IOC_RESULT_POSIX_ENOMEM, b\<lparr>pDataBuffer := []\<rparr>)
   | Some block \<Rightarrow> (IOC_RESULT_SUCCESS,
       b\<lparr>pDataBuffer := block, BufferSize := sz, DataStart := 0, DataEnd := 0,
         AvailableData := 0, IsPollingMode := False\<rparr>))"

section \<open>The buffer of the FIFO protocol\<close>

text \<open>\<open>pData\<close> is the block the pointer names (\<open>None\<close>: \<^verbatim>\<open>NULL\<close>) and \<^verbatim>\<open>DataSize\<close> its length.\<close>

definition fifo_storeDataInPollingBuffer ::
  "byte list option \<Rightarrow> PollingBuffer_T \<Rightarrow> IOC_Result_T \<times> PollingBuffer_T" where
  "fifo_storeDataInPollingBuffer pData b = (case pData of
     None \<Rightarrow> (IOC_RESULT_INVALID_PARAM, b)
   | Some d \<Rightarrow>
      if length d = 0 then (IOC_RESULT_INVALID_PARAM, b)
      else let free_space = BufferSize b - AvailableData b in
        if length d > free_space then (IOC_RESULT_BUFFER_FULL, b)
        else let to_end = BufferSize b - DataEnd b;
                 b' = (if length d \<le> to_end
                   then b\<lparr>pDataBuffer := blit (DataEnd b) d (pDataBuffer b),
                          DataEnd := (DataEnd b + length d) mod BufferSize b\<rparr>
                   else b\<lparr>pDataBuffer := blit 0 (drop to_end d)
                            (blit (DataEnd b) (take to_end d) (pDataBuffer b)),
                          DataEnd := length d - to_end\<rparr>)
             in (IOC_RESULT_SUCCESS, b'\<lparr>AvailableData := AvailableData b + length d\<rparr>))"

text \<open>The copying part that the two read functions share; the result is the bytes copied out.\<close>

definition fifo_copyOut :: "nat \<Rightarrow> PollingBuffer_T \<Rightarrow> byte list \<times> PollingBuffer_T" where
  "fifo_copyOut sz b =
    (let to_read = (if sz < AvailableData b then sz else AvailableData b);
         start = DataStart b;
         to_end = BufferSize b - start;
         (out, b') = (if to_read \<le> to_end
           then (take to_read (drop start (pDataBuffer b)),
                 b\<lparr>DataStart := (start + to_read) mod BufferSize b\<rparr>)
           else (take to_end (drop start (pDataBuffer b)) @
                   take (to_read - to_end) (pDataBuffer b),
                 b\<lparr>DataStart := to_read - to_end\<rparr>))
     in (out, b'\<lparr>AvailableData := AvailableData b - to_read\<rparr>))"

text \<open>
  Waiting on \<^verbatim>\<open>DataAvailableCond\<close> releases the link's mutex: each element of \<open>wakes\<close> is what the
  other threads do to the buffer before the waiting thread runs again; when nobody wakes it any
  more it blocks.
\<close>

fun await_data :: "('s \<Rightarrow> bool) \<Rightarrow> ('s \<Rightarrow> 's) list \<Rightarrow> 's \<Rightarrow> 's outcome" where
  "await_data ready wakes s = (if ready s then Done s
     else case wakes of [] \<Rightarrow> Block | w # ws \<Rightarrow> await_data ready ws (w s))"

definition fifo_readDataFromPollingBuffer ::
  "nat \<Rightarrow> bool \<Rightarrow> (PollingBuffer_T \<Rightarrow> PollingBuffer_T) list \<Rightarrow> PollingBuffer_T \<Rightarrow>
   (IOC_Result_T \<times> byte list \<times> PollingBuffer_T) outcome" where
  "fifo_readDataFromPollingBuffer sz IsBlocking wakes b =
    (if sz = 0 then Done (IOC_RESULT_INVALID_PARAM, [], b)
     else if IsBlocking then
       bindO (await_data (\<lambda>b. AvailableData b \<noteq> 0) wakes b) (\<lambda>b1.
         let (out, b2) = fifo_copyOut sz b1 in Done (IOC_RESULT_SUCCESS, out, b2))
     else if AvailableData b = 0 then Done (IOC_RESULT_NO_DATA, [], b)
     else let (out, b2) = fifo_copyOut sz b in Done (IOC_RESULT_SUCCESS, out, b2))"

text \<open>\<open>timed\<close> is the one timed wait of the finite case: whether it reports \<^verbatim>\<open>ETIMEDOUT\<close>, and what
  the other threads did meanwhile.  The absolute deadline is computed from the clock and only
  passed to \<^verbatim>\<open>pthread_cond_timedwait\<close>.\<close>

definition fifo_readDataFromPollingBufferWithTimeout ::
  "nat \<Rightarrow> int \<Rightarrow> (PollingBuffer_T \<Rightarrow> PollingBuffer_T) list \<Rightarrow>
   bool \<times> (PollingBuffer_T \<Rightarrow> PollingBuffer_T) \<Rightarrow> PollingBuffer_T \<Rightarrow>
   (IOC_Result_T \<times> byte list \<times> PollingBuffer_T) outcome" where
  "fifo_readDataFromPollingBufferWithTimeout sz timeoutUS wakes timed b =
    (let finish = (\<lambda>b1. let (out, b2) = fifo_copyOut sz b1 in Done (IOC_RESULT_SUCCESS, out, b2))
     in if sz = 0 then Done (IOC_RESULT_INVALID_PARAM, [], b)
     else if timeoutUS = 0 \<or> timeoutUS = 1000 then
       if AvailableData b = 0 then Done (IOC_RESULT_TIMEOUT, [], b) else finish b
     else if timeoutUS < 0 then
       bindO (await_data (\<lambda>b. AvailableData b \<noteq> 0) wakes b) finish
     else if AvailableData b = 0 then
       let b1 = snd timed b
       in if fst timed \<or> AvailableData b1 = 0 then Done (IOC_RESULT_TIMEOUT, [], b1) else finish b1
     else finish b)"

section \<open>The buffer of the TCP protocol\<close>

text \<open>
  The chunk loops.  With a write position equal to the buffer size the chunk would be empty and
  the loop endless, hence the partial functions; under the invariant they end.
\<close>

partial_function (option) tcp_writeLoop ::
  "nat \<Rightarrow> byte list \<Rightarrow> nat \<Rightarrow> byte list \<Rightarrow> (byte list \<times> nat) option" where
  "tcp_writeLoop sz buf pos src =
    (if length src > 0 then
       let chunk = (if pos + length src > sz then sz - pos else length src)
       in tcp_writeLoop sz (blit pos (take chunk src) buf) ((pos + chunk) mod sz)
            (drop chunk src)
     else Some (buf, pos))"

partial_function (option) tcp_readLoop ::
  "nat \<Rightarrow> byte list \<Rightarrow> nat \<Rightarrow> nat \<Rightarrow> byte list \<Rightarrow> (byte list \<times> nat) option" where
  "tcp_readLoop sz buf pos remaining dest =
    (if remaining > 0 then
       let chunk = (if pos + remaining > sz then sz - pos else remaining)
       in tcp_readLoop sz buf ((pos + chunk) mod sz) (remaining - chunk)
            (dest @ take chunk (drop pos buf))
     else Some (dest, pos))"

definition tcp_writeDataToPollingBuffer ::
  "byte list option \<Rightarrow> PollingBuffer_T \<Rightarrow> (IOC_Result_T \<times> PollingBuffer_T) outcome" where
  "tcp_writeDataToPollingBuffer pData b = (case pData of
     None \<Rightarrow> Done (IOC_RESULT_INVALID_PARAM, b)
   | Some d \<Rightarrow>
      if length d = 0 then Done (IOC_RESULT_INVALID_PARAM, b)
      else let free_space = BufferSize b - AvailableData b in
        if length d > free_space then Done (IOC_RESULT_BUFFER_FULL, b)
        else case tcp_writeLoop (BufferSize b) (pDataBuffer b) (DataEnd b) d of
          None \<Rightarrow> Block
        | Some (buf, pos) \<Rightarrow> Done (IOC_RESULT_SUCCESS,
            b\<lparr>pDataBuffer := buf, DataEnd := pos, AvailableData := AvailableData b + length d\<rparr>))"

definition tcp_copyOut :: "nat \<Rightarrow> PollingBuffer_T \<Rightarrow> (byte list \<times> PollingBuffer_T) outcome" where
  "tcp_copyOut sz b =
    (let to_read = (if AvailableData b < sz then AvailableData b else sz)
     in case tcp_readLoop (BufferSize b) (pDataBuffer b) (DataStart b) to_read [] of
          None \<Rightarrow> Block
        | Some (out, pos) \<Rightarrow>
            Done (out, b\<lparr>DataStart := pos, AvailableData := AvailableData b - to_read\<rparr>))"

text \<open>
  The reader also looks at \<^verbatim>\<open>RecvError\<close>, the error that ended the receiving thread.  In the timed
  case \<open>timed\<close> lists the results of the successive waits, \<open>True\<close> for \<^verbatim>\<open>ETIMEDOUT\<close>.
\<close>

fun tcp_timedWait ::
  "(bool \<times> (PollingBuffer_T \<times> IOC_Result_T \<Rightarrow> PollingBuffer_T \<times> IOC_Result_T)) list \<Rightarrow>
   PollingBuffer_T \<times> IOC_Result_T \<Rightarrow> (bool \<times> PollingBuffer_T \<times> IOC_Result_T) outcome" where
  "tcp_timedWait timed s =
    (if \<not> (AvailableData (fst s) = 0 \<and> snd s = IOC_RESULT_SUCCESS) then Done (False, s)
     else case timed of [] \<Rightarrow> Block
       | (expired, w) # ws \<Rightarrow> if expired then Done (True, w s) else tcp_timedWait ws (w s))"

definition tcp_readDataFromPollingBuffer ::
  "nat \<Rightarrow> int \<Rightarrow> (PollingBuffer_T \<times> IOC_Result_T \<Rightarrow> PollingBuffer_T \<times> IOC_Result_T) list \<Rightarrow>
   (bool \<times> (PollingBuffer_T \<times> IOC_Result_T \<Rightarrow> PollingBuffer_T \<times> IOC_Result_T)) list \<Rightarrow>
   PollingBuffer_T \<times> IOC_Result_T \<Rightarrow>
   (IOC_Result_T \<times> byte list \<times> PollingBuffer_T \<times> IOC_Result_T) outcome" where
  "tcp_readDataFromPollingBuffer sz timeoutUS wakes timed s =
    (let finish = (\<lambda>(b, err).
           if err \<noteq> IOC_RESULT_SUCCESS then Done (err, [], b, err)
           else bindO (tcp_copyOut sz b) (\<lambda>(out, b'). Done (IOC_RESULT_SUCCESS, out, b', err)))
     in if AvailableData (fst s) = 0 then
          if timeoutUS = 0 then Done (IOC_RESULT_NO_DATA, [], s)
          else if timeoutUS < 0 then
            bindO (await_data (\<lambda>s. \<not> (AvailableData (fst s) = 0 \<and> snd s = IOC_RESULT_SUCCESS))
              wakes s) finish
          else bindO (tcp_timedWait timed s) (\<lambda>(expired, s').
            if expired then Done (IOC_RESULT_TIMEOUT, [], s') else finish s')
        else finish s)"

section \<open>Invariant and contents\<close>

definition pb_inv :: "PollingBuffer_T \<Rightarrow> bool" where
  "pb_inv b \<longleftrightarrow> length (pDataBuffer b) = BufferSize b \<and> BufferSize b = POLLING_BUFFER_SIZE \<and>
     DataStart b < BufferSize b \<and> AvailableData b \<le> BufferSize b \<and>
     DataEnd b = (DataStart b + AvailableData b) mod BufferSize b"

definition pb_bytes :: "PollingBuffer_T \<Rightarrow> byte list" where
  "pb_bytes b = ring_contents (pDataBuffer b) (DataStart b) (AvailableData b)"

lemma pb_inv_size: "pb_inv b \<Longrightarrow> 0 < BufferSize b"
  by (simp add: pb_inv_def POLLING_BUFFER_SIZE_def)

lemma pb_inv_end: "pb_inv b \<Longrightarrow> DataEnd b < BufferSize b"
  using pb_inv_size [of b] by (simp add: pb_inv_def)

lemma length_pb_bytes [simp]: "length (pb_bytes b) = AvailableData b"
  by (simp add: pb_bytes_def)

text \<open>\<open>ring_written buf p d buf'\<close>: \<open>buf'\<close> is \<open>buf\<close> with \<open>d\<close> written from position \<open>p\<close> on, around the
  end.\<close>

definition ring_written :: "'a list \<Rightarrow> nat \<Rightarrow> 'a list \<Rightarrow> 'a list \<Rightarrow> bool" where
  "ring_written buf p d buf' \<longleftrightarrow> length buf' = length buf \<and>
     (\<forall>i<length d. buf' ! ((p + i) mod length buf) = d ! i) \<and>
     (\<forall>j<length buf. (\<forall>i<length d. j \<noteq> (p + i) mod length buf) \<longrightarrow> buf' ! j = buf ! j)"

lemma ring_written_chunk:
  assumes "p < length buf" "p + length d \<le> length buf"
  shows "ring_written buf p d (blit p d buf)"
proof -
  have "blit p d buf ! j = buf ! j"
    if "j < length buf" "\<forall>i<length d. j \<noteq> (p + i) mod length buf" for j
  proof -
    have "\<not> (p \<le> j \<and> j < p + length d)"
    proof
      assume j: "p \<le> j \<and> j < p + length d"
      then have "j \<noteq> (p + (j - p)) mod length buf"
        using spec [OF that(2), of "j - p"] by auto
      then show False using j that(1) by simp
    qed
    then show ?thesis using nth_blit [OF assms(2) that(1)] by argo
  qed
  then show ?thesis using assms by (auto simp: ring_written_def nth_blit)
qed

lemma ring_written_append:
  assumes "ring_written buf p d1 buf1" "ring_written buf1 (p + length d1) d2 buf2"
    "length d1 + length d2 \<le> length buf"
  shows "ring_written buf p (d1 @ d2) buf2"
proof -
  have len: "length buf1 = length buf" "length buf2 = length buf"
    using assms by (simp_all add: ring_written_def)
  have keep: "buf2 ! ((p + i) mod length buf) = d1 ! i" if "i < length d1" for i
  proof -
    have "(p + i) mod length buf \<noteq> (p + length d1 + k) mod length buf" if "k < length d2" for k
      using mod_eq_less_diff [of p i "length buf" "length d1 + k"] that \<open>i < length d1\<close> assms(3)
      by (auto simp: add.assoc)
    moreover have "(p + i) mod length buf < length buf"
      using that assms(3) by (intro mod_less_divisor) linarith
    ultimately have "buf2 ! ((p + i) mod length buf) = buf1 ! ((p + i) mod length buf)"
      using assms(2) len by (simp add: ring_written_def)
    then show ?thesis using assms(1) that by (simp add: ring_written_def)
  qed
  have "buf2 ! ((p + i) mod length buf) = (d1 @ d2) ! i" if "i < length (d1 @ d2)" for i
  proof (cases "i < length d1")
    case True
    then show ?thesis using keep by (simp add: nth_append)
  next
    case False
    then have "i - length d1 < length d2" "p + length d1 + (i - length d1) = p + i"
      using that by auto
    then have "buf2 ! ((p + i) mod length buf) = d2 ! (i - length d1)"
      using assms(2) len unfolding ring_written_def by metis
    then show ?thesis using False by (simp add: nth_append)
  qed
  moreover have "buf2 ! j = buf ! j"
    if "j < length buf" "\<forall>i<length (d1 @ d2). j \<noteq> (p + i) mod length buf" for j
  proof -
    have "j \<noteq> (p + i) mod length buf" if "i < length d1" for i
      using that \<open>\<forall>i<length (d1 @ d2). _ i\<close> by simp
    moreover have "j \<noteq> (p + length d1 + i) mod length buf" if "i < length d2" for i
      using spec [OF \<open>\<forall>i<length (d1 @ d2). _ i\<close>, of "length d1 + i"] that by (simp add: add.assoc)
    ultimately show ?thesis
      using assms(1,2) that(1) len by (simp add: ring_written_def)
  qed
  ultimately show ?thesis using len by (simp add: ring_written_def)
qed

lemma ring_written_mod:
  "ring_written buf (p mod length buf) d buf' \<longleftrightarrow> ring_written buf p d buf'"
  by (simp add: ring_written_def mod_add_left_eq)

lemma ring_written_contents:
  assumes "ring_written buf (p + n) d buf'" "n + length d \<le> length buf"
  shows "ring_contents buf' p (n + length d) = ring_contents buf p n @ d"
proof (rule nth_equalityI)
  fix i assume "i < length (ring_contents buf' p (n + length d))"
  then have i: "i < n + length d" by simp
  have len: "length buf' = length buf" using assms by (simp add: ring_written_def)
  show "ring_contents buf' p (n + length d) ! i = (ring_contents buf p n @ d) ! i"
  proof (cases "i < n")
    case True
    have "(p + i) mod length buf \<noteq> (p + n + k) mod length buf" if "k < length d" for k
      using mod_eq_less_diff [of p i "length buf" "n + k"] that True assms(2)
      by (auto simp: add.assoc)
    moreover have "(p + i) mod length buf < length buf"
      using True assms(2) by (intro mod_less_divisor) linarith
    ultimately have "buf' ! ((p + i) mod length buf) = buf ! ((p + i) mod length buf)"
      using assms(1) by (simp add: ring_written_def)
    then show ?thesis using True i len by (simp add: ring_contents_def nth_append)
  next
    case False
    then have "i - n < length d" "p + n + (i - n) = p + i" using i by auto
    then have "buf' ! ((p + i) mod length buf) = d ! (i - n)"
      using assms(1) unfolding ring_written_def by metis
    then show ?thesis using False i len by (simp add: ring_contents_def nth_append)
  qed
qed simp

text \<open>The two copies of the FIFO protocol.\<close>

lemma ring_written_two_copies:
  assumes "p < length buf" "length d \<le> length buf" "\<not> length d \<le> length buf - p"
  shows "ring_written buf p d
    (blit 0 (drop (length buf - p) d) (blit p (take (length buf - p) d) buf))"
proof -
  let ?k = "length buf - p"
  have 1: "ring_written buf p (take ?k d) (blit p (take ?k d) buf)"
    using assms by (intro ring_written_chunk) auto
  have "ring_written (blit p (take ?k d) buf) 0 (drop ?k d)
      (blit 0 (drop ?k d) (blit p (take ?k d) buf))"
    using assms by (intro ring_written_chunk) auto
  then have "ring_written (blit p (take ?k d) buf) (p + length (take ?k d)) (drop ?k d)
      (blit 0 (drop ?k d) (blit p (take ?k d) buf))"
    using assms ring_written_mod [of "blit p (take ?k d) buf" "p + length (take ?k d)"]
    by (simp add: min_def)
  from ring_written_append [OF 1 this] show ?thesis using assms by simp
qed

text \<open>The chunk loops of the TCP protocol end, and write and read the same cells.\<close>

lemma mod_wrap:
  fixes p n m :: nat
  assumes "p < m" "n \<le> m" "m - p \<le> n"
  shows "(p + n) mod m = n - (m - p)"
proof -
  have "(p + n) mod m = (p + n - m) mod m" using assms by (intro le_mod_geq) linarith
  then show ?thesis using assms by simp
qed

lemma tcp_writeLoop_Nil [simp]: "tcp_writeLoop sz buf pos [] = Some (buf, pos)"
  by (subst tcp_writeLoop.simps) simp

lemma tcp_readLoop_0 [simp]: "tcp_readLoop sz buf pos 0 dest = Some (dest, pos)"
  by (subst tcp_readLoop.simps) simp

lemma tcp_writeLoop_ends:
  assumes "p < length buf" "length d \<le> length buf"
  shows "\<exists>buf'. tcp_writeLoop (length buf) buf p d = Some (buf', (p + length d) mod length buf) \<and>
    ring_written buf p d buf'"
proof (cases "d = []")
  case True
  then show ?thesis using assms
    by (simp add: ring_written_def)
next
  case nonempty: False
  show ?thesis
  proof (cases "p + length d \<le> length buf")
    case True
    then have "tcp_writeLoop (length buf) buf p d =
        Some (blit p d buf, (p + length d) mod length buf)"
      using nonempty by (subst tcp_writeLoop.simps) simp
    then show ?thesis using ring_written_chunk [OF assms(1) True] by simp
  next
    case False
    let ?k = "length buf - p"
    let ?b1 = "blit p (take ?k d) buf" and ?d2 = "drop ?k d"
    have d2: "?d2 \<noteq> []" "length ?d2 \<le> length buf" "length ?b1 = length buf"
      using False assms by auto
    have "tcp_writeLoop (length buf) buf p d = tcp_writeLoop (length buf) ?b1 0 ?d2"
      using nonempty False assms by (subst tcp_writeLoop.simps) (simp add: Let_def)
    also have "\<dots> = Some (blit 0 ?d2 ?b1, length ?d2 mod length buf)"
      using d2 by (subst tcp_writeLoop.simps) simp
    also have "length ?d2 mod length buf = (p + length d) mod length buf"
      using False assms mod_wrap [of p "length buf" "length d"] by simp
    finally show ?thesis
      using ring_written_two_copies [OF assms] False assms(1)
      by (simp add: le_diff_conv2 add.commute)
  qed
qed

lemma ring_contents_flat:
  "p + n \<le> length buf \<Longrightarrow> ring_contents buf p n = take n (drop p buf)"
  by (rule nth_equalityI) (auto simp: ring_contents_def)

lemma ring_contents_wrap:
  assumes "p < length buf" "n \<le> length buf" "\<not> n \<le> length buf - p"
  shows "ring_contents buf p n =
    take (length buf - p) (drop p buf) @ take (n - (length buf - p)) buf"
proof -
  let ?k = "length buf - p"
  have "ring_contents buf p n = ring_contents buf p ?k @ ring_contents buf (p + ?k) (n - ?k)"
    using assms ring_contents_add [of buf p ?k "n - ?k"] by simp
  also have "ring_contents buf (p + ?k) (n - ?k) = ring_contents buf 0 (n - ?k)"
    using assms ring_contents_mod [of buf "p + ?k"] by simp
  finally show ?thesis using assms by (simp add: ring_contents_flat)
qed

lemma ring_contents_take_drop:
  assumes "n \<le> m"
  shows "take n (ring_contents buf p m) = ring_contents buf p n"
    and "drop n (ring_contents buf p m) = ring_contents buf (p + n) (m - n)"
  using ring_contents_add [of buf p n "m - n"] assms by simp_all

lemma tcp_readLoop_ends:
  assumes "p < length buf" "n \<le> length buf"
  shows "tcp_readLoop (length buf) buf p n [] =
    Some (ring_contents buf p n, (p + n) mod length buf)"
proof (cases "n \<le> length buf - p")
  case True
  then show ?thesis
  proof (cases "n = 0")
    case False
    then have "tcp_readLoop (length buf) buf p n [] =
        Some (take n (drop p buf), (p + n) mod length buf)"
      using True assms by (subst tcp_readLoop.simps) simp
    then show ?thesis using True assms by (simp add: ring_contents_flat)
  qed (use assms in simp)
next
  case False
  let ?k = "length buf - p"
  have "tcp_readLoop (length buf) buf p n [] =
      tcp_readLoop (length buf) buf 0 (n - ?k) (take ?k (drop p buf))"
    using False assms by (subst tcp_readLoop.simps) (auto simp: Let_def)
  also have "\<dots> = Some (take ?k (drop p buf) @ take (n - ?k) buf, (n - ?k) mod length buf)"
  proof -
    have "\<not> length buf < n + p - length buf" using assms by linarith
    then show ?thesis using False assms by (subst tcp_readLoop.simps) (simp add: Let_def)
  qed
  also have "(n - ?k) mod length buf = (p + n) mod length buf"
    using False assms mod_wrap [of p "length buf" n] by simp
  finally show ?thesis using False assms by (simp add: ring_contents_wrap)
qed

section \<open>The four operations on the stream\<close>

lemma pb_inv_written:
  assumes "pb_inv b" "AvailableData b + length d \<le> BufferSize b"
    "ring_written (pDataBuffer b) (DataEnd b) d buf'"
    "b' = b\<lparr>pDataBuffer := buf', DataEnd := (DataEnd b + length d) mod BufferSize b,
        AvailableData := AvailableData b + length d\<rparr>"
  shows "pb_inv b'" "pb_bytes b' = pb_bytes b @ d"
proof -
  have inv: "length (pDataBuffer b) = BufferSize b"
    "DataEnd b = (DataStart b + AvailableData b) mod length (pDataBuffer b)"
    using assms(1) by (simp_all add: pb_inv_def)
  have w: "ring_written (pDataBuffer b) (DataStart b + AvailableData b) d buf'"
    using assms(3) unfolding inv(2) ring_written_mod .
  show "pb_bytes b' = pb_bytes b @ d"
    using ring_written_contents [OF w] assms(2) inv(1) by (simp add: pb_bytes_def assms(4))
  show "pb_inv b'"
    using assms(1,2,4) w by (auto simp: pb_inv_def ring_written_def mod_add_left_eq add.assoc)
qed

lemma fifo_store_spec:
  assumes "pb_inv b" "d \<noteq> []"
  shows "\<exists>r b'. fifo_storeDataInPollingBuffer (Some d) b = (r, b') \<and> pb_inv b' \<and>
    (if AvailableData b + length d \<le> BufferSize b
     then r = IOC_RESULT_SUCCESS \<and> pb_bytes b' = pb_bytes b @ d
     else r = IOC_RESULT_BUFFER_FULL \<and> b' = b)"
proof (cases "AvailableData b + length d \<le> BufferSize b")
  case fits: True
  have inv: "length (pDataBuffer b) = BufferSize b" "AvailableData b \<le> BufferSize b"
    "DataEnd b < BufferSize b"
    using assms(1) pb_inv_end by (auto simp: pb_inv_def)
  define buf' where "buf' = (if length d \<le> BufferSize b - DataEnd b
    then blit (DataEnd b) d (pDataBuffer b)
    else blit 0 (drop (BufferSize b - DataEnd b) d)
      (blit (DataEnd b) (take (BufferSize b - DataEnd b) d) (pDataBuffer b)))"
  have "ring_written (pDataBuffer b) (DataEnd b) d buf'"
    using inv fits ring_written_chunk [of "DataEnd b" "pDataBuffer b" d]
      ring_written_two_copies [of "DataEnd b" "pDataBuffer b" d]
    by (simp add: buf'_def split: if_splits)
  note w = pb_inv_written [OF assms(1) fits this refl]
  have "(DataEnd b + length d) mod BufferSize b = length d - (BufferSize b - DataEnd b)"
    if "\<not> length d \<le> BufferSize b - DataEnd b"
    using that inv fits by (intro mod_wrap) auto
  then have "fifo_storeDataInPollingBuffer (Some d) b = (IOC_RESULT_SUCCESS,
      b\<lparr>pDataBuffer := buf', DataEnd := (DataEnd b + length d) mod BufferSize b,
        AvailableData := AvailableData b + length d\<rparr>)"
    using assms(2) fits by (simp add: fifo_storeDataInPollingBuffer_def Let_def buf'_def)
  then show ?thesis using w fits by simp
next
  case False
  then have "BufferSize b - AvailableData b < length d"
    using assms(1) unfolding pb_inv_def by linarith
  then show ?thesis using assms False by (simp add: fifo_storeDataInPollingBuffer_def)
qed

lemma tcp_write_spec:
  assumes "pb_inv b" "d \<noteq> []"
  shows "\<exists>r b'. tcp_writeDataToPollingBuffer (Some d) b = Done (r, b') \<and> pb_inv b' \<and>
    (if AvailableData b + length d \<le> BufferSize b
     then r = IOC_RESULT_SUCCESS \<and> pb_bytes b' = pb_bytes b @ d
     else r = IOC_RESULT_BUFFER_FULL \<and> b' = b)"
proof (cases "AvailableData b + length d \<le> BufferSize b")
  case fits: True
  have inv: "length (pDataBuffer b) = BufferSize b" "DataEnd b < BufferSize b"
    using assms(1) pb_inv_end by (auto simp: pb_inv_def)
  obtain buf' where loop: "tcp_writeLoop (BufferSize b) (pDataBuffer b) (DataEnd b) d =
      Some (buf', (DataEnd b + length d) mod BufferSize b)"
    and w: "ring_written (pDataBuffer b) (DataEnd b) d buf'"
    using tcp_writeLoop_ends [of "DataEnd b" "pDataBuffer b" d] inv fits by auto
  show ?thesis
    using pb_inv_written [OF assms(1) fits w refl] fits assms(2) loop
    by (simp add: tcp_writeDataToPollingBuffer_def)
next
  case False
  then have "BufferSize b - AvailableData b < length d"
    using assms(1) unfolding pb_inv_def by linarith
  then show ?thesis using assms False by (simp add: tcp_writeDataToPollingBuffer_def)
qed

lemma pb_inv_read:
  assumes "pb_inv b" "n \<le> AvailableData b"
    "b' = b\<lparr>DataStart := (DataStart b + n) mod BufferSize b, AvailableData := AvailableData b - n\<rparr>"
  shows "pb_inv b'" "pb_bytes b' = drop n (pb_bytes b)"
proof -
  have inv: "length (pDataBuffer b) = BufferSize b" using assms(1) by (simp add: pb_inv_def)
  have "((DataStart b + n) mod BufferSize b + (AvailableData b - n)) mod BufferSize b =
      (DataStart b + AvailableData b) mod BufferSize b"
    using assms(2) unfolding mod_add_left_eq by (simp add: add.assoc)
  then show "pb_inv b'" using assms pb_inv_size [OF assms(1)]
    by (auto simp: pb_inv_def)
  show "pb_bytes b' = drop n (pb_bytes b)"
    using assms(2) ring_contents_mod [of "pDataBuffer b" "DataStart b + n"]
    by (simp add: pb_bytes_def assms(3) inv ring_contents_take_drop)
qed

lemma fifo_copyOut_spec:
  assumes "pb_inv b"
  shows "\<exists>b'. fifo_copyOut sz b = (take sz (pb_bytes b), b') \<and> pb_inv b' \<and>
    pb_bytes b' = drop sz (pb_bytes b)"
proof -
  define n where "n = min sz (AvailableData b)"
  have n: "n = (if sz < AvailableData b then sz else AvailableData b)" "n \<le> AvailableData b"
    by (simp_all add: n_def)
  have inv: "length (pDataBuffer b) = BufferSize b" "AvailableData b \<le> BufferSize b"
    "DataStart b < BufferSize b"
    using assms by (auto simp: pb_inv_def)
  have td: "take sz (pb_bytes b) = take n (pb_bytes b)" "drop sz (pb_bytes b) = drop n (pb_bytes b)"
    by (simp_all add: n_def min_def)
  have "take n (pb_bytes b) = ring_contents (pDataBuffer b) (DataStart b) n"
    using n(2) by (simp add: pb_bytes_def ring_contents_take_drop)
  moreover have "(DataStart b + n) mod BufferSize b = n - (BufferSize b - DataStart b)"
    if "\<not> n \<le> BufferSize b - DataStart b"
    using that inv n(2) by (intro mod_wrap) auto
  ultimately have "fifo_copyOut sz b = (take n (pb_bytes b),
      b\<lparr>DataStart := (DataStart b + n) mod BufferSize b, AvailableData := AvailableData b - n\<rparr>)"
    using inv n(2) unfolding fifo_copyOut_def n(1) [symmetric] Let_def
    by (simp add: ring_contents_flat ring_contents_wrap)
  then show ?thesis using pb_inv_read [OF assms n(2) refl] td by simp
qed

lemma tcp_copyOut_spec:
  assumes "pb_inv b"
  shows "\<exists>b'. tcp_copyOut sz b = Done (take sz (pb_bytes b), b') \<and> pb_inv b' \<and>
    pb_bytes b' = drop sz (pb_bytes b)"
proof -
  define n where "n = min sz (AvailableData b)"
  have n: "n = (if AvailableData b < sz then AvailableData b else sz)" "n \<le> AvailableData b"
    by (auto simp add: n_def)
  have inv: "length (pDataBuffer b) = BufferSize b" "AvailableData b \<le> BufferSize b"
    "DataStart b < BufferSize b"
    using assms by (auto simp: pb_inv_def)
  have td: "take sz (pb_bytes b) = take n (pb_bytes b)" "drop sz (pb_bytes b) = drop n (pb_bytes b)"
    by (simp_all add: n_def min_def)
  have "take n (pb_bytes b) = ring_contents (pDataBuffer b) (DataStart b) n"
    using n(2) by (simp add: pb_bytes_def ring_contents_take_drop)
  then have "tcp_copyOut sz b = Done (take n (pb_bytes b),
      b\<lparr>DataStart := (DataStart b + n) mod BufferSize b, AvailableData := AvailableData b - n\<rparr>)"
    using inv n(2) tcp_readLoop_ends [of "DataStart b" "pDataBuffer b" n]
    unfolding tcp_copyOut_def n(1) [symmetric] Let_def by simp
  then show ?thesis using pb_inv_read [OF assms n(2) refl] td by simp
qed

section \<open>Both buffers are byte streams\<close>

text \<open>A client that skips empty transfers, which both sides refuse as invalid.\<close>

definition fifo_wr :: "byte list \<Rightarrow> PollingBuffer_T \<Rightarrow> bool \<times> PollingBuffer_T" where
  "fifo_wr d b = (if d = [] then (True, b)
     else let (r, b') = fifo_storeDataInPollingBuffer (Some d) b in (r = IOC_RESULT_SUCCESS, b'))"

definition fifo_rd :: "nat \<Rightarrow> PollingBuffer_T \<Rightarrow> byte list \<times> PollingBuffer_T" where
  "fifo_rd n b = (case fifo_readDataFromPollingBuffer n False [] b of
     Done (r, out, b') \<Rightarrow> (out, b') | _ \<Rightarrow> ([], b))"

definition tcp_wr :: "byte list \<Rightarrow> PollingBuffer_T \<Rightarrow> bool \<times> PollingBuffer_T" where
  "tcp_wr d b = (if d = [] then (True, b)
     else case tcp_writeDataToPollingBuffer (Some d) b of
       Done (r, b') \<Rightarrow> (r = IOC_RESULT_SUCCESS, b') | _ \<Rightarrow> (False, b))"

definition tcp_rd :: "nat \<Rightarrow> PollingBuffer_T \<Rightarrow> byte list \<times> PollingBuffer_T" where
  "tcp_rd n b = (case tcp_readDataFromPollingBuffer n 0 [] [] (b, IOC_RESULT_SUCCESS) of
     Done (r, out, b', err) \<Rightarrow> (out, b') | _ \<Rightarrow> ([], b))"

lemma pb_bytes_empty: "AvailableData b = 0 \<Longrightarrow> pb_bytes b = []"
  by (simp add: pb_bytes_def)

lemma pb_inv_cap: "pb_inv b \<Longrightarrow> AvailableData b \<le> POLLING_BUFFER_SIZE"
  by (auto simp: pb_inv_def)

lemma fifo_wr_spec:
  assumes "pb_inv b"
  shows "length (pb_bytes b) + length d \<le> POLLING_BUFFER_SIZE \<Longrightarrow>
      \<exists>b'. fifo_wr d b = (True, b') \<and> pb_inv b' \<and> pb_bytes b' = pb_bytes b @ d"
    and "\<not> length (pb_bytes b) + length d \<le> POLLING_BUFFER_SIZE \<Longrightarrow> fifo_wr d b = (False, b)"
proof -
  have sz: "BufferSize b = POLLING_BUFFER_SIZE" "AvailableData b \<le> POLLING_BUFFER_SIZE"
    using assms by (auto simp: pb_inv_def)
  show "\<exists>b'. fifo_wr d b = (True, b') \<and> pb_inv b' \<and> pb_bytes b' = pb_bytes b @ d"
    if "length (pb_bytes b) + length d \<le> POLLING_BUFFER_SIZE"
    using assms that sz fifo_store_spec [OF assms, of d] by (cases "d = []") (auto simp: fifo_wr_def)
  show "fifo_wr d b = (False, b)" if "\<not> length (pb_bytes b) + length d \<le> POLLING_BUFFER_SIZE"
    using that sz fifo_store_spec [OF assms, of d] by (cases "d = []") (auto simp: fifo_wr_def)
qed

lemma fifo_rd_spec:
  assumes "pb_inv b"
  shows "\<exists>b'. fifo_rd n b = (take n (pb_bytes b), b') \<and> pb_inv b' \<and> pb_bytes b' = drop n (pb_bytes b)"
  using assms fifo_copyOut_spec [OF assms, of n] pb_bytes_empty [of b]
  by (auto simp: fifo_rd_def fifo_readDataFromPollingBuffer_def)

lemma tcp_wr_spec:
  assumes "pb_inv b"
  shows "length (pb_bytes b) + length d \<le> POLLING_BUFFER_SIZE \<Longrightarrow>
      \<exists>b'. tcp_wr d b = (True, b') \<and> pb_inv b' \<and> pb_bytes b' = pb_bytes b @ d"
    and "\<not> length (pb_bytes b) + length d \<le> POLLING_BUFFER_SIZE \<Longrightarrow> tcp_wr d b = (False, b)"
proof -
  have sz: "BufferSize b = POLLING_BUFFER_SIZE" "AvailableData b \<le> POLLING_BUFFER_SIZE"
    using assms by (auto simp: pb_inv_def)
  show "\<exists>b'. tcp_wr d b = (True, b') \<and> pb_inv b' \<and> pb_bytes b' = pb_bytes b @ d"
    if "length (pb_bytes b) + length d \<le> POLLING_BUFFER_SIZE"
    using assms that sz tcp_write_spec [OF assms, of d] by (cases "d = []") (auto simp: tcp_wr_def)
  show "tcp_wr d b = (False, b)" if "\<not> length (pb_bytes b) + length d \<le> POLLING_BUFFER_SIZE"
    using that sz tcp_write_spec [OF assms, of d] by (cases "d = []") (auto simp: tcp_wr_def)
qed

lemma tcp_rd_spec:
  assumes "pb_inv b"
  shows "\<exists>b'. tcp_rd n b = (take n (pb_bytes b), b') \<and> pb_inv b' \<and> pb_bytes b' = drop n (pb_bytes b)"
  using assms tcp_copyOut_spec [OF assms, of n] pb_bytes_empty [of b]
  by (auto simp: tcp_rd_def tcp_readDataFromPollingBuffer_def Let_def)

interpretation fifo_buf: byte_stream pb_inv pb_bytes POLLING_BUFFER_SIZE fifo_wr fifo_rd
  by unfold_locales (auto simp: pb_inv_cap fifo_wr_spec fifo_rd_spec)

interpretation tcp_buf: byte_stream pb_inv pb_bytes POLLING_BUFFER_SIZE tcp_wr tcp_rd
  by unfold_locales (auto simp: pb_inv_cap tcp_wr_spec tcp_rd_spec)

lemma pb_inv_init:
  assumes "length block = POLLING_BUFFER_SIZE"
  shows "pb_inv (snd (fifo_initPollingBuffer (Some block) b))"
    "pb_bytes (snd (fifo_initPollingBuffer (Some block) b)) = []"
    "pb_inv (snd (tcp_initPollingBuffer (Some block) b))"
    "pb_bytes (snd (tcp_initPollingBuffer (Some block) b)) = []"
  using assms by (simp_all add: pb_inv_def pb_bytes_def fifo_initPollingBuffer_def
      tcp_initPollingBuffer_def POLLING_BUFFER_SIZE_def)

section \<open>Properties\<close>

text \<open>C14: Whatever sequence of blocks is written and read, the polling buffer of the FIFO protocol
  hands the bytes out in the order in which they were accepted, each exactly once: the bytes
  accepted are the bytes handed out followed by those still buffered, of which there are at most
  64 KB.\<close>

theorem fifo_buffer_in_order:
  assumes "pb_inv b"
  shows "\<exists>w r b'. run_stream fifo_wr fifo_rd ops b = (w, r, b') \<and> pb_bytes b @ w = r @ pb_bytes b' \<and>
    pb_inv b' \<and> length (pb_bytes b') \<le> POLLING_BUFFER_SIZE"
  using fifo_buf.run_in_order [OF assms, of ops] fifo_buf.inv_cap by blast

text \<open>A buffer freshly initialised over a zeroed block.\<close>

definition fresh_PollingBuffer :: PollingBuffer_T where
  "fresh_PollingBuffer =
     \<lparr>pDataBuffer = replicate POLLING_BUFFER_SIZE 0, BufferSize = POLLING_BUFFER_SIZE, DataStart = 0,
      DataEnd = 0, AvailableData = 0, IsPollingMode = False\<rparr>"

lemma fresh_PollingBuffer_ok [simp]:
  "pb_inv fresh_PollingBuffer" "pb_bytes fresh_PollingBuffer = []"
  "AvailableData fresh_PollingBuffer = 0"
  by (simp_all add: fresh_PollingBuffer_def pb_inv_def pb_bytes_def POLLING_BUFFER_SIZE_def)

theorem fifo_buffer_in_order_witness:
  "\<exists>w r b'. run_stream fifo_wr fifo_rd [Wr [1, 2, 3], Rd 2] fresh_PollingBuffer = (w, r, b') \<and>
    w = r @ pb_bytes b'"
  using fifo_buffer_in_order [of fresh_PollingBuffer "[Wr [1, 2, 3], Rd 2]"]
  by (auto simp del: run_stream.simps)

text \<open>C15: The chunk loops of the TCP buffer and the two copies of the FIFO buffer implement the same
  stream: over any sequence of blocks written and reads, starting from buffers with the same
  contents, they accept the same bytes, hand out the same bytes and keep the same bytes.\<close>

theorem tcp_buffer_equals_fifo_buffer:
  assumes "pb_inv b" "pb_inv c" "pb_bytes b = pb_bytes c"
  shows "\<exists>w r b' c'. run_stream fifo_wr fifo_rd ops b = (w, r, b') \<and>
    run_stream tcp_wr tcp_rd ops c = (w, r, c') \<and> pb_bytes b' = pb_bytes c'"
  using assms
proof (induction ops arbitrary: b c)
  case Nil
  then show ?case by simp
next
  case (Cons op ops)
  show ?case
  proof (cases op)
    case (Wr d)
    from fifo_buf.wr_spec [OF Cons.prems(1), of d] obtain ok b1 where
      1: "fifo_wr d b = (ok, b1)" "pb_inv b1"
        "ok = (length (pb_bytes b) + length d \<le> POLLING_BUFFER_SIZE)"
        "pb_bytes b1 = pb_bytes b @ (if ok then d else [])" by blast
    from tcp_buf.wr_spec [OF Cons.prems(2), of d] obtain ok' c1 where
      2: "tcp_wr d c = (ok', c1)" "pb_inv c1"
        "ok' = (length (pb_bytes c) + length d \<le> POLLING_BUFFER_SIZE)"
        "pb_bytes c1 = pb_bytes c @ (if ok' then d else [])" by blast
    have "ok' = ok" using 1(3) 2(3) Cons.prems(3) by simp
    then have "pb_bytes b1 = pb_bytes c1" using 1(4) 2(4) Cons.prems(3) by simp
    from Cons.IH [OF 1(2) 2(2) this] show ?thesis
      using 1(1) 2(1) Wr \<open>ok' = ok\<close> by (cases ok) auto
  next
    case (Rd n)
    from fifo_buf.rd_prefix [OF Cons.prems(1), of n] obtain b1 where
      1: "fifo_rd n b = (take n (pb_bytes b), b1)" "pb_inv b1" "pb_bytes b1 = drop n (pb_bytes b)"
      by blast
    from tcp_buf.rd_prefix [OF Cons.prems(2), of n] obtain c1 where
      2: "tcp_rd n c = (take n (pb_bytes c), c1)" "pb_inv c1" "pb_bytes c1 = drop n (pb_bytes c)"
      by blast
    have "pb_bytes b1 = pb_bytes c1" using 1(3) 2(3) Cons.prems(3) by simp
    from Cons.IH [OF 1(2) 2(2) this] show ?thesis
      using 1(1) 2(1) Rd Cons.prems(3) by auto
  qed
qed

theorem tcp_buffer_equals_fifo_buffer_witness:
  "\<exists>w r b' c'. run_stream fifo_wr fifo_rd [Wr [1, 2, 3], Rd 2] fresh_PollingBuffer = (w, r, b') \<and>
    run_stream tcp_wr tcp_rd [Wr [1, 2, 3], Rd 2] fresh_PollingBuffer = (w, r, c')"
  using tcp_buffer_equals_fifo_buffer [of fresh_PollingBuffer fresh_PollingBuffer "[Wr [1, 2, 3], Rd 2]"]
  by (auto simp del: run_stream.simps)

end
