(* ===== verification/ConlesEvent.thy ===== *)
theory ConlesEvent
  imports Helpers
begin

text \<open>
  \<^verbatim>\<open>src/Source/_IOC_ConlesEvent.c\<close>: connectionless events on the automatic link 0.  The link
  object holds the event queue, the list of at most 128 subscribers and the link state; events are
  posted asynchronously (queued, and delivered by the link's event thread) or synchronously
  (delivered by the posting thread, when nothing is queued).

  The library calls user callbacks.  A callback's behaviour is a parameter: the list of library
  calls it makes when it is invoked.  Those calls run in the same thread, so a call that locks the
  link object's mutex while the posting thread already holds it never returns.
\<close>

section \<open>State\<close>

text \<open>A callback pointer is \<open>None\<close> for \<^verbatim>\<open>NULL\<close>; private data is an address.\<close>

record IOC_SubEvtArgs_T =
  CbProcEvt_F :: "nat option"
  pCbPrivData :: nat
  EvtNum :: ULONG
  pEvtIDs :: "ULONG list"

datatype ClsEvtSuberState_T = UnSubed | Subed

record ClsEvtSuber_T =
  State :: ClsEvtSuberState_T
  Args :: IOC_SubEvtArgs_T

record ClsEvtSuberList_T =
  SuberNum :: ULONG
  Subers :: "ClsEvtSuber_T list"

record ClsState_T =
  Main :: IOC_LinkState_T
  Sub :: IOC_LinkSubState_T
  IsInCbProc :: bool
  IsInSub :: bool
  IsInUnsub :: bool

record ClsEvtLinkObj_T =
  LinkID :: ULONG
  LoEvtDescQueue :: IOC_EvtDescQueue_T
  EvtSuberList :: ClsEvtSuberList_T
  LoQueuedEvtNum :: ULONG
  LoCallbacedEvtNum :: ULONG
  LoState :: ClsState_T

datatype ClsEvtLinkObjBehavior_T =
    Behavior_enterCbProcEvt | Behavior_leaveCbProcEvt
  | Behavior_enterSubEvt | Behavior_leaveSubEvt
  | Behavior_enterUnsubEvt | Behavior_leaveUnsubEvt

definition CONLES_EVENT_MAX_SUBSCRIBER :: ULONG where "CONLES_EVENT_MAX_SUBSCRIBER = 128"

definition CONLES_MODE_AUTO_LINK_ID :: ULONG where "CONLES_MODE_AUTO_LINK_ID = 0"

section \<open>Link state\<close>

definition transferState :: "ClsEvtLinkObjBehavior_T \<Rightarrow> ClsState_T \<Rightarrow> ClsState_T" where
  "transferState bhv s =
    (let s1 = (case bhv of
         Behavior_enterCbProcEvt \<Rightarrow> s\<lparr>IsInCbProc := True\<rparr>
       | Behavior_leaveCbProcEvt \<Rightarrow> s\<lparr>IsInCbProc := False\<rparr>
       | Behavior_enterSubEvt \<Rightarrow> s\<lparr>IsInSub := True\<rparr>
       | Behavior_leaveSubEvt \<Rightarrow> s\<lparr>IsInSub := False\<rparr>
       | Behavior_enterUnsubEvt \<Rightarrow> s\<lparr>IsInUnsub := True\<rparr>
       | Behavior_leaveUnsubEvt \<Rightarrow> s\<lparr>IsInUnsub := False\<rparr>)
     in s1\<lparr>Main :=
          (if IsInCbProc s1 then IOC_LinkStateBusyCbProcEvt
           else if IsInSub s1 then IOC_LinkStateBusySubEvt
           else if IsInUnsub s1 then IOC_LinkStateBusyUnsubEvt
           else IOC_LinkStateReady)\<rparr>)"

definition transferLinkObjStateByBehavior ::
  "ClsEvtLinkObjBehavior_T \<Rightarrow> ClsEvtLinkObj_T \<Rightarrow> ClsEvtLinkObj_T" where
  "transferLinkObjStateByBehavior bhv l = l\<lparr>LoState := transferState bhv (LoState l)\<rparr>"

section \<open>The subscriber list\<close>

definition zero_suber :: ClsEvtSuber_T where
  "zero_suber = \<lparr>State = UnSubed,
     Args = \<lparr>CbProcEvt_F = None, pCbPrivData = 0, EvtNum = 0, pEvtIDs = []\<rparr>\<rparr>"

definition initSuberList :: ClsEvtSuberList_T where
  "initSuberList = \<lparr>SuberNum = 0, Subers = replicate 128 zero_suber\<rparr>"

definition deinitSuberList :: "bool \<Rightarrow> ClsEvtSuberList_T \<Rightarrow> unit outcome" where
  "deinitSuberList destroy_ok sl =
     log_assert (SuberNum sl = 0) (if \<not> destroy_ok then Abort else Done ())"

text \<open>Two subscriptions are the same consumer when callback and private data agree.\<close>

definition same_consumer :: "IOC_SubEvtArgs_T \<Rightarrow> ClsEvtSuber_T \<Rightarrow> bool" where
  "same_consumer a s \<longleftrightarrow> State s = Subed \<and> CbProcEvt_F (Args s) = CbProcEvt_F a \<and>
     pCbPrivData (Args s) = pCbPrivData a"

text \<open>The copy of the event identifiers is made in memory that \<^verbatim>\<open>malloc\<close> provides; its result is
  not checked, so the model takes it to succeed.\<close>

definition insertSuber :: "IOC_SubEvtArgs_T \<Rightarrow> ClsEvtSuberList_T \<Rightarrow> IOC_Result_T \<times> ClsEvtSuberList_T"
where
  "insertSuber a sl =
    (if SuberNum sl \<ge> CONLES_EVENT_MAX_SUBSCRIBER then (IOC_RESULT_TOO_MANY_EVENT_CONSUMER, sl)
     else if first_index (same_consumer a) (Subers sl) \<noteq> None
       then (IOC_RESULT_CONFLICT_EVENT_CONSUMER, sl)
     else case first_index (\<lambda>s. State s = UnSubed) (Subers sl) of
       None \<Rightarrow> (IOC_RESULT_SUCCESS, sl)
     | Some i \<Rightarrow> (IOC_RESULT_SUCCESS,
         sl\<lparr>Subers := (Subers sl)[i := \<lparr>State = Subed,
              Args = \<lparr>CbProcEvt_F = CbProcEvt_F a, pCbPrivData = pCbPrivData a,
                EvtNum = EvtNum a, pEvtIDs = take (unat (EvtNum a)) (pEvtIDs a)\<rparr>\<rparr>],
            SuberNum := SuberNum sl + 1\<rparr>))"

definition removeSuber :: "IOC_SubEvtArgs_T \<Rightarrow> ClsEvtSuberList_T \<Rightarrow> IOC_Result_T \<times> ClsEvtSuberList_T"
where
  "removeSuber a sl =
    (if SuberNum sl = 0 then (IOC_RESULT_NO_EVENT_CONSUMER, sl)
     else case first_index (same_consumer a) (Subers sl) of
       None \<Rightarrow> (IOC_RESULT_SUCCESS, sl)
     | Some i \<Rightarrow> (IOC_RESULT_SUCCESS,
         sl\<lparr>Subers := (Subers sl)[i := (Subers sl ! i)\<lparr>State := UnSubed\<rparr>],
            SuberNum := SuberNum sl - 1\<rparr>))"

definition insertSuberIntoLinkObj ::
  "IOC_SubEvtArgs_T \<Rightarrow> ClsEvtLinkObj_T \<Rightarrow> IOC_Result_T \<times> ClsEvtLinkObj_T" where
  "insertSuberIntoLinkObj a l =
    (let l1 = transferLinkObjStateByBehavior Behavior_enterSubEvt l;
         (r, sl) = insertSuber a (EvtSuberList l1)
     in (r, transferLinkObjStateByBehavior Behavior_leaveSubEvt (l1\<lparr>EvtSuberList := sl\<rparr>)))"

definition removeSuberFromLinkObj ::
  "IOC_SubEvtArgs_T \<Rightarrow> ClsEvtLinkObj_T \<Rightarrow> IOC_Result_T \<times> ClsEvtLinkObj_T" where
  "removeSuberFromLinkObj a l =
    (let l1 = transferLinkObjStateByBehavior Behavior_enterUnsubEvt l;
         (r, sl) = removeSuber a (EvtSuberList l1)
     in (r, transferLinkObjStateByBehavior Behavior_leaveUnsubEvt (l1\<lparr>EvtSuberList := sl\<rparr>)))"

definition isEmptySuberList :: "ClsEvtSuberList_T \<Rightarrow> bool" where
  "isEmptySuberList sl = (if SuberNum sl = 0 then True else False)"

text \<open>Phase 1 of a delivery: the subscribers that want the event, in slot order.\<close>

definition wants :: "IOC_EvtDesc_T \<Rightarrow> IOC_SubEvtArgs_T \<Rightarrow> bool" where
  "wants e a \<longleftrightarrow> EvtNum a = 0 \<or> EvtID e \<in> set (take (unat (EvtNum a)) (pEvtIDs a))"

definition activeCallbacks :: "IOC_EvtDesc_T \<Rightarrow> ClsEvtSuberList_T \<Rightarrow> (nat option \<times> nat) list" where
  "activeCallbacks e sl = map (\<lambda>s. (CbProcEvt_F (Args s), pCbPrivData (Args s)))
     (filter (\<lambda>s. State s = Subed \<and> wants e (Args s)) (Subers sl))"

section \<open>The world of one executing thread\<close>

text \<open>
  \<open>mutex_held\<close>: the executing thread holds \<^verbatim>\<open>pLinkObj->Mutex\<close>.  \<open>invoked\<close> and \<open>answers\<close> record
  the callbacks invoked and the results of the library calls they made.  The three calls a
  callback can make carry their arguments; a post also carries what the clock and the other
  threads do while it waits: the time it begins, and for each turn of its waiting loop the time it
  reads and the effect of the other threads while it sleeps.
\<close>

record post_env =
  begin_time :: timespec
  rounds :: "(timespec \<times> (ClsEvtLinkObj_T \<Rightarrow> ClsEvtLinkObj_T)) list"

datatype api_call =
    CallSub IOC_SubEvtArgs_T
  | CallUnsub IOC_SubEvtArgs_T
  | CallPost ULONG IOC_EvtDesc_T "IOC_Options_T option" post_env

type_synonym user_code = "nat \<Rightarrow> nat \<Rightarrow> IOC_EvtDesc_T \<Rightarrow> api_call list"

record cls_world =
  lo :: ClsEvtLinkObj_T
  mutex_held :: bool
  invoked :: "(nat \<times> nat \<times> IOC_EvtDesc_T) list"
  answers :: "IOC_Result_T list"

definition lockedLinkObj ::
  "(cls_world \<Rightarrow> (IOC_Result_T \<times> cls_world) outcome) \<Rightarrow> cls_world \<Rightarrow> (IOC_Result_T \<times> cls_world) outcome"
where
  "lockedLinkObj body w =
    (if mutex_held w then Block
     else bindO (body (w\<lparr>mutex_held := True\<rparr>)) (\<lambda>(r, w'). Done (r, w'\<lparr>mutex_held := False\<rparr>)))"

definition isAutoLink :: "ULONG \<Rightarrow> bool" where
  "isAutoLink link = (if link = CONLES_MODE_AUTO_LINK_ID then True else False)"

text \<open>The static array of link objects has one element.\<close>

definition getLinkObjNotLocked :: "ULONG \<Rightarrow> ClsEvtLinkObj_T \<Rightarrow> bool" where
  "getLinkObjNotLocked link l \<longleftrightarrow> first_index (\<lambda>o'. LinkID o' = link) [l] \<noteq> None"

definition getLinkObjLocked ::
  "ULONG \<Rightarrow> cls_world \<Rightarrow> IOC_Result_T \<Rightarrow> (cls_world \<Rightarrow> (IOC_Result_T \<times> cls_world) outcome) \<Rightarrow>
   (IOC_Result_T \<times> cls_world) outcome" where
  "getLinkObjLocked link w missing body =
    (if \<not> isAutoLink link then Done (missing, w)
     else if \<not> getLinkObjNotLocked link (lo w) then Done (missing, w)
     else lockedLinkObj body w)"

section \<open>Subscribing\<close>

definition subEVT :: "IOC_SubEvtArgs_T \<Rightarrow> cls_world \<Rightarrow> (IOC_Result_T \<times> cls_world) outcome" where
  "subEVT a w = getLinkObjLocked CONLES_MODE_AUTO_LINK_ID w IOC_RESULT_BUG (\<lambda>w1.
     let (r, l) = insertSuberIntoLinkObj a (lo w1) in Done (r, w1\<lparr>lo := l\<rparr>))"

definition unsubEVT :: "IOC_SubEvtArgs_T \<Rightarrow> cls_world \<Rightarrow> (IOC_Result_T \<times> cls_world) outcome" where
  "unsubEVT a w = getLinkObjLocked CONLES_MODE_AUTO_LINK_ID w IOC_RESULT_BUG (\<lambda>w1.
     let (r, l) = removeSuberFromLinkObj a (lo w1) in Done (r, w1\<lparr>lo := l\<rparr>))"

section \<open>Posting\<close>

definition hasEvtDescInLinkObj :: "ClsEvtLinkObj_T \<Rightarrow> bool" where
  "hasEvtDescInLinkObj l = (if LoQueuedEvtNum l \<noteq> LoCallbacedEvtNum l then True else False)"

text \<open>The waiting loop of an asynchronous post; a loop whose rounds are used up waits for ever.\<close>

fun postEVT_AsyncTimed ::
  "timespec \<Rightarrow> ULONG \<Rightarrow> IOC_EvtDesc_T \<Rightarrow> (timespec \<times> (ClsEvtLinkObj_T \<Rightarrow> ClsEvtLinkObj_T)) list \<Rightarrow>
   ClsEvtLinkObj_T \<Rightarrow> (IOC_Result_T \<times> ClsEvtLinkObj_T) outcome" where
  "postEVT_AsyncTimed tb timeoutUS e rs l =
    bindO (EvtDescQueue_enqueueElementLast (LoEvtDescQueue l) e) (\<lambda>(r, q).
      if r = IOC_RESULT_SUCCESS then Done (IOC_RESULT_SUCCESS, l\<lparr>LoEvtDescQueue := q\<rparr>)
      else case rs of
        [] \<Rightarrow> Block
      | (now, others) # rs' \<Rightarrow> bindO (IOC_deltaTimeSpecInUS tb now) (\<lambda>elapsed.
          if elapsed \<ge> timeoutUS then Done (IOC_RESULT_TIMEOUT, l)
          else postEVT_AsyncTimed tb timeoutUS e rs' (others l)))"

text \<open>The waiting loop of a synchronous post; \<open>deliver\<close> is the delivery to the subscribers.\<close>

fun postEVT_SyncTimed ::
  "(cls_world \<Rightarrow> cls_world outcome) \<Rightarrow> timespec \<Rightarrow> ULONG \<Rightarrow>
   (timespec \<times> (ClsEvtLinkObj_T \<Rightarrow> ClsEvtLinkObj_T)) list \<Rightarrow> cls_world \<Rightarrow>
   (IOC_Result_T \<times> cls_world) outcome" where
  "postEVT_SyncTimed deliver tb timeoutUS rs w =
    (if \<not> hasEvtDescInLinkObj (lo w)
     then bindO (deliver w) (\<lambda>w'. Done (IOC_RESULT_SUCCESS, w'))
     else case rs of
       [] \<Rightarrow> Block
     | (now, others) # rs' \<Rightarrow> bindO (IOC_deltaTimeSpecInUS tb now) (\<lambda>elapsed.
         if elapsed \<ge> timeoutUS then Done (IOC_RESULT_TOO_LONG_EMPTYING_EVTDESC_QUEUE, w)
         else postEVT_SyncTimed deliver tb timeoutUS rs' (w\<lparr>lo := others (lo w)\<rparr>)))"

text \<open>The asynchronous half of \<^verbatim>\<open>_IOC_postEVT_inConlesMode\<close>.\<close>

definition postEVT_Async ::
  "IOC_EvtDesc_T \<Rightarrow> IOC_Options_T option \<Rightarrow> post_env \<Rightarrow> ClsEvtLinkObj_T \<Rightarrow>
   (IOC_Result_T \<times> ClsEvtLinkObj_T) outcome" where
  "postEVT_Async e opt env l =
    (let count = (\<lambda>l. l\<lparr>LoQueuedEvtNum := LoQueuedEvtNum l + 1\<rparr>);
         slow =
          (if IOC_Option_isNonBlockMode opt then Done (IOC_RESULT_TOO_MANY_QUEUING_EVTDESC, l)
           else if IOC_Option_isTimeoutMode opt then
             bindO (postEVT_AsyncTimed (begin_time env) (IOC_Option_getTimeoutUS opt) e (rounds env) l)
               (\<lambda>(r, l1). log_assert (r = IOC_RESULT_TIMEOUT \<or> r = IOC_RESULT_SUCCESS)
                 (Done (r, if r = IOC_RESULT_SUCCESS then count l1 else l1)))
           else if IOC_Option_isMayBlockMode opt then
             bindO (postEVT_AsyncTimed (begin_time env) ULONG_MAX e (rounds env) l)
               (\<lambda>(r, l1). log_assert (r = IOC_RESULT_SUCCESS) (Done (r, count l1)))
           else Abort)
     in if \<not> IOC_Option_isTimeoutMode opt then
          bindO (EvtDescQueue_enqueueElementLast (LoEvtDescQueue l) e) (\<lambda>(r, q).
            if r = IOC_RESULT_SUCCESS
            then Done (IOC_RESULT_SUCCESS, count (l\<lparr>LoEvtDescQueue := q\<rparr>))
            else slow)
        else slow)"

text \<open>The synchronous half.\<close>

definition postEVT_Sync ::
  "(cls_world \<Rightarrow> cls_world outcome) \<Rightarrow> IOC_Options_T option \<Rightarrow> post_env \<Rightarrow> cls_world \<Rightarrow>
   (IOC_Result_T \<times> cls_world) outcome" where
  "postEVT_Sync deliver opt env w =
    (if \<not> hasEvtDescInLinkObj (lo w) then
       bindO (deliver w) (\<lambda>w'. Done (IOC_RESULT_SUCCESS, w'))
     else if IOC_Option_isNonBlockMode opt then
       Done (IOC_RESULT_TOO_LONG_EMPTYING_EVTDESC_QUEUE, w)
     else if IOC_Option_isTimeoutMode opt then
       bindO (postEVT_SyncTimed deliver (begin_time env) (IOC_Option_getTimeoutUS opt) (rounds env) w)
         (\<lambda>(r, w'). log_assert (r = IOC_RESULT_TOO_LONG_EMPTYING_EVTDESC_QUEUE \<or>
            r = IOC_RESULT_SUCCESS) (Done (r, w')))
     else if IOC_Option_isMayBlockMode opt then
       bindO (postEVT_SyncTimed deliver (begin_time env) ULONG_MAX (rounds env) w)
         (\<lambda>(r, w'). log_assert (r = IOC_RESULT_SUCCESS) (Done (r, w')))
     else Abort)"

text \<open>\<open>deliver\<close> stands for the delivery of \<open>e\<close> by the posting thread.\<close>

definition postEVT_with ::
  "(IOC_EvtDesc_T \<Rightarrow> cls_world \<Rightarrow> cls_world outcome) \<Rightarrow> ULONG \<Rightarrow> IOC_EvtDesc_T \<Rightarrow>
   IOC_Options_T option \<Rightarrow> post_env \<Rightarrow> cls_world \<Rightarrow> (IOC_Result_T \<times> cls_world) outcome" where
  "postEVT_with deliver link e opt env w =
    getLinkObjLocked link w IOC_RESULT_INVALID_AUTO_LINK_ID (\<lambda>w1.
      if \<not> IOC_Option_isAsyncMode opt \<and> Main (LoState (lo w1)) = IOC_LinkStateBusyCbProcEvt
      then Done (IOC_RESULT_FORBIDDEN, w1)
      else if isEmptySuberList (EvtSuberList (lo w1)) then Done (IOC_RESULT_NO_EVENT_CONSUMER, w1)
      else if IOC_Option_isAsyncMode opt then
        bindO (postEVT_Async e opt env (lo w1)) (\<lambda>(r, l). Done (r, w1\<lparr>lo := l\<rparr>))
      else postEVT_Sync (deliver e) opt env w1)"

section \<open>Delivering\<close>

text \<open>A library call made by a callback, in the same thread; \<open>deliver\<close> is as in \<open>postEVT_with\<close>.\<close>

definition nested_call ::
  "(IOC_EvtDesc_T \<Rightarrow> cls_world \<Rightarrow> cls_world outcome) \<Rightarrow> api_call \<Rightarrow> cls_world \<Rightarrow>
   (IOC_Result_T \<times> cls_world) outcome" where
  "nested_call deliver c w = (case c of
     CallSub a \<Rightarrow> subEVT a w
   | CallUnsub a \<Rightarrow> unsubEVT a w
   | CallPost link e opt env \<Rightarrow> postEVT_with deliver link e opt env w)"

fun nested_calls ::
  "(IOC_EvtDesc_T \<Rightarrow> cls_world \<Rightarrow> cls_world outcome) \<Rightarrow> api_call list \<Rightarrow> cls_world \<Rightarrow>
   cls_world outcome" where
  "nested_calls deliver [] w = Done w"
| "nested_calls deliver (c # cs) w = bindO (nested_call deliver c w) (\<lambda>(r, w').
     nested_calls deliver cs (w'\<lparr>answers := answers w' @ [r]\<rparr>))"

text \<open>Phase 2: the callbacks one after the other; calling through a null pointer crashes.\<close>

fun runCallbacks ::
  "(IOC_EvtDesc_T \<Rightarrow> cls_world \<Rightarrow> cls_world outcome) \<Rightarrow> user_code \<Rightarrow> IOC_EvtDesc_T \<Rightarrow>
   (nat option \<times> nat) list \<Rightarrow> cls_world \<Rightarrow> cls_world outcome" where
  "runCallbacks deliver user e [] w = Done w"
| "runCallbacks deliver user e ((None, priv) # cbs) w = Abort"
| "runCallbacks deliver user e ((Some f, priv) # cbs) w =
     bindO (nested_calls deliver (user f priv e) (w\<lparr>invoked := invoked w @ [(f, priv, e)]\<rparr>))
       (runCallbacks deliver user e cbs)"

definition overSuberList ::
  "(IOC_EvtDesc_T \<Rightarrow> cls_world \<Rightarrow> cls_world outcome) \<Rightarrow> user_code \<Rightarrow> IOC_EvtDesc_T \<Rightarrow> cls_world \<Rightarrow>
   cls_world outcome" where
  "overSuberList deliver user e w =
    (let active = activeCallbacks e (EvtSuberList (lo w));
         w1 = w\<lparr>lo := transferLinkObjStateByBehavior Behavior_enterCbProcEvt (lo w)\<rparr>
     in bindO (runCallbacks deliver user e active w1) (\<lambda>w2.
          Done (w2\<lparr>lo := transferLinkObjStateByBehavior Behavior_leaveCbProcEvt (lo w2)\<rparr>)))"

text \<open>
  Deliveries nest: a callback may post synchronously, which (when the link state allows it)
  delivers in the same thread, holding the link object's mutex.  A third level cannot be reached,
  since the second one holds the mutex (lemma \<open>deliverAt_depth\<close>), so two levels are all there is.
\<close>

fun deliverAt :: "nat \<Rightarrow> user_code \<Rightarrow> IOC_EvtDesc_T \<Rightarrow> cls_world \<Rightarrow> cls_world outcome" where
  "deliverAt 0 user e w = Abort"
| "deliverAt (Suc d) user e w = overSuberList (deliverAt d user) user e w"

definition callbackProcEvtOverSuberList ::
  "user_code \<Rightarrow> IOC_EvtDesc_T \<Rightarrow> cls_world \<Rightarrow> cls_world outcome" where
  "callbackProcEvtOverSuberList user e w = deliverAt 2 user e w"

definition postEVT ::
  "user_code \<Rightarrow> ULONG \<Rightarrow> IOC_EvtDesc_T \<Rightarrow> IOC_Options_T option \<Rightarrow> post_env \<Rightarrow> cls_world \<Rightarrow>
   (IOC_Result_T \<times> cls_world) outcome" where
  "postEVT user link e opt env w =
     postEVT_with (callbackProcEvtOverSuberList user) link e opt env w"

section \<open>The event thread\<close>

text \<open>One turn of the inner loop: the answer tells whether there was an event.\<close>

definition procOneEvt :: "user_code \<Rightarrow> cls_world \<Rightarrow> (bool \<times> cls_world) outcome" where
  "procOneEvt user w =
    bindO (EvtDescQueue_dequeueElementFirst (LoEvtDescQueue (lo w))) (\<lambda>(r, e, q).
      let w1 = w\<lparr>lo := (lo w)\<lparr>LoEvtDescQueue := q\<rparr>\<rparr>
      in case e of
        None \<Rightarrow> Done (False, w1)
      | Some ev \<Rightarrow> bindO (callbackProcEvtOverSuberList user ev w1) (\<lambda>w2.
          Done (True, w2\<lparr>lo := (lo w2)\<lparr>LoCallbacedEvtNum := LoCallbacedEvtNum (lo w2) + 1\<rparr>\<rparr>)))"

text \<open>The inner loop of the thread, until the queue is empty.  Callbacks that keep posting keep it
  busy, so it takes fuel; \<open>n + 1\<close> is enough for \<open>n\<close> queued events when callbacks do not post.\<close>

fun callbackProcEvtThread :: "nat \<Rightarrow> user_code \<Rightarrow> cls_world \<Rightarrow> cls_world outcome" where
  "callbackProcEvtThread 0 user w = Block"
| "callbackProcEvtThread (Suc fuel) user w = bindO (procOneEvt user w) (\<lambda>(more, w').
     if more then callbackProcEvtThread fuel user w' else Done w')"

text \<open>The static initialiser run when the library is loaded.\<close>

definition initClsEvtLinkObj :: ClsEvtLinkObj_T where
  "initClsEvtLinkObj =
    \<lparr>LinkID = CONLES_MODE_AUTO_LINK_ID, LoEvtDescQueue = EvtDescQueue_initOne,
     EvtSuberList = initSuberList, LoQueuedEvtNum = 0, LoCallbacedEvtNum = 0,
     LoState = \<lparr>Main = IOC_LinkStateReady, Sub = IOC_LinkSubStateDefault, IsInCbProc = False,
       IsInSub = False, IsInUnsub = False\<rparr>\<rparr>"

text \<open>\<^verbatim>\<open>_IOC_forceProcEvt_inConlesMode\<close>: wake the thread, sleep a millisecond (\<open>others\<close> is what the
  other threads do), until nothing is queued or being delivered; the elapsed time only decides
  whether a warning is logged, but its computation asserts that the clock did not go back.\<close>

fun forceProcEvt ::
  "timespec \<Rightarrow> (timespec \<times> (ClsEvtLinkObj_T \<Rightarrow> ClsEvtLinkObj_T)) list \<Rightarrow> ClsEvtLinkObj_T \<Rightarrow>
   ClsEvtLinkObj_T outcome" where
  "forceProcEvt lastWarn [] l = Block"
| "forceProcEvt lastWarn ((now, others) # rs) l =
    (let l1 = others l
     in if \<not> hasEvtDescInLinkObj l1 then Done l1
        else bindO (IOC_deltaTimeSpecInMS lastWarn now) (\<lambda>elapsed.
          forceProcEvt (if elapsed \<ge> 1000 then now else lastWarn) rs l1))"

section \<open>Queries\<close>

definition getLinkState_inConlesMode ::
  "ULONG \<Rightarrow> ClsEvtLinkObj_T \<Rightarrow> (IOC_Result_T \<times> (IOC_LinkState_T \<times> IOC_LinkSubState_T) option) outcome"
where
  "getLinkState_inConlesMode link l =
    (if link \<noteq> CONLES_MODE_AUTO_LINK_ID then Done (IOC_RESULT_INVALID_AUTO_LINK_ID, None)
     else if \<not> getLinkObjNotLocked link l then Abort
     else Done (IOC_RESULT_SUCCESS, Some (Main (LoState l), Sub (LoState l))))"

text \<open>The connectionless half of \<^verbatim>\<open>_IOC_updateConlesEventSubState\<close>; \<open>False\<close>: not this link.\<close>

definition updateSubState_Conles :: "ULONG \<Rightarrow> IOC_LinkSubState_T \<Rightarrow> ClsEvtLinkObj_T \<Rightarrow> bool \<times> ClsEvtLinkObj_T"
where
  "updateSubState_Conles link ss l =
    (if link = CONLES_MODE_AUTO_LINK_ID
     then (True, if getLinkObjNotLocked link l then l\<lparr>LoState := (LoState l)\<lparr>Sub := ss\<rparr>\<rparr> else l)
     else (False, l))"

datatype IOC_CapabilityID_T =
    IOC_CAPID_CONLES_MODE_EVENT | IOC_CAPID_CONET_MODE_EVENT
  | IOC_CAPID_CONET_MODE_DATA | IOC_CAPID_CONET_MODE_COMMAND

text \<open>The answer: maximal number of consumers and depth of the queue.\<close>

definition getCapability_inConlesMode ::
  "IOC_CapabilityID_T \<Rightarrow> IOC_Result_T \<times> (16 word \<times> 16 word) option" where
  "getCapability_inConlesMode c = (case c of
     IOC_CAPID_CONLES_MODE_EVENT \<Rightarrow> (IOC_RESULT_SUCCESS,
       Some (ucast CONLES_EVENT_MAX_SUBSCRIBER, ucast CONLES_EVENT_MAX_QUEUING_EVTDESC))
   | _ \<Rightarrow> (IOC_RESULT_NOT_SUPPORT, None))"

definition pullEVT_inConlesMode :: IOC_Result_T where
  "pullEVT_inConlesMode = IOC_RESULT_NOT_IMPLEMENTED"

section \<open>Link state: lemmas\<close>

definition state_ok :: "ClsState_T \<Rightarrow> bool" where
  "state_ok s \<longleftrightarrow> Main s =
     (if IsInCbProc s then IOC_LinkStateBusyCbProcEvt
      else if IsInSub s then IOC_LinkStateBusySubEvt
      else if IsInUnsub s then IOC_LinkStateBusyUnsubEvt
      else IOC_LinkStateReady)"

lemma transferState_ok: "state_ok (transferState bhv s)"
  by (cases bhv) (simp_all add: transferState_def state_ok_def Let_def)

lemma transferState_flags [simp]:
  "IsInCbProc (transferState bhv s) = (case bhv of Behavior_enterCbProcEvt \<Rightarrow> True
     | Behavior_leaveCbProcEvt \<Rightarrow> False | _ \<Rightarrow> IsInCbProc s)"
  "IsInSub (transferState bhv s) = (case bhv of Behavior_enterSubEvt \<Rightarrow> True
     | Behavior_leaveSubEvt \<Rightarrow> False | _ \<Rightarrow> IsInSub s)"
  "IsInUnsub (transferState bhv s) = (case bhv of Behavior_enterUnsubEvt \<Rightarrow> True
     | Behavior_leaveUnsubEvt \<Rightarrow> False | _ \<Rightarrow> IsInUnsub s)"
  "Sub (transferState bhv s) = Sub s"
  by (cases bhv; simp add: transferState_def Let_def)+

lemma transferState_busy [simp]:
  "IsInCbProc s \<Longrightarrow> bhv \<noteq> Behavior_leaveCbProcEvt \<Longrightarrow>
   Main (transferState bhv s) = IOC_LinkStateBusyCbProcEvt"
  "Main (transferState Behavior_enterCbProcEvt s) = IOC_LinkStateBusyCbProcEvt"
  by (cases bhv; simp add: transferState_def Let_def) (simp add: transferState_def Let_def)

lemma transferLinkObj_simps [simp]:
  "LinkID (transferLinkObjStateByBehavior bhv l) = LinkID l"
  "LoEvtDescQueue (transferLinkObjStateByBehavior bhv l) = LoEvtDescQueue l"
  "EvtSuberList (transferLinkObjStateByBehavior bhv l) = EvtSuberList l"
  "LoQueuedEvtNum (transferLinkObjStateByBehavior bhv l) = LoQueuedEvtNum l"
  "LoCallbacedEvtNum (transferLinkObjStateByBehavior bhv l) = LoCallbacedEvtNum l"
  "LoState (transferLinkObjStateByBehavior bhv l) = transferState bhv (LoState l)"
  by (simp_all add: transferLinkObjStateByBehavior_def)

section \<open>Subscriptions: invariant and abstract view\<close>

definition suber_key :: "IOC_SubEvtArgs_T \<Rightarrow> nat option \<times> nat" where
  "suber_key a = (CbProcEvt_F a, pCbPrivData a)"

definition subed :: "ClsEvtSuberList_T \<Rightarrow> IOC_SubEvtArgs_T list" where
  "subed sl = map Args (filter (\<lambda>s. State s = Subed) (Subers sl))"

definition suber_inv :: "ClsEvtSuberList_T \<Rightarrow> bool" where
  "suber_inv sl \<longleftrightarrow> length (Subers sl) = 128 \<and> unat (SuberNum sl) = length (subed sl) \<and>
     distinct (map suber_key (subed sl))"

text \<open>The subscriptions as a map from consumers to what they subscribed.\<close>

definition subs_of :: "ClsEvtSuberList_T \<Rightarrow> (nat option \<times> nat) \<rightharpoonup> IOC_SubEvtArgs_T" where
  "subs_of sl = map_of (map (\<lambda>a. (suber_key a, a)) (subed sl))"

definition stored_args :: "IOC_SubEvtArgs_T \<Rightarrow> IOC_SubEvtArgs_T" where
  "stored_args a = \<lparr>CbProcEvt_F = CbProcEvt_F a, pCbPrivData = pCbPrivData a, EvtNum = EvtNum a,
     pEvtIDs = take (unat (EvtNum a)) (pEvtIDs a)\<rparr>"

lemma suber_key_stored [simp]: "suber_key (stored_args a) = suber_key a"
  by (simp add: suber_key_def stored_args_def)

lemma subed_le: "suber_inv sl \<Longrightarrow> length (subed sl) \<le> 128"
  unfolding suber_inv_def subed_def length_map by (metis length_filter_le)

lemma suber_inv_init [simp]: "suber_inv initSuberList" "subed initSuberList = []"
  "subs_of initSuberList = Map.empty"
  by (simp_all add: suber_inv_def subs_of_def subed_def initSuberList_def zero_suber_def)

lemma same_consumer_iff: "same_consumer a s \<longleftrightarrow> State s = Subed \<and> suber_key (Args s) = suber_key a"
  by (auto simp: same_consumer_def suber_key_def)

lemma dom_subs_of: "dom (subs_of sl) = suber_key ` set (subed sl)"
  by (auto simp: subs_of_def dom_map_of_conv_image_fst image_image)

lemma card_dom_subs_of: "suber_inv sl \<Longrightarrow> card (dom (subs_of sl)) = length (subed sl)"
  by (simp add: dom_subs_of suber_inv_def distinct_card flip: set_map)

lemma first_same_consumer:
  "first_index (same_consumer a) (Subers sl) = None \<longleftrightarrow> suber_key a \<notin> dom (subs_of sl)"
  by (auto simp: dom_subs_of same_consumer_iff subed_def image_iff)

lemma subed_update:
  assumes "i < length (Subers sl)" "Subers sl' = (Subers sl)[i := s]"
  shows "\<exists>A B. subed sl = A @ (if State (Subers sl ! i) = Subed then [Args (Subers sl ! i)] else []) @ B \<and>
    subed sl' = A @ (if State s = Subed then [Args s] else []) @ B"
proof -
  let ?f = "\<lambda>xs. map Args (filter (\<lambda>s. State s = Subed) xs)"
  have "Subers sl = take i (Subers sl) @ Subers sl ! i # drop (Suc i) (Subers sl)"
    using assms(1) by (simp add: id_take_nth_drop)
  then have "subed sl = ?f (take i (Subers sl) @ Subers sl ! i # drop (Suc i) (Subers sl))"
    by (simp add: subed_def)
  moreover have "subed sl' = ?f (take i (Subers sl) @ s # drop (Suc i) (Subers sl))"
    using assms by (simp add: subed_def upd_conv_take_nth_drop)
  ultimately show ?thesis
    by (intro exI [of _ "?f (take i (Subers sl))"] exI [of _ "?f (drop (Suc i) (Subers sl))"]) auto
qed

lemma unat_ge_128: "128 \<le> (x :: ULONG) \<longleftrightarrow> 128 \<le> unat x"
  by (simp add: word_le_nat_alt)

lemma insertSuber_spec:
  fixes a :: IOC_SubEvtArgs_T and sl :: ClsEvtSuberList_T
  assumes "suber_inv sl"
  defines "r \<equiv> fst (insertSuber a sl)" and "sl' \<equiv> snd (insertSuber a sl)"
  shows "suber_inv sl'"
    and "r = (if card (dom (subs_of sl)) = 128 then IOC_RESULT_TOO_MANY_EVENT_CONSUMER
          else if suber_key a \<in> dom (subs_of sl) then IOC_RESULT_CONFLICT_EVENT_CONSUMER
          else IOC_RESULT_SUCCESS)"
    and "subs_of sl' = (if r = IOC_RESULT_SUCCESS then (subs_of sl)(suber_key a \<mapsto> stored_args a)
          else subs_of sl)"
proof -
  have inv: "length (Subers sl) = 128" "unat (SuberNum sl) = length (subed sl)"
    "distinct (map suber_key (subed sl))"
    using assms by (simp_all add: suber_inv_def)
  have full: "CONLES_EVENT_MAX_SUBSCRIBER \<le> SuberNum sl \<longleftrightarrow> card (dom (subs_of sl)) = 128"
    using inv(2) subed_le [OF assms(1)] card_dom_subs_of [OF assms(1)]
    by (simp add: CONLES_EVENT_MAX_SUBSCRIBER_def unat_ge_128)
  have "suber_inv sl' \<and> r = (if card (dom (subs_of sl)) = 128 then IOC_RESULT_TOO_MANY_EVENT_CONSUMER
          else if suber_key a \<in> dom (subs_of sl) then IOC_RESULT_CONFLICT_EVENT_CONSUMER
          else IOC_RESULT_SUCCESS) \<and>
    subs_of sl' = (if r = IOC_RESULT_SUCCESS then (subs_of sl)(suber_key a \<mapsto> stored_args a)
          else subs_of sl)"
  proof (cases "card (dom (subs_of sl)) = 128 \<or> suber_key a \<in> dom (subs_of sl)")
    case True
    then show ?thesis using assms(1) full
      by (auto simp: r_def sl'_def insertSuber_def first_same_consumer simp del: first_index_None)
  next
    case False
    have "length (subed sl) < 128"
      using False subed_le [OF assms(1)] card_dom_subs_of [OF assms(1)] by simp
    have "\<exists>s0\<in>set (Subers sl). State s0 = UnSubed"
    proof (rule ccontr)
      assume "\<not> ?thesis"
      then have "filter (\<lambda>s. State s = Subed) (Subers sl) = Subers sl"
        by (intro filter_True ballI) (metis ClsEvtSuberState_T.exhaust)
      then show False using \<open>length (subed sl) < 128\<close> inv(1) by (simp add: subed_def)
    qed
    then obtain i where i: "first_index (\<lambda>s. State s = UnSubed) (Subers sl) = Some i"
      by (cases "first_index (\<lambda>s. State s = UnSubed) (Subers sl)") auto
    have ilt: "i < length (Subers sl)" "State (Subers sl ! i) = UnSubed"
      using first_indexD [OF i] by auto
    have r: "r = IOC_RESULT_SUCCESS"
      "sl' = sl\<lparr>Subers := (Subers sl)[i := \<lparr>State = Subed, Args = stored_args a\<rparr>],
                SuberNum := SuberNum sl + 1\<rparr>"
      using False full i by (auto simp: r_def sl'_def insertSuber_def stored_args_def
          first_same_consumer simp del: first_index_None)
    obtain A B where AB: "subed sl = A @ B" "subed sl' = A @ stored_args a # B"
      using subed_update [OF ilt(1), of sl' "\<lparr>State = Subed, Args = stored_args a\<rparr>"] ilt r(2)
      by auto
    have k: "suber_key a \<notin> suber_key ` set (subed sl)" using False by (simp add: dom_subs_of)
    have "unat (SuberNum sl + 1) = Suc (unat (SuberNum sl))"
      using inv(2) \<open>length (subed sl) < 128\<close> by (simp add: unat_word_ariths)
    then have "suber_inv sl'"
      using inv k AB r(2) by (auto simp: suber_inv_def)
    moreover have "subs_of sl' = (subs_of sl)(suber_key a \<mapsto> stored_args a)"
    proof -
      have "suber_key a \<notin> dom (map_of (map (\<lambda>a. (suber_key a, a)) A))"
        using k AB(1) by (auto simp: dom_map_of_conv_image_fst image_image)
      then show ?thesis by (simp add: subs_of_def AB map_add_upd_left)
    qed
    ultimately show ?thesis using False r(1) by simp
  qed
  then show "suber_inv sl'" "r = (if card (dom (subs_of sl)) = 128 then IOC_RESULT_TOO_MANY_EVENT_CONSUMER
          else if suber_key a \<in> dom (subs_of sl) then IOC_RESULT_CONFLICT_EVENT_CONSUMER
          else IOC_RESULT_SUCCESS)"
    "subs_of sl' = (if r = IOC_RESULT_SUCCESS then (subs_of sl)(suber_key a \<mapsto> stored_args a)
          else subs_of sl)" by blast+
qed

lemma removeSuber_spec:
  fixes a :: IOC_SubEvtArgs_T and sl :: ClsEvtSuberList_T
  assumes "suber_inv sl"
  defines "r \<equiv> fst (removeSuber a sl)" and "sl' \<equiv> snd (removeSuber a sl)"
  shows "suber_inv sl'"
    and "r = (if dom (subs_of sl) = {} then IOC_RESULT_NO_EVENT_CONSUMER else IOC_RESULT_SUCCESS)"
    and "subs_of sl' = (subs_of sl)(suber_key a := None)"
proof -
  have inv: "length (Subers sl) = 128" "unat (SuberNum sl) = length (subed sl)"
    "distinct (map suber_key (subed sl))"
    using assms by (simp_all add: suber_inv_def)
  have empty: "SuberNum sl = 0 \<longleftrightarrow> dom (subs_of sl) = {}"
    using inv(2) by (simp add: dom_subs_of flip: unat_eq_0)
  have "suber_inv sl' \<and>
    r = (if dom (subs_of sl) = {} then IOC_RESULT_NO_EVENT_CONSUMER else IOC_RESULT_SUCCESS) \<and>
    subs_of sl' = (subs_of sl)(suber_key a := None)"
  proof (cases "suber_key a \<in> dom (subs_of sl)")
    case False
    then have "first_index (same_consumer a) (Subers sl) = None"
      by (simp add: first_same_consumer del: first_index_None)
    then have "r = (if dom (subs_of sl) = {} then IOC_RESULT_NO_EVENT_CONSUMER else IOC_RESULT_SUCCESS)"
      "sl' = sl"
      using empty by (auto simp: r_def sl'_def removeSuber_def simp del: first_index_None)
    moreover have "(subs_of sl)(suber_key a := None) = subs_of sl" using False by auto
    ultimately show ?thesis using assms(1) by simp
  next
    case True
    then obtain i where i: "first_index (same_consumer a) (Subers sl) = Some i"
      using first_same_consumer by (metis option.exhaust)
    have ilt: "i < length (Subers sl)" "State (Subers sl ! i) = Subed"
      "suber_key (Args (Subers sl ! i)) = suber_key a"
      using first_indexD [OF i] by (auto simp: same_consumer_iff)
    have ne: "SuberNum sl \<noteq> 0" "dom (subs_of sl) \<noteq> {}" using True empty by auto
    have r: "r = IOC_RESULT_SUCCESS"
      "sl' = sl\<lparr>Subers := (Subers sl)[i := (Subers sl ! i)\<lparr>State := UnSubed\<rparr>],
                SuberNum := SuberNum sl - 1\<rparr>"
      using ne i by (auto simp: r_def sl'_def removeSuber_def)
    obtain A B where AB: "subed sl = A @ Args (Subers sl ! i) # B" "subed sl' = A @ B"
      using subed_update [OF ilt(1), of sl' "(Subers sl ! i)\<lparr>State := UnSubed\<rparr>"] ilt r(2)
      by auto
    have "unat (SuberNum sl - 1) = unat (SuberNum sl) - 1"
      using ne(1) by (simp add: unat_minus_one)
    then have "suber_inv sl'"
      using inv AB r(2) by (auto simp: suber_inv_def)
    moreover have "subs_of sl' = (subs_of sl)(suber_key a := None)"
    proof -
      have nk: "suber_key a \<notin> suber_key ` set A" "suber_key a \<notin> suber_key ` set B"
        using inv(3) AB(1) ilt(3) by auto
      have "map_of (map (\<lambda>a. (suber_key a, a)) A) (suber_key a) = None"
        "map_of (map (\<lambda>a. (suber_key a, a)) B) (suber_key a) = None"
        using nk by (auto simp: map_of_eq_None_iff image_image)
      then show ?thesis using ilt(3)
        by (auto simp: subs_of_def AB fun_eq_iff map_add_def split: option.splits)
    qed
    ultimately show ?thesis using ne(2) r(1) by simp
  qed
  then show "suber_inv sl'"
    "r = (if dom (subs_of sl) = {} then IOC_RESULT_NO_EVENT_CONSUMER else IOC_RESULT_SUCCESS)"
    "subs_of sl' = (subs_of sl)(suber_key a := None)" by blast+
qed

text \<open>The link object in order: subscriptions, queue counters and state.\<close>

definition lo_inv :: "nat \<Rightarrow> ClsEvtLinkObj_T \<Rightarrow> bool" where
  "lo_inv k l \<longleftrightarrow> suber_inv (EvtSuberList l) \<and> evtq_inv k (LoEvtDescQueue l) \<and>
     LinkID l = CONLES_MODE_AUTO_LINK_ID \<and> state_ok (LoState l) \<and>
     \<not> IsInSub (LoState l) \<and> \<not> IsInUnsub (LoState l)"

lemma state_eqI:
  assumes "state_ok s" "state_ok t" "IsInCbProc s = IsInCbProc t" "IsInSub s = IsInSub t"
    "IsInUnsub s = IsInUnsub t" "Sub s = Sub t"
  shows "(s :: ClsState_T) = t"
  using assms by (intro ClsState_T.equality) (simp_all add: state_ok_def)

lemma enter_leave_same:
  "state_ok s \<Longrightarrow> \<not> IsInSub s \<Longrightarrow>
   transferState Behavior_leaveSubEvt (transferState Behavior_enterSubEvt s) = s"
  "state_ok s \<Longrightarrow> \<not> IsInUnsub s \<Longrightarrow>
   transferState Behavior_leaveUnsubEvt (transferState Behavior_enterUnsubEvt s) = s"
  "state_ok s \<Longrightarrow> \<not> IsInCbProc s \<Longrightarrow>
   transferState Behavior_leaveCbProcEvt (transferState Behavior_enterCbProcEvt s) = s"
  by (rule state_eqI; simp add: transferState_ok)+

lemma insertSuberIntoLinkObj_eq:
  assumes "lo_inv k l"
  shows "insertSuberIntoLinkObj a l = (fst (insertSuber a (EvtSuberList l)),
    l\<lparr>EvtSuberList := snd (insertSuber a (EvtSuberList l))\<rparr>)"
  using assms by (cases l) (simp add: insertSuberIntoLinkObj_def Let_def case_prod_beta
      transferLinkObjStateByBehavior_def lo_inv_def enter_leave_same)

lemma removeSuberFromLinkObj_eq:
  assumes "lo_inv k l"
  shows "removeSuberFromLinkObj a l = (fst (removeSuber a (EvtSuberList l)),
    l\<lparr>EvtSuberList := snd (removeSuber a (EvtSuberList l))\<rparr>)"
  using assms by (cases l) (simp add: removeSuberFromLinkObj_def Let_def case_prod_beta
      transferLinkObjStateByBehavior_def lo_inv_def enter_leave_same)

lemma getLinkObjLocked_auto:
  assumes "LinkID (lo w) = CONLES_MODE_AUTO_LINK_ID"
  shows "getLinkObjLocked CONLES_MODE_AUTO_LINK_ID w r body = lockedLinkObj body w"
  using assms by (simp add: getLinkObjLocked_def isAutoLink_def getLinkObjNotLocked_def)

lemma lo_inv_init: "k < 2 ^ 64 \<Longrightarrow> lo_inv k initClsEvtLinkObj"
  by (simp add: lo_inv_def initClsEvtLinkObj_def state_ok_def)

lemma subEVT_eq:
  assumes "lo_inv k (lo w)" "\<not> mutex_held w"
  shows "subEVT a w = Done (fst (insertSuber a (EvtSuberList (lo w))),
    w\<lparr>lo := (lo w)\<lparr>EvtSuberList := snd (insertSuber a (EvtSuberList (lo w)))\<rparr>\<rparr>)"
  using assms getLinkObjLocked_auto [of w] insertSuberIntoLinkObj_eq [OF assms(1), of a]
  by (cases w) (simp add: subEVT_def lo_inv_def lockedLinkObj_def)

lemma unsubEVT_eq:
  assumes "lo_inv k (lo w)" "\<not> mutex_held w"
  shows "unsubEVT a w = Done (fst (removeSuber a (EvtSuberList (lo w))),
    w\<lparr>lo := (lo w)\<lparr>EvtSuberList := snd (removeSuber a (EvtSuberList (lo w)))\<rparr>\<rparr>)"
  using assms getLinkObjLocked_auto [of w] removeSuberFromLinkObj_eq [OF assms(1), of a]
  by (cases w) (simp add: unsubEVT_def lo_inv_def lockedLinkObj_def)

section \<open>Calls made inside callbacks\<close>

lemma postEVT_AsyncTimed_Nil [simp]:
  "postEVT_AsyncTimed tb t e [] l =
    bindO (EvtDescQueue_enqueueElementLast (LoEvtDescQueue l) e) (\<lambda>(r, q).
      if r = IOC_RESULT_SUCCESS then Done (IOC_RESULT_SUCCESS, l\<lparr>LoEvtDescQueue := q\<rparr>) else Block)"
  by (subst postEVT_AsyncTimed.simps) (simp only: list.case prod.case)

lemma postEVT_AsyncTimed_Cons [simp]:
  "postEVT_AsyncTimed tb t e ((now, others) # rs) l =
    bindO (EvtDescQueue_enqueueElementLast (LoEvtDescQueue l) e) (\<lambda>(r, q).
      if r = IOC_RESULT_SUCCESS then Done (IOC_RESULT_SUCCESS, l\<lparr>LoEvtDescQueue := q\<rparr>)
      else bindO (IOC_deltaTimeSpecInUS tb now) (\<lambda>elapsed.
          if elapsed \<ge> t then Done (IOC_RESULT_TIMEOUT, l)
          else postEVT_AsyncTimed tb t e rs (others l)))"
  by (subst postEVT_AsyncTimed.simps) (simp only: list.case prod.case)

lemma postEVT_SyncTimed_Nil [simp]:
  "postEVT_SyncTimed dl tb t [] w =
    (if \<not> hasEvtDescInLinkObj (lo w) then bindO (dl w) (\<lambda>w'. Done (IOC_RESULT_SUCCESS, w')) else Block)"
  by (subst postEVT_SyncTimed.simps) (simp only: list.case prod.case)

lemma postEVT_SyncTimed_Cons [simp]:
  "postEVT_SyncTimed dl tb t ((now, others) # rs) w =
    (if \<not> hasEvtDescInLinkObj (lo w) then bindO (dl w) (\<lambda>w'. Done (IOC_RESULT_SUCCESS, w'))
     else bindO (IOC_deltaTimeSpecInUS tb now) (\<lambda>elapsed.
         if elapsed \<ge> t then Done (IOC_RESULT_TOO_LONG_EMPTYING_EVTDESC_QUEUE, w)
         else postEVT_SyncTimed dl tb t rs (w\<lparr>lo := others (lo w)\<rparr>)))"
  by (subst postEVT_SyncTimed.simps) (simp only: list.case prod.case)

declare postEVT_AsyncTimed.simps [simp del] postEVT_SyncTimed.simps [simp del]

lemma getLinkObjLocked_held:
  "mutex_held w \<Longrightarrow> getLinkObjLocked link w r body = getLinkObjLocked link w r body'"
  by (simp add: getLinkObjLocked_def lockedLinkObj_def)

lemma nested_call_held: "mutex_held w \<Longrightarrow> nested_call dl c w = nested_call dl' c w"
  using getLinkObjLocked_held by (cases c) (auto simp: nested_call_def postEVT_with_def)

lemma getLinkObjLocked_keeps_held:
  assumes "getLinkObjLocked link w r0 body = Done (r, w')"
  shows "mutex_held w' = mutex_held w"
  using assms by (auto simp: getLinkObjLocked_def lockedLinkObj_def outcome_simps
      split: if_splits)

lemma nested_call_keeps_held:
  "nested_call dl c w = Done (r, w') \<Longrightarrow> mutex_held w' = mutex_held w"
  by (cases c) (auto simp: nested_call_def subEVT_def unsubEVT_def postEVT_with_def
      dest: getLinkObjLocked_keeps_held)

lemma nested_calls_keeps_held:
  "nested_calls dl cs w = Done w' \<Longrightarrow> mutex_held w' = mutex_held w"
proof (induction cs arbitrary: w)
  case (Cons c cs)
  then obtain r w1 where "nested_call dl c w = Done (r, w1)"
    "nested_calls dl cs (w1\<lparr>answers := answers w1 @ [r]\<rparr>) = Done w'"
    by (auto simp: outcome_simps)
  then show ?case using Cons.IH nested_call_keeps_held by fastforce
qed simp

lemma runCallbacks_keeps_held:
  "runCallbacks dl user e cbs w = Done w' \<Longrightarrow> mutex_held w' = mutex_held w"
  by (induction dl user e cbs w rule: runCallbacks.induct)
    (auto simp: outcome_simps dest: nested_calls_keeps_held)

lemma overSuberList_keeps_held:
  "overSuberList dl user e w = Done w' \<Longrightarrow> mutex_held w' = mutex_held w"
  by (auto simp: overSuberList_def Let_def outcome_simps dest: runCallbacks_keeps_held)

lemma nested_calls_held: "mutex_held w \<Longrightarrow> nested_calls dl cs w = nested_calls dl' cs w"
proof (induction cs arbitrary: w)
  case (Cons c cs)
  have "nested_call dl c w = nested_call dl' c w" by (rule nested_call_held [OF Cons.prems])
  moreover have "mutex_held w'" if "nested_call dl' c w = Done (r, w')" for r w'
    using nested_call_keeps_held [OF that] Cons.prems by simp
  ultimately show ?case using Cons.IH by (cases "nested_call dl' c w") auto
qed simp

lemma runCallbacks_held: "mutex_held w \<Longrightarrow> runCallbacks dl user e cbs w = runCallbacks dl' user e cbs w"
proof (induction cbs arbitrary: w)
  case (Cons cb cbs)
  obtain f priv where cb: "cb = (f, priv)" by fastforce
  show ?case
  proof (cases f)
    case (Some g)
    let ?w = "w\<lparr>invoked := invoked w @ [(g, priv, e)]\<rparr>"
    have "nested_calls dl (user g priv e) ?w = nested_calls dl' (user g priv e) ?w"
      using Cons.prems by (intro nested_calls_held) simp
    moreover have "mutex_held w'" if "nested_calls dl' (user g priv e) ?w = Done w'" for w'
      using nested_calls_keeps_held [OF that] Cons.prems by simp
    ultimately show ?thesis
      using Cons.IH cb Some by (cases "nested_calls dl' (user g priv e) ?w") auto
  qed (simp add: cb)
qed simp

lemma overSuberList_held: "mutex_held w \<Longrightarrow> overSuberList dl user e w = overSuberList dl' user e w"
  using runCallbacks_held [of _ dl user e _ dl'] by (simp add: overSuberList_def Let_def)

lemma SyncTimed_cong:
  assumes "\<And>w. mutex_held w \<Longrightarrow> dl w = dl' w" "mutex_held w"
  shows "postEVT_SyncTimed dl tb t rs w = postEVT_SyncTimed dl' tb t rs w"
  using assms(2)
proof (induction rs arbitrary: w)
  case Nil
  then show ?case using assms(1) by simp
next
  case (Cons a rs)
  then show ?case using assms(1) [OF Cons.prems] Cons.IH
    by (cases a; cases "IOC_deltaTimeSpecInUS tb (fst a)") auto
qed

lemma postEVT_with_cong:
  assumes "\<And>w. mutex_held w \<Longrightarrow> dl e w = dl' e w"
  shows "postEVT_with dl link e opt env w = postEVT_with dl' link e opt env w"
proof -
  have "postEVT_Sync (dl e) opt env (w\<lparr>mutex_held := True\<rparr>) =
      postEVT_Sync (dl' e) opt env (w\<lparr>mutex_held := True\<rparr>)"
    using assms SyncTimed_cong [of "dl e" "dl' e" "w\<lparr>mutex_held := True\<rparr>"]
    by (simp add: postEVT_Sync_def del: postEVT_SyncTimed.simps)
  then show ?thesis by (simp add: postEVT_with_def getLinkObjLocked_def lockedLinkObj_def)
qed

lemma nested_call_cong:
  assumes "\<And>e w. mutex_held w \<Longrightarrow> dl e w = dl' e w"
  shows "nested_call dl c w = nested_call dl' c w"
  using postEVT_with_cong [of dl _ dl'] assms by (cases c) (auto simp: nested_call_def)

lemma deliver_cong:
  assumes "\<And>e w. mutex_held w \<Longrightarrow> dl e w = dl' e w"
  shows "overSuberList dl user e w = overSuberList dl' user e w"
proof -
  have nc: "nested_calls dl cs w = nested_calls dl' cs w" for cs w
    using nested_call_cong [of dl dl', OF assms] by (induction cs arbitrary: w) auto
  have "runCallbacks dl user e cbs w = runCallbacks dl' user e cbs w" for cbs w
  proof (induction cbs arbitrary: w)
    case (Cons cb cbs)
    then have "runCallbacks dl user e cbs = runCallbacks dl' user e cbs" by blast
    moreover obtain f priv where "cb = (f, priv)" by fastforce
    ultimately show ?case by (cases f) (simp_all add: nc)
  qed simp
  then show ?thesis by (simp add: overSuberList_def)
qed

lemma deliverAt_depth: "deliverAt (Suc (Suc d)) user e w = callbackProcEvtOverSuberList user e w"
proof -
  have "overSuberList (deliverAt (Suc d) user) user e w = overSuberList (deliverAt (Suc 0) user) user e w"
    by (rule deliver_cong) (simp add: overSuberList_held [of _ "deliverAt d user" _ _ "deliverAt 0 user"])
  then show ?thesis by (simp add: callbackProcEvtOverSuberList_def numeral_2_eq_2)
qed

section \<open>Delivery\<close>

definition deliveries :: "IOC_EvtDesc_T \<Rightarrow> ClsEvtSuberList_T \<Rightarrow> (nat \<times> nat \<times> IOC_EvtDesc_T) list" where
  "deliveries e sl = map (\<lambda>(f, p). (the f, p, e)) (activeCallbacks e sl)"

definition no_null_subs :: "ClsEvtSuberList_T \<Rightarrow> bool" where
  "no_null_subs sl \<longleftrightarrow> (\<forall>a\<in>set (subed sl). CbProcEvt_F a \<noteq> None)"

definition quiet :: "user_code \<Rightarrow> bool" where
  "quiet user \<longleftrightarrow> user = (\<lambda>_ _ _. [])"

lemma activeCallbacks_subed:
  "activeCallbacks e sl = map suber_key (filter (wants e) (subed sl))"
  by (simp add: activeCallbacks_def subed_def filter_map comp_def suber_key_def conj_commute)

lemma active_not_null: "no_null_subs sl \<Longrightarrow> (None, p) \<notin> set (activeCallbacks e sl)"
  by (auto simp: activeCallbacks_subed no_null_subs_def suber_key_def)

lemma runCallbacks_quiet:
  assumes "quiet user" "\<And>p. (None, p) \<notin> set cbs"
  shows "runCallbacks dl user e cbs w =
    Done (w\<lparr>invoked := invoked w @ map (\<lambda>(f, p). (the f, p, e)) cbs\<rparr>)"
  using assms(2)
proof (induction cbs arbitrary: w)
  case (Cons cb cbs)
  obtain f p where cb: "cb = (Some f, p)" using Cons.prems
    by (cases cb; cases "fst cb") auto
  have "(None, p) \<notin> set cbs" for p using Cons.prems [of p] by simp
  then show ?case using Cons.IH assms(1) by (simp add: cb quiet_def)
qed simp

lemma overSuberList_quiet:
  assumes "quiet user" "no_null_subs (EvtSuberList (lo w))" "state_ok (LoState (lo w))"
    "\<not> IsInCbProc (LoState (lo w))"
  shows "overSuberList dl user e w =
    Done (w\<lparr>invoked := invoked w @ deliveries e (EvtSuberList (lo w))\<rparr>)"
proof -
  have "transferLinkObjStateByBehavior Behavior_leaveCbProcEvt
      (transferLinkObjStateByBehavior Behavior_enterCbProcEvt (lo w)) = lo w"
    using assms(3,4) by (simp add: transferLinkObjStateByBehavior_def enter_leave_same)
  then show ?thesis
    using runCallbacks_quiet [OF assms(1) active_not_null [OF assms(2)]]
    by (simp add: overSuberList_def deliveries_def)
qed

lemma deliver_quiet:
  assumes "quiet user" "no_null_subs (EvtSuberList (lo w))" "state_ok (LoState (lo w))"
    "\<not> IsInCbProc (LoState (lo w))"
  shows "callbackProcEvtOverSuberList user e w =
    Done (w\<lparr>invoked := invoked w @ deliveries e (EvtSuberList (lo w))\<rparr>)"
  using overSuberList_quiet [OF assms] by (simp add: callbackProcEvtOverSuberList_def numeral_2_eq_2)

lemma deliveries_exact:
  assumes "suber_inv sl" "no_null_subs sl"
  shows "distinct (deliveries e sl)"
    and "set (deliveries e sl) =
      {(f, p, e) | f p. \<exists>a. subs_of sl (Some f, p) = Some a \<and> wants e a}"
proof -
  have d: "distinct (map suber_key (subed sl))" using assms by (simp add: suber_inv_def)
  have "distinct (activeCallbacks e sl)"
    using d unfolding activeCallbacks_subed by (simp add: distinct_map_filter)
  then show "distinct (deliveries e sl)"
    using active_not_null [OF assms(2)] unfolding deliveries_def distinct_map
    by (auto simp: inj_on_def) (metis option.collapse)
  have sub: "subs_of sl k = Some a \<longleftrightarrow> a \<in> set (subed sl) \<and> suber_key a = k" for k a
    unfolding subs_of_def using d by (subst map_of_eq_Some_iff) (auto simp: comp_def)
  show "set (deliveries e sl) = {(f, p, e) | f p. \<exists>a. subs_of sl (Some f, p) = Some a \<and> wants e a}"
  proof (intro set_eqI iffI)
    fix x assume "x \<in> set (deliveries e sl)"
    then obtain a where a: "a \<in> set (subed sl)" "wants e a" "x = (the (CbProcEvt_F a), pCbPrivData a, e)"
      by (auto simp: deliveries_def activeCallbacks_subed suber_key_def)
    then obtain f where "CbProcEvt_F a = Some f" using assms(2) by (auto simp: no_null_subs_def)
    then show "x \<in> {(f, p, e) | f p. \<exists>a. subs_of sl (Some f, p) = Some a \<and> wants e a}"
      using a sub by (auto simp: suber_key_def)
  next
    fix x assume "x \<in> {(f, p, e) | f p. \<exists>a. subs_of sl (Some f, p) = Some a \<and> wants e a}"
    then show "x \<in> set (deliveries e sl)"
      using sub by (force simp: deliveries_def activeCallbacks_subed suber_key_def)
  qed
qed

section \<open>Posting and draining\<close>

text \<open>The two event counters differ by the number of queued events.\<close>

definition counts_ok :: "ClsEvtLinkObj_T \<Rightarrow> bool" where
  "counts_ok l \<longleftrightarrow>
     LoQueuedEvtNum l = LoCallbacedEvtNum l + of_nat (length (evtq_contents (LoEvtDescQueue l)))"

lemma isEmpty_subs: "suber_inv sl \<Longrightarrow> isEmptySuberList sl \<longleftrightarrow> subs_of sl = Map.empty"
  by (simp add: isEmptySuberList_def suber_inv_def subs_of_def flip: unat_eq_0)

lemma postEVT_unlocked:
  assumes "lo_inv k (lo w)" "\<not> mutex_held w" "link = CONLES_MODE_AUTO_LINK_ID"
    "IOC_Option_isAsyncMode opt \<or> Main (LoState (lo w)) \<noteq> IOC_LinkStateBusyCbProcEvt"
    "subs_of (EvtSuberList (lo w)) \<noteq> Map.empty"
  shows "postEVT user link e opt env w =
    bindO (if IOC_Option_isAsyncMode opt
        then bindO (postEVT_Async e opt env (lo w)) (\<lambda>(r, l). Done (r, w\<lparr>mutex_held := True, lo := l\<rparr>))
        else postEVT_Sync (callbackProcEvtOverSuberList user e) opt env (w\<lparr>mutex_held := True\<rparr>))
      (\<lambda>(r, w'). Done (r, w'\<lparr>mutex_held := False\<rparr>))"
proof -
  have "\<not> isEmptySuberList (EvtSuberList (lo w))"
    using assms(1,5) isEmpty_subs by (auto simp: lo_inv_def)
  then show ?thesis
    using assms getLinkObjLocked_auto [of w]
    by (auto simp: postEVT_def postEVT_with_def lockedLinkObj_def lo_inv_def)
qed

lemma procOneEvt_quiet:
  assumes "lo_inv k (lo w)" "quiet user" "no_null_subs (EvtSuberList (lo w))"
    "\<not> IsInCbProc (LoState (lo w))" "evtq_contents (LoEvtDescQueue (lo w)) = e # es"
  shows "\<exists>q. procOneEvt user w = Done (True,
      w\<lparr>lo := (lo w)\<lparr>LoEvtDescQueue := q, LoCallbacedEvtNum := LoCallbacedEvtNum (lo w) + 1\<rparr>,
        invoked := invoked w @ deliveries e (EvtSuberList (lo w))\<rparr>) \<and>
    evtq_inv k q \<and> evtq_contents q = es"
proof -
  have inv: "evtq_inv k (LoEvtDescQueue (lo w))" "state_ok (LoState (lo w))"
    using assms(1) by (simp_all add: lo_inv_def)
  obtain q where q: "EvtDescQueue_dequeueElementFirst (LoEvtDescQueue (lo w)) =
      Done (IOC_RESULT_SUCCESS, Some e, q)" "evtq_inv k q" "evtq_contents q = es"
    using dequeue_first [OF inv(1) assms(5)] by blast
  have "callbackProcEvtOverSuberList user e (w\<lparr>lo := (lo w)\<lparr>LoEvtDescQueue := q\<rparr>\<rparr>) =
      Done (w\<lparr>lo := (lo w)\<lparr>LoEvtDescQueue := q\<rparr>,
        invoked := invoked w @ deliveries e (EvtSuberList (lo w))\<rparr>)"
    using deliver_quiet [of user "w\<lparr>lo := (lo w)\<lparr>LoEvtDescQueue := q\<rparr>\<rparr>"] assms inv by simp
  then show ?thesis using q by (cases w) (auto simp: procOneEvt_def)
qed

lemma thread_drains:
  assumes "lo_inv k (lo w)" "quiet user" "no_null_subs (EvtSuberList (lo w))"
    "\<not> IsInCbProc (LoState (lo w))" "counts_ok (lo w)"
    "evtq_contents (LoEvtDescQueue (lo w)) = es" "length es < fuel"
  shows "\<exists>w'. callbackProcEvtThread fuel user w = Done w' \<and>
    evtq_contents (LoEvtDescQueue (lo w')) = [] \<and> \<not> hasEvtDescInLinkObj (lo w') \<and> lo_inv k (lo w') \<and>
    invoked w' = invoked w @ concat (map (\<lambda>e. deliveries e (EvtSuberList (lo w))) es) \<and>
    EvtSuberList (lo w') = EvtSuberList (lo w)"
  using assms
proof (induction es arbitrary: w fuel)
  case Nil
  obtain n where n: "fuel = Suc n" using Nil.prems(7) gr0_conv_Suc by auto
  have "EvtDescQueue_dequeueElementFirst (LoEvtDescQueue (lo w)) =
      Done (IOC_RESULT_EVTDESC_QUEUE_EMPTY, None, LoEvtDescQueue (lo w))"
    using dequeue_empty Nil.prems(1,6) by (auto simp: lo_inv_def)
  moreover have "\<not> hasEvtDescInLinkObj (lo w)"
    using Nil.prems(5,6) by (simp add: hasEvtDescInLinkObj_def counts_ok_def)
  ultimately show ?case using Nil.prems n by (simp add: procOneEvt_def)
next
  case (Cons e es)
  obtain n where n: "fuel = Suc n" using Cons.prems(7) gr0_conv_Suc by auto
  obtain q where q: "procOneEvt user w = Done (True,
      w\<lparr>lo := (lo w)\<lparr>LoEvtDescQueue := q, LoCallbacedEvtNum := LoCallbacedEvtNum (lo w) + 1\<rparr>,
        invoked := invoked w @ deliveries e (EvtSuberList (lo w))\<rparr>)" (is "_ = Done (True, ?w1)")
    "evtq_inv k q" "evtq_contents q = es"
    using procOneEvt_quiet [OF Cons.prems(1-4,6)] by blast
  have "lo_inv k (lo ?w1)" "counts_ok (lo ?w1)"
    using Cons.prems(1,5,6) q by (auto simp: lo_inv_def counts_ok_def)
  then have "\<exists>w'. callbackProcEvtThread n user ?w1 = Done w' \<and>
    evtq_contents (LoEvtDescQueue (lo w')) = [] \<and> \<not> hasEvtDescInLinkObj (lo w') \<and> lo_inv k (lo w') \<and>
    invoked w' = invoked ?w1 @ concat (map (\<lambda>e. deliveries e (EvtSuberList (lo ?w1))) es) \<and>
    EvtSuberList (lo w') = EvtSuberList (lo ?w1)"
    using Cons.prems q(3) n by (intro Cons.IH) auto
  then show ?case using q(1) n by auto
qed

lemma enqueue_cases:
  assumes "evtq_inv (Suc k) q"
  obtains q' where "EvtDescQueue_enqueueElementLast q e = Done (IOC_RESULT_SUCCESS, q')"
      "length (evtq_contents q) < 64" "evtq_inv k q'" "evtq_contents q' = evtq_contents q @ [e]"
  | "EvtDescQueue_enqueueElementLast q e = Done (IOC_RESULT_TOO_MANY_QUEUING_EVTDESC, q)"
      "length (evtq_contents q) = 64"
  using enqueue_room [OF assms, of e] enqueue_full [OF assms, of e] evtq_inv_length [OF assms]
  by fastforce

text \<open>The link calls that lock: all but a post to another link, which is refused before.\<close>

definition locks :: "api_call \<Rightarrow> bool" where
  "locks c = (case c of CallPost link _ _ _ \<Rightarrow> link = CONLES_MODE_AUTO_LINK_ID | _ \<Rightarrow> True)"

lemma nested_call_blocks:
  assumes "mutex_held w" "LinkID (lo w) = CONLES_MODE_AUTO_LINK_ID"
  shows "nested_call dl c w =
    (if locks c then Block else Done (IOC_RESULT_INVALID_AUTO_LINK_ID, w))"
  using assms
  by (cases c) (simp_all add: nested_call_def subEVT_def unsubEVT_def postEVT_with_def locks_def
      getLinkObjLocked_def isAutoLink_def getLinkObjNotLocked_def lockedLinkObj_def)

lemma nested_calls_blocks:
  assumes "mutex_held w" "LinkID (lo w) = CONLES_MODE_AUTO_LINK_ID"
  shows "if (\<exists>c\<in>set cs. locks c) then nested_calls dl cs w = Block
    else \<exists>w'. nested_calls dl cs w = Done w' \<and> mutex_held w' \<and> lo w' = lo w"
  using assms
proof (induction cs arbitrary: w)
  case (Cons c cs)
  let ?w = "w\<lparr>answers := answers w @ [IOC_RESULT_INVALID_AUTO_LINK_ID]\<rparr>"
  show ?case using Cons.IH [of ?w] Cons.prems nested_call_blocks [OF Cons.prems]
    by (auto split: if_splits)
qed simp

lemma runCallbacks_blocks:
  assumes "mutex_held w" "LinkID (lo w) = CONLES_MODE_AUTO_LINK_ID"
    "\<And>p. (None, p) \<notin> set cbs" "(Some f, p) \<in> set cbs" "\<exists>c\<in>set (user f p e). locks c"
  shows "runCallbacks dl user e cbs w = Block"
  using assms(1-4)
proof (induction cbs arbitrary: w)
  case (Cons cb cbs)
  obtain g r where cb: "cb = (Some g, r)" using Cons.prems(3)
    by (cases cb; cases "fst cb") auto
  let ?w = "w\<lparr>invoked := invoked w @ [(g, r, e)]\<rparr>"
  note n = nested_calls_blocks [of ?w "user g r e" dl]
  show ?case
  proof (cases "\<exists>c\<in>set (user g r e). locks c")
    case True
    then show ?thesis using n Cons.prems cb by simp
  next
    case False
    then obtain w' where w': "nested_calls dl (user g r e) ?w = Done w'" "mutex_held w'" "lo w' = lo w"
      using n Cons.prems by auto
    have "(Some f, p) \<in> set cbs" using Cons.prems(4) cb False assms(5) by auto
    then have "runCallbacks dl user e cbs w' = Block"
      using w' Cons.prems(2,3) by (intro Cons.IH) auto
    then show ?thesis using w' cb by simp
  qed
qed simp

section \<open>Properties\<close>

text \<open>C8: Subscribing on the automatic link is an update of a finite map from consumers (callback
  and private data) to subscriptions: it is refused when 128 consumers are subscribed, refused for a
  consumer that is already subscribed, and otherwise adds the subscription; the subscriber list
  stays well formed and nothing else of the link object changes.\<close>

theorem conles_subscribe_refines_map:
  assumes "lo_inv k (lo w)" "\<not> mutex_held w"
  shows "\<exists>r w'. subEVT a w = Done (r, w') \<and> lo_inv k (lo w') \<and> \<not> mutex_held w' \<and>
    r = (if card (dom (subs_of (EvtSuberList (lo w)))) = 128 then IOC_RESULT_TOO_MANY_EVENT_CONSUMER
         else if suber_key a \<in> dom (subs_of (EvtSuberList (lo w)))
         then IOC_RESULT_CONFLICT_EVENT_CONSUMER else IOC_RESULT_SUCCESS) \<and>
    subs_of (EvtSuberList (lo w')) =
      (if r = IOC_RESULT_SUCCESS then (subs_of (EvtSuberList (lo w)))(suber_key a \<mapsto> stored_args a)
       else subs_of (EvtSuberList (lo w))) \<and>
    LoState (lo w') = LoState (lo w) \<and> LoEvtDescQueue (lo w') = LoEvtDescQueue (lo w)"
proof -
  have "suber_inv (EvtSuberList (lo w))" using assms(1) by (simp add: lo_inv_def)
  from insertSuber_spec [OF this, of a] show ?thesis
    using subEVT_eq [OF assms, of a] assms by (simp add: lo_inv_def)
qed

text \<open>A world for the examples: one consumer of event 7, nothing queued.\<close>

definition sample_args :: IOC_SubEvtArgs_T where
  "sample_args = \<lparr>CbProcEvt_F = Some 1, pCbPrivData = 2, EvtNum = 1, pEvtIDs = [7]\<rparr>"

definition sample_world :: cls_world where
  "sample_world = \<lparr>lo = initClsEvtLinkObj\<lparr>EvtSuberList := snd (insertSuber sample_args initSuberList)\<rparr>,
     mutex_held = False, invoked = [], answers = []\<rparr>"

definition sample_env :: post_env where
  "sample_env = \<lparr>begin_time = \<lparr>tv_sec = 0, tv_nsec = 0\<rparr>, rounds = []\<rparr>"

definition sample_evt :: IOC_EvtDesc_T where
  "sample_evt = \<lparr>MsgDesc = zero_msg, EvtID = 7, EvtValue = 42\<rparr>"

lemma sample_world_ok [simp]:
  "lo_inv 100 (lo sample_world)" "\<not> mutex_held sample_world" "\<not> IsInCbProc (LoState (lo sample_world))"
  "\<not> hasEvtDescInLinkObj (lo sample_world)" "counts_ok (lo sample_world)"
  "subs_of (EvtSuberList (lo sample_world)) = [(Some 1, 2) \<mapsto> stored_args sample_args]"
  "evtq_contents (LoEvtDescQueue (lo sample_world)) = []"
  "no_null_subs (EvtSuberList (lo sample_world))" "wants sample_evt (stored_args sample_args)"
proof -
  note s = insertSuber_spec [OF suber_inv_init(1), of sample_args]
  show subs: "subs_of (EvtSuberList (lo sample_world)) = [(Some 1, 2) \<mapsto> stored_args sample_args]"
    using s(2,3) by (simp add: sample_world_def suber_key_def sample_args_def)
  show "lo_inv 100 (lo sample_world)"
    using lo_inv_init [of 100] s(1) by (simp add: lo_inv_def sample_world_def)
  have "suber_key ` set (subed (EvtSuberList (lo sample_world))) = {(Some 1, 2)}"
    using dom_subs_of [of "EvtSuberList (lo sample_world)"] by (simp add: subs)
  then show "no_null_subs (EvtSuberList (lo sample_world))"
    by (auto simp: no_null_subs_def suber_key_def set_eq_iff)
qed (simp_all add: sample_world_def initClsEvtLinkObj_def hasEvtDescInLinkObj_def counts_ok_def
    wants_def sample_evt_def sample_args_def stored_args_def)

lemma sample_sync [simp]: "\<not> IOC_Option_isAsyncMode (Some opt_SyncMayBlock)"
  "IOC_Option_isAsyncMode (Some opt_NonBlock)" "IOC_Option_isNonBlockMode (Some opt_NonBlock)"
  by (simp_all add: option_mode_defs opt_SyncMayBlock_def opt_NonBlock_def IOC_OPTID_SYNC_MODE_def
      IOC_OPTID_TIMEOUT_def)

theorem conles_subscribe_witness:
  "\<exists>w'. subEVT sample_args sample_world = Done (IOC_RESULT_CONFLICT_EVENT_CONSUMER, w')"
  using conles_subscribe_refines_map [of 100 sample_world sample_args]
  by (auto simp: suber_key_def sample_args_def)

text \<open>C16: Unsubscribing removes exactly that consumer's subscription.  It answers that there is no
  consumer only when nobody at all is subscribed: removing a consumer that is not subscribed, while
  another one is, answers success and changes nothing.\<close>

theorem conles_unsubscribe_refines_map:
  assumes "lo_inv k (lo w)" "\<not> mutex_held w"
  shows "\<exists>r w'. unsubEVT a w = Done (r, w') \<and> lo_inv k (lo w') \<and> \<not> mutex_held w' \<and>
    r = (if subs_of (EvtSuberList (lo w)) = Map.empty then IOC_RESULT_NO_EVENT_CONSUMER
         else IOC_RESULT_SUCCESS) \<and>
    subs_of (EvtSuberList (lo w')) = (subs_of (EvtSuberList (lo w)))(suber_key a := None) \<and>
    LoState (lo w') = LoState (lo w) \<and> LoEvtDescQueue (lo w') = LoEvtDescQueue (lo w)"
proof -
  have "suber_inv (EvtSuberList (lo w))" using assms(1) by (simp add: lo_inv_def)
  from removeSuber_spec [OF this, of a] show ?thesis
    using unsubEVT_eq [OF assms, of a] assms by (simp add: lo_inv_def)
qed

theorem conles_unsubscribe_witness:
  "\<exists>w'. unsubEVT (sample_args\<lparr>pCbPrivData := 3\<rparr>) sample_world = Done (IOC_RESULT_SUCCESS, w') \<and>
    subs_of (EvtSuberList (lo w')) = [(Some 1, 2) \<mapsto> stored_args sample_args]"
  using conles_unsubscribe_refines_map [of 100 sample_world "sample_args\<lparr>pCbPrivData := 3\<rparr>"]
  by (auto simp: suber_key_def sample_args_def)

text \<open>C9: A synchronous post that delivers invokes, once each, exactly the callbacks of the
  consumers that subscribed to the event (or to all events), with that event, and leaves the link
  object as it was and its mutex free.\<close>

theorem sync_post_delivers_exactly:
  assumes "lo_inv k (lo w)" "\<not> mutex_held w" "quiet user" "no_null_subs (EvtSuberList (lo w))"
    "\<not> IsInCbProc (LoState (lo w))" "\<not> IOC_Option_isAsyncMode opt"
    "subs_of (EvtSuberList (lo w)) \<noteq> Map.empty" "\<not> hasEvtDescInLinkObj (lo w)"
  shows "\<exists>ds. postEVT user CONLES_MODE_AUTO_LINK_ID e opt env w =
      Done (IOC_RESULT_SUCCESS, w\<lparr>invoked := invoked w @ ds\<rparr>) \<and> distinct ds \<and>
    set ds = {(f, p, e) | f p. \<exists>a. subs_of (EvtSuberList (lo w)) (Some f, p) = Some a \<and> wants e a}"
proof -
  let ?w = "w\<lparr>mutex_held := True\<rparr>"
  have inv: "suber_inv (EvtSuberList (lo w))" "state_ok (LoState (lo w))"
    and main: "Main (LoState (lo w)) \<noteq> IOC_LinkStateBusyCbProcEvt"
    using assms(1,5) by (auto simp: lo_inv_def state_ok_def)
  have "callbackProcEvtOverSuberList user e ?w =
      Done (?w\<lparr>invoked := invoked w @ deliveries e (EvtSuberList (lo w))\<rparr>)"
    using deliver_quiet [of user ?w e] assms inv by simp
  then have "postEVT user CONLES_MODE_AUTO_LINK_ID e opt env w =
      Done (IOC_RESULT_SUCCESS, w\<lparr>invoked := invoked w @ deliveries e (EvtSuberList (lo w))\<rparr>)"
    using postEVT_unlocked [OF assms(1,2) refl _ assms(7)] main assms(2,6,8)
    by (cases w) (simp add: postEVT_Sync_def)
  then show ?thesis using deliveries_exact [OF inv(1) assms(4)] by blast
qed

theorem sync_post_delivers_witness:
  "\<exists>ds. postEVT (\<lambda>_ _ _. []) CONLES_MODE_AUTO_LINK_ID sample_evt (Some opt_SyncMayBlock) sample_env
      sample_world = Done (IOC_RESULT_SUCCESS, sample_world\<lparr>invoked := ds\<rparr>) \<and> (1, 2, sample_evt) \<in> set ds"
  using sync_post_delivers_exactly [of 100 sample_world "\<lambda>_ _ _. []" "Some opt_SyncMayBlock"
      sample_evt sample_env]
  by (auto simp: quiet_def sample_world_def [THEN arg_cong, of invoked])

text \<open>C17: An asynchronous post that may not block is accepted exactly when fewer than 64 events are
  queued; then the event is last in the queue and counted, otherwise nothing changes.  The counters
  keep agreeing with the queue.\<close>

theorem async_nonblock_post:
  assumes "lo_inv (Suc k) (lo w)" "\<not> mutex_held w" "counts_ok (lo w)"
    "IOC_Option_isAsyncMode opt" "IOC_Option_isNonBlockMode opt"
    "subs_of (EvtSuberList (lo w)) \<noteq> Map.empty"
  shows "\<exists>w'. postEVT user CONLES_MODE_AUTO_LINK_ID e opt env w =
      Done (if length (evtq_contents (LoEvtDescQueue (lo w))) < 64 then IOC_RESULT_SUCCESS
            else IOC_RESULT_TOO_MANY_QUEUING_EVTDESC, w') \<and>
    lo_inv k (lo w') \<and> counts_ok (lo w') \<and> \<not> mutex_held w' \<and> invoked w' = invoked w \<and>
    evtq_contents (LoEvtDescQueue (lo w')) = evtq_contents (LoEvtDescQueue (lo w)) @
      (if length (evtq_contents (LoEvtDescQueue (lo w))) < 64 then [e] else [])"
proof -
  have q: "evtq_inv (Suc k) (LoEvtDescQueue (lo w))" using assms(1) by (simp add: lo_inv_def)
  have nt: "\<not> IOC_Option_isTimeoutMode opt"
    using assms(5) by (simp add: isTimeoutMode_timeout isNonBlockMode_timeout)
  note post = postEVT_unlocked [OF assms(1,2) refl disjI1 [OF assms(4)] assms(6), of user e env]
  show ?thesis
  proof (cases rule: enqueue_cases [OF q, of e])
    case (1 q')
    then have "postEVT user CONLES_MODE_AUTO_LINK_ID e opt env w = Done (IOC_RESULT_SUCCESS,
        w\<lparr>lo := (lo w)\<lparr>LoEvtDescQueue := q', LoQueuedEvtNum := LoQueuedEvtNum (lo w) + 1\<rparr>\<rparr>)"
      using post nt assms(2,4) by (cases w) (simp add: postEVT_Async_def)
    then show ?thesis using 1 assms(1-3) by (simp add: lo_inv_def counts_ok_def)
  next
    case 2
    then have "postEVT user CONLES_MODE_AUTO_LINK_ID e opt env w =
        Done (IOC_RESULT_TOO_MANY_QUEUING_EVTDESC, w)"
      using post nt assms(2,4,5) by (cases w) (simp add: postEVT_Async_def)
    then show ?thesis using 2 assms(1-3) evtq_inv_mono [of "Suc k" _ k] by (simp add: lo_inv_def)
  qed
qed

theorem async_nonblock_post_witness:
  "\<exists>w'. postEVT (\<lambda>_ _ _. []) CONLES_MODE_AUTO_LINK_ID sample_evt (Some opt_NonBlock) sample_env
      sample_world = Done (IOC_RESULT_SUCCESS, w') \<and>
    evtq_contents (LoEvtDescQueue (lo w')) = [sample_evt]"
  using async_nonblock_post [of 99 sample_world "Some opt_NonBlock" "\<lambda>_ _ _. []" sample_evt sample_env]
  by auto

text \<open>C12: The event thread, run with fuel for one more turn than there are queued events, empties the
  queue and invokes, in the order in which the events were posted, for each event the callbacks of
  the consumers that want it; then no event is pending.\<close>

theorem event_thread_delivers_in_order:
  assumes "lo_inv k (lo w)" "quiet user" "no_null_subs (EvtSuberList (lo w))"
    "\<not> IsInCbProc (LoState (lo w))" "counts_ok (lo w)"
  shows "\<exists>w'. callbackProcEvtThread (Suc (length (evtq_contents (LoEvtDescQueue (lo w))))) user w = Done w' \<and>
    evtq_contents (LoEvtDescQueue (lo w')) = [] \<and> \<not> hasEvtDescInLinkObj (lo w') \<and>
    invoked w' = invoked w @ concat (map (\<lambda>e. deliveries e (EvtSuberList (lo w)))
      (evtq_contents (LoEvtDescQueue (lo w))))"
  using thread_drains [OF assms refl] by blast

text \<open>The sample world with three events queued, of which the consumer wants the first and the last.\<close>

definition queued :: "IOC_EvtDesc_T \<Rightarrow> cls_world \<Rightarrow> cls_world" where
  "queued e w = (case EvtDescQueue_enqueueElementLast (LoEvtDescQueue (lo w)) e of
     Done (_, q) \<Rightarrow> w\<lparr>lo := (lo w)\<lparr>LoEvtDescQueue := q, LoQueuedEvtNum := LoQueuedEvtNum (lo w) + 1\<rparr>\<rparr> | _ \<Rightarrow> w)"

lemma queued_ok:
  assumes "lo_inv (Suc k) (lo w)" "counts_ok (lo w)" "length (evtq_contents (LoEvtDescQueue (lo w))) < 64"
  shows "lo_inv k (lo (queued e w))" "counts_ok (lo (queued e w))" "LoState (lo (queued e w)) = LoState (lo w)"
    "EvtSuberList (lo (queued e w)) = EvtSuberList (lo w)" "invoked (queued e w) = invoked w"
    "evtq_contents (LoEvtDescQueue (lo (queued e w))) = evtq_contents (LoEvtDescQueue (lo w)) @ [e]"
proof -
  have "evtq_inv (Suc k) (LoEvtDescQueue (lo w))" using assms(1) by (simp add: lo_inv_def)
  from enqueue_room [OF this assms(3), of e] obtain q where
    q: "EvtDescQueue_enqueueElementLast (LoEvtDescQueue (lo w)) e = Done (IOC_RESULT_SUCCESS, q)" "evtq_inv k q"
      "evtq_contents q = evtq_contents (LoEvtDescQueue (lo w)) @ [e]" by blast
  show "lo_inv k (lo (queued e w))" "counts_ok (lo (queued e w))" "LoState (lo (queued e w)) = LoState (lo w)"
    "EvtSuberList (lo (queued e w)) = EvtSuberList (lo w)" "invoked (queued e w) = invoked w"
    "evtq_contents (LoEvtDescQueue (lo (queued e w))) = evtq_contents (LoEvtDescQueue (lo w)) @ [e]"
    using q assms(1,2) by (simp_all add: queued_def lo_inv_def counts_ok_def)
qed

lemma sample_subed: "subed (EvtSuberList (lo sample_world)) = [stored_args sample_args]"
proof -
  let ?sl = "EvtSuberList (lo sample_world)"
  have "suber_key ` set (subed ?sl) = {(Some 1, 2)}" using dom_subs_of [of ?sl] by simp
  moreover have "distinct (map suber_key (subed ?sl))" using sample_world_ok(1) by (simp add: lo_inv_def suber_inv_def del: sample_world_ok)
  then have "length (subed ?sl) = card (suber_key ` set (subed ?sl))" using distinct_card by fastforce
  ultimately have "length (subed ?sl) = 1" by simp
  then obtain a where a: "subed ?sl = [a]" by (auto simp: length_Suc_conv)
  have "[suber_key a \<mapsto> a] = [(Some 1, 2) \<mapsto> stored_args sample_args]"
    using sample_world_ok(6) a unfolding subs_of_def by simp
  then have "a = stored_args sample_args" by (auto simp: fun_eq_iff split: if_splits)
  with a show ?thesis by simp
qed

theorem event_thread_witness:
  "\<exists>w'. callbackProcEvtThread 4 (\<lambda>_ _ _. [])
      (queued (sample_evt\<lparr>EvtValue := 43\<rparr>) (queued (sample_evt\<lparr>EvtID := 8\<rparr>) (queued sample_evt sample_world))) = Done w' \<and>
    evtq_contents (LoEvtDescQueue (lo w')) = [] \<and> \<not> hasEvtDescInLinkObj (lo w') \<and>
    invoked w' = [(1, 2, sample_evt), (1, 2, sample_evt\<lparr>EvtValue := 43\<rparr>)]"
proof -
  let ?w1 = "queued sample_evt sample_world"
  let ?w2 = "queued (sample_evt\<lparr>EvtID := 8\<rparr>) ?w1"
  let ?w3 = "queued (sample_evt\<lparr>EvtValue := 43\<rparr>) ?w2"
  have "lo_inv (Suc 99) (lo sample_world)" using sample_world_ok(1) by (simp del: sample_world_ok)
  note 1 = queued_ok [OF this sample_world_ok(5), of sample_evt, unfolded sample_world_ok(7), simplified]
  have "lo_inv (Suc 98) (lo ?w1)" using 1(1) by simp
  note 2 = queued_ok [OF this 1(2), of "sample_evt\<lparr>EvtID := 8\<rparr>", unfolded 1(3-6), simplified]
  have "lo_inv (Suc 97) (lo ?w2)" using 2(1) by simp
  note 3 = queued_ok [OF this 2(2), of "sample_evt\<lparr>EvtValue := 43\<rparr>", unfolded 2(3-6), simplified]
  have inv: "invoked sample_world = []" by (simp add: sample_world_def)
  have d: "deliveries e (EvtSuberList (lo sample_world)) = (if EvtID e = 7 then [(1, 2, e)] else [])" for e
    by (simp add: deliveries_def activeCallbacks_subed sample_subed wants_def suber_key_def stored_args_def sample_args_def)
  have q: "quiet (\<lambda>_ _ _. [])" "no_null_subs (EvtSuberList (lo ?w3))" "\<not> IsInCbProc (LoState (lo ?w3))"
    using 3(3,4) by (simp_all add: quiet_def)
  have e: "EvtID sample_evt = 7" by (simp add: sample_evt_def)
  show ?thesis using event_thread_delivers_in_order [OF 3(1) q 3(2)] 3(4-6) inv d e
    by (simp add: numeral_eq_Suc del: callbackProcEvtThread.simps)
qed

text \<open>While callbacks of a delivery run, every synchronous post on the link is refused, whichever
  thread makes it and whatever its timeout; nothing is delivered and nothing changes.\<close>

theorem sync_post_forbidden_during_callbacks:
  assumes "lo_inv k (lo w)" "\<not> mutex_held w" "IsInCbProc (LoState (lo w))"
    "\<not> IOC_Option_isAsyncMode opt"
  shows "postEVT user CONLES_MODE_AUTO_LINK_ID e opt env w = Done (IOC_RESULT_FORBIDDEN, w)"
  using assms getLinkObjLocked_auto [of w]
  by (cases w) (simp add: postEVT_def postEVT_with_def lockedLinkObj_def lo_inv_def state_ok_def)

theorem sync_post_forbidden_witness:
  "let w = sample_world\<lparr>lo := transferLinkObjStateByBehavior Behavior_enterCbProcEvt (lo sample_world)\<rparr>
   in postEVT (\<lambda>_ _ _. []) CONLES_MODE_AUTO_LINK_ID sample_evt (Some opt_SyncMayBlock) sample_env w =
      Done (IOC_RESULT_FORBIDDEN, w)"
proof -
  let ?w = "sample_world\<lparr>lo := transferLinkObjStateByBehavior Behavior_enterCbProcEvt (lo sample_world)\<rparr>"
  have "lo_inv 100 (lo ?w)"
    using sample_world_ok(1) by (simp add: lo_inv_def transferState_ok del: sample_world_ok)
  then show ?thesis using sync_post_forbidden_during_callbacks [of 100 ?w] by simp
qed

text \<open>C18: A synchronous post runs the callbacks with the link object's mutex held, so if any callback
  of a consumer of the event subscribes, unsubscribes or posts on the same link, the post never
  returns.\<close>

theorem sync_post_reentrant_call_blocks:
  assumes "lo_inv k (lo w)" "\<not> mutex_held w" "no_null_subs (EvtSuberList (lo w))"
    "\<not> IsInCbProc (LoState (lo w))" "\<not> IOC_Option_isAsyncMode opt" "\<not> hasEvtDescInLinkObj (lo w)"
    "subs_of (EvtSuberList (lo w)) (Some f, p) = Some a" "wants e a"
    "\<exists>c\<in>set (user f p e). locks c"
  shows "postEVT user CONLES_MODE_AUTO_LINK_ID e opt env w = Block"
proof -
  let ?w = "w\<lparr>mutex_held := True\<rparr>"
  have inv: "suber_inv (EvtSuberList (lo w))" "LinkID (lo w) = CONLES_MODE_AUTO_LINK_ID"
    and main: "Main (LoState (lo w)) \<noteq> IOC_LinkStateBusyCbProcEvt"
    using assms(1,4) by (auto simp: lo_inv_def state_ok_def)
  have ne: "subs_of (EvtSuberList (lo w)) \<noteq> Map.empty" using assms(7) by auto
  have "(suber_key a, a) = ((Some f, p), a) \<and> a \<in> set (subed (EvtSuberList (lo w)))"
    using map_of_SomeD [OF assms(7) [unfolded subs_of_def]] by auto
  then have "(Some f, p) \<in> set (activeCallbacks e (EvtSuberList (lo w)))"
    using assms(8) by (force simp: activeCallbacks_subed)
  then have "callbackProcEvtOverSuberList user e ?w = Block"
    using runCallbacks_blocks [of _ "activeCallbacks e (EvtSuberList (lo w))"] assms(9) inv(2)
      active_not_null [OF assms(3)]
    by (simp add: callbackProcEvtOverSuberList_def numeral_2_eq_2 overSuberList_def)
  then show ?thesis
    using postEVT_unlocked [OF assms(1,2) refl _ ne] main assms(5,6)
    by (simp add: postEVT_Sync_def)
qed

theorem sync_post_reentrant_call_witness:
  "postEVT (\<lambda>f p e. [CallUnsub sample_args]) CONLES_MODE_AUTO_LINK_ID sample_evt
     (Some opt_SyncMayBlock) sample_env sample_world = Block"
  using sync_post_reentrant_call_blocks [of 100 sample_world "Some opt_SyncMayBlock" 1 2
      "stored_args sample_args" sample_evt "\<lambda>f p e. [CallUnsub sample_args]"]
  by (simp add: locks_def)

end
