(* ===== verification/ServiceTable.thy ===== *)
theory ServiceTable
  imports ConlesEvent
begin

text \<open>
  The object tables of \<^verbatim>\<open>src/Source/IOC_Service.c\<close> and the structures of
  \<^verbatim>\<open>src/Source/_IOC_Types.h\<close>: 32 services and 32 links.  Services are owned by their table.
  Links are heap objects: the table holds their addresses, so that a freed object whose address
  stays in the table (or in a service) is a dangling pointer of the model too.
\<close>

section \<open>Arguments\<close>

text \<open>The usage arguments a link or service points to.\<close>

record IOC_EvtUsageArgs_T =
  euCbProcEvt_F :: "nat option"
  euCbPrivData :: nat
  euEvtNum :: ULONG
  euEvtIDs :: "ULONG list"

record IOC_CmdUsageArgs_T =
  cuCbExecCmd_F :: "nat option"
  cuCbPrivData :: nat
  cuCmdNum :: ULONG
  cuCmdIDs :: "ULONG list"

record IOC_DatUsageArgs_T =
  duCbRecvDat_F :: "nat option"
  duCbPrivData :: nat

text \<open>In connection arguments the three pointers are one union: the last one written is the one
  that is read.\<close>

datatype usage_args_union =
    pEvt IOC_EvtUsageArgs_T
  | pCmd IOC_CmdUsageArgs_T
  | pDat IOC_DatUsageArgs_T

record IOC_ConnArgs_T =
  ConnSrvURI :: IOC_SrvURI_T
  ConnUsage :: usage
  ConnUsageArgs :: "usage_args_union option"

text \<open>The URI of service arguments as the caller fills it in, where pointers may be null.\<close>

record raw_URI =
  rawProtocol :: "string option"
  rawHost :: "string option"
  rawPath :: "string option"
  rawPort :: "16 word"

definition IOC_SRVFLAG_BROADCAST_EVENT :: "32 word" where "IOC_SRVFLAG_BROADCAST_EVENT = 1"
definition IOC_SRVFLAG_AUTO_ACCEPT :: "32 word" where "IOC_SRVFLAG_AUTO_ACCEPT = 2"
definition IOC_SRVFLAG_KEEP_ACCEPTED_LINK :: "32 word" where "IOC_SRVFLAG_KEEP_ACCEPTED_LINK = 4"

record IOC_SrvArgs_T =
  ArgSrvURI :: raw_URI
  ArgFlags :: "32 word"
  ArgUsageCapabilites :: usage
  ArgEvt :: "IOC_EvtUsageArgs_T option"
  ArgCmd :: "IOC_CmdUsageArgs_T option"
  ArgDat :: "IOC_DatUsageArgs_T option"
  ArgOnAutoAccepted_F :: "nat option"
  ArgSrvPriv :: nat

section \<open>Objects and tables\<close>

text \<open>\<open>pMethods\<close> is the index of the protocol in the method table; \<open>pProtoPriv\<close> is the address of
  the protocol's own object.  Of the time stamps only the one of the last data operation is ever read.\<close>

record ServiceObject_T =
  SrvID :: ULONG
  SrvURI :: IOC_SrvURI_T
  Flags :: "32 word"
  UsageCapabilites :: usage
  SrvEvt :: "IOC_EvtUsageArgs_T option"
  SrvCmd :: "IOC_CmdUsageArgs_T option"
  SrvDat :: "IOC_DatUsageArgs_T option"
  OnAutoAccepted_F :: "nat option"
  pSrvPriv :: nat
  SrvMethods :: "nat option"
  BroadcastLinks :: "nat option list"
  BroadcastCount :: "16 word"
  AutoLinks :: "nat option list"
  AutoCount :: int
  ManualLinkIDs :: "ULONG list"
  ManualCount :: int
  SrvProtoPriv :: "nat option"

record LinkObject_T =
  ID :: ULONG
  LinkSrvURI :: IOC_SrvURI_T
  Usage :: usage
  UsageArgs :: "usage_args_union option"
  pMethods :: "nat option"
  ConnState :: IOC_LinkConnState_T
  IsConnected :: bool
  DatSubState :: IOC_LinkSubState_T
  IsSending :: bool
  IsReceiving :: bool
  DatLastOpTime :: int
  CmdSubState :: IOC_LinkSubState_T
  IsExecuting :: bool
  IsWaiting :: bool
  IsProcessing :: bool
  pProtoPriv :: "nat option"

text \<open>
  The state of the library: tables, heap of link objects, test hooks and counters, the
  connectionless link (whose sub state the service layer updates), and the state \<open>proto\<close> of the
  protocols.  \<open>evtSeqID\<close> and \<open>postBusyCallCount\<close> are the static variables of \<^verbatim>\<open>IOC_postEVT\<close> and of
  \<^verbatim>\<open>_IOC_getLinkState_inConetMode\<close>.  \<open>LinkTblLocked\<close>: the mutex of the link table was never released.  \<open>auto_log\<close> records
  the invocations of the services' accept hooks.
\<close>

record 'p ioc_world =
  SrvTbl :: "ServiceObject_T option list"
  LinkTbl :: "nat option list"
  LinkHeap :: "nat \<Rightarrow> LinkObject_T option"
  next_addr :: nat
  LinkTblLocked :: bool
  FailNextAllocCount :: int
  ServiceCount :: "16 word"
  LinkCount :: "16 word"
  conles :: ClsEvtLinkObj_T
  proto :: 'p
  evtSeqID :: ULONG
  postBusyCallCount :: int
  auto_log :: "(nat \<times> ULONG \<times> ULONG \<times> nat) list"

definition MAX_IOC_SRV_OBJ_NUM :: nat where "MAX_IOC_SRV_OBJ_NUM = 32"
definition MAX_IOC_LINK_OBJ_NUM :: nat where "MAX_IOC_LINK_OBJ_NUM = 32"

definition init_world :: "'p \<Rightarrow> 'p ioc_world" where
  "init_world p = \<lparr>SrvTbl = replicate 32 None, LinkTbl = replicate 32 None,
     LinkHeap = (\<lambda>_. None), next_addr = 0, LinkTblLocked = False, FailNextAllocCount = 0,
     ServiceCount = 0, LinkCount = 0, conles = initClsEvtLinkObj, proto = p,
     evtSeqID = 0, postBusyCallCount = 0, auto_log = []\<rparr>"

section \<open>Test hooks\<close>

definition IOC_test_setFailNextAlloc :: "int \<Rightarrow> 'p ioc_world \<Rightarrow> 'p ioc_world" where
  "IOC_test_setFailNextAlloc n w = w\<lparr>FailNextAllocCount := n\<rparr>"
definition IOC_getServiceCount :: "'p ioc_world \<Rightarrow> 16 word" where
  "IOC_getServiceCount w = ServiceCount w"
definition IOC_getLinkCount :: "'p ioc_world \<Rightarrow> 16 word" where
  "IOC_getLinkCount w = LinkCount w"

text \<open>\<open>mem\<close>: the C library's allocation succeeds.\<close>

definition test_calloc :: "bool \<Rightarrow> 'p ioc_world \<Rightarrow> bool \<times> 'p ioc_world" where
  "test_calloc mem w =
    (if FailNextAllocCount w > 0
     then (False, w\<lparr>FailNextAllocCount := FailNextAllocCount w - 1\<rparr>)
     else (mem, w))"

section \<open>Services\<close>

definition uri_conflicts :: "raw_URI \<Rightarrow> ServiceObject_T \<Rightarrow> bool" where
  "uri_conflicts new s \<longleftrightarrow>
     Some (pProtocol (SrvURI s)) = rawProtocol new \<and> Some (pHost (SrvURI s)) = rawHost new \<and>
     Some (pPath (SrvURI s)) = rawPath new \<and> Port (SrvURI s) = rawPort new"

definition isSrvObjConflicted :: "IOC_SrvArgs_T option \<Rightarrow> 'p ioc_world \<Rightarrow> bool" where
  "isSrvObjConflicted args w = (case args of None \<Rightarrow> False
     | Some a \<Rightarrow> first_index (\<lambda>slot. case slot of None \<Rightarrow> False
         | Some s \<Rightarrow> uri_conflicts (ArgSrvURI a) s) (SrvTbl w) \<noteq> None)"

definition new_service :: "nat \<Rightarrow> IOC_SrvArgs_T \<Rightarrow> ServiceObject_T" where
  "new_service i a =
    \<lparr>SrvID = of_nat i,
     SrvURI = \<lparr>pProtocol = the (rawProtocol (ArgSrvURI a)), pHost = the (rawHost (ArgSrvURI a)),
       pPath = the (rawPath (ArgSrvURI a)), Port = rawPort (ArgSrvURI a)\<rparr>,
     Flags = ArgFlags a, UsageCapabilites = ArgUsageCapabilites a,
     SrvEvt = ArgEvt a, SrvCmd = ArgCmd a, SrvDat = ArgDat a,
     OnAutoAccepted_F = ArgOnAutoAccepted_F a, pSrvPriv = ArgSrvPriv a,
     SrvMethods = None, BroadcastLinks = replicate 3 None, BroadcastCount = 0,
     AutoLinks = replicate 16 None, AutoCount = 0,
     ManualLinkIDs = replicate 32 ULONG_MAX, ManualCount = 0, SrvProtoPriv = None\<rparr>"

text \<open>\<open>strdup\<close> of a null pointer crashes; its other failure is not checked.  \<open>mem\<close> and \<open>mutex_ok\<close>
  are the answers of \<^verbatim>\<open>calloc\<close> and \<^verbatim>\<open>pthread_mutex_init\<close>.\<close>

definition allocSrvObj ::
  "bool \<Rightarrow> bool \<Rightarrow> IOC_SrvArgs_T \<Rightarrow> 'p ioc_world \<Rightarrow> (IOC_Result_T \<times> nat option \<times> 'p ioc_world) outcome"
where
  "allocSrvObj mem mutex_ok a w =
    (if isSrvObjConflicted (Some a) w then Done (IOC_RESULT_CONFLICT_SRVARGS, None, w)
     else case first_index (\<lambda>slot. slot = None) (SrvTbl w) of
       None \<Rightarrow> Done (IOC_RESULT_TOO_MANY_SERVICES, None, w)
     | Some i \<Rightarrow>
         let (ok, w1) = test_calloc mem w
         in if \<not> ok then Done (IOC_RESULT_POSIX_ENOMEM, None, w1)
            else if \<not> mutex_ok then Done (IOC_RESULT_POSIX_ENOMEM, None, w1)
            else if rawProtocol (ArgSrvURI a) = None \<or> rawHost (ArgSrvURI a) = None \<or>
                    rawPath (ArgSrvURI a) = None then Abort
            else Done (IOC_RESULT_SUCCESS, Some i,
              w1\<lparr>SrvTbl := (SrvTbl w1)[i := Some (new_service i a)],
                 ServiceCount := ServiceCount w1 + 1\<rparr>))"

text \<open>The service is named by its slot.\<close>

definition freeSrvObj :: "nat \<Rightarrow> 'p ioc_world \<Rightarrow> 'p ioc_world outcome" where
  "freeSrvObj i w = log_assert (i < MAX_IOC_SRV_OBJ_NUM \<and> SrvTbl w ! i \<noteq> None) (
     Done (w\<lparr>SrvTbl := (SrvTbl w)[i := None],
             ServiceCount := (if ServiceCount w > 0 then ServiceCount w - 1 else ServiceCount w)\<rparr>))"

definition getSrvObjBySrvID :: "ULONG \<Rightarrow> 'p ioc_world \<Rightarrow> ServiceObject_T option" where
  "getSrvObjBySrvID sid w =
     (if sid < of_nat MAX_IOC_SRV_OBJ_NUM then SrvTbl w ! unat sid else None)"

text \<open>Writing back the service in a slot, after a change of its fields.\<close>

definition setSrv :: "nat \<Rightarrow> (ServiceObject_T \<Rightarrow> ServiceObject_T) \<Rightarrow> 'p ioc_world \<Rightarrow> 'p ioc_world" where
  "setSrv i f w = w\<lparr>SrvTbl := (SrvTbl w)[i := map_option f (SrvTbl w ! i)]\<rparr>"

section \<open>Links\<close>

definition LinkObjTblIdxToLinkID :: "nat \<Rightarrow> ULONG" where
  "LinkObjTblIdxToLinkID i = of_nat i + 1024 + 1"

text \<open>The difference is taken in 64 bits and then stored in a 32-bit signed \<^verbatim>\<open>int\<close>.\<close>

definition LinkID_tblIdx :: "ULONG \<Rightarrow> int" where
  "LinkID_tblIdx link = sint (ucast (link - 1024 - 1) :: 32 word)"

definition LinkIDToLinkObjTblIdx :: "ULONG \<Rightarrow> nat outcome" where
  "LinkIDToLinkObjTblIdx link = (let idx = LinkID_tblIdx link
     in log_assert (idx \<ge> 0 \<and> idx < int MAX_IOC_LINK_OBJ_NUM) (Done (nat idx)))"

definition new_link :: "nat \<Rightarrow> LinkObject_T" where
  "new_link i =
    \<lparr>ID = LinkObjTblIdxToLinkID i,
     LinkSrvURI = \<lparr>pProtocol = '''', pHost = '''', pPath = '''', Port = 0\<rparr>, Usage = 0,
     UsageArgs = None, pMethods = None, ConnState = IOC_LinkConnStateDisconnected,
     IsConnected = False, DatSubState = IOC_LinkSubStateDefault, IsSending = False,
     IsReceiving = False, DatLastOpTime = 0, CmdSubState = IOC_LinkSubStateDefault, IsExecuting = False,
     IsWaiting = False, IsProcessing = False, pProtoPriv = None\<rparr>"

text \<open>A failed allocation ends the process (the path is marked as not tested); a failed mutex
  initialisation returns without unlocking the table.\<close>

definition allocLinkObj ::
  "bool \<Rightarrow> bool \<Rightarrow> 'p ioc_world \<Rightarrow> (nat option \<times> 'p ioc_world) outcome" where
  "allocLinkObj mem mutexes_ok w =
    (if LinkTblLocked w then Block
     else case first_index (\<lambda>slot. slot = None) (LinkTbl w) of
       None \<Rightarrow> Done (None, w)
     | Some i \<Rightarrow>
         let (ok, w1) = test_calloc mem w
         in if \<not> ok then Abort
            else if \<not> mutexes_ok then Done (None, w1\<lparr>LinkTblLocked := True\<rparr>)
            else let a = next_addr w1
              in Done (Some a,
                w1\<lparr>LinkTbl := (LinkTbl w1)[i := Some a],
                   LinkHeap := (LinkHeap w1)(a := Some (new_link i)),
                   next_addr := a + 1, LinkCount := LinkCount w1 + 1\<rparr>))"

definition freeLinkObj :: "nat \<Rightarrow> 'p ioc_world \<Rightarrow> 'p ioc_world outcome" where
  "freeLinkObj a w = (case LinkHeap w a of
     None \<Rightarrow> Abort
   | Some l \<Rightarrow>
       if LinkTblLocked w then Block
       else bindO (LinkIDToLinkObjTblIdx (ID l)) (\<lambda>i.
         Done (w\<lparr>LinkTbl := (LinkTbl w)[i := None], LinkHeap := (LinkHeap w)(a := None),
                 LinkCount := (if LinkCount w > 0 then LinkCount w - 1 else LinkCount w)\<rparr>)))"

definition getLinkObjByLinkID :: "ULONG \<Rightarrow> 'p ioc_world \<Rightarrow> nat option" where
  "getLinkObjByLinkID link w =
    (if link = ULONG_MAX then None
     else let idx = LinkID_tblIdx link
       in if idx < 0 \<or> idx \<ge> int MAX_IOC_LINK_OBJ_NUM then None else LinkTbl w ! nat idx)"

text \<open>Following a link pointer: reading, and changing a field.\<close>

definition deref :: "nat \<Rightarrow> 'p ioc_world \<Rightarrow> (LinkObject_T \<Rightarrow> 'b outcome) \<Rightarrow> 'b outcome" where
  "deref a w k = (case LinkHeap w a of None \<Rightarrow> Abort | Some l \<Rightarrow> k l)"

definition setLink :: "nat \<Rightarrow> (LinkObject_T \<Rightarrow> LinkObject_T) \<Rightarrow> 'p ioc_world \<Rightarrow> 'p ioc_world" where
  "setLink a f w = w\<lparr>LinkHeap := (LinkHeap w)(a := map_option f (LinkHeap w a))\<rparr>"

text \<open>Following a service pointer.\<close>

definition derefSrv :: "nat \<Rightarrow> 'p ioc_world \<Rightarrow> (ServiceObject_T \<Rightarrow> 'b outcome) \<Rightarrow> 'b outcome" where
  "derefSrv i w k = (case SrvTbl w ! i of None \<Rightarrow> Abort | Some s \<Rightarrow> k s)"

text \<open>\<^verbatim>\<open>_IOC_updateConlesEventSubState\<close>: the automatic link, or the data sub state of a link.\<close>

definition updateConlesEventSubState :: "ULONG \<Rightarrow> IOC_LinkSubState_T \<Rightarrow> 'p ioc_world \<Rightarrow> 'p ioc_world outcome"
where
  "updateConlesEventSubState link ss w =
    (if link = CONLES_MODE_AUTO_LINK_ID then
       Done (w\<lparr>conles := snd (updateSubState_Conles link ss (conles w))\<rparr>)
     else case getLinkObjByLinkID link w of
       None \<Rightarrow> Done w
     | Some a \<Rightarrow> deref a w (\<lambda>_. Done (setLink a (\<lambda>l. l\<lparr>DatSubState := ss\<rparr>) w)))"

section \<open>Role negotiation\<close>

definition negotiateLinkRole :: "usage \<Rightarrow> usage \<Rightarrow> usage" where
  "negotiateLinkRole caps client =
    (let r0 = IOC_LinkUsageUndefined;
         add = (\<lambda>cli srv r. if has_usage client cli then
                  if has_usage caps srv then r OR srv else r else r);
         r1 = add IOC_LinkUsageCmdExecutor IOC_LinkUsageCmdInitiator r0;
         r2 = add IOC_LinkUsageCmdInitiator IOC_LinkUsageCmdExecutor r1;
         r3 = add IOC_LinkUsageEvtProducer IOC_LinkUsageEvtConsumer r2;
         r4 = add IOC_LinkUsageEvtConsumer IOC_LinkUsageEvtProducer r3;
         r5 = add IOC_LinkUsageDatReceiver IOC_LinkUsageDatSender r4
     in add IOC_LinkUsageDatSender IOC_LinkUsageDatReceiver r5)"

section \<open>What the accessors change\<close>

lemma setLink_sel [simp]:
  "proto (setLink a k w) = proto w" "SrvTbl (setLink a k w) = SrvTbl w"
  "LinkTbl (setLink a k w) = LinkTbl w" "LinkTblLocked (setLink a k w) = LinkTblLocked w"
  "conles (setLink a k w) = conles w" "next_addr (setLink a k w) = next_addr w"
  "FailNextAllocCount (setLink a k w) = FailNextAllocCount w"
  "LinkHeap (setLink a k w) = (LinkHeap w)(a := map_option k (LinkHeap w a))"
  by (simp_all add: setLink_def)

lemma deref_Done [outcome_simps]: "deref a w k = Done y \<longleftrightarrow> (\<exists>l. LinkHeap w a = Some l \<and> k l = Done y)"
  by (simp add: deref_def split: option.split)

lemma derefSrv_Done [outcome_simps]: "derefSrv i w k = Done y \<longleftrightarrow> (\<exists>s. SrvTbl w ! i = Some s \<and> k s = Done y)"
  by (simp add: derefSrv_def split: option.split)

section \<open>Identifiers: lemmas\<close>

lemma tblIdx_of_slot [simp]:
  assumes "i < 32"
  shows "LinkID_tblIdx (LinkObjTblIdxToLinkID i) = int i"
proof -
  have "LinkObjTblIdxToLinkID i - 1024 - 1 = word_of_nat i"
    by (simp add: LinkObjTblIdxToLinkID_def)
  moreover have "(ucast (word_of_nat i :: ULONG) :: 32 word) = word_of_nat i"
    by (rule bit_word_eqI) (simp add: bit_simps)
  moreover have "sint (word_of_nat i :: 32 word) = int i"
  proof -
    have "signed_take_bit 31 (int i) = int i"
      using assms by (intro signed_take_bit_int_eq_self) auto
    then show ?thesis by (simp add: signed_of_nat)
  qed
  ultimately show ?thesis by (simp add: LinkID_tblIdx_def)
qed

lemma unat_slot_id: "i < 32 \<Longrightarrow> unat (LinkObjTblIdxToLinkID i) = i + 1025"
  by (simp add: LinkObjTblIdxToLinkID_def unat_word_ariths unat_of_nat)

lemma slot_id_valid [simp]: "i < 32 \<Longrightarrow> LinkObjTblIdxToLinkID i \<noteq> ULONG_MAX"
  using unat_slot_id [of i] by (auto simp: unsigned_minus_1_eq_mask mask_eq_exp_minus_1)

lemma getLinkObj_slot [simp]:
  "i < 32 \<Longrightarrow> getLinkObjByLinkID (LinkObjTblIdxToLinkID i) w = LinkTbl w ! i"
  by (simp add: getLinkObjByLinkID_def MAX_IOC_LINK_OBJ_NUM_def)

lemma LinkIDToIdx_slot [simp]:
  "i < 32 \<Longrightarrow> LinkIDToLinkObjTblIdx (LinkObjTblIdxToLinkID i) = Done i"
  by (simp add: LinkIDToLinkObjTblIdx_def MAX_IOC_LINK_OBJ_NUM_def)

lemma slot_id_inj [simp]:
  "i < 32 \<Longrightarrow> j < 32 \<Longrightarrow> LinkObjTblIdxToLinkID i = LinkObjTblIdxToLinkID j \<longleftrightarrow> i = j"
  by (metis tblIdx_of_slot of_nat_eq_iff)

lemma slot_id_not_auto [simp]: "i < 32 \<Longrightarrow> LinkObjTblIdxToLinkID i \<noteq> CONLES_MODE_AUTO_LINK_ID"
  using unat_slot_id [of i] by (auto simp: CONLES_MODE_AUTO_LINK_ID_def)

lemma ucast_add_2p32: "(ucast (x + 2 ^ 32 :: ULONG) :: 32 word) = ucast x"
proof (rule word_uint_eqI)
  have "(uint x + 2 ^ 32) mod 2 ^ 64 mod 2 ^ 32 = (uint x + 2 ^ 32) mod 2 ^ 32"
    by (rule mod_mod_cancel) simp
  then show "uint (ucast (x + 2 ^ 32) :: 32 word) = uint (ucast x :: 32 word)"
    by (simp add: unsigned_ucast_eq take_bit_eq_mod uint_word_ariths)
qed

lemma tblIdx_alias: "LinkID_tblIdx (link + 2 ^ 32) = LinkID_tblIdx link"
proof -
  have "link + 2 ^ 32 - 1024 - 1 = (link - 1024 - 1) + 2 ^ 32" by simp
  then show ?thesis unfolding LinkID_tblIdx_def by (simp only: ucast_add_2p32)
qed

section \<open>The tables: invariant\<close>

definition used :: "'a option list \<Rightarrow> nat" where
  "used tbl = length (filter (\<lambda>x. x \<noteq> None) tbl)"

text \<open>
  In order: every slot of the link table that is used names a live link that knows its slot, every
  live link is in a slot, and the counters count the used slots; every service knows its slot, and
  no two have the same URI.
\<close>

definition links_ok :: "'p ioc_world \<Rightarrow> bool" where
  "links_ok w \<longleftrightarrow> length (LinkTbl w) = 32 \<and>
     (\<forall>i<32. \<forall>a. LinkTbl w ! i = Some a \<longrightarrow>
        (\<exists>l. LinkHeap w a = Some l \<and> ID l = LinkObjTblIdxToLinkID i)) \<and>
     (\<forall>a l. LinkHeap w a = Some l \<longrightarrow> a < next_addr w \<and> (\<exists>i<32. LinkTbl w ! i = Some a)) \<and>
     LinkCount w = of_nat (used (LinkTbl w)) \<and> \<not> LinkTblLocked w"

definition services_ok :: "'p ioc_world \<Rightarrow> bool" where
  "services_ok w \<longleftrightarrow> length (SrvTbl w) = 32 \<and>
     (\<forall>i<32. \<forall>s. SrvTbl w ! i = Some s \<longrightarrow> SrvID s = of_nat i) \<and>
     (\<forall>i<32. \<forall>j<32. \<forall>s t. SrvTbl w ! i = Some s \<and> SrvTbl w ! j = Some t \<and> SrvURI s = SrvURI t
        \<longrightarrow> i = j) \<and>
     ServiceCount w = of_nat (used (SrvTbl w))"

lemma used_update:
  assumes "i < length tbl"
  shows "tbl ! i = None \<Longrightarrow> used (tbl[i := Some x]) = Suc (used tbl)"
    and "tbl ! i = Some y \<Longrightarrow> Suc (used (tbl[i := None])) = used tbl"
    and "tbl ! i = Some y \<Longrightarrow> used (tbl[i := Some x]) = used tbl"
proof -
  let ?P = "\<lambda>x. x \<noteq> None"
  have split: "filter ?P tbl = filter ?P (take i tbl) @ filter ?P [tbl ! i] @ filter ?P (drop (Suc i) tbl)"
    by (subst id_take_nth_drop [OF assms]) simp
  show "tbl ! i = None \<Longrightarrow> used (tbl[i := Some x]) = Suc (used tbl)"
    "tbl ! i = Some y \<Longrightarrow> Suc (used (tbl[i := None])) = used tbl"
    "tbl ! i = Some y \<Longrightarrow> used (tbl[i := Some x]) = used tbl"
    using assms arg_cong [OF split, of length]
    by (simp_all add: used_def upd_conv_take_nth_drop)
qed

lemma links_ok_init: "links_ok (init_world p)" "services_ok (init_world p)"
  by (simp_all add: links_ok_def services_ok_def init_world_def used_def)

lemma links_okD:
  assumes "links_ok w" "i < 32" "LinkTbl w ! i = Some a"
  shows "\<exists>l. LinkHeap w a = Some l \<and> ID l = LinkObjTblIdxToLinkID i"
  using assms by (auto simp: links_ok_def)

lemma links_ok_slot_unique:
  assumes "links_ok w" "i < 32" "j < 32" "LinkTbl w ! i = Some a" "LinkTbl w ! j = Some a"
  shows "i = j"
  using links_okD [OF assms(1,2,4)] links_okD [OF assms(1,3,5)] assms(2,3) by auto

lemma allocLinkObj_room:
  assumes "links_ok w" "FailNextAllocCount w \<le> 0" "first_index (\<lambda>slot. slot = None) (LinkTbl w) = Some i"
  defines "a \<equiv> next_addr w"
  defines "w' \<equiv> w\<lparr>LinkTbl := (LinkTbl w)[i := Some a], LinkHeap := (LinkHeap w)(a := Some (new_link i)),
    next_addr := a + 1, LinkCount := LinkCount w + 1\<rparr>"
  shows "allocLinkObj True True w = Done (Some a, w')" "links_ok w'" "i < 32" "LinkTbl w ! i = None"
    "LinkHeap w a = None"
proof -
  show i: "i < 32" "LinkTbl w ! i = None"
    using first_indexD [OF assms(3)] assms(1) by (auto simp: links_ok_def)
  show "allocLinkObj True True w = Done (Some a, w')"
    using assms by (simp add: allocLinkObj_def links_ok_def test_calloc_def a_def w'_def Let_def)
  show fresh: "LinkHeap w a = None"
    using assms(1) unfolding links_ok_def a_def
    by (metis less_irrefl not_None_eq)
  show "links_ok w'"
    unfolding links_ok_def
  proof (intro conjI allI impI)
    show "length (LinkTbl w') = 32" using assms(1) by (simp add: links_ok_def w'_def)
    show "LinkCount w' = of_nat (used (LinkTbl w'))"
      using assms(1) i by (simp add: links_ok_def w'_def used_update)
    show "\<not> LinkTblLocked w'" using assms(1) by (simp add: links_ok_def w'_def)
    fix j b assume j: "j < 32" "LinkTbl w' ! j = Some b"
    show "\<exists>l. LinkHeap w' b = Some l \<and> ID l = LinkObjTblIdxToLinkID j"
    proof (cases "j = i")
      case True
      then show ?thesis using j assms(1) i by (auto simp: w'_def links_ok_def new_link_def)
    next
      case False
      then have "LinkTbl w ! j = Some b" using j by (simp add: w'_def)
      then show ?thesis using links_okD [OF assms(1) j(1)] fresh by (auto simp: w'_def)
    qed
  next
    fix b l assume b: "LinkHeap w' b = Some l"
    show "b < next_addr w'"
      using b assms(1) by (cases "b = a") (auto simp: w'_def links_ok_def a_def less_Suc_eq)
    show "\<exists>j<32. LinkTbl w' ! j = Some b"
    proof (cases "b = a")
      case True
      then show ?thesis using i assms(1) by (intro exI [of _ i]) (simp add: w'_def links_ok_def)
    next
      case False
      then obtain j where "j < 32" "LinkTbl w ! j = Some b"
        using b assms(1) by (auto simp: w'_def links_ok_def)
      moreover from this have "i \<noteq> j" using i by auto
      ultimately show ?thesis by (intro exI [of _ j]) (simp add: w'_def)
    qed
  qed
qed

lemma allocLinkObj_full:
  assumes "links_ok w" "first_index (\<lambda>slot. slot = None) (LinkTbl w) = None"
  shows "allocLinkObj mem mok w = Done (None, w)"
  using assms by (simp add: allocLinkObj_def links_ok_def del: first_index_None)

lemma freeLinkObj_live:
  assumes "links_ok w" "LinkHeap w a = Some l"
  obtains i w' where "i < 32" "LinkTbl w ! i = Some a" "ID l = LinkObjTblIdxToLinkID i"
    "freeLinkObj a w = Done w'" "links_ok w'" "LinkTbl w' = (LinkTbl w)[i := None]"
    "LinkHeap w' = (LinkHeap w)(a := None)" "proto w' = proto w" "SrvTbl w' = SrvTbl w"
    "ServiceCount w' = ServiceCount w" "conles w' = conles w" "FailNextAllocCount w' = FailNextAllocCount w"
proof -
  obtain i where i: "i < 32" "LinkTbl w ! i = Some a"
    using assms by (auto simp: links_ok_def)
  have id: "ID l = LinkObjTblIdxToLinkID i" using links_okD [OF assms(1) i] assms(2) by auto
  define w' where "w' = w\<lparr>LinkTbl := (LinkTbl w)[i := None], LinkHeap := (LinkHeap w)(a := None),
    LinkCount := (if LinkCount w > 0 then LinkCount w - 1 else LinkCount w)\<rparr>"
  have "freeLinkObj a w = Done w'"
    using assms i id by (simp add: freeLinkObj_def links_ok_def w'_def)
  moreover have "links_ok w'"
    unfolding links_ok_def
  proof (intro conjI allI impI)
    have len: "length (LinkTbl w) = 32" using assms(1) by (simp add: links_ok_def)
    show "length (LinkTbl w') = 32" using len by (simp add: w'_def)
    have u: "Suc (used (LinkTbl w')) = used (LinkTbl w)"
      using used_update(2) [of i "LinkTbl w" a] i len by (simp add: w'_def)
    have "LinkCount w = of_nat (used (LinkTbl w')) + 1"
      using assms(1) by (simp add: links_ok_def flip: u)
    moreover have "used (LinkTbl w) \<le> 32" using len length_filter_le [of _ "LinkTbl w"]
      by (simp add: used_def)
    ultimately have "unat (LinkCount w) = Suc (used (LinkTbl w'))"
      using u by (simp add: unat_word_ariths unat_of_nat)
    then have "LinkCount w \<noteq> 0" by auto
    moreover have "LinkCount w - 1 = of_nat (used (LinkTbl w'))"
      using \<open>LinkCount w = _\<close> by simp
    ultimately show "LinkCount w' = of_nat (used (LinkTbl w'))" by (simp add: w'_def word_gt_0)
    show "\<not> LinkTblLocked w'" using assms(1) by (simp add: links_ok_def w'_def)
    fix j b assume j: "j < 32" "LinkTbl w' ! j = Some b"
    then have "j \<noteq> i" "LinkTbl w ! j = Some b" using len i by (auto simp: w'_def nth_list_update split: if_splits)
    moreover from this have "b \<noteq> a" using links_ok_slot_unique [OF assms(1) j(1) i(1)] i(2) by auto
    ultimately show "\<exists>l. LinkHeap w' b = Some l \<and> ID l = LinkObjTblIdxToLinkID j"
      using links_okD [OF assms(1) j(1)] by (auto simp: w'_def)
  next
    fix b k assume b: "LinkHeap w' b = Some k"
    then have "b \<noteq> a" "LinkHeap w b = Some k" by (auto simp: w'_def split: if_splits)
    then show "b < next_addr w'" using assms(1) by (auto simp: w'_def links_ok_def)
    obtain j where "j < 32" "LinkTbl w ! j = Some b"
      using \<open>LinkHeap w b = Some k\<close> assms(1) by (auto simp: links_ok_def)
    moreover from this have "i \<noteq> j" using i \<open>b \<noteq> a\<close> by auto
    ultimately show "\<exists>j<32. LinkTbl w' ! j = Some b"
      by (intro exI [of _ j]) (simp add: w'_def)
  qed
  ultimately show ?thesis using that [of i w'] i id by (simp add: w'_def)
qed

lemma first_free: "first_index (\<lambda>slot. slot = None) tbl = None \<longleftrightarrow> used tbl = length tbl"
proof -
  have "used tbl = length tbl \<longleftrightarrow> (\<forall>x\<in>set tbl. x \<noteq> None)"
    unfolding used_def by (metis (mono_tags, lifting) filter_True length_filter_less less_irrefl)
  then show ?thesis by simp
qed

lemma allocSrvObj_spec:
  assumes "services_ok w" "FailNextAllocCount w \<le> 0"
    "ArgSrvURI a = \<lparr>rawProtocol = Some p, rawHost = Some h, rawPath = Some q, rawPort = n\<rparr>"
  defines "uri \<equiv> \<lparr>pProtocol = p, pHost = h, pPath = q, Port = n\<rparr>"
  shows "(\<exists>s. Some s \<in> set (SrvTbl w) \<and> SrvURI s = uri) \<Longrightarrow>
      allocSrvObj True True a w = Done (IOC_RESULT_CONFLICT_SRVARGS, None, w)"
    and "\<not> (\<exists>s. Some s \<in> set (SrvTbl w) \<and> SrvURI s = uri) \<Longrightarrow> used (SrvTbl w) = 32 \<Longrightarrow>
      allocSrvObj True True a w = Done (IOC_RESULT_TOO_MANY_SERVICES, None, w)"
    and "\<not> (\<exists>s. Some s \<in> set (SrvTbl w) \<and> SrvURI s = uri) \<Longrightarrow> used (SrvTbl w) \<noteq> 32 \<Longrightarrow>
      \<exists>i<32. SrvTbl w ! i = None \<and> allocSrvObj True True a w = Done (IOC_RESULT_SUCCESS, Some i,
        w\<lparr>SrvTbl := (SrvTbl w)[i := Some (new_service i a)], ServiceCount := ServiceCount w + 1\<rparr>) \<and>
        services_ok (w\<lparr>SrvTbl := (SrvTbl w)[i := Some (new_service i a)],
          ServiceCount := ServiceCount w + 1\<rparr>)"
proof -
  have len: "length (SrvTbl w) = 32" using assms(1) by (simp add: services_ok_def)
  have "uri_conflicts (ArgSrvURI a) s \<longleftrightarrow> SrvURI s = uri" for s
    by (cases "SrvURI s") (auto simp: uri_conflicts_def assms(3) uri_def)
  then have conf: "isSrvObjConflicted (Some a) w \<longleftrightarrow> (\<exists>s. Some s \<in> set (SrvTbl w) \<and> SrvURI s = uri)"
    by (force simp: isSrvObjConflicted_def split: option.splits)
  show "(\<exists>s. Some s \<in> set (SrvTbl w) \<and> SrvURI s = uri) \<Longrightarrow>
      allocSrvObj True True a w = Done (IOC_RESULT_CONFLICT_SRVARGS, None, w)"
    using conf by (simp add: allocSrvObj_def)
  show "\<not> (\<exists>s. Some s \<in> set (SrvTbl w) \<and> SrvURI s = uri) \<Longrightarrow> used (SrvTbl w) = 32 \<Longrightarrow>
      allocSrvObj True True a w = Done (IOC_RESULT_TOO_MANY_SERVICES, None, w)"
    using conf first_free [of "SrvTbl w"] len by (simp add: allocSrvObj_def del: first_index_None)
  assume new: "\<not> (\<exists>s. Some s \<in> set (SrvTbl w) \<and> SrvURI s = uri)" and "used (SrvTbl w) \<noteq> 32"
  then obtain i where i: "first_index (\<lambda>slot. slot = None) (SrvTbl w) = Some i"
    using first_free [of "SrvTbl w"] len by fastforce
  have ilt: "i < 32" "SrvTbl w ! i = None" using first_indexD [OF i] len by auto
  let ?w = "w\<lparr>SrvTbl := (SrvTbl w)[i := Some (new_service i a)], ServiceCount := ServiceCount w + 1\<rparr>"
  have "allocSrvObj True True a w = Done (IOC_RESULT_SUCCESS, Some i, ?w)"
    using conf new i assms(2,3) by (simp add: allocSrvObj_def test_calloc_def)
  moreover have "services_ok ?w"
    unfolding services_ok_def
  proof (intro conjI allI impI)
    show "length (SrvTbl ?w) = 32" using len by simp
    show "ServiceCount ?w = of_nat (used (SrvTbl ?w))"
      using assms(1) ilt len by (simp add: services_ok_def used_update)
    fix j s assume "j < 32" "SrvTbl ?w ! j = Some s"
    then show "SrvID s = of_nat j"
      using assms(1) ilt len by (cases "j = i") (auto simp: services_ok_def new_service_def)
  next
    fix j k s t
    assume *: "j < 32" "k < 32" "SrvTbl ?w ! j = Some s \<and> SrvTbl ?w ! k = Some t \<and> SrvURI s = SrvURI t"
    have in_tbl: "Some x \<in> set (SrvTbl w)" if "m < 32" "SrvTbl w ! m = Some x" for m x
      using that len by (metis nth_mem)
    have u: "SrvURI (new_service i a) = uri" by (simp add: new_service_def assms(3) uri_def)
    have old: "m = i \<and> x = new_service i a \<or> m \<noteq> i \<and> SrvTbl w ! m = Some x"
      if "m < 32" "SrvTbl ?w ! m = Some x" for m x
      using that len ilt by (cases "m = i") auto
    have uniq: "j = k" if "SrvTbl w ! j = Some s" "SrvTbl w ! k = Some t"
      using * that assms(1) unfolding services_ok_def by blast
    show "j = k"
      using old [of j s] old [of k t] * uniq in_tbl [of j s] in_tbl [of k t] new u by metis
  qed
  ultimately show "\<exists>i<32. SrvTbl w ! i = None \<and> allocSrvObj True True a w =
      Done (IOC_RESULT_SUCCESS, Some i, w\<lparr>SrvTbl := (SrvTbl w)[i := Some (new_service i a)],
        ServiceCount := ServiceCount w + 1\<rparr>) \<and>
        services_ok (w\<lparr>SrvTbl := (SrvTbl w)[i := Some (new_service i a)],
          ServiceCount := ServiceCount w + 1\<rparr>)"
    using ilt by blast
qed

text \<open>Swapping the two roles of each pair of usages.\<close>

definition complement_usage :: "usage \<Rightarrow> usage" where
  "complement_usage u = push_bit 1 (u AND 0b010101) OR drop_bit 1 (u AND 0b101010)"

lemma has_usage_bits:
  "has_usage m IOC_LinkUsageEvtProducer = bit m 0" "has_usage m IOC_LinkUsageEvtConsumer = bit m 1"
  "has_usage m IOC_LinkUsageCmdInitiator = bit m 2" "has_usage m IOC_LinkUsageCmdExecutor = bit m 3"
  "has_usage m IOC_LinkUsageDatSender = bit m 4" "has_usage m IOC_LinkUsageDatReceiver = bit m 5"
proof -
  have h: "has_usage m (2 ^ k) = bit m k" for k
    by (simp add: has_usage_def and_exp_eq_0_iff_not_bit)
  show "has_usage m IOC_LinkUsageEvtProducer = bit m 0" "has_usage m IOC_LinkUsageEvtConsumer = bit m 1"
    "has_usage m IOC_LinkUsageCmdInitiator = bit m 2" "has_usage m IOC_LinkUsageCmdExecutor = bit m 3"
    "has_usage m IOC_LinkUsageDatSender = bit m 4" "has_usage m IOC_LinkUsageDatReceiver = bit m 5"
    using h [of 0] h [of 1] h [of 2] h [of 3] h [of 4] h [of 5] by (simp_all add: usage_defs)
qed

lemma negotiate_eq: "negotiateLinkRole caps client = caps AND complement_usage client"
proof -
  have lit: "(21 :: usage) = 2 ^ 0 OR 2 ^ 2 OR 2 ^ 4" "(42 :: usage) = 2 ^ 1 OR 2 ^ 3 OR 2 ^ 5" by simp_all
  have u: "IOC_LinkUsageUndefined = 0" "IOC_LinkUsageEvtProducer = 2 ^ 0" "IOC_LinkUsageEvtConsumer = 2 ^ 1"
    "IOC_LinkUsageCmdInitiator = 2 ^ 2" "IOC_LinkUsageCmdExecutor = 2 ^ 3"
    "IOC_LinkUsageDatSender = 2 ^ 4" "IOC_LinkUsageDatReceiver = 2 ^ 5" by (simp_all add: usage_defs)
  have add: "(if b then if c then r OR (x :: usage) else r else r) = r OR (if b \<and> c then x else 0)"
    for b c r x by simp
  have bif: "bit (if b then (2 :: usage) ^ k else 0) n \<longleftrightarrow> b \<and> n < 32 \<and> n = k" for b k n
    by (auto simp: bit_simps)
  show ?thesis
  proof (rule bit_word_eqI)
    fix n assume n: "n < LENGTH(32)"
    have "bit (negotiateLinkRole caps client) n \<longleftrightarrow>
      bit client 3 \<and> bit caps 2 \<and> n = 2 \<or> bit client 2 \<and> bit caps 3 \<and> n = 3 \<or>
      bit client 0 \<and> bit caps 1 \<and> n = 1 \<or> bit client 1 \<and> bit caps 0 \<and> n = 0 \<or>
      bit client 5 \<and> bit caps 4 \<and> n = 4 \<or> bit client 4 \<and> bit caps 5 \<and> n = 5"
      using n unfolding negotiateLinkRole_def Let_def has_usage_bits add
      unfolding u bit_or_iff bif by auto
    also have "\<dots> \<longleftrightarrow> bit (caps AND complement_usage client) n"
    proof -
      have c: "bit (complement_usage client) n \<longleftrightarrow>
          1 \<le> n \<and> bit client (n - 1) \<and> (n - 1 = 0 \<or> n - 1 = 2 \<or> n - 1 = 4) \<or>
          bit client (1 + n) \<and> (1 + n = 1 \<or> 1 + n = 3 \<or> 1 + n = 5)"
        using n unfolding complement_usage_def lit
        by (simp only: bit_and_iff bit_or_iff bit_push_bit_iff bit_drop_bit_eq bit_exp_iff comp_def) auto
      consider "n = 0" | "n = 1" | "n = 2" | "n = 3" | "n = 4" | "n = 5" | "6 \<le> n" by linarith
      then show ?thesis unfolding bit_and_iff c by cases (auto simp: numeral_eq_Suc)
    qed
    finally show "bit (negotiateLinkRole caps client) n = bit (caps AND complement_usage client) n" .
  qed
qed

section \<open>Properties\<close>

text \<open>Allocating a link either finds all 32 slots used, and then changes nothing, or makes a fresh
  link object and enters it in a free slot: its identifier, which named nothing before, now names
  it, and every other link identifier names what it named before.\<close>

theorem link_alloc_lookup:
  assumes "links_ok w" "FailNextAllocCount w \<le> 0"
  shows "if used (LinkTbl w) = 32 then allocLinkObj True True w = Done (None, w)
    else \<exists>a w' i. allocLinkObj True True w = Done (Some a, w') \<and> links_ok w' \<and> i < 32 \<and>
      LinkHeap w a = None \<and> getLinkObjByLinkID (LinkObjTblIdxToLinkID i) w = None \<and>
      getLinkObjByLinkID (LinkObjTblIdxToLinkID i) w' = Some a \<and>
      (\<forall>j<32. j \<noteq> i \<longrightarrow> getLinkObjByLinkID (LinkObjTblIdxToLinkID j) w' =
         getLinkObjByLinkID (LinkObjTblIdxToLinkID j) w)"
proof (cases "used (LinkTbl w) = 32")
  case True
  then show ?thesis using allocLinkObj_full [OF assms(1)] assms(1) first_free [of "LinkTbl w"]
    by (simp add: links_ok_def del: first_index_None)
next
  case False
  then obtain i where i: "first_index (\<lambda>slot. slot = None) (LinkTbl w) = Some i"
    using assms(1) first_free [of "LinkTbl w"] by (fastforce simp: links_ok_def)
  have len: "length (LinkTbl w) = 32" using assms(1) by (simp add: links_ok_def)
  note a = allocLinkObj_room [OF assms i]
  have "getLinkObjByLinkID (LinkObjTblIdxToLinkID j) (w\<lparr>LinkTbl := (LinkTbl w)[i := Some (next_addr w)],
      LinkHeap := (LinkHeap w)(next_addr w := Some (new_link i)), next_addr := next_addr w + 1,
      LinkCount := LinkCount w + 1\<rparr>) =
    (if j = i then Some (next_addr w) else getLinkObjByLinkID (LinkObjTblIdxToLinkID j) w)"
    if "j < 32" for j
    using that a(3) len by simp
  then show ?thesis using False a by (intro if_not_P [THEN iffD2] exI conjI) auto
qed

theorem link_alloc_lookup_witness:
  "\<exists>a w'. allocLinkObj True True (init_world ()) = Done (Some a, w') \<and> links_ok w'"
  using link_alloc_lookup [of "init_world ()"] links_ok_init(1) [of "()"]
  by (auto simp: init_world_def used_def)

text \<open>A world with one link.\<close>

definition one_link :: "unit ioc_world" where
  "one_link = (init_world ())\<lparr>LinkTbl := (replicate 32 None)[0 := Some 0],
     LinkHeap := (\<lambda>_. None)(0 := Some (new_link 0)), next_addr := 1, LinkCount := 1\<rparr>"

lemma one_link_ok: "links_ok one_link" "LinkTbl one_link ! 0 = Some 0"
proof -
  have "first_index (\<lambda>slot. slot = None) (LinkTbl (init_world ())) = Some 0"
    by (simp add: first_index_Some init_world_def)
  from allocLinkObj_room(2) [OF links_ok_init(1) _ this] show "links_ok one_link"
    by (simp add: one_link_def init_world_def)
qed (simp add: one_link_def)

text \<open>Freeing a live link removes exactly its identifier: it names nothing afterwards, its object
  is gone, and all other links are as before.\<close>

theorem link_free_lookup:
  assumes "links_ok w" "getLinkObjByLinkID (LinkObjTblIdxToLinkID i) w = Some a" "i < 32"
  shows "\<exists>w'. freeLinkObj a w = Done w' \<and> links_ok w' \<and> LinkHeap w' = (LinkHeap w)(a := None) \<and>
    getLinkObjByLinkID (LinkObjTblIdxToLinkID i) w' = None \<and>
    (\<forall>j<32. j \<noteq> i \<longrightarrow> getLinkObjByLinkID (LinkObjTblIdxToLinkID j) w' =
       getLinkObjByLinkID (LinkObjTblIdxToLinkID j) w)"
proof -
  have t: "LinkTbl w ! i = Some a" and len: "length (LinkTbl w) = 32"
    using assms by (simp_all add: links_ok_def)
  obtain l where l: "LinkHeap w a = Some l" using links_okD [OF assms(1,3) t] by auto
  obtain k w' where k: "k < 32" "LinkTbl w ! k = Some a" "freeLinkObj a w = Done w'" "links_ok w'"
    "LinkTbl w' = (LinkTbl w)[k := None]" "LinkHeap w' = (LinkHeap w)(a := None)"
    using freeLinkObj_live [OF assms(1) l] by metis
  have "k = i" using links_ok_slot_unique [OF assms(1) k(1) assms(3) k(2) t] .
  then show ?thesis using k len assms(3) by simp
qed

theorem link_free_lookup_witness:
  "\<exists>w'. freeLinkObj 0 one_link = Done w' \<and> getLinkObjByLinkID (LinkObjTblIdxToLinkID 0) w' = None"
  using link_free_lookup [of one_link 0 0] one_link_ok by auto

text \<open>Link identifiers are looked up modulo \<open>2 ^ 32\<close>: adding \<open>2 ^ 32\<close> to an identifier names the
  same link, so that almost every 64-bit number whose low half is a live identifier is accepted.\<close>

theorem link_id_aliases:
  assumes "link \<noteq> ULONG_MAX" "link + 2 ^ 32 \<noteq> ULONG_MAX"
  shows "getLinkObjByLinkID (link + 2 ^ 32) w = getLinkObjByLinkID link w"
  using assms unfolding getLinkObjByLinkID_def tblIdx_alias by simp

theorem link_id_aliases_witness:
  "getLinkObjByLinkID (1025 + 2 ^ 32) one_link = Some 0"
  using link_id_aliases [of 1025 one_link] getLinkObj_slot [of 0 one_link] one_link_ok(2)
  by (simp add: LinkObjTblIdxToLinkID_def)

text \<open>Onlining a service keeps URIs unique: a service whose URI is taken is refused as a conflict,
  a 33rd service as one too many, and otherwise the service is entered in a free slot.\<close>

theorem service_alloc_unique:
  assumes "services_ok w" "FailNextAllocCount w \<le> 0"
    "ArgSrvURI a = \<lparr>rawProtocol = Some p, rawHost = Some h, rawPath = Some q, rawPort = n\<rparr>"
  shows "\<exists>r slot w'. allocSrvObj True True a w = Done (r, slot, w') \<and> services_ok w' \<and>
    r = (if \<exists>s. Some s \<in> set (SrvTbl w) \<and>
            SrvURI s = \<lparr>pProtocol = p, pHost = h, pPath = q, Port = n\<rparr> then IOC_RESULT_CONFLICT_SRVARGS
         else if used (SrvTbl w) = 32 then IOC_RESULT_TOO_MANY_SERVICES else IOC_RESULT_SUCCESS) \<and>
    (if r = IOC_RESULT_SUCCESS
     then \<exists>i<32. slot = Some i \<and> SrvTbl w ! i = None \<and> getSrvObjBySrvID (of_nat i) w' = Some (new_service i a)
     else w' = w)"
proof -
  have len: "length (SrvTbl w) = 32" using assms(1) by (simp add: services_ok_def)
  have g: "getSrvObjBySrvID (of_nat i) (w\<lparr>SrvTbl := (SrvTbl w)[i := Some s], ServiceCount := c\<rparr>) = Some s"
    if "i < 32" for i s c
  proof -
    have "unat (of_nat i :: ULONG) = i" using that by (simp add: unat_of_nat)
    moreover from this have "(of_nat i :: ULONG) < 32" using that by (simp add: word_less_nat_alt)
    ultimately show ?thesis using that len by (simp add: getSrvObjBySrvID_def MAX_IOC_SRV_OBJ_NUM_def)
  qed
  show ?thesis
    using allocSrvObj_spec [OF assms] assms(1) g
    by (cases "\<exists>s. Some s \<in> set (SrvTbl w) \<and> SrvURI s = \<lparr>pProtocol = p, pHost = h, pPath = q, Port = n\<rparr>";
        cases "used (SrvTbl w) = 32") (simp_all, blast)
qed

definition sample_srv_args :: IOC_SrvArgs_T where
  "sample_srv_args = \<lparr>ArgSrvURI = \<lparr>rawProtocol = Some ''fifo'', rawHost = Some ''localprocess'',
      rawPath = Some ''srv'', rawPort = 0\<rparr>, ArgFlags = 0, ArgUsageCapabilites = IOC_LinkUsageEvtConsumer,
     ArgEvt = None, ArgCmd = None, ArgDat = None, ArgOnAutoAccepted_F = None, ArgSrvPriv = 0\<rparr>"

theorem service_alloc_unique_witness:
  "\<exists>slot w'. allocSrvObj True True sample_srv_args (init_world ()) = Done (IOC_RESULT_SUCCESS, slot, w') \<and>
    services_ok w'"
  using service_alloc_unique [of "init_world ()" sample_srv_args "''fifo''" "''localprocess''" "''srv''" 0]
    links_ok_init(2) [of "()"]
  by (auto simp: sample_srv_args_def init_world_def used_def)

text \<open>The role a service takes on a link is the part of its capabilities that complements the
  roles the client asks for: initiator and executor, producer and consumer, sender and receiver
  change places, and nothing else is granted.\<close>

theorem negotiated_role_is_complement:
  "negotiateLinkRole caps client = caps AND complement_usage client"
  by (rule negotiate_eq)

end
