(* ===== verification/FifoLink.thy ===== *)
theory FifoLink
  imports PollingBuffer ServiceTable
begin

text \<open>
  \<^verbatim>\<open>src/Source/_IOC_SrvProtoFifo.c\<close>, part one: the objects of the in-process protocol, and how a
  pair of them is connected and taken apart.  Every FIFO link object and FIFO service object lives
  on a heap of the protocol's state; \<open>pPeer\<close> and \<open>pOwnerLinkObj\<close> are addresses, so that a pointer
  left behind by \<^verbatim>\<open>closeLink\<close> dangles in the model as it does in the program.

  The handshake is modelled by its atomic pieces, each of which runs under
  \<^verbatim>\<open>WaitAccptedMutex\<close>: the client announces itself, the server looks once for a client, the client
  wakes up.  The step relation at the end of the theory interleaves them freely.
\<close>

section \<open>Objects\<close>

record CallbackBatch_T =
  pBatchBuffer :: "byte list"
  BatchBufferSize :: nat
  AccumulatedDataSize :: nat
  IsInCallback :: bool
  BatchMutexHeld :: bool
  LastCallbackStart :: timespec
  LastCallbackEnd :: timespec
  BatchWindowStart :: timespec
  IsBatchWindowOpen :: bool
  SlowCallbackThresholdMs :: int
  BatchWindowDurationMs :: int

record LastSentCache_T =
  LastSentData :: "byte list"
  LastSentDataSize :: nat
  HasRecentlySentData :: bool
  LastSentTime :: timespec

record DatReceiver_T =
  CbRecvDat_F :: "nat option"
  drCbPrivData :: nat
  IsReceiverRegistered :: bool
  IsProcessingCallback :: bool
  PendingDataCount :: int
  CallbackBatch :: CallbackBatch_T
  LastSentCache :: LastSentCache_T
  PollingBuffer :: PollingBuffer_T

record CmdPolling_T =
  IsCmdPollingActive :: bool
  QueuedCmdNum :: ULONG
  ProcedCmdNum :: ULONG
  QueuedCmdDescs :: "IOC_CmdDesc_T list"
  QueuedRespNum :: ULONG
  ProcedRespNum :: ULONG
  QueuedRespDescs :: "IOC_CmdDesc_T list"

text \<open>\<open>MutexHeld\<close>: some thread holds \<^verbatim>\<open>Mutex\<close>.  An operation that finds it held when it locks has
  been called from a callback that runs under it, or has to wait for another thread.\<close>

record FifoLinkObject_T =
  MutexHeld :: bool
  pOwnerLinkObj :: nat
  pPeer :: "nat option"
  SubEvtArgs :: IOC_SubEvtArgs_T
  DatReceiver :: DatReceiver_T
  EvtPollingQueue :: IOC_EvtDescQueue_T
  IsEvtPollingActive :: bool
  CmdPolling :: CmdPolling_T

text \<open>The service is named by its slot in the service table.\<close>

record FifoServiceObject_T =
  fsSrvObj :: nat
  ConnMutexHeld :: bool
  pConnLinkObj :: "nat option"

text \<open>A callback thread that has been started and has not run yet.\<close>

record AsyncCallbackContext_T =
  acCallback :: nat
  acLinkID :: ULONG
  acDatDesc :: IOC_DatDesc_T
  acPrivData :: nat
  acStartTime :: timespec
  acFifoLink :: nat

text \<open>\<open>recv_log\<close> is where a data callback may note its invocation: callback, private data,
  receiving link and bytes.\<close>

record fifo_state =
  FifoLinks :: "nat \<Rightarrow> FifoLinkObject_T option"
  FifoSrvs :: "nat \<Rightarrow> FifoServiceObject_T option"
  next_fifo :: nat
  OnlinedSrvFifo :: "nat option list"
  sequenceCounter :: ULONG
  drainCounter :: int
  async_threads :: "AsyncCallbackContext_T list"
  recv_log :: "(nat \<times> nat \<times> ULONG \<times> byte list) list"

type_synonym 'x fifo_world = "'x fifo_state_scheme ioc_world"

definition fifo_init :: fifo_state where
  "fifo_init = \<lparr>FifoLinks = (\<lambda>_. None), FifoSrvs = (\<lambda>_. None), next_fifo = 0,
     OnlinedSrvFifo = replicate 16 None, sequenceCounter = 1, drainCounter = 0,
     async_threads = [], recv_log = []\<rparr>"

section \<open>Following and changing pointers\<close>

definition fderef :: "nat \<Rightarrow> 'x fifo_world \<Rightarrow> (FifoLinkObject_T \<Rightarrow> 'b outcome) \<Rightarrow> 'b outcome" where
  "fderef f w k = (case FifoLinks (proto w) f of None \<Rightarrow> Abort | Some l \<Rightarrow> k l)"

definition setFifo ::
  "nat \<Rightarrow> (FifoLinkObject_T \<Rightarrow> FifoLinkObject_T) \<Rightarrow> 'x fifo_world \<Rightarrow> 'x fifo_world" where
  "setFifo f g w = w\<lparr>proto := (proto w)\<lparr>FifoLinks :=
     (FifoLinks (proto w))(f := map_option g (FifoLinks (proto w) f))\<rparr>\<rparr>"

definition fsderef :: "nat \<Rightarrow> 'x fifo_world \<Rightarrow> (FifoServiceObject_T \<Rightarrow> 'b outcome) \<Rightarrow> 'b outcome" where
  "fsderef f w k = (case FifoSrvs (proto w) f of None \<Rightarrow> Abort | Some s \<Rightarrow> k s)"

definition setFifoSrv ::
  "nat \<Rightarrow> (FifoServiceObject_T \<Rightarrow> FifoServiceObject_T) \<Rightarrow> 'x fifo_world \<Rightarrow> 'x fifo_world" where
  "setFifoSrv f g w = w\<lparr>proto := (proto w)\<lparr>FifoSrvs :=
     (FifoSrvs (proto w))(f := map_option g (FifoSrvs (proto w) f))\<rparr>\<rparr>"

definition lockFifo :: "nat \<Rightarrow> 'x fifo_world \<Rightarrow> ('x fifo_world \<Rightarrow> 'b outcome) \<Rightarrow> 'b outcome" where
  "lockFifo f w k = fderef f w (\<lambda>l. if MutexHeld l then Block
     else k (setFifo f (\<lambda>l. l\<lparr>MutexHeld := True\<rparr>) w))"

definition unlockFifo :: "nat \<Rightarrow> 'x fifo_world \<Rightarrow> 'x fifo_world" where
  "unlockFifo f w = setFifo f (\<lambda>l. l\<lparr>MutexHeld := False\<rparr>) w"

text \<open>
  Reading one member of the union of usage arguments.  The three structures begin with a callback
  and its private data, and those of events and commands continue with a count and an array of
  identifiers; the structure for data ends there, so that reading it as one of the others leaves
  the object (\<open>None\<close>).
\<close>

definition as_callback :: "usage_args_union \<Rightarrow> nat option \<times> nat" where
  "as_callback u = (case u of
     pEvt e \<Rightarrow> (euCbProcEvt_F e, euCbPrivData e)
   | pCmd c \<Rightarrow> (cuCbExecCmd_F c, cuCbPrivData c)
   | pDat d \<Rightarrow> (duCbRecvDat_F d, duCbPrivData d))"

definition as_pDat :: "usage_args_union \<Rightarrow> IOC_DatUsageArgs_T" where
  "as_pDat u = \<lparr>duCbRecvDat_F = fst (as_callback u), duCbPrivData = snd (as_callback u)\<rparr>"

definition as_cmd_ids :: "usage_args_union \<Rightarrow> ULONG list option" where
  "as_cmd_ids u = (case u of
     pEvt e \<Rightarrow> Some (take (unat (euEvtNum e)) (euEvtIDs e))
   | pCmd c \<Rightarrow> Some (take (unat (cuCmdNum c)) (cuCmdIDs c))
   | pDat d \<Rightarrow> None)"

section \<open>New link objects\<close>

definition PROTO_FIFO_SEND_QUEUE_SIZE :: nat where "PROTO_FIFO_SEND_QUEUE_SIZE = 16 * 1024"

definition time0 :: timespec where "time0 = \<lparr>tv_sec = 0, tv_nsec = 0\<rparr>"

definition no_sub :: IOC_SubEvtArgs_T where
  "no_sub = \<lparr>CbProcEvt_F = None, pCbPrivData = 0, EvtNum = 0, pEvtIDs = []\<rparr>"

text \<open>\<open>mem\<close> is the block that \<^verbatim>\<open>malloc\<close> answers.\<close>

definition initCallbackBatch :: "byte list option \<Rightarrow> CallbackBatch_T \<Rightarrow> IOC_Result_T \<times> CallbackBatch_T" where
  "initCallbackBatch mem b = (case mem of
     None \<Rightarrow> (IOC_RESULT_POSIX_ENOMEM, b\<lparr>pBatchBuffer := []\<rparr>)
   | Some block \<Rightarrow> (IOC_RESULT_SUCCESS,
       b\<lparr>pBatchBuffer := block, BatchBufferSize := PROTO_FIFO_SEND_QUEUE_SIZE,
         AccumulatedDataSize := 0, IsInCallback := False, IsBatchWindowOpen := False,
         SlowCallbackThresholdMs := 8, BatchWindowDurationMs := 25, LastCallbackStart := time0,
         LastCallbackEnd := time0, BatchWindowStart := time0, BatchMutexHeld := False\<rparr>))"

definition zero_batch :: CallbackBatch_T where
  "zero_batch = \<lparr>pBatchBuffer = [], BatchBufferSize = 0, AccumulatedDataSize = 0,
     IsInCallback = False, BatchMutexHeld = False, LastCallbackStart = time0,
     LastCallbackEnd = time0, BatchWindowStart = time0, IsBatchWindowOpen = False,
     SlowCallbackThresholdMs = 0, BatchWindowDurationMs = 0\<rparr>"

definition zero_pbuf :: PollingBuffer_T where
  "zero_pbuf = \<lparr>pDataBuffer = [], BufferSize = 0, DataStart = 0, DataEnd = 0, AvailableData = 0,
     IsPollingMode = False\<rparr>"

definition initCmdPolling :: CmdPolling_T where
  "initCmdPolling = \<lparr>IsCmdPollingActive = False, QueuedCmdNum = 0, ProcedCmdNum = 0,
     QueuedCmdDescs = replicate 64 zero_cmd, QueuedRespNum = 0, ProcedRespNum = 0,
     QueuedRespDescs = replicate 64 zero_cmd\<rparr>"

text \<open>\<^verbatim>\<open>calloc\<close> and the initialisations that connecting and accepting share.  Any failed allocation
  is followed by \<^verbatim>\<open>_IOC_LogBug\<close>, so that it ends the process.\<close>

record link_mem =
  mem_obj :: bool
  mem_poll :: "byte list option"
  mem_batch :: "byte list option"

definition fresh_fifo_link :: "nat \<Rightarrow> PollingBuffer_T \<Rightarrow> CallbackBatch_T \<Rightarrow> FifoLinkObject_T" where
  "fresh_fifo_link owner pb cb =
     \<lparr>MutexHeld = False, pOwnerLinkObj = owner, pPeer = None, SubEvtArgs = no_sub,
      DatReceiver = \<lparr>CbRecvDat_F = None, drCbPrivData = 0, IsReceiverRegistered = False,
        IsProcessingCallback = False, PendingDataCount = 0, CallbackBatch = cb,
        LastSentCache = \<lparr>LastSentData = replicate 1024 0, LastSentDataSize = 0,
          HasRecentlySentData = False, LastSentTime = time0\<rparr>,
        PollingBuffer = pb\<rparr>,
      EvtPollingQueue = EvtDescQueue_initOne, IsEvtPollingActive = False,
      CmdPolling = initCmdPolling\<rparr>"

definition new_fifo_link :: "link_mem \<Rightarrow> nat \<Rightarrow> FifoLinkObject_T outcome" where
  "new_fifo_link m owner = log_assert (mem_obj m) (
     let (r1, pb) = fifo_initPollingBuffer (mem_poll m) zero_pbuf
     in log_assert (r1 = IOC_RESULT_SUCCESS) (
       let (r2, cb) = initCallbackBatch (mem_batch m) zero_batch
       in log_assert (r2 = IOC_RESULT_SUCCESS) (Done (fresh_fifo_link owner pb cb))))"

definition add_fifo_link :: "FifoLinkObject_T \<Rightarrow> 'x fifo_world \<Rightarrow> nat \<times> 'x fifo_world" where
  "add_fifo_link l w = (let f = next_fifo (proto w) in
     (f, w\<lparr>proto := (proto w)\<lparr>FifoLinks := (FifoLinks (proto w))(f := Some l), next_fifo := f + 1\<rparr>\<rparr>))"

definition free_fifo_link :: "nat \<Rightarrow> 'x fifo_world \<Rightarrow> 'x fifo_world" where
  "free_fifo_link f w = w\<lparr>proto := (proto w)\<lparr>FifoLinks := (FifoLinks (proto w))(f := None)\<rparr>\<rparr>"


section \<open>Services\<close>

text \<open>Which FIFO service has a URI: the walk over the 16 slots, comparing with the URI of the service
  each one points to.\<close>

fun getSrvProtoObjBySrvURI ::
  "IOC_SrvURI_T \<Rightarrow> 'x fifo_world \<Rightarrow> nat option list \<Rightarrow> nat option outcome" where
  "getSrvProtoObjBySrvURI uri w [] = Done None"
| "getSrvProtoObjBySrvURI uri w (None # slots) = getSrvProtoObjBySrvURI uri w slots"
| "getSrvProtoObjBySrvURI uri w (Some f # slots) =
     fsderef f w (\<lambda>fs. derefSrv (fsSrvObj fs) w (\<lambda>s.
       if IOC_Helper_isEqualSrvURI uri (SrvURI s) then Done (Some f)
       else getSrvProtoObjBySrvURI uri w slots))"

text \<open>A service beyond the sixteenth finds no free slot; the call reports success all the same.\<close>

definition onlineService_ofProtoFifo ::
  "bool \<Rightarrow> nat \<Rightarrow> 'x fifo_world \<Rightarrow> (IOC_Result_T \<times> 'x fifo_world) outcome" where
  "onlineService_ofProtoFifo mem i w = log_assert mem (derefSrv i w (\<lambda>_.
     let f = next_fifo (proto w);
         w1 = setSrv i (\<lambda>s. s\<lparr>SrvProtoPriv := Some f\<rparr>) w;
         p = proto w1;
         tbl = (case first_index (\<lambda>slot. slot = None) (OnlinedSrvFifo p) of
           None \<Rightarrow> OnlinedSrvFifo p
         | Some k \<Rightarrow> (OnlinedSrvFifo p)[k := Some f])
     in Done (IOC_RESULT_SUCCESS, w1\<lparr>proto := p\<lparr>
       FifoSrvs := (FifoSrvs p)(f := Some \<lparr>fsSrvObj = i, ConnMutexHeld = False, pConnLinkObj = None\<rparr>),
       next_fifo := f + 1, OnlinedSrvFifo := tbl\<rparr>\<rparr>)))"

definition offlineService_ofProtoFifo ::
  "nat \<Rightarrow> 'x fifo_world \<Rightarrow> (IOC_Result_T \<times> 'x fifo_world) outcome" where
  "offlineService_ofProtoFifo i w = derefSrv i w (\<lambda>s. case SrvProtoPriv s of
     None \<Rightarrow> Abort
   | Some f \<Rightarrow> fsderef f w (\<lambda>_.
       let p = proto w;
           tbl = (case first_index (\<lambda>slot. slot = Some f) (OnlinedSrvFifo p) of
             None \<Rightarrow> OnlinedSrvFifo p
           | Some k \<Rightarrow> (OnlinedSrvFifo p)[k := None])
       in Done (IOC_RESULT_SUCCESS,
            w\<lparr>proto := p\<lparr>OnlinedSrvFifo := tbl, FifoSrvs := (FifoSrvs p)(f := None)\<rparr>\<rparr>)))"

section \<open>Connecting\<close>

text \<open>
  Up to the wait: the result when the service is not found, else the FIFO service and link objects
  with which the client goes to wait.  It then holds \<^verbatim>\<open>ConnMutex\<close>.
\<close>

definition connect_begin ::
  "link_mem \<Rightarrow> nat \<Rightarrow> IOC_ConnArgs_T \<Rightarrow> 'x fifo_world \<Rightarrow>
   (IOC_Result_T + (nat \<times> nat \<times> 'x fifo_world)) outcome" where
  "connect_begin m link args w = deref link w (\<lambda>_.
     bindO (getSrvProtoObjBySrvURI (ConnSrvURI args) w (OnlinedSrvFifo (proto w))) (\<lambda>found.
       case found of
         None \<Rightarrow> Done (Inl IOC_RESULT_NOT_EXIST_SERVICE)
       | Some fs \<Rightarrow> bindO (new_fifo_link m link) (\<lambda>l.
           let (f, w1) = add_fifo_link l w;
               w2 = setLink link (\<lambda>l. l\<lparr>pProtoPriv := Some f\<rparr>) w1
           in fsderef fs w2 (\<lambda>s.
                if ConnMutexHeld s then Block
                else log_assert (pConnLinkObj s = None) (
                  Done (Inr (fs, f, setFifoSrv fs
                    (\<lambda>s. s\<lparr>ConnMutexHeld := True, pConnLinkObj := Some link\<rparr>) w2)))))))"

text \<open>After the wait, which has no loop around it.\<close>

definition connect_end ::
  "nat \<Rightarrow> nat \<Rightarrow> nat \<Rightarrow> 'x fifo_world \<Rightarrow> (IOC_Result_T \<times> 'x fifo_world) outcome" where
  "connect_end fs f link w = fsderef fs w (\<lambda>s. fderef f w (\<lambda>l.
     let w1 = setFifoSrv fs (\<lambda>s. s\<lparr>ConnMutexHeld := False\<rparr>) w
     in if pConnLinkObj s = None \<and> pPeer l = None then
          Done (IOC_RESULT_INCOMPATIBLE_USAGE,
            setLink link (\<lambda>l. l\<lparr>pProtoPriv := None\<rparr>) (free_fifo_link f w1))
        else log_assert (pPeer l \<noteq> None) (Done (IOC_RESULT_SUCCESS, w1))))"

text \<open>The whole call: \<open>wake\<close> is what the other threads do until the waiting client is woken, \<open>None\<close>
  when nobody signals it.\<close>

definition connectService_ofProtoFifo ::
  "link_mem \<Rightarrow> ('x fifo_world \<Rightarrow> 'x fifo_world) option \<Rightarrow> nat \<Rightarrow> IOC_ConnArgs_T \<Rightarrow> 'x fifo_world \<Rightarrow>
   (IOC_Result_T \<times> 'x fifo_world) outcome" where
  "connectService_ofProtoFifo m wake link args w =
     bindO (connect_begin m link args w) (\<lambda>r. case r of
       Inl res \<Rightarrow> Done (res, w)
     | Inr (fs, f, w1) \<Rightarrow> (case wake of
         None \<Rightarrow> Block
       | Some others \<Rightarrow> connect_end fs f link (others w1)))"

section \<open>Accepting\<close>

text \<open>The data receiver of the accepted link is set up from the service's capabilities, not from the
  negotiated role.\<close>

definition setupDatReceiver :: "nat \<Rightarrow> nat \<Rightarrow> 'x fifo_world \<Rightarrow> (IOC_Result_T \<times> 'x fifo_world) outcome"
where
  "setupDatReceiver link srv w = deref link w (\<lambda>lo. derefSrv srv w (\<lambda>s.
     case pProtoPriv lo of
       None \<Rightarrow> Done (IOC_RESULT_NOT_EXIST_LINK, w)
     | Some f \<Rightarrow>
        if has_usage (UsageCapabilites s) IOC_LinkUsageDatReceiver \<and> SrvDat s \<noteq> None then
          (let d = the (SrvDat s) in
           lockFifo f w (\<lambda>w1. Done (IOC_RESULT_SUCCESS, unlockFifo f (setFifo f (\<lambda>l. l\<lparr>DatReceiver :=
             (DatReceiver l)\<lparr>CbRecvDat_F := duCbRecvDat_F d, drCbPrivData := duCbPrivData d,
               IsReceiverRegistered := (duCbRecvDat_F d \<noteq> None), IsProcessingCallback := False,
               PendingDataCount := 0,
               PollingBuffer := (if duCbRecvDat_F d = None
                 then (PollingBuffer (DatReceiver l))\<lparr>IsPollingMode := True\<rparr>
                 else PollingBuffer (DatReceiver l))\<rparr>\<rparr>) w1))))
        else Done (IOC_RESULT_NOT_SUPPORT, w)))"

definition setupClientReceiver :: "nat \<Rightarrow> IOC_DatUsageArgs_T \<Rightarrow> 'x fifo_world \<Rightarrow> 'x fifo_world outcome"
where
  "setupClientReceiver f d w = lockFifo f w (\<lambda>w1. Done (unlockFifo f (setFifo f (\<lambda>l. l\<lparr>DatReceiver :=
     (DatReceiver l)\<lparr>CbRecvDat_F := duCbRecvDat_F d, drCbPrivData := duCbPrivData d,
       IsReceiverRegistered := (duCbRecvDat_F d \<noteq> None), IsProcessingCallback := False,
       PendingDataCount := 0\<rparr>\<rparr>) w1)))"

datatype accept_verdict = Accepted | Rejected | NoConn

text \<open>One look at the connecting client: what the loop does under \<^verbatim>\<open>WaitAccptedMutex\<close>.\<close>

definition accept_try ::
  "nat \<Rightarrow> nat \<Rightarrow> nat \<Rightarrow> 'x fifo_world \<Rightarrow> (accept_verdict \<times> 'x fifo_world) outcome" where
  "accept_try srv link f w = derefSrv srv w (\<lambda>s. case SrvProtoPriv s of
     None \<Rightarrow> Abort
   | Some fs \<Rightarrow> fsderef fs w (\<lambda>fso. case pConnLinkObj fso of
       None \<Rightarrow> Done (NoConn, w)
     | Some client \<Rightarrow> deref client w (\<lambda>cl.
         let role = negotiateLinkRole (UsageCapabilites s) (Usage cl);
             w1 = setFifoSrv fs (\<lambda>x. x\<lparr>pConnLinkObj := None\<rparr>) w
         in if role = IOC_LinkUsageUndefined then Done (Rejected, w1)
            else case pProtoPriv cl of
              None \<Rightarrow> Abort
            | Some cf \<Rightarrow> fderef cf w1 (\<lambda>_. fderef f w1 (\<lambda>_.
                let w2 = setFifo f (\<lambda>l. l\<lparr>pPeer := Some cf\<rparr>) w1;
                    w3 = setFifo cf (\<lambda>l. l\<lparr>pPeer := Some f\<rparr>) w2;
                    w4 = setLink link (\<lambda>l. l\<lparr>Usage := role\<rparr>) w3
                in bindO (setupDatReceiver link srv w4) (\<lambda>(_, w5).
                     bindO (case UsageArgs cl of
                       Some u \<Rightarrow> if has_usage (Usage cl) IOC_LinkUsageDatReceiver
                         then setupClientReceiver cf (as_pDat u) w5 else Done w5
                     | None \<Rightarrow> Done w5) (\<lambda>w6. Done (Accepted, w6))))))))"

text \<open>Elapsed microseconds as the accept loop computes them: the nanosecond difference is converted
  to unsigned before it is divided.\<close>

definition accept_elapsedUS :: "timespec \<Rightarrow> timespec \<Rightarrow> ULONG" where
  "accept_elapsedUS start now = of_int (tv_sec now - tv_sec start) * 1000000 +
     of_int (tv_nsec now - tv_nsec start) div 1000"

text \<open>
  The loop.  Each element of \<open>turns\<close> is what the other threads do before the loop looks again (for
  up to 10 ms when no client was there; a rejection goes on at once, without a look at the clock)
  and the time read then.  Accepting looks at the timeout value without looking at the option
  identifiers.
\<close>

fun accept_loop ::
  "nat \<Rightarrow> nat \<Rightarrow> nat \<Rightarrow> IOC_Options_T option \<Rightarrow> timespec \<Rightarrow>
   (timespec \<times> ('x fifo_world \<Rightarrow> 'x fifo_world)) list \<Rightarrow> 'x fifo_world \<Rightarrow>
   (IOC_Result_T \<times> 'x fifo_world) outcome" where
  "accept_loop srv link f opt start turns w = bindO (accept_try srv link f w) (\<lambda>(v, w1).
     if v = Accepted then Done (IOC_RESULT_SUCCESS, w1)
     else case turns of [] \<Rightarrow> Block
       | (now, others) # rs \<Rightarrow>
           if v = NoConn \<and> (case opt of None \<Rightarrow> False | Some op \<Rightarrow> TimeoutUS op \<noteq> IOC_TIMEOUT_INFINITE \<and>
                accept_elapsedUS start now \<ge> TimeoutUS op)
           then Done (IOC_RESULT_TIMEOUT,
                  setLink link (\<lambda>l. l\<lparr>pProtoPriv := None\<rparr>) (free_fifo_link f (others w1)))
           else accept_loop srv link f opt start rs (others w1))"

declare accept_loop.simps [simp del]

definition acceptClient_ofProtoFifo ::
  "link_mem \<Rightarrow> timespec \<Rightarrow> (timespec \<times> ('x fifo_world \<Rightarrow> 'x fifo_world)) list \<Rightarrow> nat \<Rightarrow> nat \<Rightarrow>
   IOC_Options_T option \<Rightarrow> 'x fifo_world \<Rightarrow> (IOC_Result_T \<times> 'x fifo_world) outcome" where
  "acceptClient_ofProtoFifo m start turns srv link opt w = bindO (new_fifo_link m link) (\<lambda>l.
     let (f, w1) = add_fifo_link l w;
         w2 = setLink link (\<lambda>l. l\<lparr>pProtoPriv := Some f\<rparr>) w1
     in accept_loop srv link f opt start turns w2)"

section \<open>Closing\<close>

text \<open>What closing does once it has its own mutex.  The peer is told only if its mutex can be taken at
  once; the object is freed in any case.\<close>

definition closeLink_locked :: "bool \<Rightarrow> nat \<Rightarrow> 'x fifo_world \<Rightarrow> (IOC_Result_T \<times> 'x fifo_world) outcome" where
  "closeLink_locked destroy_ok f w1 = fderef f w1 (\<lambda>l.
       bindO (case pPeer l of
           None \<Rightarrow> Done (unlockFifo f w1)
         | Some p \<Rightarrow>
             let w2 = setFifo f (\<lambda>l. l\<lparr>pPeer := None\<rparr>) w1
             in fderef p w2 (\<lambda>pl. Done (unlockFifo f (
                  if MutexHeld pl then w2 else setFifo p (\<lambda>l. l\<lparr>pPeer := None\<rparr>) w2))))
         (\<lambda>w3. fderef f w3 (\<lambda>l. log_assert (pPeer l = None) (
            bindO (EvtDescQueue_deinitOne destroy_ok (EvtPollingQueue l)) (\<lambda>_.
              Done (IOC_RESULT_SUCCESS, free_fifo_link f w3))))))"

definition closeLink_ofProtoFifo :: "bool \<Rightarrow> nat \<Rightarrow> 'x fifo_world \<Rightarrow> (IOC_Result_T \<times> 'x fifo_world) outcome"
where
  "closeLink_ofProtoFifo destroy_ok link w = deref link w (\<lambda>lo. case pProtoPriv lo of
     None \<Rightarrow> Abort
   | Some f \<Rightarrow> lockFifo f w (closeLink_locked destroy_ok f))"


section \<open>What the accessors change\<close>

lemma setFifo_sel [simp]:
  "FifoLinks (proto (setFifo f g w)) = (FifoLinks (proto w))(f := map_option g (FifoLinks (proto w) f))"
  "FifoSrvs (proto (setFifo f g w)) = FifoSrvs (proto w)"
  "next_fifo (proto (setFifo f g w)) = next_fifo (proto w)"
  "OnlinedSrvFifo (proto (setFifo f g w)) = OnlinedSrvFifo (proto w)"
  "LinkHeap (setFifo f g w) = LinkHeap w" "SrvTbl (setFifo f g w) = SrvTbl w"
  by (simp_all add: setFifo_def)

lemma setFifoSrv_sel [simp]:
  "FifoLinks (proto (setFifoSrv f h w)) = FifoLinks (proto w)"
  "FifoSrvs (proto (setFifoSrv f h w)) = (FifoSrvs (proto w))(f := map_option h (FifoSrvs (proto w) f))"
  "next_fifo (proto (setFifoSrv f h w)) = next_fifo (proto w)"
  "OnlinedSrvFifo (proto (setFifoSrv f h w)) = OnlinedSrvFifo (proto w)"
  "LinkHeap (setFifoSrv f h w) = LinkHeap w" "SrvTbl (setFifoSrv f h w) = SrvTbl w"
  by (simp_all add: setFifoSrv_def)

lemma free_fifo_link_sel [simp]:
  "FifoLinks (proto (free_fifo_link f w)) = (FifoLinks (proto w))(f := None)"
  "FifoSrvs (proto (free_fifo_link f w)) = FifoSrvs (proto w)"
  "next_fifo (proto (free_fifo_link f w)) = next_fifo (proto w)"
  "OnlinedSrvFifo (proto (free_fifo_link f w)) = OnlinedSrvFifo (proto w)"
  "LinkHeap (free_fifo_link f w) = LinkHeap w" "SrvTbl (free_fifo_link f w) = SrvTbl w"
  by (simp_all add: free_fifo_link_def)

lemma unlockFifo_sel [simp]:
  "FifoLinks (proto (unlockFifo f w)) = (FifoLinks (proto w))(f := map_option (MutexHeld_update (\<lambda>_. False)) (FifoLinks (proto w) f))"
  "FifoSrvs (proto (unlockFifo f w)) = FifoSrvs (proto w)"
  "next_fifo (proto (unlockFifo f w)) = next_fifo (proto w)"
  "OnlinedSrvFifo (proto (unlockFifo f w)) = OnlinedSrvFifo (proto w)"
  "LinkHeap (unlockFifo f w) = LinkHeap w" "SrvTbl (unlockFifo f w) = SrvTbl w"
  by (simp_all add: unlockFifo_def)

lemma fderef_Done [outcome_simps]:
  "fderef f w k = Done y \<longleftrightarrow> (\<exists>l. FifoLinks (proto w) f = Some l \<and> k l = Done y)"
  by (simp add: fderef_def split: option.split)

lemma fsderef_Done [outcome_simps]:
  "fsderef f w k = Done y \<longleftrightarrow> (\<exists>s. FifoSrvs (proto w) f = Some s \<and> k s = Done y)"
  by (simp add: fsderef_def split: option.split)

lemma lockFifo_Done [outcome_simps]:
  "lockFifo f w k = Done y \<longleftrightarrow> (\<exists>l. FifoLinks (proto w) f = Some l \<and> \<not> MutexHeld l \<and>
     k (setFifo f (\<lambda>l. l\<lparr>MutexHeld := True\<rparr>) w) = Done y)"
  by (auto simp: lockFifo_def fderef_Done split: if_splits)

text \<open>\<open>same_ends l l'\<close>: the two states of a link object agree in owner, peer and mutex.\<close>

definition same_ends :: "FifoLinkObject_T \<Rightarrow> FifoLinkObject_T \<Rightarrow> bool" where
  "same_ends l l' \<longleftrightarrow> MutexHeld l' = MutexHeld l \<and> pOwnerLinkObj l' = pOwnerLinkObj l \<and> pPeer l' = pPeer l"

lemma same_ends_refl [simp]: "same_ends l l"
  by (simp add: same_ends_def)

lemma ends_upd: "same_ends l l' \<Longrightarrow> \<exists>l''. same_ends l l'' \<and> m(f := Some l') = m(f := Some l'')"
  by blast

lemma ends_same: "m f = Some l \<Longrightarrow> \<exists>l'. same_ends l l' \<and> m = m(f := Some l')"
  by (rule exI [of _ l]) (simp add: fun_upd_idem)

lemma setupDatReceiver_effect:
  assumes "setupDatReceiver link srv w = Done (r, w')" "LinkHeap w link = Some lk" "pProtoPriv lk = Some f"
    "FifoLinks (proto w) f = Some l"
  shows "\<exists>l'. same_ends l l' \<and> FifoLinks (proto w') = (FifoLinks (proto w))(f := Some l')"
    and "FifoSrvs (proto w') = FifoSrvs (proto w)" "next_fifo (proto w') = next_fifo (proto w)"
    and "LinkHeap w' = LinkHeap w" "SrvTbl w' = SrvTbl w"
  using assms by (auto simp: setupDatReceiver_def outcome_simps Let_def same_ends_def [of _ "_\<lparr>MutexHeld := _\<rparr>"]
      split: if_splits intro!: ends_upd intro: ends_same)

lemma setupClientReceiver_effect:
  assumes "setupClientReceiver f d w = Done w'" "FifoLinks (proto w) f = Some l"
  shows "\<exists>l'. same_ends l l' \<and> FifoLinks (proto w') = (FifoLinks (proto w))(f := Some l')"
    and "FifoSrvs (proto w') = FifoSrvs (proto w)" "next_fifo (proto w') = next_fifo (proto w)"
    and "LinkHeap w' = LinkHeap w" "SrvTbl w' = SrvTbl w"
  using assms by (auto simp: setupClientReceiver_def outcome_simps same_ends_def [of _ "_\<lparr>MutexHeld := _\<rparr>"]
      intro!: ends_upd)

lemma setFifo_cong: "(\<And>l. FifoLinks (proto w) f = Some l \<Longrightarrow> g l = h l) \<Longrightarrow> setFifo f g w = setFifo f h w"
  by (cases "FifoLinks (proto w) f") (simp_all add: setFifo_def)


section \<open>What one look at the connecting client does\<close>

lemma accept_try_NoConn:
  assumes "accept_try srv link f w = Done (NoConn, w')"
  shows "w' = w"
  using assms by (auto simp: accept_try_def outcome_simps Let_def split: option.splits if_splits)

lemma accept_try_Rejected:
  assumes "accept_try srv link f w = Done (Rejected, w')"
  shows "\<exists>s fs fso client cl. SrvTbl w ! srv = Some s \<and> SrvProtoPriv s = Some fs \<and>
    FifoSrvs (proto w) fs = Some fso \<and> pConnLinkObj fso = Some client \<and> LinkHeap w client = Some cl \<and>
    negotiateLinkRole (UsageCapabilites s) (Usage cl) = 0 \<and>
    w' = setFifoSrv fs (\<lambda>x. x\<lparr>pConnLinkObj := None\<rparr>) w"
  using assms by (auto simp: accept_try_def outcome_simps Let_def usage_defs split: option.splits if_splits)

lemma accept_try_Accepted:
  assumes "accept_try srv link f w = Done (Accepted, w')" "LinkHeap w link = Some lk"
    "pProtoPriv lk = Some f"
    and apart: "\<forall>fs fso client cl. FifoSrvs (proto w) fs = Some fso \<longrightarrow> pConnLinkObj fso = Some client \<longrightarrow>
      LinkHeap w client = Some cl \<longrightarrow> SrvTbl w ! srv \<noteq> None \<longrightarrow> SrvProtoPriv (the (SrvTbl w ! srv)) = Some fs \<longrightarrow>
      pProtoPriv cl \<noteq> Some f \<and> client \<noteq> link"
  shows "\<exists>s fs fso client cl cf l cfl l' cfl'. SrvTbl w ! srv = Some s \<and> SrvProtoPriv s = Some fs \<and>
    FifoSrvs (proto w) fs = Some fso \<and> pConnLinkObj fso = Some client \<and> LinkHeap w client = Some cl \<and>
    negotiateLinkRole (UsageCapabilites s) (Usage cl) \<noteq> 0 \<and> pProtoPriv cl = Some cf \<and>
    FifoLinks (proto w) f = Some l \<and> FifoLinks (proto w) cf = Some cfl \<and>
    same_ends (l\<lparr>pPeer := Some cf\<rparr>) l' \<and> same_ends (cfl\<lparr>pPeer := Some f\<rparr>) cfl' \<and>
    FifoLinks (proto w') = (FifoLinks (proto w))(f := Some l', cf := Some cfl') \<and>
    FifoSrvs (proto w') = (FifoSrvs (proto w))(fs := Some (fso\<lparr>pConnLinkObj := None\<rparr>)) \<and>
    next_fifo (proto w') = next_fifo (proto w) \<and> SrvTbl w' = SrvTbl w \<and>
    LinkHeap w' = (LinkHeap w)(link := Some (lk\<lparr>Usage :=
      negotiateLinkRole (UsageCapabilites s) (Usage cl)\<rparr>))"
proof -
  obtain s fs fso client cl cf l cfl r w5 where
    *: "SrvTbl w ! srv = Some s" "SrvProtoPriv s = Some fs" "FifoSrvs (proto w) fs = Some fso"
      "pConnLinkObj fso = Some client" "LinkHeap w client = Some cl"
      "negotiateLinkRole (UsageCapabilites s) (Usage cl) \<noteq> 0" "pProtoPriv cl = Some cf"
      "FifoLinks (proto w) cf = Some cfl" "FifoLinks (proto w) f = Some l"
    and 5: "setupDatReceiver link srv (setLink link (\<lambda>l. l\<lparr>Usage := negotiateLinkRole (UsageCapabilites s) (Usage cl)\<rparr>)
        (setFifo cf (\<lambda>l. l\<lparr>pPeer := Some f\<rparr>) (setFifo f (\<lambda>l. l\<lparr>pPeer := Some cf\<rparr>)
          (setFifoSrv fs (\<lambda>x. x\<lparr>pConnLinkObj := None\<rparr>) w)))) = Done (r, w5)"
    and 6: "(case UsageArgs cl of
         Some u \<Rightarrow> if has_usage (Usage cl) IOC_LinkUsageDatReceiver
           then setupClientReceiver cf (as_pDat u) w5 else Done w5
       | None \<Rightarrow> Done w5) = Done w'"
    using assms(1) by (auto simp: accept_try_def outcome_simps Let_def usage_defs(1) split: option.splits if_splits)
  have ne: "cf \<noteq> f" "client \<noteq> link" using apart * by auto
  let ?w4 = "setLink link (\<lambda>l. l\<lparr>Usage := negotiateLinkRole (UsageCapabilites s) (Usage cl)\<rparr>)
        (setFifo cf (\<lambda>l. l\<lparr>pPeer := Some f\<rparr>) (setFifo f (\<lambda>l. l\<lparr>pPeer := Some cf\<rparr>)
          (setFifoSrv fs (\<lambda>x. x\<lparr>pConnLinkObj := None\<rparr>) w)))"
  have w4: "LinkHeap ?w4 link = Some (lk\<lparr>Usage := negotiateLinkRole (UsageCapabilites s) (Usage cl)\<rparr>)"
    "FifoLinks (proto ?w4) f = Some (l\<lparr>pPeer := Some cf\<rparr>)"
    using assms(2) * ne by simp_all
  obtain l' where l': "same_ends (l\<lparr>pPeer := Some cf\<rparr>) l'"
    "FifoLinks (proto w5) = (FifoLinks (proto ?w4))(f := Some l')"
    using setupDatReceiver_effect(1) [OF 5 w4(1) _ w4(2)] assms(3) by auto
  have w5: "FifoSrvs (proto w5) = FifoSrvs (proto ?w4)" "next_fifo (proto w5) = next_fifo (proto ?w4)"
    "LinkHeap w5 = LinkHeap ?w4" "SrvTbl w5 = SrvTbl ?w4"
    using setupDatReceiver_effect(2-5) [OF 5 w4(1) _ w4(2)] assms(3) by auto
  have cf5: "FifoLinks (proto w5) cf = Some (cfl\<lparr>pPeer := Some f\<rparr>)" using l' * ne by simp
  have "\<exists>cfl'. same_ends (cfl\<lparr>pPeer := Some f\<rparr>) cfl' \<and>
      FifoLinks (proto w') = (FifoLinks (proto w5))(cf := Some cfl') \<and>
      FifoSrvs (proto w') = FifoSrvs (proto w5) \<and> next_fifo (proto w') = next_fifo (proto w5) \<and>
      LinkHeap w' = LinkHeap w5 \<and> SrvTbl w' = SrvTbl w5"
  proof -
    have "w' = w5 \<or> (\<exists>d. setupClientReceiver cf d w5 = Done w')"
      using 6 by (auto split: option.splits if_splits)
    then show ?thesis
    proof
      assume "w' = w5"
      then show ?thesis using ends_same [of "FifoLinks (proto w5)", OF cf5] by auto
    next
      assume "\<exists>d. setupClientReceiver cf d w5 = Done w'"
      then obtain d where d: "setupClientReceiver cf d w5 = Done w'" by blast
      show ?thesis using setupClientReceiver_effect [OF d cf5] by auto
    qed
  qed
  then obtain cfl' where cfl': "same_ends (cfl\<lparr>pPeer := Some f\<rparr>) cfl'"
      "FifoLinks (proto w') = (FifoLinks (proto w5))(cf := Some cfl')"
      "FifoSrvs (proto w') = FifoSrvs (proto w5)" "next_fifo (proto w') = next_fifo (proto w5)"
      "LinkHeap w' = LinkHeap w5" "SrvTbl w' = SrvTbl w5" by blast
  have "FifoLinks (proto w') = (FifoLinks (proto w))(f := Some l', cf := Some cfl')"
    using cfl'(2) l'(2) * ne by (auto simp: fun_eq_iff)
  moreover have "FifoSrvs (proto w') = (FifoSrvs (proto w))(fs := Some (fso\<lparr>pConnLinkObj := None\<rparr>))"
    "next_fifo (proto w') = next_fifo (proto w)" "SrvTbl w' = SrvTbl w"
    "LinkHeap w' = (LinkHeap w)(link := Some (lk\<lparr>Usage :=
      negotiateLinkRole (UsageCapabilites s) (Usage cl)\<rparr>))"
    using cfl' w5 * assms(2) by simp_all
  ultimately show ?thesis using * l'(1) cfl'(1) by blast
qed


text \<open>What is left of the links when \<open>f\<close>, which was \<open>l\<close>, has been closed.\<close>

definition closed_end :: "nat \<Rightarrow> FifoLinkObject_T \<Rightarrow> (nat \<Rightarrow> FifoLinkObject_T option) \<Rightarrow> nat \<Rightarrow> FifoLinkObject_T option" where
  "closed_end f l fl = (case pPeer l of
     None \<Rightarrow> fl(f := None)
   | Some p \<Rightarrow> fl(p := map_option (\<lambda>q. if MutexHeld q then q else q\<lparr>pPeer := None\<rparr>) (fl p), f := None))"

lemma closeLink_locked_effect:
  assumes "closeLink_locked ok f w = Done (r, w')"
    and no_self: "\<forall>l. FifoLinks (proto w) f = Some l \<longrightarrow> pPeer l \<noteq> Some f"
  shows "\<exists>l. FifoLinks (proto w) f = Some l \<and> LinkHeap w' = LinkHeap w \<and> FifoSrvs (proto w') = FifoSrvs (proto w) \<and>
    next_fifo (proto w') = next_fifo (proto w) \<and> SrvTbl w' = SrvTbl w \<and>
    (\<forall>p. pPeer l = Some p \<longrightarrow> FifoLinks (proto w) p \<noteq> None) \<and>
    FifoLinks (proto w') = closed_end f l (FifoLinks (proto w))"
proof -
  obtain l where l: "FifoLinks (proto w) f = Some l" using assms(1) by (auto simp: closeLink_locked_def outcome_simps)
  show ?thesis
  proof (cases "pPeer l")
    case None
    then show ?thesis using assms(1) l
      by (auto simp: closeLink_locked_def closed_end_def outcome_simps fun_eq_iff)
  next
    case (Some p)
    then have "p \<noteq> f" using no_self l by auto
    obtain pl where pl: "FifoLinks (proto w) p = Some pl"
      "w' = free_fifo_link f (unlockFifo f (let w2 = setFifo f (\<lambda>l. l\<lparr>pPeer := None\<rparr>) w
         in if MutexHeld pl then w2 else setFifo p (\<lambda>l. l\<lparr>pPeer := None\<rparr>) w2))"
      using assms(1) l Some \<open>p \<noteq> f\<close> by (auto simp: closeLink_locked_def outcome_simps Let_def)
    have "FifoLinks (proto w') = closed_end f l (FifoLinks (proto w))"
      using pl l Some \<open>p \<noteq> f\<close> by (simp add: Let_def fun_eq_iff closed_end_def)
    then show ?thesis using pl l Some by (simp add: Let_def)
  qed
qed

lemma closeLink_effect:
  assumes "closeLink_ofProtoFifo ok link w = Done (r, w')"
    and no_self: "\<forall>f l. FifoLinks (proto w) f = Some l \<longrightarrow> pPeer l \<noteq> Some f"
  shows "\<exists>lk f l. LinkHeap w link = Some lk \<and> pProtoPriv lk = Some f \<and> FifoLinks (proto w) f = Some l \<and>
    \<not> MutexHeld l \<and> LinkHeap w' = LinkHeap w \<and> FifoSrvs (proto w') = FifoSrvs (proto w) \<and>
    next_fifo (proto w') = next_fifo (proto w) \<and> SrvTbl w' = SrvTbl w \<and>
    (\<forall>p. pPeer l = Some p \<longrightarrow> FifoLinks (proto w) p \<noteq> None) \<and>
    FifoLinks (proto w') = closed_end f l (FifoLinks (proto w))"
proof -
  obtain lk f l where 1: "LinkHeap w link = Some lk" "pProtoPriv lk = Some f"
      "FifoLinks (proto w) f = Some l" "\<not> MutexHeld l"
    using assms(1) by (auto simp: closeLink_ofProtoFifo_def outcome_simps split: option.splits)
  let ?w = "setFifo f (\<lambda>l. l\<lparr>MutexHeld := True\<rparr>) w" and ?l = "l\<lparr>MutexHeld := True\<rparr>"
  have 2: "closeLink_locked ok f ?w = Done (r, w')"
    using assms(1) 1 by (simp add: closeLink_ofProtoFifo_def deref_def lockFifo_def fderef_def)
  from closeLink_locked_effect [OF this] obtain l2 where 3: "FifoLinks (proto ?w) f = Some l2" "LinkHeap w' = LinkHeap ?w"
    "FifoSrvs (proto w') = FifoSrvs (proto ?w)" "next_fifo (proto w') = next_fifo (proto ?w)" "SrvTbl w' = SrvTbl ?w"
    "\<forall>p. pPeer l2 = Some p \<longrightarrow> FifoLinks (proto ?w) p \<noteq> None" "FifoLinks (proto w') = closed_end f l2 (FifoLinks (proto ?w))"
    using no_self 1(3) by auto
  have l2: "l2 = ?l" using 3(1) 1(3) by simp
  have ns: "pPeer l \<noteq> Some f" using no_self 1(3) by blast
  then have "closed_end f ?l (FifoLinks (proto ?w)) = closed_end f l (FifoLinks (proto w))"
    using 1(3) by (auto simp: closed_end_def fun_eq_iff split: option.split)
  moreover have "\<forall>p. pPeer l = Some p \<longrightarrow> FifoLinks (proto w) p \<noteq> None"
    using 3(6) ns by (auto simp: l2 split: if_splits)
  ultimately show ?thesis using 1 3 unfolding l2 by simp
qed

lemma new_fifo_link_effect:
  "new_fifo_link m owner = Done l \<Longrightarrow> pPeer l = None \<and> \<not> MutexHeld l \<and> pOwnerLinkObj l = owner"
  by (auto simp: new_fifo_link_def fresh_fifo_link_def outcome_simps split: prod.splits)

lemma add_fifo_link_sel [simp]:
  "fst (add_fifo_link l w) = next_fifo (proto w)"
  "FifoLinks (proto (snd (add_fifo_link l w))) = (FifoLinks (proto w))(next_fifo (proto w) := Some l)"
  "FifoSrvs (proto (snd (add_fifo_link l w))) = FifoSrvs (proto w)"
  "next_fifo (proto (snd (add_fifo_link l w))) = Suc (next_fifo (proto w))"
  "OnlinedSrvFifo (proto (snd (add_fifo_link l w))) = OnlinedSrvFifo (proto w)"
  "LinkHeap (snd (add_fifo_link l w)) = LinkHeap w" "SrvTbl (snd (add_fifo_link l w)) = SrvTbl w"
  by (simp_all add: add_fifo_link_def Let_def)

lemma connect_begin_effect:
  assumes "connect_begin m link args w = Done (Inr (fs, f, w'))"
  shows "\<exists>lk fso l. LinkHeap w link = Some lk \<and> FifoSrvs (proto w) fs = Some fso \<and> \<not> ConnMutexHeld fso \<and>
    pConnLinkObj fso = None \<and> f = next_fifo (proto w) \<and> pPeer l = None \<and> \<not> MutexHeld l \<and>
    pOwnerLinkObj l = link \<and> FifoLinks (proto w') = (FifoLinks (proto w))(f := Some l) \<and>
    next_fifo (proto w') = Suc f \<and> LinkHeap w' = (LinkHeap w)(link := Some (lk\<lparr>pProtoPriv := Some f\<rparr>)) \<and>
    SrvTbl w' = SrvTbl w \<and> FifoSrvs (proto w') = (FifoSrvs (proto w))
      (fs := Some (fso\<lparr>ConnMutexHeld := True, pConnLinkObj := Some link\<rparr>))"
proof -
  obtain l lk fso where l: "new_fifo_link m link = Done l" and *: "LinkHeap w link = Some lk"
      "FifoSrvs (proto w) fs = Some fso" "\<not> ConnMutexHeld fso" "pConnLinkObj fso = None"
      "f = next_fifo (proto w)"
      "w' = setFifoSrv fs (\<lambda>s. s\<lparr>ConnMutexHeld := True, pConnLinkObj := Some link\<rparr>)
        (setLink link (\<lambda>l. l\<lparr>pProtoPriv := Some f\<rparr>) (snd (add_fifo_link l w)))"
    using assms
    by (auto simp: connect_begin_def outcome_simps Let_def case_prod_beta split: option.splits if_splits)
  have "FifoLinks (proto w') = (FifoLinks (proto w))(f := Some l)" "next_fifo (proto w') = Suc f"
    "LinkHeap w' = (LinkHeap w)(link := Some (lk\<lparr>pProtoPriv := Some f\<rparr>))" "SrvTbl w' = SrvTbl w"
    "FifoSrvs (proto w') = (FifoSrvs (proto w))
      (fs := Some (fso\<lparr>ConnMutexHeld := True, pConnLinkObj := Some link\<rparr>))"
    using * by simp_all
  then show ?thesis using *(1-5) new_fifo_link_effect [OF l] by blast
qed

lemma connect_end_effect:
  assumes "connect_end fs f link w = Done (r, w')"
  shows "\<exists>fso l. FifoSrvs (proto w) fs = Some fso \<and> FifoLinks (proto w) f = Some l \<and>
    FifoSrvs (proto w') = (FifoSrvs (proto w))(fs := Some (fso\<lparr>ConnMutexHeld := False\<rparr>)) \<and>
    next_fifo (proto w') = next_fifo (proto w) \<and> SrvTbl w' = SrvTbl w \<and>
    (if pPeer l = None then r = IOC_RESULT_INCOMPATIBLE_USAGE \<and> pConnLinkObj fso = None \<and>
       FifoLinks (proto w') = (FifoLinks (proto w))(f := None) \<and>
       LinkHeap w' = (LinkHeap w)(link := map_option (pProtoPriv_update (\<lambda>_. None)) (LinkHeap w link))
     else r = IOC_RESULT_SUCCESS \<and> FifoLinks (proto w') = FifoLinks (proto w) \<and> LinkHeap w' = LinkHeap w)"
  using assms by (auto simp: connect_end_def outcome_simps Let_def split: if_splits)


section \<open>Connected pairs\<close>

definition priv_end :: "'p ioc_world \<Rightarrow> nat \<Rightarrow> nat option" where
  "priv_end w k = (case LinkHeap w k of None \<Rightarrow> None | Some lk \<Rightarrow> pProtoPriv lk)"

text \<open>\<open>connected w link f p\<close>: the link has the FIFO end \<open>f\<close>, whose peer is the end \<open>p\<close>, and nobody
  holds their mutexes.  \<open>the_end w p\<close> is that end.\<close>

definition connected :: "'x fifo_world \<Rightarrow> nat \<Rightarrow> nat \<Rightarrow> nat \<Rightarrow> bool" where
  "connected w link f p \<longleftrightarrow> priv_end w link = Some f \<and> p \<noteq> f \<and>
     (\<exists>l pl. FifoLinks (proto w) f = Some l \<and> \<not> MutexHeld l \<and> pPeer l = Some p \<and>
        FifoLinks (proto w) p = Some pl \<and> \<not> MutexHeld pl)"

definition the_end :: "'x fifo_world \<Rightarrow> nat \<Rightarrow> FifoLinkObject_T" where
  "the_end w p = the (FifoLinks (proto w) p)"

lemma connectedE:
  assumes "connected w link f p"
  obtains lk l pl where "LinkHeap w link = Some lk" "pProtoPriv lk = Some f" "p \<noteq> f"
    "FifoLinks (proto w) f = Some l" "\<not> MutexHeld l" "pPeer l = Some p"
    "FifoLinks (proto w) p = Some pl" "\<not> MutexHeld pl" "the_end w p = pl" "the_end w f = l"
  using assms by (auto simp: connected_def priv_end_def the_end_def split: option.splits)

text \<open>A pair of connected ends, as connecting and accepting leave them.\<close>

definition fresh_batch :: CallbackBatch_T where
  "fresh_batch = zero_batch\<lparr>pBatchBuffer := replicate PROTO_FIFO_SEND_QUEUE_SIZE 0,
     BatchBufferSize := PROTO_FIFO_SEND_QUEUE_SIZE, SlowCallbackThresholdMs := 8,
     BatchWindowDurationMs := 25\<rparr>"

definition connected_pair :: "(FifoLinkObject_T \<Rightarrow> FifoLinkObject_T) \<Rightarrow> (LinkObject_T \<Rightarrow> LinkObject_T) \<Rightarrow>
  (LinkObject_T \<Rightarrow> LinkObject_T) \<Rightarrow> fifo_state ioc_world" where
  "connected_pair g h0 h1 = (init_world fifo_init)\<lparr>
     LinkHeap := (\<lambda>_. None)(0 := Some (h0 ((new_link 0)\<lparr>pProtoPriv := Some 1\<rparr>)),
       1 := Some (h1 ((new_link 1)\<lparr>pProtoPriv := Some 2\<rparr>))),
     next_addr := 2,
     proto := fifo_init\<lparr>next_fifo := 3, FifoLinks := (\<lambda>_. None)
       (1 := Some ((fresh_fifo_link 0 fresh_PollingBuffer fresh_batch)\<lparr>pPeer := Some 2\<rparr>),
        2 := Some (g ((fresh_fifo_link 1 fresh_PollingBuffer fresh_batch)\<lparr>pPeer := Some 1\<rparr>)))\<rparr>\<rparr>"

end
