(* ===== verification/FifoHandshake.thy ===== *)
theory FifoHandshake
  imports FifoLink
begin

text \<open>
  The handshake of the FIFO protocol as a transition system: any number of clients connect, any
  number of threads accept, links are closed, and other operations take and release the mutexes of
  link objects, in any order of their atomic pieces.  The
  invariant is proved on the part of the state that matters (the links' ends, their owners, the
  client each service has been shown) and lifted to the program's state.
\<close>

section \<open>The transition system\<close>

text \<open>\<open>Waiting\<close>: the clients that wait to be accepted, with the FIFO service and link objects.
  \<open>Accepting\<close>: the links for which a thread is in the accept loop, with the service.
  \<open>Closing\<close>: the links that are being closed and whose mutex the closing thread has taken.
  \<open>Busy\<close>: the link objects whose mutex another operation holds (a post, a send, a receive, a poll).\<close>

record 'x handshake =
  World :: "'x fifo_world"
  Waiting :: "nat \<Rightarrow> (nat \<times> nat) option"
  Accepting :: "nat \<Rightarrow> (nat \<times> nat) option"
  Closing :: "nat \<Rightarrow> nat option"
  Busy :: "nat set"

definition unused :: "nat \<Rightarrow> 'x handshake \<Rightarrow> bool" where
  "unused link s \<longleftrightarrow> Waiting s link = None \<and> Accepting s link = None \<and> Closing s link = None"

definition fresh_link :: "nat \<Rightarrow> 'x handshake \<Rightarrow> bool" where
  "fresh_link link s \<longleftrightarrow> unused link s \<and>
     (case LinkHeap (World s) link of None \<Rightarrow> False | Some lk \<Rightarrow> pProtoPriv lk = None)"

definition accept_begin :: "link_mem \<Rightarrow> nat \<Rightarrow> 'x fifo_world \<Rightarrow> (nat \<times> 'x fifo_world) outcome" where
  "accept_begin m link w = bindO (new_fifo_link m link) (\<lambda>l. let (f, w1) = add_fifo_link l w
     in Done (f, setLink link (\<lambda>l. l\<lparr>pProtoPriv := Some f\<rparr>) w1))"

definition accept_give_up :: "nat \<Rightarrow> nat \<Rightarrow> 'x fifo_world \<Rightarrow> 'x fifo_world" where
  "accept_give_up link f w = setLink link (\<lambda>l. l\<lparr>pProtoPriv := None\<rparr>) (free_fifo_link f w)"

text \<open>Closing is two steps: taking the mutex of the own link object, and the rest, which only tries to
  take the peer's (\<open>closeLink_locked\<close>).  Whoever else holds a mutex took it by a step \<open>hold\<close>.\<close>

inductive fifo_step :: "'x handshake \<Rightarrow> 'x handshake \<Rightarrow> bool" where
  connect: "fifo_step s (s\<lparr>World := w', Waiting := (Waiting s)(link := Some (fs, f))\<rparr>)"
    if "fresh_link link s" "connect_begin m link args (World s) = Done (Inr (fs, f, w'))"
| wake: "fifo_step s (s\<lparr>World := w', Waiting := (Waiting s)(link := None)\<rparr>)"
    if "Waiting s link = Some (fs, f)" "connect_end fs f link (World s) = Done (r, w')"
| start: "fifo_step s (s\<lparr>World := w', Accepting := (Accepting s)(link := Some (srv, f))\<rparr>)"
    if "fresh_link link s" "accept_begin m link (World s) = Done (f, w')"
| look: "fifo_step s (s\<lparr>World := w', Accepting := (if v = Accepted then (Accepting s)(link := None)
      else Accepting s)\<rparr>)"
    if "Accepting s link = Some (srv, f)" "accept_try srv link f (World s) = Done (v, w')"
| give_up: "fifo_step s (s\<lparr>World := accept_give_up link f (World s),
      Accepting := (Accepting s)(link := None)\<rparr>)"
    if "Accepting s link = Some (srv, f)"
| hold: "fifo_step s (s\<lparr>World := w', Busy := insert f (Busy s)\<rparr>)"
    if "lockFifo f (World s) Done = Done w'"
| release: "fifo_step s (s\<lparr>World := unlockFifo f (World s), Busy := Busy s - {f}\<rparr>)"
    if "f \<in> Busy s"
| close_lock: "fifo_step s (s\<lparr>World := w', Closing := (Closing s)(link := Some f)\<rparr>)"
    if "unused link s" "priv_end (World s) link = Some f" "lockFifo f (World s) Done = Done w'"
| close_rest: "fifo_step s (s\<lparr>World := w', Closing := (Closing s)(link := None)\<rparr>)"
    if "Closing s link = Some f" "closeLink_locked ok f (World s) = Done (r, w')"

inductive_cases fifo_stepE: "fifo_step s t"

text \<open>The accept loop is a sequence of looks and gives up by a give-up step.\<close>

lemma acceptClient_split:
  "acceptClient_ofProtoFifo m start' turns srv link opt w =
     bindO (accept_begin m link w) (\<lambda>(f, w2). accept_loop srv link f opt start' turns w2)"
  by (simp add: acceptClient_ofProtoFifo_def accept_begin_def outcome_simps Let_def case_prod_beta)

section \<open>The ends of links\<close>

definition role_of :: "'p ioc_world \<Rightarrow> nat \<Rightarrow> usage" where
  "role_of w k = (case LinkHeap w k of None \<Rightarrow> 0 | Some lk \<Rightarrow> Usage lk)"

definition pending :: "'x fifo_world \<Rightarrow> nat \<Rightarrow> nat option" where
  "pending w fs = (case FifoSrvs (proto w) fs of None \<Rightarrow> None | Some x \<Rightarrow> pConnLinkObj x)"

text \<open>One of the two roles is a non-empty part of the complement of the other.\<close>

definition complementary :: "usage \<Rightarrow> usage \<Rightarrow> bool" where
  "complementary u v \<longleftrightarrow> u \<noteq> 0 \<and> u AND complement_usage v = u \<or> v \<noteq> 0 \<and> v AND complement_usage u = v"

lemma complementary_sym: "complementary u v \<Longrightarrow> complementary v u"
  by (auto simp: complementary_def)

lemma negotiated_complementary:
  "negotiateLinkRole caps u \<noteq> 0 \<Longrightarrow> complementary (negotiateLinkRole caps u) u"
  by (simp add: complementary_def and.assoc negotiate_eq)


section \<open>The invariant\<close>

text \<open>
  \<open>ends_inv n fl pv us pend W A C D\<close>, for the link objects \<open>fl\<close> below address \<open>n\<close>, the private pointers
  \<open>pv\<close> and roles \<open>us\<close> of the links, the clients \<open>pend\<close> shown to the services, the waiting, accepting and
  closing links, and the pairs \<open>D\<close> of an end that was left behind by a closed peer, and that peer.
\<close>

definition ends_inv :: "nat \<Rightarrow> (nat \<Rightarrow> FifoLinkObject_T option) \<Rightarrow> (nat \<Rightarrow> nat option) \<Rightarrow> (nat \<Rightarrow> usage) \<Rightarrow>
  (nat \<Rightarrow> nat option) \<Rightarrow> (nat \<Rightarrow> (nat \<times> nat) option) \<Rightarrow> (nat \<Rightarrow> (nat \<times> nat) option) \<Rightarrow> (nat \<Rightarrow> nat option) \<Rightarrow>
  (nat \<times> nat) set \<Rightarrow> bool" where
  "ends_inv n fl pv us pend W A C D \<longleftrightarrow>
     (\<forall>f l. fl f = Some l \<longrightarrow> f < n \<and> (\<forall>k. pv k = Some f \<longleftrightarrow> k = pOwnerLinkObj l)) \<and>
     (\<forall>f l p. fl f = Some l \<longrightarrow> pPeer l = Some p \<longrightarrow> p \<noteq> f \<and> p < n \<and>
        ((\<exists>q. fl p = Some q \<and> pPeer q = Some f \<and>
          complementary (us (pOwnerLinkObj l)) (us (pOwnerLinkObj q))) \<or> fl p = None \<and> (f, p) \<in> D)) \<and>
     (\<forall>k f. pv k = Some f \<longrightarrow> f < n) \<and>
     (\<forall>k fs f. W k = Some (fs, f) \<longrightarrow> pv k = Some f \<and> (\<exists>l. fl f = Some l) \<and> A k = None) \<and>
     (\<forall>fs k. pend fs = Some k \<longrightarrow> (\<exists>f l. W k = Some (fs, f) \<and> fl f = Some l \<and> pPeer l = None)) \<and>
     (\<forall>k srv f. A k = Some (srv, f) \<longrightarrow> pv k = Some f \<and> (\<exists>l. fl f = Some l \<and> pPeer l = None)) \<and>
     (\<forall>k f. C k = Some f \<longrightarrow> pv k = Some f \<and> W k = None \<and> A k = None)"

lemma ends_invD:
  assumes "ends_inv n fl pv us pend W A C D"
  shows "fl f = Some l \<Longrightarrow> f < n" "fl f = Some l \<Longrightarrow> pPeer l = Some p \<Longrightarrow> p \<noteq> f \<and> p < n"
    "fl f = Some l \<Longrightarrow> pv k = Some f \<longleftrightarrow> k = pOwnerLinkObj l"
    "fl f = Some l \<Longrightarrow> pPeer l = Some p \<Longrightarrow> (\<exists>q. fl p = Some q \<and> pPeer q = Some f \<and>
        complementary (us (pOwnerLinkObj l)) (us (pOwnerLinkObj q))) \<or> fl p = None \<and> (f, p) \<in> D"
    "pv k = Some f \<Longrightarrow> f < n"
    "W k = Some (fs, f) \<Longrightarrow> pv k = Some f \<and> (\<exists>l. fl f = Some l) \<and> A k = None"
    "pend fs = Some k \<Longrightarrow> \<exists>f l. W k = Some (fs, f) \<and> fl f = Some l \<and> pPeer l = None"
    "A k = Some (srv, f) \<Longrightarrow> pv k = Some f \<and> (\<exists>l. fl f = Some l \<and> pPeer l = None)"
    "C k = Some f \<Longrightarrow> pv k = Some f \<and> W k = None \<and> A k = None"
  using assms unfolding ends_inv_def by blast+

text \<open>A new link object for a link that has none.\<close>

lemma ends_add:
  assumes i: "ends_inv n fl pv us pend W A C D" and k: "pv k = None"
    and l: "pPeer l = None" "pOwnerLinkObj l = k"
  shows "ends_inv (Suc n) (fl(n := Some l)) (pv(k := Some n)) us pend W A C D"
proof -
  note d = ends_invD [OF i]
  have n: "fl n = None" using d(1) by (cases "fl n") auto
  have k': "W k = None" "A k = None" "C k = None"
    using d(6,8,9) k by (cases "W k"; cases "A k"; cases "C k"; fastforce)+
  have ow: "pOwnerLinkObj l' \<noteq> k" if "fl f = Some l'" for f l' using d(3) [OF that, of k] k by auto
  have pn: "pv j \<noteq> Some n" for j using d(5) [of j n] by auto
  show ?thesis unfolding ends_inv_def
  proof (intro conjI allI impI)
    fix f l' j assume "(fl(n := Some l)) f = Some l'"
    then show "f < Suc n" "((pv(k := Some n)) j = Some f) = (j = pOwnerLinkObj l')"
      using d(1,3) [of f l'] l ow [of f l'] pn [of j] by (auto split: if_splits)
  next
    fix f l' p assume "(fl(n := Some l)) f = Some l'" "pPeer l' = Some p"
    then have f: "fl f = Some l'" "pPeer l' = Some p" using l by (auto split: if_splits)
    from d(2,4) [OF f]
    show "p \<noteq> f" "p < Suc n" "(\<exists>q. (fl(n := Some l)) p = Some q \<and> pPeer q = Some f \<and>
        complementary (us (pOwnerLinkObj l')) (us (pOwnerLinkObj q))) \<or> (fl(n := Some l)) p = None \<and> (f, p) \<in> D"
      by auto
  next
    fix j f assume "(pv(k := Some n)) j = Some f"
    then show "f < Suc n" using d(5) by (auto split: if_splits intro: less_SucI)
  next
    fix j fs f assume "W j = Some (fs, f)"
    then show "(pv(k := Some n)) j = Some f" "\<exists>l'. (fl(n := Some l)) f = Some l'" "A j = None"
      using d(6) [of j fs f] k' by auto
  next
    fix fs j assume "pend fs = Some j"
    then show "\<exists>f l'. W j = Some (fs, f) \<and> (fl(n := Some l)) f = Some l' \<and> pPeer l' = None"
      using d(7) [of fs j] n by (auto simp: fun_upd_apply)
  next
    fix j srv f assume "A j = Some (srv, f)"
    then show "(pv(k := Some n)) j = Some f" "\<exists>l'. (fl(n := Some l)) f = Some l' \<and> pPeer l' = None"
      using d(8) [of j srv f] k' n by (auto simp: fun_upd_apply)
  next
    fix j f assume "C j = Some f"
    then show "(pv(k := Some n)) j = Some f" "W j = None" "A j = None" using d(9) [of j f] k' by auto
  qed
qed

lemma ends_wait:
  assumes i: "ends_inv n fl pv us pend W A C D" and "W k = None" "A k = None" "C k = None" "pv k = Some f" "fl f = Some l"
    "pPeer l = None"
  shows "ends_inv n fl pv us (pend(fs := Some k)) (W(k := Some (fs, f))) A C D"
proof -
  have "pend g \<noteq> Some k" for g using ends_invD(7) [OF i, of g k] assms(2) by auto
  then show ?thesis using assms unfolding ends_inv_def by auto
qed

lemma ends_accepting:
  assumes i: "ends_inv n fl pv us pend W A C D" and "W k = None" "A k = None" "C k = None" "pv k = Some f" "fl f = Some l"
    "pPeer l = None"
  shows "ends_inv n fl pv us pend W (A(k := Some (srv, f))) C D"
  using assms unfolding ends_inv_def by auto

lemma ends_closing:
  assumes i: "ends_inv n fl pv us pend W A C D" and "W k = None" "A k = None" "pv k = Some f"
  shows "ends_inv n fl pv us pend W A (C(k := Some f)) D"
  using assms unfolding ends_inv_def by auto

lemma ends_unpend: "ends_inv n fl pv us pend W A C D \<Longrightarrow> ends_inv n fl pv us (pend(fs := None)) W A C D"
  unfolding ends_inv_def by auto

lemma ends_done_waiting:
  assumes i: "ends_inv n fl pv us pend W A C D" and "\<And>fs. pend fs \<noteq> Some k"
  shows "ends_inv n fl pv us pend (W(k := None)) A C D"
proof -
  have "j \<noteq> k" if "pend fs = Some j" for fs j using assms(2) that by auto
  then show ?thesis using i unfolding ends_inv_def by auto
qed

lemma ends_done_accepting:
  "ends_inv n fl pv us pend W A C D \<Longrightarrow> ends_inv n fl pv us pend W (A(k := None)) C D"
  unfolding ends_inv_def by auto

text \<open>A mutex is taken or released.\<close>

lemma ends_mutex:
  assumes i: "ends_inv n fl pv us pend W A C D"
  shows "ends_inv n (fl(f := map_option (\<lambda>l. l\<lparr>MutexHeld := b\<rparr>) (fl f))) pv us pend W A C D"
proof -
  note d = ends_invD [OF i]
  let ?fl = "fl(f := map_option (\<lambda>l. l\<lparr>MutexHeld := b\<rparr>) (fl f))"
  have old: "\<exists>y. fl g = Some y \<and> pOwnerLinkObj x = pOwnerLinkObj y \<and> pPeer x = pPeer y" if "?fl g = Some x" for g x
    using that by (auto split: if_splits)
  have new: "\<exists>x. ?fl g = Some x \<and> pOwnerLinkObj x = pOwnerLinkObj y \<and> pPeer x = pPeer y" if "fl g = Some y" for g y
    using that by auto
  have none: "?fl g = None \<longleftrightarrow> fl g = None" for g by simp
  show ?thesis unfolding ends_inv_def
  proof (intro conjI allI impI)
    fix g x j assume "?fl g = Some x"
    from old [OF this] obtain y where "fl g = Some y" "pOwnerLinkObj x = pOwnerLinkObj y" by blast
    then show "g < n" "(pv j = Some g) = (j = pOwnerLinkObj x)" using d(1,3) by auto
  next
    fix g x p assume g: "?fl g = Some x" "pPeer x = Some p"
    from old [OF g(1)] g(2) obtain y where y: "fl g = Some y" "pOwnerLinkObj x = pOwnerLinkObj y" "pPeer y = Some p" by auto
    show "p \<noteq> g" "p < n" using d(2) [OF y(1,3)] by auto
    from d(4) [OF y(1,3)] y(2) show "(\<exists>q. ?fl p = Some q \<and> pPeer q = Some g \<and>
        complementary (us (pOwnerLinkObj x)) (us (pOwnerLinkObj q))) \<or> ?fl p = None \<and> (g, p) \<in> D"
      using new [of p] none [of p] by metis
  next
    fix k fs g assume "W k = Some (fs, g)"
    from d(6) [OF this] new show "pv k = Some g" "\<exists>l. ?fl g = Some l" "A k = None" by blast+
  next
    fix fs k assume "pend fs = Some k"
    from d(7) [OF this] new show "\<exists>g l. W k = Some (fs, g) \<and> ?fl g = Some l \<and> pPeer l = None" by metis
  next
    fix k srv g assume "A k = Some (srv, g)"
    from d(8) [OF this] new show "pv k = Some g" "\<exists>l. ?fl g = Some l \<and> pPeer l = None" by metis+
  qed (use d(5,9) in blast)+
qed

text \<open>Two free ends become peers.\<close>

lemma ends_pair:
  assumes i: "ends_inv n fl pv us pend W A C D" and f: "fl f = Some l" "pPeer l = None"
    and c: "fl c = Some m" "pPeer m = None" "c \<noteq> f"
    and l': "same_ends (l\<lparr>pPeer := Some c\<rparr>) l'" and m': "same_ends (m\<lparr>pPeer := Some f\<rparr>) m'"
    and role: "complementary role (us (pOwnerLinkObj m))"
    and free: "\<And>k srv. A k \<noteq> Some (srv, f)" "\<And>k srv. A k \<noteq> Some (srv, c)"
      "\<And>fs k g. pend fs = Some k \<Longrightarrow> W k = Some (fs, g) \<Longrightarrow> g \<noteq> c \<and> g \<noteq> f"
  shows "ends_inv n (fl(f := Some l', c := Some m')) pv (us(pOwnerLinkObj l := role)) pend W A C D"
proof -
  note d = ends_invD [OF i]
  let ?fl = "fl(f := Some l', c := Some m')" and ?us = "us(pOwnerLinkObj l := role)"
  have own: "pOwnerLinkObj m \<noteq> pOwnerLinkObj l" using d(3) f(1) c(1,3) by (metis option.inject)
  have other: "p \<noteq> f \<and> p \<noteq> c" if "fl g = Some x" "pPeer x = Some p" for g x p
    using d(4) [OF that] f c by auto
  have own': "pOwnerLinkObj x \<noteq> pOwnerLinkObj l" if "fl g = Some x" "g \<noteq> f" for g x
    using d(3) f(1) that by (metis option.inject)
  show ?thesis unfolding ends_inv_def
  proof (intro conjI allI impI)
    fix g x k assume "?fl g = Some x"
    then show "g < n" "(pv k = Some g) = (k = pOwnerLinkObj x)"
      using d(1,3) f(1) c(1) l' m' by (auto simp: same_ends_def split: if_splits)
  next
    fix g x p assume g: "?fl g = Some x" "pPeer x = Some p"
    consider "g = f" | "g = c" | "g \<noteq> f" "g \<noteq> c" by blast
    then have "p \<noteq> g \<and> p < n \<and> ((\<exists>q. ?fl p = Some q \<and> pPeer q = Some g \<and>
        complementary (?us (pOwnerLinkObj x)) (?us (pOwnerLinkObj q))) \<or> ?fl p = None \<and> (g, p) \<in> D)"
    proof cases
      case 1
      then show ?thesis using g c l' m' own role d(1) by (auto simp: same_ends_def)
    next
      case 2
      then show ?thesis using g c f l' m' own complementary_sym [OF role] d(1) by (auto simp: same_ends_def)
    next
      case 3
      then have x: "fl g = Some x" using g by simp
      with d(2,4) [OF x g(2)] other [OF x g(2)] 3 own' show ?thesis by auto
    qed
    then show "p \<noteq> g" "p < n" "(\<exists>q. ?fl p = Some q \<and> pPeer q = Some g \<and>
        complementary (?us (pOwnerLinkObj x)) (?us (pOwnerLinkObj q))) \<or> ?fl p = None \<and> (g, p) \<in> D" by auto
  next
    fix k g assume "pv k = Some g" then show "g < n" by (rule d(5))
  next
    fix k fs g assume "W k = Some (fs, g)"
    then show "pv k = Some g" "\<exists>x. ?fl g = Some x" "A k = None" using d(6) [of k fs g] by auto
  next
    fix fs k assume p: "pend fs = Some k"
    from d(7) [OF p] free(3) [OF p]
    show "\<exists>g x. W k = Some (fs, g) \<and> ?fl g = Some x \<and> pPeer x = None" by (auto simp: fun_upd_apply)
  next
    fix k srv g assume a: "A k = Some (srv, g)"
    have "g \<noteq> f" "g \<noteq> c" using free(1,2) [of k srv] a by auto
    then show "pv k = Some g" "\<exists>x. ?fl g = Some x \<and> pPeer x = None"
      using d(8) [OF a] by (auto simp: fun_upd_apply)
  next
    fix k g assume "C k = Some g"
    then show "pv k = Some g" "W k = None" "A k = None" using d(9) by auto
  qed
qed

text \<open>An end that nothing waits for disappears.  Its peer becomes free, or is left behind when its mutex is held.\<close>

definition left_behind :: "(nat \<Rightarrow> FifoLinkObject_T option) \<Rightarrow> nat \<Rightarrow> FifoLinkObject_T \<Rightarrow> (nat \<times> nat) set" where
  "left_behind fl f l = {(p, f') |p f'. f' = f \<and> pPeer l = Some p \<and> (\<exists>q. fl p = Some q \<and> MutexHeld q)}"

lemma left_behind_none [simp]: "pPeer l = None \<Longrightarrow> left_behind fl f l = {}"
  by (simp add: left_behind_def)

lemma ends_remove:
  assumes i: "ends_inv n fl pv us pend W A C D" and f: "fl f = Some l" and k: "pOwnerLinkObj l = k"
    and free: "W k = None" "A k = None" and live: "\<forall>p. pPeer l = Some p \<longrightarrow> fl p \<noteq> None"
    and pv': "pv' = pv \<or> pv' = pv(k := None)"
  shows "ends_inv n (closed_end f l fl) pv' us pend W A (C(k := None)) (D \<union> left_behind fl f l)"
proof -
  note d = ends_invD [OF i]
  let ?fl = "closed_end f l fl" and ?D = "D \<union> left_behind fl f l"
  have ne: "g \<noteq> f" if "pv j = Some g" "j \<noteq> k" for j g using d(3) [OF f, of j] that k by auto
  have nl: "pPeer l \<noteq> Some f" using d(2) [OF f] by auto
  have dom: "?fl g = (if g = f then None else if pPeer l = Some g
      then map_option (\<lambda>q. if MutexHeld q then q else q\<lparr>pPeer := None\<rparr>) (fl g) else fl g)" for g
    by (auto simp: closed_end_def split: option.splits)
  have old: "\<exists>y. fl g = Some y \<and> g \<noteq> f \<and> pOwnerLinkObj x = pOwnerLinkObj y \<and>
      (pPeer x = pPeer y \<and> (pPeer l = Some g \<longrightarrow> MutexHeld y) \<or> pPeer x = None)" if x: "?fl g = Some x" for g x
  proof -
    obtain y where y: "fl g = Some y" "g \<noteq> f" using x by (auto simp: dom split: if_splits)
    then have "x = (if pPeer l = Some g \<and> \<not> MutexHeld y then y\<lparr>pPeer := None\<rparr> else y)"
      using x unfolding dom by (cases "pPeer l = Some g") auto
    then show ?thesis using y by (cases "pPeer l = Some g \<and> \<not> MutexHeld y") auto
  qed
  have own: "pOwnerLinkObj x \<noteq> k" if "fl g = Some x" "g \<noteq> f" for g x
    using d(3) [OF that(1), of k] d(3) [OF f, of k] k that(2) by auto
  have keep: "\<exists>x. ?fl g = Some x" "pPeer y = None \<Longrightarrow> \<exists>x. ?fl g = Some x \<and> pPeer x = None"
    if "fl g = Some y" "g \<noteq> f" for g y
    using that by (auto simp: dom)
  show ?thesis unfolding ends_inv_def
  proof (intro conjI allI impI)
    fix g x j assume "?fl g = Some x"
    from old [OF this] obtain y where y: "fl g = Some y" "g \<noteq> f" "pOwnerLinkObj x = pOwnerLinkObj y" by blast
    show "g < n" using d(1) y by auto
    show "(pv' j = Some g) = (j = pOwnerLinkObj x)"
      using pv' d(3) [OF y(1), of j] own [OF y(1,2)] y(3) by (auto split: if_splits)
  next
    fix g x p assume g: "?fl g = Some x" "pPeer x = Some p"
    from old [OF g(1)] g(2) obtain y where y: "fl g = Some y" "g \<noteq> f" "pOwnerLinkObj x = pOwnerLinkObj y"
      "pPeer y = Some p" "pPeer l = Some g \<longrightarrow> MutexHeld y" by auto
    show "p \<noteq> g" "p < n" using d(2) [OF y(1,4)] by auto
    show "(\<exists>q. ?fl p = Some q \<and> pPeer q = Some g \<and>
        complementary (us (pOwnerLinkObj x)) (us (pOwnerLinkObj q))) \<or> ?fl p = None \<and> (g, p) \<in> ?D"
    proof (cases "p = f")
      case True
      with d(4) [OF y(1,4)] f have "pPeer l = Some g" by auto
      then show ?thesis using True y by (auto simp: dom left_behind_def)
    next
      case False
      have "pPeer l \<noteq> Some p" if "fl p \<noteq> None"
      proof
        assume "pPeer l = Some p"
        with d(4) [OF f this] d(4) [OF y(1,4)] that y(2) show False by auto
      qed
      with d(4) [OF y(1,4)] False y(3) show ?thesis by (auto simp: dom)
    qed
  next
    fix j g assume "pv' j = Some g"
    then show "g < n" using pv' d(5) by (auto split: if_splits)
  next
    fix j fs g assume w: "W j = Some (fs, g)"
    then have "j \<noteq> k" using free by auto
    with d(6) [OF w] ne keep(1) pv' show "pv' j = Some g" "\<exists>x. ?fl g = Some x" "A j = None" by fastforce+
  next
    fix fs j assume p: "pend fs = Some j"
    from d(7) [OF p] obtain g x where g: "W j = Some (fs, g)" "fl g = Some x" "pPeer x = None" by blast
    then have "j \<noteq> k" using free by auto
    with d(6) [OF g(1)] ne keep(2) [OF g(2)] g show "\<exists>g x. W j = Some (fs, g) \<and> ?fl g = Some x \<and> pPeer x = None"
      by blast
  next
    fix j srv g assume a: "A j = Some (srv, g)"
    then have jk: "j \<noteq> k" using free by auto
    from d(8) [OF a] obtain x where x: "pv j = Some g" "fl g = Some x" "pPeer x = None" by blast
    show "pv' j = Some g" using pv' jk x by auto
    show "\<exists>x. ?fl g = Some x \<and> pPeer x = None" using keep(2) [OF x(2) ne [OF x(1) jk] x(3)] .
  next
    fix j g assume c: "(C(k := None)) j = Some g"
    then have "j \<noteq> k" "C j = Some g" by (auto split: if_splits)
    with d(9) [OF this(2)] pv' show "pv' j = Some g" "W j = None" "A j = None" by auto
  qed
qed


section \<open>The invariant of the program\<close>

definition hs_wf :: "(nat \<times> nat) set \<Rightarrow> 'x handshake \<Rightarrow> bool" where
  "hs_wf D s \<longleftrightarrow> (let w = World s in ends_inv (next_fifo (proto w)) (FifoLinks (proto w)) (priv_end w)
     (role_of w) (pending w) (Waiting s) (Accepting s) (Closing s) D)"

text \<open>In a quiet state no mutex is held, and no end has been left behind.\<close>

definition hs_inv :: "'x handshake \<Rightarrow> bool" where
  "hs_inv s \<longleftrightarrow> hs_wf {} s \<and> (\<forall>f l. FifoLinks (proto (World s)) f = Some l \<longrightarrow> \<not> MutexHeld l)"

text \<open>Before anybody connects: no link object exists, no link has one, no service is shown a client.\<close>

definition hs_start :: "'x handshake \<Rightarrow> bool" where
  "hs_start s \<longleftrightarrow> FifoLinks (proto (World s)) = (\<lambda>_. None) \<and> priv_end (World s) = (\<lambda>_. None) \<and>
     pending (World s) = (\<lambda>_. None) \<and> Waiting s = (\<lambda>_. None) \<and> Accepting s = (\<lambda>_. None) \<and> Closing s = (\<lambda>_. None)"

lemma hs_wf_start: "hs_start s \<Longrightarrow> hs_wf {} s"
  by (simp add: hs_start_def hs_wf_def ends_inv_def Let_def)

lemma priv_upd:
  "LinkHeap w' = (LinkHeap w)(k := Some x) \<Longrightarrow> priv_end w' = (priv_end w)(k := pProtoPriv x)"
  "LinkHeap w' = (LinkHeap w)(k := Some x) \<Longrightarrow> role_of w' = (role_of w)(k := Usage x)"
  by (auto simp: priv_end_def role_of_def fun_eq_iff)

lemma role_same: "LinkHeap w k = Some x \<Longrightarrow> Usage y = Usage x \<Longrightarrow> (role_of w)(k := Usage y) = role_of w"
  by (auto simp: role_of_def fun_eq_iff)

lemma heap_same:
  "LinkHeap w' = LinkHeap w \<Longrightarrow> priv_end w' = priv_end w" "LinkHeap w' = LinkHeap w \<Longrightarrow> role_of w' = role_of w"
  "FifoSrvs (proto w'') = FifoSrvs (proto w) \<Longrightarrow> pending w'' = pending w"
  by (auto simp: priv_end_def role_of_def pending_def)

lemma pending_upd:
  "FifoSrvs (proto w') = (FifoSrvs (proto w))(fs := Some x) \<Longrightarrow> pending w' = (pending w)(fs := pConnLinkObj x)"
  by (auto simp: pending_def fun_eq_iff)

lemma accept_begin_effect:
  assumes "accept_begin m link w = Done (f, w')" "LinkHeap w link = Some lk"
  shows "\<exists>l. f = next_fifo (proto w) \<and> pPeer l = None \<and> \<not> MutexHeld l \<and> pOwnerLinkObj l = link \<and>
    FifoLinks (proto w') = (FifoLinks (proto w))(f := Some l) \<and> next_fifo (proto w') = Suc f \<and>
    LinkHeap w' = (LinkHeap w)(link := Some (lk\<lparr>pProtoPriv := Some f\<rparr>)) \<and>
    FifoSrvs (proto w') = FifoSrvs (proto w)"
proof -
  obtain l where l: "new_fifo_link m link = Done l" and *: "f = next_fifo (proto w)"
      "w' = setLink link (\<lambda>l. l\<lparr>pProtoPriv := Some f\<rparr>) (snd (add_fifo_link l w))"
    using assms by (auto simp: accept_begin_def outcome_simps Let_def case_prod_beta)
  have "FifoLinks (proto w') = (FifoLinks (proto w))(f := Some l)" "next_fifo (proto w') = Suc f"
    "LinkHeap w' = (LinkHeap w)(link := Some (lk\<lparr>pProtoPriv := Some f\<rparr>))"
    "FifoSrvs (proto w') = FifoSrvs (proto w)"
    using * assms(2) by simp_all
  then show ?thesis using *(1) new_fifo_link_effect [OF l] by blast
qed

lemma inv_connect:
  assumes i: "hs_wf D s" and "fresh_link link s" "connect_begin m link args (World s) = Done (Inr (fs, f, w'))"
  shows "hs_wf D (s\<lparr>World := w', Waiting := (Waiting s)(link := Some (fs, f))\<rparr>)"
proof -
  let ?w = "World s"
  obtain lk fso l where *: "LinkHeap ?w link = Some lk" "FifoSrvs (proto ?w) fs = Some fso"
      "pConnLinkObj fso = None" "f = next_fifo (proto ?w)" "pPeer l = None" "\<not> MutexHeld l"
      "pOwnerLinkObj l = link" "FifoLinks (proto w') = (FifoLinks (proto ?w))(f := Some l)"
      "next_fifo (proto w') = Suc f" "LinkHeap w' = (LinkHeap ?w)(link := Some (lk\<lparr>pProtoPriv := Some f\<rparr>))"
      "FifoSrvs (proto w') = (FifoSrvs (proto ?w))(fs := Some (fso\<lparr>ConnMutexHeld := True, pConnLinkObj := Some link\<rparr>))"
    using connect_begin_effect [OF assms(3)] by blast
  have fr: "Waiting s link = None" "Accepting s link = None" "Closing s link = None" "priv_end ?w link = None"
    using assms(2) * by (simp_all add: fresh_link_def unused_def priv_end_def)
  have "ends_inv (Suc f) ((FifoLinks (proto ?w))(f := Some l)) ((priv_end ?w)(link := Some f)) (role_of ?w)
      (pending ?w) (Waiting s) (Accepting s) (Closing s) D"
    using ends_add [OF i [unfolded hs_wf_def Let_def] fr(4) *(5,7)] *(4) by simp
  from ends_wait [OF this fr(1-3) _ _ *(5), of f fs]
  show ?thesis
    using * priv_upd [OF *(10)] pending_upd [OF *(11)] role_same [OF *(1), of "lk\<lparr>pProtoPriv := Some f\<rparr>"]
    by (simp add: hs_wf_def Let_def)
qed

lemma inv_start:
  assumes i: "hs_wf D s" and "fresh_link link s" "accept_begin m link (World s) = Done (f, w')"
  shows "hs_wf D (s\<lparr>World := w', Accepting := (Accepting s)(link := Some (srv, f))\<rparr>)"
proof -
  let ?w = "World s"
  obtain lk where lk: "LinkHeap ?w link = Some lk" using assms(2) by (auto simp: fresh_link_def split: option.splits)
  obtain l where *: "f = next_fifo (proto ?w)" "pPeer l = None" "\<not> MutexHeld l"
      "pOwnerLinkObj l = link" "FifoLinks (proto w') = (FifoLinks (proto ?w))(f := Some l)"
      "next_fifo (proto w') = Suc f" "LinkHeap w' = (LinkHeap ?w)(link := Some (lk\<lparr>pProtoPriv := Some f\<rparr>))"
      "FifoSrvs (proto w') = FifoSrvs (proto ?w)"
    using accept_begin_effect [OF assms(3) lk] by blast
  have fr: "Waiting s link = None" "Accepting s link = None" "Closing s link = None" "priv_end ?w link = None"
    using assms(2) lk by (simp_all add: fresh_link_def unused_def priv_end_def)
  have "ends_inv (Suc f) ((FifoLinks (proto ?w))(f := Some l)) ((priv_end ?w)(link := Some f)) (role_of ?w)
      (pending ?w) (Waiting s) (Accepting s) (Closing s) D"
    using ends_add [OF i [unfolded hs_wf_def Let_def] fr(4) *(2,4)] *(1) by simp
  from ends_accepting [OF this fr(1-3) _ _ *(2), of f srv]
  show ?thesis
    using * priv_upd [OF *(7)] heap_same(3) [OF *(8)] role_same [OF lk, of "lk\<lparr>pProtoPriv := Some f\<rparr>"]
    by (simp add: hs_wf_def Let_def)
qed

lemma inv_wake:
  assumes i: "hs_wf D s" and "Waiting s link = Some (fs, f)" "connect_end fs f link (World s) = Done (r, w')"
  shows "hs_wf D (s\<lparr>World := w', Waiting := (Waiting s)(link := None)\<rparr>)"
proof -
  let ?w = "World s"
  note e = i [unfolded hs_wf_def Let_def]
  note d = ends_invD [OF e]
  obtain fso l where *: "FifoSrvs (proto ?w) fs = Some fso" "FifoLinks (proto ?w) f = Some l"
    "FifoSrvs (proto w') = (FifoSrvs (proto ?w))(fs := Some (fso\<lparr>ConnMutexHeld := False\<rparr>))"
    "next_fifo (proto w') = next_fifo (proto ?w)"
    "if pPeer l = None then pConnLinkObj fso = None \<and>
       FifoLinks (proto w') = (FifoLinks (proto ?w))(f := None) \<and>
       LinkHeap w' = (LinkHeap ?w)(link := map_option (pProtoPriv_update (\<lambda>_. None)) (LinkHeap ?w link))
     else FifoLinks (proto w') = FifoLinks (proto ?w) \<and> LinkHeap w' = LinkHeap ?w"
    using connect_end_effect [OF assms(3)] by (auto split: if_splits)
  have pv: "priv_end ?w link = Some f" "Accepting s link = None" using d(6) [OF assms(2)] by auto
  have own: "pOwnerLinkObj l = link" using d(3) [OF *(2), of link] pv by simp
  have pend: "pending w' = pending ?w" using pending_upd [OF *(3)] *(1) by (auto simp: pending_def fun_eq_iff)
  have nc: "(Closing s)(link := None) = Closing s" using d(9) [of link] assms(2) by (cases "Closing s link") auto
  have np: "pending ?w g \<noteq> Some link" for g
  proof
    assume p: "pending ?w g = Some link"
    from d(7) [OF p] assms(2) *(2) have "g = fs" "pPeer l = None" by auto
    then show False using p *(1,5) by (simp add: pending_def)
  qed
  have e2: "ends_inv (next_fifo (proto ?w)) (FifoLinks (proto ?w)) (priv_end ?w) (role_of ?w) (pending ?w)
      ((Waiting s)(link := None)) (Accepting s) (Closing s) D" by (rule ends_done_waiting [OF e np])
  show ?thesis
  proof (cases "pPeer l")
    case None
    have lh: "LinkHeap w' = (LinkHeap ?w)(link := map_option (pProtoPriv_update (\<lambda>_. None)) (LinkHeap ?w link))"
      using * None by simp
    have "priv_end w' = (priv_end ?w)(link := None)" "role_of w' = role_of ?w"
      using lh by (auto simp: priv_end_def role_of_def fun_eq_iff split: option.splits)
    then show ?thesis
      using ends_remove [OF e2 *(2) own _ pv(2), of "(priv_end ?w)(link := None)"] * None pend nc
      by (simp add: hs_wf_def Let_def closed_end_def)
  next
    case (Some p)
    then show ?thesis using e2 * pend heap_same(1,2) [of w' ?w] by (simp add: hs_wf_def Let_def)
  qed
qed

lemma inv_give_up:
  assumes i: "hs_wf D s" and a: "Accepting s link = Some (srv, f)"
  shows "hs_wf D (s\<lparr>World := accept_give_up link f (World s), Accepting := (Accepting s)(link := None)\<rparr>)"
proof -
  let ?w = "World s" and ?w' = "accept_give_up link f (World s)"
  note e = i [unfolded hs_wf_def Let_def]
  note d = ends_invD [OF e]
  obtain l where l: "priv_end ?w link = Some f" "FifoLinks (proto ?w) f = Some l" "pPeer l = None"
    using d(8) [OF a] by blast
  have own: "pOwnerLinkObj l = link" using d(3) [OF l(2), of link] l by simp
  have nc: "(Closing s)(link := None) = Closing s" using d(9) [of link] a by (cases "Closing s link") auto
  have nw: "Waiting s link = None" using d(6) [of link] a by (cases "Waiting s link") auto
  have lh: "priv_end ?w' = (priv_end ?w)(link := None)" "role_of ?w' = role_of ?w" "pending ?w' = pending ?w"
    by (auto simp: accept_give_up_def priv_end_def role_of_def pending_def fun_eq_iff split: option.splits)
  show ?thesis
    using ends_remove [OF ends_done_accepting [OF e, of link] l(2) own nw, of "(priv_end ?w)(link := None)"] l lh nc
    by (simp add: hs_wf_def Let_def accept_give_up_def closed_end_def)
qed

lemma setMutex_inv:
  assumes "hs_wf D s"
  shows "hs_wf D (s\<lparr>World := setFifo f (\<lambda>l. l\<lparr>MutexHeld := b\<rparr>) (World s)\<rparr>)"
  using ends_mutex [OF assms [unfolded hs_wf_def Let_def], of f b]
  by (simp add: hs_wf_def Let_def heap_same(1,2) [OF setFifo_sel(5)] heap_same(3) [OF setFifo_sel(2)])

lemma setMutex_more:
  "hs_wf D s \<Longrightarrow> lockFifo f (World s) Done = Done w' \<Longrightarrow> hs_wf D (s\<lparr>World := w', Busy := B\<rparr>)"
  "hs_wf D s \<Longrightarrow> hs_wf D (s\<lparr>World := unlockFifo f (World s), Busy := B\<rparr>)"
  using setMutex_inv [of D s f True] setMutex_inv [of D s f False]
  by (auto simp: lockFifo_Done unlockFifo_def hs_wf_def Let_def)

lemma inv_close_lock:
  assumes i: "hs_wf D s" and u: "unused link s" "priv_end (World s) link = Some f" "lockFifo f (World s) Done = Done w'"
  shows "hs_wf D (s\<lparr>World := w', Closing := (Closing s)(link := Some f)\<rparr>)"
proof -
  have w': "w' = setFifo f (\<lambda>l. l\<lparr>MutexHeld := True\<rparr>) (World s)" using u(3) by (auto simp: lockFifo_Done)
  have "priv_end w' = priv_end (World s)" by (rule heap_same(1)) (simp add: w')
  then show ?thesis
    using ends_closing [OF setMutex_inv [OF i, of f True, unfolded hs_wf_def Let_def], of link f] u(1,2)
    by (simp add: hs_wf_def Let_def unused_def w')
qed

text \<open>The step from \<open>s\<close> to \<open>t\<close> closes \<open>p\<close> while somebody holds the mutex of its peer \<open>f\<close>.\<close>

definition closed_while_held :: "'x handshake \<Rightarrow> 'x handshake \<Rightarrow> nat \<Rightarrow> nat \<Rightarrow> bool" where
  "closed_while_held s t f p \<longleftrightarrow> (\<exists>l q. FifoLinks (proto (World s)) p = Some q \<and> pPeer q = Some f \<and>
     FifoLinks (proto (World s)) f = Some l \<and> MutexHeld l \<and> FifoLinks (proto (World t)) p = None)"

lemma inv_close_rest:
  assumes i: "hs_wf D s" and c: "Closing s link = Some f" "closeLink_locked ok f (World s) = Done (r, w')"
  defines "t \<equiv> s\<lparr>World := w', Closing := (Closing s)(link := None)\<rparr>"
  shows "\<exists>E. hs_wf (D \<union> E) t \<and> (\<forall>(g, p)\<in>E. closed_while_held s t g p)"
proof -
  let ?w = "World s"
  note e = i [unfolded hs_wf_def Let_def]
  note d = ends_invD [OF e]
  have ns: "\<forall>l. FifoLinks (proto ?w) f = Some l \<longrightarrow> pPeer l \<noteq> Some f" using d(2) by blast
  obtain l where *: "FifoLinks (proto ?w) f = Some l" "LinkHeap w' = LinkHeap ?w" "FifoSrvs (proto w') = FifoSrvs (proto ?w)"
    "next_fifo (proto w') = next_fifo (proto ?w)" "\<forall>p. pPeer l = Some p \<longrightarrow> FifoLinks (proto ?w) p \<noteq> None"
    "FifoLinks (proto w') = closed_end f l (FifoLinks (proto ?w))"
    using closeLink_locked_effect [OF c(2) ns] by blast
  have k: "priv_end ?w link = Some f" "Waiting s link = None" "Accepting s link = None" using d(9) [OF c(1)] by simp_all
  have own: "pOwnerLinkObj l = link" using d(3) [OF *(1), of link] k by simp
  let ?E = "left_behind (FifoLinks (proto ?w)) f l"
  have "hs_wf (D \<union> ?E) t"
    using ends_remove [OF e *(1) own k(2,3) *(5), of "priv_end ?w"] * heap_same [of w' ?w] heap_same(3) [of w' ?w]
    by (simp add: hs_wf_def Let_def t_def)
  moreover have "closed_while_held s t g p" if "(g, p) \<in> ?E" for g p
    using that * by (auto simp: left_behind_def closed_while_held_def t_def closed_end_def)
  ultimately show ?thesis by blast
qed


lemma inv_look:
  assumes i: "hs_wf D s" and a: "Accepting s link = Some (srv, f)"
    and t: "accept_try srv link f (World s) = Done (v, w')"
  shows "hs_wf D (s\<lparr>World := w', Accepting := (if v = Accepted then (Accepting s)(link := None)
    else Accepting s)\<rparr>)"
proof -
  let ?w = "World s"
  note e = i [unfolded hs_wf_def Let_def]
  note d = ends_invD [OF e]
  obtain l where l: "priv_end ?w link = Some f" "FifoLinks (proto ?w) f = Some l" "pPeer l = None"
    using d(8) [OF a] by blast
  have own: "pOwnerLinkObj l = link" using d(3) [OF l(2), of link] l by simp
  show ?thesis
  proof (cases v)
    case NoConn
    then show ?thesis using accept_try_NoConn [of srv link f ?w w'] t i by (cases s) simp
  next
    case Rejected
    then obtain fs fso where r: "FifoSrvs (proto ?w) fs = Some fso"
        "w' = setFifoSrv fs (\<lambda>x. x\<lparr>pConnLinkObj := None\<rparr>) ?w"
      using accept_try_Rejected t by blast
    have p: "pending w' = (pending ?w)(fs := None)"
      using pending_upd [of w' ?w fs "fso\<lparr>pConnLinkObj := None\<rparr>"] r by simp
    show ?thesis
      using ends_unpend [OF e, of fs] r p heap_same(1,2) [of w' ?w] Rejected by (simp add: hs_wf_def Let_def)
  next
    case Accepted
    obtain lk where lk: "LinkHeap ?w link = Some lk" "pProtoPriv lk = Some f"
      using l(1) by (auto simp: priv_end_def split: option.splits)
    have cl: "\<exists>c m. Waiting s client = Some (fs, c) \<and> priv_end ?w client = Some c \<and> FifoLinks (proto ?w) c = Some m \<and>
        pPeer m = None \<and> pOwnerLinkObj m = client \<and> client \<noteq> link \<and> c \<noteq> f"
      if "FifoSrvs (proto ?w) fs = Some fso" "pConnLinkObj fso = Some client" for fs fso client
    proof -
      have "pending ?w fs = Some client" using that by (simp add: pending_def)
      from d(7) [OF this] obtain c m where c: "Waiting s client = Some (fs, c)"
        "FifoLinks (proto ?w) c = Some m" "pPeer m = None" by blast
      have p: "priv_end ?w client = Some c" "Accepting s client = None" using d(6) [OF c(1)] by auto
      have o: "pOwnerLinkObj m = client" using d(3) [OF c(2), of client] p by simp
      have "client \<noteq> link" using p a by auto
      moreover have "c \<noteq> f" using o own c(2) l(2) calculation by auto
      ultimately show ?thesis using c p o by blast
    qed
    have apart: "\<forall>fs fso client cln. FifoSrvs (proto ?w) fs = Some fso \<longrightarrow> pConnLinkObj fso = Some client \<longrightarrow>
        LinkHeap ?w client = Some cln \<longrightarrow> SrvTbl ?w ! srv \<noteq> None \<longrightarrow> SrvProtoPriv (the (SrvTbl ?w ! srv)) = Some fs \<longrightarrow>
        pProtoPriv cln \<noteq> Some f \<and> client \<noteq> link"
      using cl by (fastforce simp: priv_end_def)
    obtain s' fs fso client cln cf l1 cfl l' cfl' where *: "SrvTbl ?w ! srv = Some s'"
        "FifoSrvs (proto ?w) fs = Some fso" "pConnLinkObj fso = Some client"
        "LinkHeap ?w client = Some cln" "negotiateLinkRole (UsageCapabilites s') (Usage cln) \<noteq> 0"
        "pProtoPriv cln = Some cf" "FifoLinks (proto ?w) f = Some l1" "FifoLinks (proto ?w) cf = Some cfl"
        "same_ends (l1\<lparr>pPeer := Some cf\<rparr>) l'" "same_ends (cfl\<lparr>pPeer := Some f\<rparr>) cfl'"
        "FifoLinks (proto w') = (FifoLinks (proto ?w))(f := Some l', cf := Some cfl')"
        "FifoSrvs (proto w') = (FifoSrvs (proto ?w))(fs := Some (fso\<lparr>pConnLinkObj := None\<rparr>))"
        "next_fifo (proto w') = next_fifo (proto ?w)"
        "LinkHeap w' = (LinkHeap ?w)(link := Some (lk\<lparr>Usage :=
           negotiateLinkRole (UsageCapabilites s') (Usage cln)\<rparr>))"
      using accept_try_Accepted [OF t [unfolded Accepted] lk apart] by blast
    from cl [OF *(2,3)] obtain c m where c: "Waiting s client = Some (fs, c)" "priv_end ?w client = Some c"
      "FifoLinks (proto ?w) c = Some m" "pPeer m = None" "pOwnerLinkObj m = client" "client \<noteq> link" "c \<noteq> f"
      by blast
    have eq: "c = cf" "m = cfl" "l1 = l" using c *(4,6,7,8) l by (auto simp: priv_end_def)
    let ?role = "negotiateLinkRole (UsageCapabilites s') (Usage cln)"
    have e2: "ends_inv (next_fifo (proto ?w)) (FifoLinks (proto ?w)) (priv_end ?w) (role_of ?w)
        ((pending ?w)(fs := None)) (Waiting s) ((Accepting s)(link := None)) (Closing s) D"
      by (rule ends_unpend [OF ends_done_accepting [OF e]])
    have role: "complementary ?role (role_of ?w (pOwnerLinkObj m))"
      using negotiated_complementary [OF *(5)] *(4) c(5) by (simp add: role_of_def)
    have "g \<noteq> c \<and> g \<noteq> f" if "((pending ?w)(fs := None)) h = Some k" "Waiting s k = Some (h, g)" for h k g
    proof -
      have hk: "h \<noteq> fs" "pending ?w h = Some k" using that(1) by (auto split: if_splits)
      have "priv_end ?w k = Some g" "Accepting s k = None" using d(6) [OF that(2)] by auto
      then have "g = c \<Longrightarrow> k = client" "g = f \<Longrightarrow> k = link"
        using d(3) [OF c(3), of k] d(3) [OF l(2), of k] c(5) own by auto
      then show ?thesis using c(1) that(2) hk(1) a \<open>Accepting s k = None\<close> by auto
    qed
    moreover have "((Accepting s)(link := None)) k \<noteq> Some (sv, f)" for k sv
    proof
      assume "((Accepting s)(link := None)) k = Some (sv, f)"
      then have "k \<noteq> link" "Accepting s k = Some (sv, f)" by (auto split: if_splits)
      then show False using d(8) [of k sv f] d(3) [OF l(2), of k] own by auto
    qed
    moreover have "((Accepting s)(link := None)) k \<noteq> Some (sv, c)" for k sv
    proof
      assume "((Accepting s)(link := None)) k = Some (sv, c)"
      then have "Accepting s k = Some (sv, c)" by (auto split: if_splits)
      then have "k = client" using d(8) [of k sv c] d(3) [OF c(3), of k] c(5) by auto
      then show False using d(6) [OF c(1)] \<open>Accepting s k = Some (sv, c)\<close> by auto
    qed
    ultimately have "ends_inv (next_fifo (proto ?w)) ((FifoLinks (proto ?w))(f := Some l', c := Some cfl'))
        (priv_end ?w) ((role_of ?w)(pOwnerLinkObj l := ?role)) ((pending ?w)(fs := None)) (Waiting s)
        ((Accepting s)(link := None)) (Closing s) D"
      using *(9,10) eq by (intro ends_pair [OF e2 l(2,3) c(3,4,7) _ _ role]) auto
    moreover have "priv_end w' = priv_end ?w" "role_of w' = (role_of ?w)(pOwnerLinkObj l := ?role)"
      using priv_upd [OF *(14)] lk own by (auto simp: priv_end_def fun_eq_iff)
    moreover have "pending w' = (pending ?w)(fs := None)" using pending_upd [OF *(12)] by simp
    ultimately show ?thesis using *(11,13) eq Accepted by (simp add: hs_wf_def Let_def)
  qed
qed

lemma hs_wf_step_rest:
  "fifo_step s t \<Longrightarrow> hs_wf D s \<Longrightarrow> hs_wf D t \<or> (\<exists>link f ok r w'. Closing s link = Some f \<and>
     closeLink_locked ok f (World s) = Done (r, w') \<and> t = s\<lparr>World := w', Closing := (Closing s)(link := None)\<rparr>)"
  by (erule fifo_stepE)
    (blast intro: inv_connect inv_wake inv_start inv_give_up inv_close_lock setMutex_more inv_look)+

lemma hs_wf_step:
  assumes "fifo_step s t" "hs_wf D s"
  shows "\<exists>E. hs_wf (D \<union> E) t \<and> (\<forall>(g, p)\<in>E. closed_while_held s t g p)"
proof (cases "hs_wf D t")
  case True
  then show ?thesis by (intro exI [of _ "{}"]) simp
next
  case False
  with hs_wf_step_rest [OF assms] inv_close_rest [OF assms(2)] show ?thesis by blast
qed

text \<open>Whoever is left behind was left behind by a step of the run.\<close>

lemma hs_wf_reachable:
  assumes "fifo_step\<^sup>*\<^sup>* s t" "hs_wf {} s"
  shows "\<exists>D. hs_wf D t \<and> (\<forall>(f, p)\<in>D. \<exists>u v. fifo_step\<^sup>*\<^sup>* s u \<and> fifo_step u v \<and> fifo_step\<^sup>*\<^sup>* v t \<and> closed_while_held u v f p)"
  using assms
proof (induction rule: rtranclp_induct)
  case base
  then show ?case by (intro exI [of _ "{}"]) simp
next
  case (step u v)
  then obtain D where D: "hs_wf D u"
    "\<forall>(f, p)\<in>D. \<exists>x y. fifo_step\<^sup>*\<^sup>* s x \<and> fifo_step x y \<and> fifo_step\<^sup>*\<^sup>* y u \<and> closed_while_held x y f p" by blast
  from hs_wf_step [OF step(2) D(1)] obtain E where E: "hs_wf (D \<union> E) v" "\<forall>(f, p)\<in>E. closed_while_held u v f p" by blast
  have "\<exists>x y. fifo_step\<^sup>*\<^sup>* s x \<and> fifo_step x y \<and> fifo_step\<^sup>*\<^sup>* y v \<and> closed_while_held x y f p" if "(f, p) \<in> D \<union> E" for f p
  proof (cases "(f, p) \<in> D")
    case True
    with D(2) obtain x y where "fifo_step\<^sup>*\<^sup>* s x" "fifo_step x y" "fifo_step\<^sup>*\<^sup>* y u" "closed_while_held x y f p" by blast
    then show ?thesis using step(2) rtranclp.rtrancl_into_rtrancl [of fifo_step y u v] by blast
  next
    case False
    then show ?thesis using that E(2) step(1,2) by blast
  qed
  then show ?case using E(1) by blast
qed

text \<open>In a quiet state, a whole call that closes a link leaves the state quiet.\<close>

lemma inv_close:
  assumes i: "hs_inv s" and u: "unused link s" "closeLink_ofProtoFifo ok link (World s) = Done (r, w')"
  shows "hs_inv (s\<lparr>World := w'\<rparr>)"
proof -
  let ?w = "World s"
  have q: "\<forall>f l. FifoLinks (proto ?w) f = Some l \<longrightarrow> \<not> MutexHeld l" using i by (simp add: hs_inv_def)
  have e: "ends_inv (next_fifo (proto ?w)) (FifoLinks (proto ?w)) (priv_end ?w) (role_of ?w) (pending ?w)
      (Waiting s) (Accepting s) (Closing s) {}" using i by (simp add: hs_inv_def hs_wf_def Let_def)
  note d = ends_invD [OF e]
  have ns: "\<forall>f l. FifoLinks (proto ?w) f = Some l \<longrightarrow> pPeer l \<noteq> Some f" using d(2) by blast
  obtain lk f l where *: "LinkHeap ?w link = Some lk" "pProtoPriv lk = Some f" "FifoLinks (proto ?w) f = Some l"
    "LinkHeap w' = LinkHeap ?w" "FifoSrvs (proto w') = FifoSrvs (proto ?w)" "next_fifo (proto w') = next_fifo (proto ?w)"
    "\<forall>p. pPeer l = Some p \<longrightarrow> FifoLinks (proto ?w) p \<noteq> None" "FifoLinks (proto w') = closed_end f l (FifoLinks (proto ?w))"
    using closeLink_effect [OF u(2) ns] by blast
  have own: "pOwnerLinkObj l = link" using d(3) [OF *(3), of link] * by (simp add: priv_end_def)
  have "left_behind (FifoLinks (proto ?w)) f l = {}" using q by (auto simp: left_behind_def)
  moreover have "(Closing s)(link := None) = Closing s" using u(1) by (auto simp: unused_def fun_eq_iff)
  ultimately have "hs_wf {} (s\<lparr>World := w'\<rparr>)"
    using ends_remove [OF e *(3) own _ _ *(7), of "priv_end ?w"] u(1) * heap_same [of w' ?w] heap_same(3) [of w' ?w]
    by (simp add: hs_wf_def Let_def unused_def)
  moreover have "\<forall>g x. FifoLinks (proto w') g = Some x \<longrightarrow> \<not> MutexHeld x"
    using q by (auto simp: *(8) closed_end_def split: option.splits if_splits)
  ultimately show ?thesis by (simp add: hs_inv_def)
qed


section \<open>Accepting succeeds\<close>

lemma setupDatReceiver_returns:
  assumes "LinkHeap w link = Some lk" "pProtoPriv lk = Some f" "SrvTbl w ! srv = Some s"
    "FifoLinks (proto w) f = Some l" "\<not> MutexHeld l"
  shows "\<exists>r w'. setupDatReceiver link srv w = Done (r, w')"
  using assms by (simp add: setupDatReceiver_def deref_def derefSrv_def lockFifo_def fderef_def Let_def)

lemma setupClientReceiver_returns:
  "FifoLinks (proto w) f = Some l \<Longrightarrow> \<not> MutexHeld l \<Longrightarrow> \<exists>w'. setupClientReceiver f d w = Done w'"
  by (simp add: setupClientReceiver_def lockFifo_def fderef_def)

lemma accept_try_returns:
  assumes "SrvTbl w ! srv = Some s" "SrvProtoPriv s = Some fs" "FifoSrvs (proto w) fs = Some fso"
    "pConnLinkObj fso = Some client" "LinkHeap w client = Some cl" "pProtoPriv cl = Some cf"
    "FifoLinks (proto w) cf = Some cfl" "\<not> MutexHeld cfl" "LinkHeap w link = Some lk" "pProtoPriv lk = Some f"
    "FifoLinks (proto w) f = Some l" "\<not> MutexHeld l" "cf \<noteq> f"
  shows "\<exists>w'. accept_try srv link f w = Done
    (if negotiateLinkRole (UsageCapabilites s) (Usage cl) = 0 then Rejected else Accepted, w')"
proof (cases "negotiateLinkRole (UsageCapabilites s) (Usage cl) = 0")
  case True
  then show ?thesis using assms by (simp add: accept_try_def derefSrv_def fsderef_def deref_def usage_defs Let_def)
next
  case False
  let ?w4 = "setLink link (\<lambda>l. l\<lparr>Usage := negotiateLinkRole (UsageCapabilites s) (Usage cl)\<rparr>)
        (setFifo cf (\<lambda>l. l\<lparr>pPeer := Some f\<rparr>) (setFifo f (\<lambda>l. l\<lparr>pPeer := Some cf\<rparr>)
          (setFifoSrv fs (\<lambda>x. x\<lparr>pConnLinkObj := None\<rparr>) w)))"
  have w4: "LinkHeap ?w4 link = Some (lk\<lparr>Usage := negotiateLinkRole (UsageCapabilites s) (Usage cl)\<rparr>)"
    "SrvTbl ?w4 ! srv = Some s" "FifoLinks (proto ?w4) f = Some (l\<lparr>pPeer := Some cf\<rparr>)"
    "FifoLinks (proto ?w4) cf = Some (cfl\<lparr>pPeer := Some f\<rparr>)"
    using assms by simp_all
  obtain r w5 where 5: "setupDatReceiver link srv ?w4 = Done (r, w5)"
    using setupDatReceiver_returns [OF w4(1) _ w4(2,3)] assms by auto
  have cf5: "FifoLinks (proto w5) cf = Some (cfl\<lparr>pPeer := Some f\<rparr>)"
    using setupDatReceiver_effect(1) [OF 5 w4(1) _ w4(3)] assms w4(4) by auto
  have "\<exists>w'. (case UsageArgs cl of
         Some u \<Rightarrow> if has_usage (Usage cl) IOC_LinkUsageDatReceiver
           then setupClientReceiver cf (as_pDat u) w5 else Done w5
       | None \<Rightarrow> Done w5) = Done w'"
    using setupClientReceiver_returns [OF cf5] assms by (auto split: option.split)
  then show ?thesis
    using assms False 5
    by (auto simp: accept_try_def derefSrv_def fsderef_def deref_def fderef_def usage_defs(1) Let_def)
qed

lemma accept_loop_accepted:
  "accept_try srv link f w = Done (Accepted, w') \<Longrightarrow>
   accept_loop srv link f opt st turns w = Done (IOC_RESULT_SUCCESS, w')"
  by (simp add: accept_loop.simps [of srv link f opt st turns w])

lemma accept_loop_NoConn:
  "accept_try srv link f w = Done (NoConn, w') \<Longrightarrow>
   accept_loop srv link f opt st ((now, others) # turns) w =
     (if case opt of None \<Rightarrow> False | Some op \<Rightarrow> TimeoutUS op \<noteq> IOC_TIMEOUT_INFINITE \<and>
         accept_elapsedUS st now \<ge> TimeoutUS op
      then Done (IOC_RESULT_TIMEOUT, setLink link (\<lambda>l. l\<lparr>pProtoPriv := None\<rparr>) (free_fifo_link f (others w')))
      else accept_loop srv link f opt st turns (others w'))"
  by (simp add: accept_loop.simps [of srv link f opt st _ w])

definition good_mem :: link_mem where
  "good_mem = \<lparr>mem_obj = True, mem_poll = Some (replicate POLLING_BUFFER_SIZE 0),
     mem_batch = Some (replicate PROTO_FIFO_SEND_QUEUE_SIZE 0)\<rparr>"

definition mem_ok :: "link_mem \<Rightarrow> bool" where
  "mem_ok m \<longleftrightarrow> mem_obj m \<and> mem_poll m \<noteq> None \<and> mem_batch m \<noteq> None"

lemma new_fifo_link_ok: "mem_ok m \<Longrightarrow> \<exists>l. new_fifo_link m owner = Done l"
  by (auto simp: mem_ok_def new_fifo_link_def fifo_initPollingBuffer_def initCallbackBatch_def)

section \<open>Properties\<close>

text \<open>C1: Whatever clients connect, wake up and are rejected, whatever threads accept and give up, whatever
  mutexes are held meanwhile and whatever links are closed, in any order: an end whose peer exists is that
  peer's peer, and the roles of the two links complement each other.  A peer pointer dangles only if, in a
  step of the run, the peer was closed while somebody held the mutex of this end.\<close>

theorem fifo_peers_symmetric:
  assumes "hs_start s" "fifo_step\<^sup>*\<^sup>* s t" "FifoLinks (proto (World t)) f = Some l" "pPeer l = Some p"
  shows "p \<noteq> f \<and>
    (case FifoLinks (proto (World t)) p of
      Some q \<Rightarrow> pPeer q = Some f \<and>
        complementary (role_of (World t) (pOwnerLinkObj l)) (role_of (World t) (pOwnerLinkObj q))
    | None \<Rightarrow> \<exists>u v. fifo_step\<^sup>*\<^sup>* s u \<and> fifo_step u v \<and> fifo_step\<^sup>*\<^sup>* v t \<and> closed_while_held u v f p)"
proof -
  from hs_wf_reachable [OF assms(2) hs_wf_start [OF assms(1)]] obtain D where
    D: "hs_wf D t" "\<forall>(f, p)\<in>D. \<exists>u v. fifo_step\<^sup>*\<^sup>* s u \<and> fifo_step u v \<and> fifo_step\<^sup>*\<^sup>* v t \<and> closed_while_held u v f p" by blast
  note d = ends_invD [OF D(1) [unfolded hs_wf_def Let_def]]
  show ?thesis using d(2,4) [OF assms(3,4)] D(2) by (auto split: option.split)
qed

text \<open>C10: When a thread accepts after a client has announced itself and the roles match, both calls return
  success, and the links are peers of each other with the negotiated role on the service's side.  When the
  roles do not match, only the client's call returns: it is told that its usage is incompatible, and its
  link object is freed.  The accepting call is told nothing; it goes on waiting for the next client.\<close>

theorem fifo_connect_accept:
  assumes begin': "connect_begin m link args w = Done (Inr (fs, f, w1))"
    and srv: "SrvTbl w ! srv = Some s" "SrvProtoPriv s = Some fs"
    and links: "slink \<noteq> link" "LinkHeap w link = Some cl" "LinkHeap w slink = Some sl"
    and mem: "mem_ok m'"
  shows "if negotiateLinkRole (UsageCapabilites s) (Usage cl) = 0
    then \<exists>w2 f2 w3. accept_begin m' slink w1 = Done (f2, w2) \<and> accept_try srv slink f2 w2 = Done (Rejected, w3) \<and>
      acceptClient_ofProtoFifo m' st [] srv slink opt w1 = Block \<and>
      (\<forall>now others turns. acceptClient_ofProtoFifo m' st ((now, others) # turns) srv slink opt w1 =
         accept_loop srv slink f2 opt st turns (others w3)) \<and>
      (\<exists>w4. connect_end fs f link w3 = Done (IOC_RESULT_INCOMPATIBLE_USAGE, w4) \<and>
         FifoLinks (proto w4) f = None \<and> priv_end w4 link = None)
    else \<exists>w2 w3 f2. acceptClient_ofProtoFifo m' st [] srv slink opt w1 = Done (IOC_RESULT_SUCCESS, w2) \<and>
      connect_end fs f link w2 = Done (IOC_RESULT_SUCCESS, w3) \<and> priv_end w3 slink = Some f2 \<and>
      role_of w3 slink = negotiateLinkRole (UsageCapabilites s) (Usage cl) \<and>
      map_option pPeer (FifoLinks (proto w3) f) = Some (Some f2) \<and>
      map_option pPeer (FifoLinks (proto w3) f2) = Some (Some f)"
proof -
  obtain fso l where 1: "FifoSrvs (proto w) fs = Some fso" "f = next_fifo (proto w)" "pPeer l = None"
      "\<not> MutexHeld l" "FifoLinks (proto w1) = (FifoLinks (proto w))(f := Some l)"
      "next_fifo (proto w1) = Suc f" "LinkHeap w1 = (LinkHeap w)(link := Some (cl\<lparr>pProtoPriv := Some f\<rparr>))"
      "SrvTbl w1 = SrvTbl w" "FifoSrvs (proto w1) = (FifoSrvs (proto w))
        (fs := Some (fso\<lparr>ConnMutexHeld := True, pConnLinkObj := Some link\<rparr>))"
    using connect_begin_effect [OF begin'] links(2) by auto
  obtain l2 where nl: "new_fifo_link m' slink = Done l2" using new_fifo_link_ok [OF mem] by blast
  define w2 where "w2 = setLink slink (\<lambda>l. l\<lparr>pProtoPriv := Some (Suc f)\<rparr>) (snd (add_fifo_link l2 w1))"
  have ab: "accept_begin m' slink w1 = Done (Suc f, w2)"
    using nl 1(6) by (simp add: accept_begin_def w2_def case_prod_beta Let_def)
  obtain l2 where 2: "pPeer l2 = None" "\<not> MutexHeld l2"
      "FifoLinks (proto w2) = (FifoLinks (proto w1))(Suc f := Some l2)"
      "LinkHeap w2 = (LinkHeap w1)(slink := Some (sl\<lparr>pProtoPriv := Some (Suc f)\<rparr>))"
      "FifoSrvs (proto w2) = FifoSrvs (proto w1)"
    using accept_begin_effect [OF ab] links 1(7) by auto
  have tbl: "SrvTbl w2 = SrvTbl w" using 1(8) by (simp add: w2_def)
  have look: "\<exists>w3. accept_try srv slink (Suc f) w2 = Done
      (if negotiateLinkRole (UsageCapabilites s) (Usage cl) = 0 then Rejected else Accepted, w3)"
    using accept_try_returns [of w2 srv s fs _ link "cl\<lparr>pProtoPriv := Some f\<rparr>" f l slink
        "sl\<lparr>pProtoPriv := Some (Suc f)\<rparr>" "Suc f" l2] srv links 1 2 tbl by simp
  show ?thesis
  proof (cases "negotiateLinkRole (UsageCapabilites s) (Usage cl) = 0")
    case True
    then obtain w3 where look: "accept_try srv slink (Suc f) w2 = Done (Rejected, w3)" using look by auto
    then have w3: "w3 = setFifoSrv fs (\<lambda>x. x\<lparr>pConnLinkObj := None\<rparr>) w2"
      using accept_try_Rejected [OF look] srv tbl by auto
    have "\<exists>w4. connect_end fs f link w3 = Done (IOC_RESULT_INCOMPATIBLE_USAGE, w4) \<and>
        FifoLinks (proto w4) f = None \<and> priv_end w4 link = None"
      using w3 1 2 links by (simp add: connect_end_def fsderef_def fderef_def priv_end_def)
    moreover have "acceptClient_ofProtoFifo m' st turns srv slink opt w1 = (case turns of [] \<Rightarrow> Block
        | (now, others) # ts \<Rightarrow> accept_loop srv slink (Suc f) opt st ts (others w3))" for turns
      using ab accept_loop.simps [of srv slink "Suc f" opt st turns w2] look
      by (simp add: acceptClient_split split: list.split)
    ultimately show ?thesis using True ab look by auto
  next
    case False
    then obtain w3 where look: "accept_try srv slink (Suc f) w2 = Done (Accepted, w3)" using look by auto
    have acc: "acceptClient_ofProtoFifo m' st [] srv slink opt w1 = Done (IOC_RESULT_SUCCESS, w3)"
      using ab accept_loop_accepted [OF look] by (simp add: acceptClient_split)
    have lk: "LinkHeap w2 slink = Some (sl\<lparr>pProtoPriv := Some (Suc f)\<rparr>)" using 2 by simp
    have apart: "\<forall>fs' fso' client cl'. FifoSrvs (proto w2) fs' = Some fso' \<longrightarrow> pConnLinkObj fso' = Some client \<longrightarrow>
        LinkHeap w2 client = Some cl' \<longrightarrow> SrvTbl w2 ! srv \<noteq> None \<longrightarrow> SrvProtoPriv (the (SrvTbl w2 ! srv)) = Some fs' \<longrightarrow>
        pProtoPriv cl' \<noteq> Some (Suc f) \<and> client \<noteq> slink"
      using srv tbl 1 2 links by auto
    from accept_try_Accepted [OF look lk _ apart] obtain l' cfl' where
      3: "pPeer l' = Some f" "pPeer cfl' = Some (Suc f)"
         "FifoLinks (proto w3) = (FifoLinks (proto w2))(Suc f := Some l', f := Some cfl')"
         "LinkHeap w3 = (LinkHeap w2)(slink := Some (sl\<lparr>pProtoPriv := Some (Suc f),
            Usage := negotiateLinkRole (UsageCapabilites s) (Usage cl)\<rparr>))"
         "FifoSrvs (proto w3) = (FifoSrvs (proto w2))(fs := Some (fso\<lparr>ConnMutexHeld := True, pConnLinkObj := None\<rparr>))"
      using srv tbl 1 2 links by (auto simp: same_ends_def)
    have "connect_end fs f link w3 = Done (IOC_RESULT_SUCCESS, setFifoSrv fs (\<lambda>s. s\<lparr>ConnMutexHeld := False\<rparr>) w3)"
      using 3 by (simp add: connect_end_def fsderef_def fderef_def)
    then show ?thesis using False acc 3 links by (auto simp: priv_end_def role_of_def)
  qed
qed


text \<open>A concrete world: one FIFO service that consumes events, a client's link that wants to produce
  them, and a link for the service's side.\<close>

definition sample_uri :: IOC_SrvURI_T where
  "sample_uri = \<lparr>pProtocol = ''fifo'', pHost = ''localprocess'', pPath = ''srv'', Port = 0\<rparr>"

definition sample_service :: "usage \<Rightarrow> ServiceObject_T" where
  "sample_service caps = (new_service 0 sample_srv_args)\<lparr>SrvProtoPriv := Some 0, UsageCapabilites := caps\<rparr>"

definition two_links :: "usage \<Rightarrow> usage \<Rightarrow> fifo_state ioc_world" where
  "two_links caps client = (init_world fifo_init)\<lparr>
     SrvTbl := Some (sample_service caps) # replicate 31 None,
     LinkHeap := (\<lambda>_. None)(0 := Some ((new_link 0)\<lparr>Usage := client\<rparr>), 1 := Some (new_link 1)),
     next_addr := 2,
     proto := fifo_init\<lparr>FifoSrvs := (\<lambda>_. None)(0 := Some \<lparr>fsSrvObj = 0, ConnMutexHeld = False,
       pConnLinkObj = None\<rparr>), next_fifo := 1, OnlinedSrvFifo := Some 0 # replicate 15 None\<rparr>\<rparr>"

definition sample_conn_args :: "usage \<Rightarrow> IOC_ConnArgs_T" where
  "sample_conn_args client = \<lparr>ConnSrvURI = sample_uri, ConnUsage = client, ConnUsageArgs = None\<rparr>"

definition sample_hs :: "unit handshake" where
  "sample_hs = \<lparr>World = two_links IOC_LinkUsageEvtConsumer IOC_LinkUsageEvtProducer,
     Waiting = (\<lambda>_. None), Accepting = (\<lambda>_. None), Closing = (\<lambda>_. None), Busy = {}\<rparr>"

lemma good_mem_ok: "mem_ok good_mem"
  by (simp add: mem_ok_def good_mem_def)

lemma sample_hs_start: "hs_start sample_hs"
  by (simp add: hs_start_def sample_hs_def two_links_def fifo_init_def priv_end_def pending_def init_world_def
      new_link_def fun_eq_iff)

lemma two_links_sel:
  "SrvTbl (two_links caps client) ! 0 = Some (sample_service caps)"
  "SrvProtoPriv (sample_service caps) = Some 0" "UsageCapabilites (sample_service caps) = caps"
  "SrvURI (sample_service caps) = sample_uri"
  "LinkHeap (two_links caps client) 0 = Some ((new_link 0)\<lparr>Usage := client\<rparr>)"
  "LinkHeap (two_links caps client) (Suc 0) = Some (new_link 1)"
  by (simp_all add: two_links_def sample_service_def sample_uri_def new_service_def sample_srv_args_def
      init_world_def)

lemma sample_connects:
  "\<exists>f w'. connect_begin good_mem 0 (sample_conn_args client) (two_links caps client) = Done (Inr (0, f, w'))"
proof -
  obtain l where l: "new_fifo_link good_mem 0 = Done l" using new_fifo_link_ok [OF good_mem_ok] by blast
  have "getSrvProtoObjBySrvURI sample_uri (two_links caps client)
      (OnlinedSrvFifo (proto (two_links caps client))) = Done (Some 0)"
    using two_links_sel by (simp add: two_links_def fsderef_def derefSrv_def isEqualSrvURI_eq)
  then show ?thesis
    using l two_links_sel
    by (auto simp: connect_begin_def sample_conn_args_def deref_def fsderef_def Let_def case_prod_beta)
      (simp_all add: two_links_def)
qed

theorem fifo_connect_accept_witness:
  "(\<exists>f w1. connect_begin good_mem 0 (sample_conn_args IOC_LinkUsageEvtProducer)
      (two_links IOC_LinkUsageEvtConsumer IOC_LinkUsageEvtProducer) = Done (Inr (0, f, w1)) \<and>
    (\<exists>w2 w3. acceptClient_ofProtoFifo good_mem time0 [] 0 1 None w1 = Done (IOC_RESULT_SUCCESS, w2) \<and>
      connect_end 0 f 0 w2 = Done (IOC_RESULT_SUCCESS, w3) \<and> role_of w3 1 = IOC_LinkUsageEvtConsumer)) \<and>
   (\<exists>f w1. connect_begin good_mem 0 (sample_conn_args IOC_LinkUsageEvtProducer)
      (two_links IOC_LinkUsageEvtProducer IOC_LinkUsageEvtProducer) = Done (Inr (0, f, w1)) \<and>
    acceptClient_ofProtoFifo good_mem time0 [] 0 1 None w1 = Block \<and>
    (\<exists>f2 w2 w3 w4. accept_begin good_mem 1 w1 = Done (f2, w2) \<and> accept_try 0 1 f2 w2 = Done (Rejected, w3) \<and>
      connect_end 0 f 0 w3 = Done (IOC_RESULT_INCOMPATIBLE_USAGE, w4) \<and> priv_end w4 0 = None))"
proof -
  have neg: "negotiateLinkRole IOC_LinkUsageEvtConsumer IOC_LinkUsageEvtProducer = IOC_LinkUsageEvtConsumer"
    "negotiateLinkRole IOC_LinkUsageEvtProducer IOC_LinkUsageEvtProducer = 0" "IOC_LinkUsageEvtConsumer \<noteq> 0"
    by (simp_all add: negotiateLinkRole_def usage_defs has_usage_def)
  obtain f w1 where c: "connect_begin good_mem 0 (sample_conn_args IOC_LinkUsageEvtProducer)
      (two_links IOC_LinkUsageEvtConsumer IOC_LinkUsageEvtProducer) = Done (Inr (0, f, w1))"
    using sample_connects by blast
  obtain g v1 where r: "connect_begin good_mem 0 (sample_conn_args IOC_LinkUsageEvtProducer)
      (two_links IOC_LinkUsageEvtProducer IOC_LinkUsageEvtProducer) = Done (Inr (0, g, v1))"
    using sample_connects by blast
  have "\<exists>w2 w3. acceptClient_ofProtoFifo good_mem time0 [] 0 1 None w1 = Done (IOC_RESULT_SUCCESS, w2) \<and>
      connect_end 0 f 0 w2 = Done (IOC_RESULT_SUCCESS, w3) \<and> role_of w3 1 = IOC_LinkUsageEvtConsumer"
    using fifo_connect_accept [OF c two_links_sel(1,2) _ two_links_sel(5) _ good_mem_ok, of 1 "new_link 1" time0 None] neg
    by (auto simp: two_links_sel)
  moreover have "acceptClient_ofProtoFifo good_mem time0 [] 0 1 None v1 = Block \<and>
      (\<exists>f2 w2 w3 w4. accept_begin good_mem 1 v1 = Done (f2, w2) \<and> accept_try 0 1 f2 w2 = Done (Rejected, w3) \<and>
      connect_end 0 g 0 w3 = Done (IOC_RESULT_INCOMPATIBLE_USAGE, w4) \<and> priv_end w4 0 = None)"
    using fifo_connect_accept [OF r two_links_sel(1,2) _ two_links_sel(5) _ good_mem_ok, of 1 "new_link 1" time0 None] neg
    by (auto simp: two_links_sel)
  ultimately show ?thesis using c r by blast
qed

theorem fifo_peers_symmetric_witness:
  "\<exists>t f l p. fifo_step\<^sup>*\<^sup>* sample_hs t \<and> FifoLinks (proto (World t)) f = Some l \<and> pPeer l = Some p \<and> p \<noteq> f \<and>
    map_option pPeer (FifoLinks (proto (World t)) p) = Some (Some f)"
proof -
  let ?w = "two_links IOC_LinkUsageEvtConsumer IOC_LinkUsageEvtProducer"
  have w: "World sample_hs = ?w" by (simp add: sample_hs_def)
  obtain f w1 where c: "connect_begin good_mem 0 (sample_conn_args IOC_LinkUsageEvtProducer) ?w = Done (Inr (0, f, w1))"
    using sample_connects by blast
  obtain l where 1: "FifoSrvs (proto w1) 0 = Some \<lparr>fsSrvObj = 0, ConnMutexHeld = True, pConnLinkObj = Some 0\<rparr>"
      "f = next_fifo (proto ?w)" "\<not> MutexHeld l" "FifoLinks (proto w1) f = Some l"
      "next_fifo (proto w1) = Suc f" "LinkHeap w1 = (LinkHeap ?w)(0 := Some ((new_link 0)\<lparr>Usage :=
          IOC_LinkUsageEvtProducer, pProtoPriv := Some f\<rparr>))" "SrvTbl w1 = SrvTbl ?w"
    using connect_begin_effect [OF c] two_links_sel by (auto simp: two_links_def)
  obtain l0 where nl: "new_fifo_link good_mem 1 = Done l0" using new_fifo_link_ok [OF good_mem_ok] by blast
  define w2 where "w2 = setLink 1 (\<lambda>l. l\<lparr>pProtoPriv := Some (Suc f)\<rparr>) (snd (add_fifo_link l0 w1))"
  have ab: "accept_begin good_mem 1 w1 = Done (Suc f, w2)"
    using nl 1(5) by (simp add: accept_begin_def w2_def case_prod_beta Let_def)
  have l0: "\<not> MutexHeld l0" using new_fifo_link_effect [OF nl] by simp
  have "\<exists>w3. accept_try 0 1 (Suc f) w2 = Done (Accepted, w3)"
    using accept_try_returns [of w2 0 "sample_service IOC_LinkUsageEvtConsumer" 0 _ 0
       "(new_link 0)\<lparr>Usage := IOC_LinkUsageEvtProducer, pProtoPriv := Some f\<rparr>" f l 1
       "(new_link 1)\<lparr>pProtoPriv := Some (Suc f)\<rparr>" "Suc f" l0]
      1 two_links_sel l0 by (simp add: w2_def negotiateLinkRole_def usage_defs has_usage_def)
  then obtain w3 where look: "accept_try 0 1 (Suc f) w2 = Done (Accepted, w3)" by blast
  let ?s1 = "sample_hs\<lparr>World := w1, Waiting := (Waiting sample_hs)(0 := Some (0, f))\<rparr>"
  let ?s2 = "?s1\<lparr>World := w2, Accepting := (Accepting ?s1)(1 := Some (0, Suc f))\<rparr>"
  let ?s3 = "?s2\<lparr>World := w3, Accepting := (if Accepted = Accepted then (Accepting ?s2)(1 := None) else Accepting ?s2)\<rparr>"
  have "fifo_step sample_hs ?s1"
    by (rule fifo_step.connect [OF _ c [folded w]])
      (simp add: fresh_link_def unused_def sample_hs_def two_links_def new_link_def)
  moreover have "fifo_step ?s1 ?s2"
    by (rule fifo_step.start) (use ab 1 two_links_sel in \<open>simp_all add: fresh_link_def unused_def sample_hs_def new_link_def\<close>)
  moreover have "fifo_step ?s2 ?s3"
    by (rule fifo_step.look) (use look in simp_all)
  ultimately have r: "fifo_step\<^sup>*\<^sup>* sample_hs ?s3"
    by (meson rtranclp.rtrancl_into_rtrancl rtranclp.rtrancl_refl)
  have lk: "LinkHeap w2 1 = Some ((new_link 1)\<lparr>pProtoPriv := Some (Suc f)\<rparr>)" using 1 two_links_sel by (simp add: w2_def)
  have "\<forall>fs fso client cln. FifoSrvs (proto w2) fs = Some fso \<longrightarrow> pConnLinkObj fso = Some client \<longrightarrow>
        LinkHeap w2 client = Some cln \<longrightarrow> SrvTbl w2 ! 0 \<noteq> None \<longrightarrow> SrvProtoPriv (the (SrvTbl w2 ! 0)) = Some fs \<longrightarrow>
        pProtoPriv cln \<noteq> Some (Suc f) \<and> client \<noteq> 1"
    using 1 two_links_sel by (auto simp: w2_def intro!: gr0I)
  from accept_try_Accepted [OF look lk _ this] obtain l' cf where
    peer: "FifoLinks (proto (World ?s3)) (Suc f) = Some l'" "pPeer l' = Some cf" "FifoLinks (proto (World ?s3)) cf \<noteq> None"
    using 1 two_links_sel by (auto simp: same_ends_def w2_def)
  then obtain q where q: "FifoLinks (proto (World ?s3)) cf = Some q" by blast
  from fifo_peers_symmetric [OF sample_hs_start r peer(1,2)] have "cf \<noteq> Suc f" "pPeer q = Some (Suc f)" unfolding q by simp_all
  then show ?thesis using r peer(1,2) q by (intro exI [of _ ?s3] exI [of _ "Suc f"] exI [of _ l'] exI [of _ cf]) simp
qed


text \<open>Elapsed time in the accept loop.\<close>

lemma accept_elapsed_wrapped:
  assumes "tv_sec now = tv_sec st + 1" "0 \<le> tv_nsec now" "tv_nsec now < tv_nsec st" "tv_nsec st < 10 ^ 9"
  shows "2 ^ 53 \<le> accept_elapsedUS st now"
proof -
  define e where "e = 2 ^ 64 - (tv_nsec st - tv_nsec now)"
  have e: "2 ^ 64 - 10 ^ 9 < e" "e < 2 ^ 64" using assms by (simp_all add: e_def)
  have neg: "(of_int (tv_nsec now - tv_nsec st) :: ULONG) = of_int e" by (simp add: e_def)
  have "unat (of_int e :: ULONG) = nat e"
    using e by (simp add: unsigned_of_int take_bit_int_eq_self)
  then have q: "unat ((of_int e :: ULONG) div 1000) = nat e div 1000" by (simp add: unat_div)
  have b: "18446744072709551 \<le> nat e div 1000" "nat e div 1000 \<le> 18446744073709551"
    using e by (simp_all add: less_eq_div_iff_mult_less_eq)
  have "unat (1000000 + (of_int e :: ULONG) div 1000) = 1000000 + nat e div 1000"
    using q b by (subst unat_add_lem [THEN iffD1]) auto
  moreover have "accept_elapsedUS st now = 1000000 + (of_int e :: ULONG) div 1000"
    unfolding accept_elapsedUS_def neg using assms(1) by simp
  ultimately show ?thesis using b by (simp add: word_le_nat_alt)
qed

text \<open>C19: The accept loop measures time with unsigned nanoseconds: when the clock passes from one second
  to the next, less than a second after the start, a call with any timeout up to 285 years reports
  a timeout.\<close>

theorem accept_times_out_across_second:
  assumes "accept_try srv link f w = Done (NoConn, w')" "TimeoutUS op \<le> 2 ^ 53"
    "tv_sec now = tv_sec st + 1" "0 \<le> tv_nsec now" "tv_nsec now < tv_nsec st" "tv_nsec st < 10 ^ 9"
  shows "accept_loop srv link f (Some op) st ((now, others) # turns) w =
      Done (IOC_RESULT_TIMEOUT, accept_give_up link f (others w')) \<and>
    (tv_sec now - tv_sec st) * 10 ^ 9 + (tv_nsec now - tv_nsec st) < 10 ^ 9"
proof -
  have "TimeoutUS op \<noteq> ULONG_MAX"
    using assms(2) by (auto simp: word_le_nat_alt unsigned_minus_1_eq_mask mask_eq_exp_minus_1)
  moreover have "TimeoutUS op \<le> accept_elapsedUS st now"
    using accept_elapsed_wrapped [OF assms(3-6)] assms(2) by (rule order_trans [rotated])
  moreover have "(tv_sec now - tv_sec st) * 10 ^ 9 + (tv_nsec now - tv_nsec st) < 10 ^ 9"
    using assms(3,5) by simp
  ultimately show ?thesis
    using accept_loop_NoConn [OF assms(1)] by (simp add: accept_give_up_def)
qed

theorem accept_times_out_witness:
  "accept_loop 0 1 7 (Some (opt_Timeout 60000000)) \<lparr>tv_sec = 5, tv_nsec = 999000000\<rparr>
      [(\<lparr>tv_sec = 6, tv_nsec = 9000000\<rparr>, \<lambda>w. w)] (two_links 0 0) =
    Done (IOC_RESULT_TIMEOUT, accept_give_up 1 7 (two_links 0 0))"
proof -
  have "accept_try 0 1 7 (two_links 0 0) = Done (NoConn, two_links 0 0)"
    using two_links_sel by (simp add: accept_try_def derefSrv_def fsderef_def two_links_def)
  from accept_times_out_across_second [OF this, of "opt_Timeout 60000000" "\<lparr>tv_sec = 6, tv_nsec = 9000000\<rparr>"
      "\<lparr>tv_sec = 5, tv_nsec = 999000000\<rparr>" "\<lambda>w. w" "[]"]
  show ?thesis by (simp add: opt_Timeout_def)
qed

end
