(* ===== verification/FifoEvent.thy ===== *)
theory FifoEvent
  imports FifoHandshake
begin

text \<open>
  \<^verbatim>\<open>src/Source/_IOC_SrvProtoFifo.c\<close>, part two: events.  A link keeps one subscription; posting
  follows the peer pointer and runs the subscriber's callback, or queues the event for polling,
  while both links' mutexes are held.
\<close>

section \<open>Subscribing\<close>

text \<open>The arguments are copied without taking the mutex; the identifiers go to a fresh array.\<close>

definition subEvt_ofProtoFifo ::
  "nat \<Rightarrow> IOC_SubEvtArgs_T \<Rightarrow> 'x fifo_world \<Rightarrow> (IOC_Result_T \<times> 'x fifo_world) outcome" where
  "subEvt_ofProtoFifo link a w = deref link w (\<lambda>lk. case pProtoPriv lk of
     None \<Rightarrow> Abort
   | Some f \<Rightarrow> fderef f w (\<lambda>_. Done (IOC_RESULT_SUCCESS,
       setFifo f (\<lambda>l. l\<lparr>SubEvtArgs := a\<lparr>pEvtIDs := take (unat (EvtNum a)) (pEvtIDs a)\<rparr>\<rparr>) w)))"

text \<open>A consumer other than the subscribed one runs into \<^verbatim>\<open>_IOC_LogNotTested\<close>.\<close>

definition unsubEvt_ofProtoFifo ::
  "nat \<Rightarrow> IOC_SubEvtArgs_T \<Rightarrow> 'x fifo_world \<Rightarrow> (IOC_Result_T \<times> 'x fifo_world) outcome" where
  "unsubEvt_ofProtoFifo link a w = deref link w (\<lambda>lk. case pProtoPriv lk of
     None \<Rightarrow> Abort
   | Some f \<Rightarrow> fderef f w (\<lambda>l.
       if CbProcEvt_F (SubEvtArgs l) = CbProcEvt_F a \<and> pCbPrivData (SubEvtArgs l) = pCbPrivData a
       then Done (IOC_RESULT_SUCCESS, setFifo f (\<lambda>l. l\<lparr>SubEvtArgs := no_sub\<rparr>) w)
       else Abort))"

section \<open>Posting\<close>

text \<open>What an event callback does: the code behind the function pointer, its private data and the
  event determine how it changes the world, including by calls into the library.\<close>

type_synonym 'x evt_callback = "nat \<Rightarrow> nat \<Rightarrow> IOC_EvtDesc_T \<Rightarrow> 'x fifo_world \<Rightarrow> 'x fifo_world outcome"

text \<open>
  The callback branch.  The subscription is read again in each turn (its array may be shorter than
  it was); the function pointer is the one read before the loop.  The result counts the calls.  The
  loop counter is an \<^verbatim>\<open>int\<close>.
\<close>

function post_loop ::
  "'x evt_callback \<Rightarrow> nat \<Rightarrow> IOC_EvtDesc_T \<Rightarrow> nat \<Rightarrow> nat \<Rightarrow> 'x fifo_world \<Rightarrow> (nat \<times> 'x fifo_world) outcome" where
  "post_loop cb F e p i w =
    (if i \<ge> 2 ^ 31 then Abort
     else fderef p w (\<lambda>l. if i < unat (EvtNum (SubEvtArgs l)) then
       if EvtID e = pEvtIDs (SubEvtArgs l) ! i
       then bindO (cb F (pCbPrivData (SubEvtArgs l)) e w) (\<lambda>w1.
         bindO (post_loop cb F e p (Suc i) w1) (\<lambda>(n, w2). Done (Suc n, w2)))
       else post_loop cb F e p (Suc i) w
     else Done (0, w)))"
  by pat_completeness auto
termination
  by (relation "measure (\<lambda>(cb, F, e, p, i, w). 2 ^ 31 - i)") auto

declare post_loop.simps [simp del]

text \<open>The polling branch queues the event once; the result of the queue is ignored.\<close>

definition post_enqueue :: "IOC_EvtDesc_T \<Rightarrow> nat \<Rightarrow> 'x fifo_world \<Rightarrow> (nat \<times> 'x fifo_world) outcome" where
  "post_enqueue e p w = fderef p w (\<lambda>l.
     if EvtID e \<in> set (take (unat (EvtNum (SubEvtArgs l))) (pEvtIDs (SubEvtArgs l)))
     then bindO (EvtDescQueue_enqueueElementLast (EvtPollingQueue l) e) (\<lambda>(_, q).
       Done (1, setFifo p (\<lambda>l. l\<lparr>EvtPollingQueue := q\<rparr>) w))
     else Done (0, w))"

definition postEvt_ofProtoFifo ::
  "'x evt_callback \<Rightarrow> nat \<Rightarrow> IOC_EvtDesc_T \<Rightarrow> 'x fifo_world \<Rightarrow> (IOC_Result_T \<times> 'x fifo_world) outcome" where
  "postEvt_ofProtoFifo cb link e w = deref link w (\<lambda>lk. case pProtoPriv lk of
     None \<Rightarrow> Abort
   | Some f \<Rightarrow> lockFifo f w (\<lambda>w1. fderef f w1 (\<lambda>l.
       bindO (case pPeer l of
           None \<Rightarrow> Done (0, w1)
         | Some p \<Rightarrow> lockFifo p w1 (\<lambda>w2. fderef p w2 (\<lambda>pl.
             bindO (case CbProcEvt_F (SubEvtArgs pl) of
                 Some F \<Rightarrow> post_loop cb F e p 0 w2
               | None \<Rightarrow> post_enqueue e p w2)
               (\<lambda>(n, w3). Done (n, unlockFifo p w3)))))
         (\<lambda>(n, w4). Done (if n > 0 then IOC_RESULT_SUCCESS else IOC_RESULT_NO_EVENT_CONSUMER,
            unlockFifo f w4)))))"

section \<open>Pulling\<close>

definition dequeue_evt ::
  "nat \<Rightarrow> 'x fifo_world \<Rightarrow> (IOC_Result_T \<times> IOC_EvtDesc_T option \<times> 'x fifo_world) outcome" where
  "dequeue_evt f w = lockFifo f w (\<lambda>w1. fderef f w1 (\<lambda>l.
     bindO (EvtDescQueue_dequeueElementFirst (EvtPollingQueue l)) (\<lambda>(r, e, q).
       Done (r, e, unlockFifo f (setFifo f (\<lambda>l. l\<lparr>EvtPollingQueue := q\<rparr>) w1)))))"

text \<open>The waiting loop: each turn is what the other threads do during a sleep of 1 ms, and the clock
  read after the next look at the queue.  Without further turns the caller waits for ever.\<close>

fun pull_loop ::
  "nat \<Rightarrow> ULONG \<Rightarrow> timespec \<Rightarrow> (('x fifo_world \<Rightarrow> 'x fifo_world) \<times> timespec) list \<Rightarrow> 'x fifo_world \<Rightarrow>
   (IOC_Result_T \<times> IOC_EvtDesc_T option \<times> 'x fifo_world) outcome" where
  "pull_loop f timeout st [] w = Block"
| "pull_loop f timeout st ((others, now) # turns) w =
     bindO (dequeue_evt f (others w)) (\<lambda>(r, e, w1).
       if r = IOC_RESULT_SUCCESS then Done (r, e, w1)
       else bindO (if timeout \<noteq> IOC_TIMEOUT_INFINITE
           then bindO (IOC_deltaTimeSpecInUS st now) (\<lambda>us. Done (us \<ge> timeout)) else Done False) (\<lambda>expired.
         if expired then Done (IOC_RESULT_TIMEOUT, None, w1)
         else if r = IOC_RESULT_EVTDESC_QUEUE_EMPTY then pull_loop f timeout st turns w1
         else Done (r, None, w1)))"

definition pullEvt_ofProtoFifo ::
  "timespec \<Rightarrow> (('x fifo_world \<Rightarrow> 'x fifo_world) \<times> timespec) list \<Rightarrow> nat \<Rightarrow> IOC_Options_T option \<Rightarrow>
   'x fifo_world \<Rightarrow> (IOC_Result_T \<times> IOC_EvtDesc_T option \<times> 'x fifo_world) outcome" where
  "pullEvt_ofProtoFifo st turns link opt w = deref link w (\<lambda>lk. case pProtoPriv lk of
     None \<Rightarrow> Done (IOC_RESULT_INVALID_PARAM, None, w)
   | Some f \<Rightarrow>
       (let timeout = IOC_Option_getTimeoutUS opt; nonblocking = IOC_Option_isNonBlockMode opt;
            w1 = setFifo f (\<lambda>l. l\<lparr>IsEvtPollingActive := True\<rparr>) w
        in bindO (dequeue_evt f w1) (\<lambda>(r, e, w2).
          if r = IOC_RESULT_SUCCESS then Done (r, e, w2)
          else if r = IOC_RESULT_EVTDESC_QUEUE_EMPTY then
            if nonblocking then Done (IOC_RESULT_NO_EVENT_PENDING, None, w2)
            else pull_loop f timeout st turns w2
          else Done (r, None, w2))))"


section \<open>What posting does\<close>

definition occurrences :: "IOC_EvtDesc_T \<Rightarrow> IOC_SubEvtArgs_T \<Rightarrow> nat \<Rightarrow> nat" where
  "occurrences e a i = length (filter (\<lambda>x. x = EvtID e) (drop i (take (unat (EvtNum a)) (pEvtIDs a))))"

text \<open>The world in which callbacks run: both ends locked.\<close>

definition locked_pair :: "nat \<Rightarrow> nat \<Rightarrow> 'x fifo_world \<Rightarrow> 'x fifo_world" where
  "locked_pair f p w = setFifo p (\<lambda>l. l\<lparr>MutexHeld := True\<rparr>) (setFifo f (\<lambda>l. l\<lparr>MutexHeld := True\<rparr>) w)"

lemma locked_pair_sel [simp]:
  "f \<noteq> p \<Longrightarrow> FifoLinks (proto (locked_pair f p w)) = (FifoLinks (proto w))
     (f := map_option (MutexHeld_update (\<lambda>_. True)) (FifoLinks (proto w) f),
      p := map_option (MutexHeld_update (\<lambda>_. True)) (FifoLinks (proto w) p))"
  "LinkHeap (locked_pair f p w) = LinkHeap w"
  by (auto simp: locked_pair_def)

lemma post_loop_step:
  assumes "FifoLinks (proto w) p = Some l" "i < unat (EvtNum (SubEvtArgs l))" "i < 2 ^ 31"
  shows "post_loop cb F e p i w = (if EvtID e = pEvtIDs (SubEvtArgs l) ! i
       then bindO (cb F (pCbPrivData (SubEvtArgs l)) e w) (\<lambda>w1.
         bindO (post_loop cb F e p (Suc i) w1) (\<lambda>(n, w2). Done (Suc n, w2)))
       else post_loop cb F e p (Suc i) w)"
  using assms by (subst post_loop.simps) (simp add: fderef_def)

lemma post_loop_done:
  assumes "FifoLinks (proto w) p = Some l" "unat (EvtNum (SubEvtArgs l)) \<le> i" "i < 2 ^ 31"
  shows "post_loop cb F e p i w = Done (0, w)"
  using assms by (subst post_loop.simps) (simp add: fderef_def)

lemma post_loop_runs:
  assumes "FifoLinks (proto w) p = Some l" "length (pEvtIDs (SubEvtArgs l)) = unat (EvtNum (SubEvtArgs l))"
    "unat (EvtNum (SubEvtArgs l)) < 2 ^ 31" "i \<le> unat (EvtNum (SubEvtArgs l))"
    and cb: "\<And>w. cb F (pCbPrivData (SubEvtArgs l)) e w = Done (upd w)"
      "\<And>w. FifoLinks (proto (upd w)) = FifoLinks (proto w)"
  shows "post_loop cb F e p i w = (let n = occurrences e (SubEvtArgs l) i in Done (n, (upd ^^ n) w))"
  using assms(1,4)
proof (induction "unat (EvtNum (SubEvtArgs l)) - i" arbitrary: i w)
  case 0
  then show ?case using post_loop_done [OF 0(2)] assms(2,3) by (simp add: occurrences_def)
next
  case (Suc k)
  then have i: "i < unat (EvtNum (SubEvtArgs l))" by simp
  have occ: "occurrences e (SubEvtArgs l) i =
      (if pEvtIDs (SubEvtArgs l) ! i = EvtID e then Suc (occurrences e (SubEvtArgs l) (Suc i))
       else occurrences e (SubEvtArgs l) (Suc i))"
    using i assms(2) by (simp add: occurrences_def Cons_nth_drop_Suc [symmetric])
  have up: "FifoLinks (proto (upd w)) p = Some l" using cb(2) Suc.prems by simp
  show ?case
    using post_loop_step [OF Suc.prems(1) i, of cb F e] Suc.hyps(1) [of "Suc i" w]
      Suc.hyps(1) [OF _ up, of "Suc i"] Suc.hyps(2) Suc.prems(1) i occ assms(3) cb(1)
    by (auto simp: Let_def funpow_swap1)
qed

lemma postEvt_connected:
  assumes "connected w link f p"
  shows "postEvt_ofProtoFifo cb link e w =
    bindO (case CbProcEvt_F (SubEvtArgs (the_end w p)) of
        Some F \<Rightarrow> post_loop cb F e p 0 (locked_pair f p w)
      | None \<Rightarrow> post_enqueue e p (locked_pair f p w))
    (\<lambda>(n, w3). Done (if n > 0 then IOC_RESULT_SUCCESS else IOC_RESULT_NO_EVENT_CONSUMER,
       unlockFifo f (unlockFifo p w3)))"
  using assms
  by (auto elim!: connectedE simp: postEvt_ofProtoFifo_def deref_def lockFifo_def fderef_def locked_pair_def
      outcome_simps case_prod_unfold split: option.split)

lemma unlocked_again:
  assumes "connected w link f p" "FifoLinks (proto w') = FifoLinks (proto (locked_pair f p w))"
  shows "FifoLinks (proto (unlockFifo f (unlockFifo p w'))) = FifoLinks (proto w)"
  using assms by (auto elim!: connectedE simp: fun_eq_iff)


lemma post_enqueue_spec:
  assumes "FifoLinks (proto w) p = Some l" "evtq_inv (Suc k) (EvtPollingQueue l)"
  shows "if EvtID e \<in> set (take (unat (EvtNum (SubEvtArgs l))) (pEvtIDs (SubEvtArgs l)))
    then \<exists>q. post_enqueue e p w = Done (1, setFifo p (\<lambda>l. l\<lparr>EvtPollingQueue := q\<rparr>) w) \<and> evtq_inv k q \<and>
      evtq_contents q = (if length (evtq_contents (EvtPollingQueue l)) < 64
        then evtq_contents (EvtPollingQueue l) @ [e] else evtq_contents (EvtPollingQueue l))
    else post_enqueue e p w = Done (0, w)"
proof (cases "length (evtq_contents (EvtPollingQueue l)) < 64")
  case True
  from enqueue_room [OF assms(2) True, of e] show ?thesis
    using assms(1) True by (auto simp: post_enqueue_def fderef_def)
next
  case False
  moreover have "length (evtq_contents (EvtPollingQueue l)) \<le> 64"
    using assms(2) by (simp add: evtq_inv_def evtq_contents_def)
  moreover have "evtq_inv k (EvtPollingQueue l)" using evtq_inv_mono [OF assms(2)] by simp
  ultimately show ?thesis
    using enqueue_full [of k "EvtPollingQueue l" e] assms(1) by (auto simp: post_enqueue_def fderef_def)
qed

text \<open>An end as before but for its event queue, and the state of the pair after polling operations.\<close>

lemma dequeue_evt_spec:
  assumes "FifoLinks (proto w) f = Some l" "\<not> MutexHeld l" "evtq_inv k (EvtPollingQueue l)"
  shows "\<exists>q. dequeue_evt f w = Done
      ((case evtq_contents (EvtPollingQueue l) of [] \<Rightarrow> (IOC_RESULT_EVTDESC_QUEUE_EMPTY, None,
          unlockFifo f (setFifo f (\<lambda>l. l\<lparr>EvtPollingQueue := q\<rparr>) (setFifo f (\<lambda>l. l\<lparr>MutexHeld := True\<rparr>) w)))
       | e # es \<Rightarrow> (IOC_RESULT_SUCCESS, Some e,
          unlockFifo f (setFifo f (\<lambda>l. l\<lparr>EvtPollingQueue := q\<rparr>) (setFifo f (\<lambda>l. l\<lparr>MutexHeld := True\<rparr>) w))))) \<and>
    evtq_inv k q \<and> evtq_contents q = tl (evtq_contents (EvtPollingQueue l))"
proof (cases "evtq_contents (EvtPollingQueue l)")
  case Nil
  then show ?thesis using dequeue_empty [OF assms(3) Nil] assms
    by (auto simp: dequeue_evt_def lockFifo_def fderef_def)
next
  case (Cons e es)
  then show ?thesis using dequeue_first [OF assms(3) Cons] assms
    by (auto simp: dequeue_evt_def lockFifo_def fderef_def)
qed


section \<open>Polling runs\<close>

text \<open>\<open>poll_pair w link f p link2 k sub cs\<close>: \<open>link\<close> is connected to \<open>link2\<close>, which polls: it has no
  callback, is subscribed with \<open>sub\<close>, and has the events \<open>cs\<close> in its queue.\<close>

definition poll_pair :: "'x fifo_world \<Rightarrow> nat \<Rightarrow> nat \<Rightarrow> nat \<Rightarrow> nat \<Rightarrow> nat \<Rightarrow> IOC_SubEvtArgs_T \<Rightarrow>
  IOC_EvtDesc_T list \<Rightarrow> bool" where
  "poll_pair w link f p link2 k sub cs \<longleftrightarrow> connected w link f p \<and> priv_end w link2 = Some p \<and>
     SubEvtArgs (the_end w p) = sub \<and> CbProcEvt_F sub = None \<and>
     evtq_inv k (EvtPollingQueue (the_end w p)) \<and> evtq_contents (EvtPollingQueue (the_end w p)) = cs"

definition subscribed :: "IOC_SubEvtArgs_T \<Rightarrow> IOC_EvtDesc_T \<Rightarrow> bool" where
  "subscribed a e \<longleftrightarrow> EvtID e \<in> set (take (unat (EvtNum a)) (pEvtIDs a))"

lemma poll_pair_update:
  assumes "poll_pair w link f p link2 j sub cs" "LinkHeap w' = LinkHeap w"
    "FifoLinks (proto w') = (FifoLinks (proto w))(p := Some l)"
    "SubEvtArgs l = sub" "\<not> MutexHeld l" "evtq_inv k (EvtPollingQueue l)"
  shows "poll_pair w' link f p link2 k sub (evtq_contents (EvtPollingQueue l))"
  using assms by (auto simp: poll_pair_def connected_def priv_end_def the_end_def)

lemma post_poll_step:
  assumes pp: "poll_pair w link f p link2 (Suc k) sub cs" and "subscribed sub e"
  shows "\<exists>w'. postEvt_ofProtoFifo cb link e w = Done (IOC_RESULT_SUCCESS, w') \<and>
    poll_pair w' link f p link2 k sub (if length cs < 64 then cs @ [e] else cs)"
proof -
  have c: "connected w link f p" and nocb: "CbProcEvt_F (SubEvtArgs (the_end w p)) = None"
    using pp by (auto simp: poll_pair_def)
  from c obtain l pl where e: "p \<noteq> f" "FifoLinks (proto w) f = Some l" "\<not> MutexHeld l"
    "FifoLinks (proto w) p = Some pl" "\<not> MutexHeld pl" "the_end w p = pl"
    by (rule connectedE)
  have lp: "FifoLinks (proto (locked_pair f p w)) p = Some (pl\<lparr>MutexHeld := True\<rparr>)" using e by simp
  have q0: "evtq_inv (Suc k) (EvtPollingQueue (pl\<lparr>MutexHeld := True\<rparr>))"
    "evtq_contents (EvtPollingQueue (pl\<lparr>MutexHeld := True\<rparr>)) = cs" "SubEvtArgs pl = sub"
    using pp e by (simp_all add: poll_pair_def)
  obtain q where q: "post_enqueue e p (locked_pair f p w) =
      Done (1, setFifo p (\<lambda>l. l\<lparr>EvtPollingQueue := q\<rparr>) (locked_pair f p w))"
    "evtq_inv k q" "evtq_contents q = (if length cs < 64 then cs @ [e] else cs)"
    using post_enqueue_spec [OF lp q0(1), of e] assms(2) q0 by (auto simp: subscribed_def)
  let ?w' = "unlockFifo f (unlockFifo p (setFifo p (\<lambda>l. l\<lparr>EvtPollingQueue := q\<rparr>) (locked_pair f p w)))"
  have "postEvt_ofProtoFifo cb link e w = Done (IOC_RESULT_SUCCESS, ?w')"
    using postEvt_connected [OF c] nocb q(1) by simp
  moreover have "FifoLinks (proto ?w') = (FifoLinks (proto w))(p := Some (pl\<lparr>EvtPollingQueue := q\<rparr>))"
    using e by (auto simp: fun_eq_iff)
  moreover have "LinkHeap ?w' = LinkHeap w" using e(1) by simp
  ultimately show ?thesis
    using poll_pair_update [OF pp, of ?w' "pl\<lparr>EvtPollingQueue := q\<rparr>" k] q e q0 by auto
qed

lemma pull_poll_step:
  assumes pp: "poll_pair w link f p link2 k sub (e # es)"
  shows "\<exists>w'. pullEvt_ofProtoFifo st turns link2 opt w = Done (IOC_RESULT_SUCCESS, Some e, w') \<and>
    poll_pair w' link f p link2 k sub es"
proof -
  have c: "connected w link f p" and p2: "priv_end w link2 = Some p"
    using pp by (auto simp: poll_pair_def)
  from c obtain l pl where e: "p \<noteq> f" "FifoLinks (proto w) f = Some l" "\<not> MutexHeld l"
    "FifoLinks (proto w) p = Some pl" "\<not> MutexHeld pl" "the_end w p = pl"
    by (rule connectedE)
  let ?w1 = "setFifo p (\<lambda>l. l\<lparr>IsEvtPollingActive := True\<rparr>) w"
  have q0: "evtq_inv k (EvtPollingQueue pl)" "evtq_contents (EvtPollingQueue pl) = e # es" "SubEvtArgs pl = sub"
    using pp e by (simp_all add: poll_pair_def)
  have lp: "FifoLinks (proto ?w1) p = Some (pl\<lparr>IsEvtPollingActive := True\<rparr>)" using e by simp
  obtain q where q: "dequeue_evt p ?w1 = Done (IOC_RESULT_SUCCESS, Some e,
      unlockFifo p (setFifo p (\<lambda>l. l\<lparr>EvtPollingQueue := q\<rparr>) (setFifo p (\<lambda>l. l\<lparr>MutexHeld := True\<rparr>) ?w1)))"
    "evtq_inv k q" "evtq_contents q = es"
    using dequeue_evt_spec [OF lp, of k] q0 e by auto
  let ?w' = "unlockFifo p (setFifo p (\<lambda>l. l\<lparr>EvtPollingQueue := q\<rparr>) (setFifo p (\<lambda>l. l\<lparr>MutexHeld := True\<rparr>) ?w1))"
  let ?l' = "pl\<lparr>IsEvtPollingActive := True, EvtPollingQueue := q, MutexHeld := False\<rparr>"
  have "pullEvt_ofProtoFifo st turns link2 opt w = Done (IOC_RESULT_SUCCESS, Some e, ?w')"
    using p2 q(1) by (auto simp: pullEvt_ofProtoFifo_def deref_def priv_end_def Let_def split: option.splits)
  moreover have "FifoLinks (proto ?w') = (FifoLinks (proto w))(p := Some ?l')"
    using e by (auto simp: fun_eq_iff)
  ultimately show ?thesis
    using poll_pair_update [OF pp, of ?w' ?l' k] q e q0 by auto
qed

fun post_events :: "'x evt_callback \<Rightarrow> nat \<Rightarrow> IOC_EvtDesc_T list \<Rightarrow> 'x fifo_world \<Rightarrow>
  (IOC_Result_T list \<times> 'x fifo_world) outcome" where
  "post_events cb link [] w = Done ([], w)"
| "post_events cb link (e # es) w = bindO (postEvt_ofProtoFifo cb link e w) (\<lambda>(r, w1).
     bindO (post_events cb link es w1) (\<lambda>(rs, w2). Done (r # rs, w2)))"

fun pull_events :: "nat \<Rightarrow> nat \<Rightarrow> IOC_Options_T option \<Rightarrow> 'x fifo_world \<Rightarrow>
  (IOC_EvtDesc_T option list \<times> 'x fifo_world) outcome" where
  "pull_events 0 link opt w = Done ([], w)"
| "pull_events (Suc n) link opt w = bindO (pullEvt_ofProtoFifo time0 [] link opt w) (\<lambda>(r, e, w1).
     bindO (pull_events n link opt w1) (\<lambda>(es, w2). Done (e # es, w2)))"

lemma post_events_run:
  "poll_pair w link f p link2 (length es + k) sub cs \<Longrightarrow> length cs \<le> 64 \<Longrightarrow> \<forall>e\<in>set es. subscribed sub e \<Longrightarrow>
   \<exists>w'. post_events cb link es w = Done (replicate (length es) IOC_RESULT_SUCCESS, w') \<and>
     poll_pair w' link f p link2 k sub (take 64 (cs @ es))"
proof (induction es arbitrary: w cs)
  case Nil
  then show ?case by simp
next
  case (Cons e es)
  obtain w1 where 1: "postEvt_ofProtoFifo cb link e w = Done (IOC_RESULT_SUCCESS, w1)"
    "poll_pair w1 link f p link2 (length es + k) sub (if length cs < 64 then cs @ [e] else cs)"
    using post_poll_step [of w link f p link2 "length es + k" sub cs e cb] Cons.prems by auto
  have "take 64 ((if length cs < 64 then cs @ [e] else cs) @ es) = take 64 (cs @ e # es)"
  proof (cases "length cs < 64")
    case True
    then have "64 - length cs = Suc (63 - length cs)" by simp
    then show ?thesis using True by simp
  qed simp
  moreover have "length (if length cs < 64 then cs @ [e] else cs) \<le> 64" using Cons.prems(2) by simp
  moreover have "\<forall>e\<in>set es. subscribed sub e" using Cons.prems(3) by simp
  ultimately obtain w2 where "post_events cb link es w1 = Done (replicate (length es) IOC_RESULT_SUCCESS, w2)"
    "poll_pair w2 link f p link2 k sub (take 64 (cs @ e # es))"
    using Cons.IH [OF 1(2)] by auto
  then show ?case using 1(1) by auto
qed

lemma pull_events_run:
  "poll_pair w link f p link2 k sub cs \<Longrightarrow>
   \<exists>w'. pull_events (length cs) link2 opt w = Done (map Some cs, w') \<and> poll_pair w' link f p link2 k sub []"
proof (induction cs arbitrary: w)
  case Nil
  then show ?case by simp
next
  case (Cons e es)
  from pull_poll_step [OF Cons.prems, of time0 "[]" opt] obtain w1 where
    1: "pullEvt_ofProtoFifo time0 [] link2 opt w = Done (IOC_RESULT_SUCCESS, Some e, w1)"
       "poll_pair w1 link f p link2 k sub es" by blast
  then show ?case using Cons.IH [OF 1(2)] by auto
qed


section \<open>Properties\<close>

text \<open>C20: Posting to a peer with a callback runs the callback once for every occurrence of the event's
  identifier in the subscription, with both links' mutexes held, and reports success if there was
  one, no consumer otherwise; the link objects are as before if the callback leaves them alone.\<close>

theorem fifo_post_runs_callback:
  assumes "connected w link f p" and sub: "SubEvtArgs (the_end w p) = a" "CbProcEvt_F a = Some F"
    "length (pEvtIDs a) = unat (EvtNum a)" "unat (EvtNum a) < 2 ^ 31"
    and cb: "\<forall>w. cb F (pCbPrivData a) e w = Done (upd w) \<and> FifoLinks (proto (upd w)) = FifoLinks (proto w)"
  shows "\<exists>w'. postEvt_ofProtoFifo cb link e w =
      Done (if occurrences e a 0 > 0 then IOC_RESULT_SUCCESS else IOC_RESULT_NO_EVENT_CONSUMER, w') \<and>
    w' = unlockFifo f (unlockFifo p ((upd ^^ occurrences e a 0) (locked_pair f p w))) \<and>
    FifoLinks (proto w') = FifoLinks (proto w)"
proof -
  from assms(1) obtain pl where e: "p \<noteq> f" "FifoLinks (proto w) p = Some pl" "the_end w p = pl"
    by (rule connectedE)
  have lp: "FifoLinks (proto (locked_pair f p w)) p = Some (pl\<lparr>MutexHeld := True\<rparr>)" using e by simp
  have a: "SubEvtArgs (pl\<lparr>MutexHeld := True\<rparr>) = a" using sub(1) e by simp
  have loop: "post_loop cb F e p 0 (locked_pair f p w) =
      Done (occurrences e a 0, (upd ^^ occurrences e a 0) (locked_pair f p w))"
    using post_loop_runs [OF lp, unfolded a, OF sub(3,4), of 0 cb F e upd] cb by (simp add: Let_def)
  have keep: "FifoLinks (proto ((upd ^^ n) w0)) = FifoLinks (proto w0)" for n w0
    using cb by (induction n) simp_all
  show ?thesis
    using postEvt_connected [OF assms(1), of cb e] sub loop unlocked_again [OF assms(1) keep] by simp
qed

text \<open>An event callback that posts, in its turn, on the link it was called for never returns: its
  link's mutex is held by the post that runs it.\<close>

theorem fifo_post_reentrant_blocks:
  assumes "connected w link f p" and sub: "SubEvtArgs (the_end w p) = a" "CbProcEvt_F a = Some F"
    "0 < unat (EvtNum a)" "pEvtIDs a ! 0 = EvtID e"
    and "priv_end w link2 = Some p"
    and cb: "\<forall>w. cb F (pCbPrivData a) e w = bindO (postEvt_ofProtoFifo cb2 link2 e2 w) (\<lambda>(_, w'). Done w')"
  shows "postEvt_ofProtoFifo cb link e w = Block"
proof -
  from assms(1) obtain pl where e: "p \<noteq> f" "FifoLinks (proto w) p = Some pl" "the_end w p = pl"
    by (rule connectedE)
  let ?w = "locked_pair f p w"
  have lp: "FifoLinks (proto ?w) p = Some (pl\<lparr>MutexHeld := True\<rparr>)" using e by simp
  have "postEvt_ofProtoFifo cb2 link2 e2 ?w = Block"
    using assms(6) e by (auto simp: postEvt_ofProtoFifo_def deref_def priv_end_def lockFifo_def fderef_def
        split: option.splits)
  then have "post_loop cb F e p 0 ?w = Block"
    using post_loop_step [OF lp, of 0 cb F e] sub e cb by simp
  then show ?thesis using postEvt_connected [OF assms(1), of cb e] sub by simp
qed

text \<open>C21: A link that polls gets the events in the order they were posted; every post reports success,
  and those that find 64 events in the queue are lost.  A pull from the empty queue that must not block
  reports that no event is pending, as the public header says; the comment of the function names another
  result, \<^verbatim>\<open>IOC_RESULT_NO_EVENT_CONSUMER\<close>.\<close>

theorem fifo_poll_in_order:
  assumes "poll_pair w link f p link2 (length es + k) sub []" "\<forall>e\<in>set es. subscribed sub e"
  shows "\<exists>w1 w2. post_events cb link es w = Done (replicate (length es) IOC_RESULT_SUCCESS, w1) \<and>
    pull_events (min 64 (length es)) link2 (Some opt_NonBlock) w1 = Done (map Some (take 64 es), w2) \<and>
    (\<exists>w3. pullEvt_ofProtoFifo st turns link2 (Some opt_NonBlock) w2 = Done (IOC_RESULT_NO_EVENT_PENDING, None, w3))"
proof -
  from post_events_run [OF assms(1) _ assms(2), of cb] obtain w1 where
    1: "post_events cb link es w = Done (replicate (length es) IOC_RESULT_SUCCESS, w1)"
       "poll_pair w1 link f p link2 k sub (take 64 es)" by auto
  from pull_events_run [OF 1(2), of "Some opt_NonBlock"] obtain w2 where
    2: "pull_events (min 64 (length es)) link2 (Some opt_NonBlock) w1 = Done (map Some (take 64 es), w2)"
       "poll_pair w2 link f p link2 k sub []" by (auto simp: min.commute)
  have c: "connected w2 link f p" and p2: "priv_end w2 link2 = Some p"
    and q: "evtq_inv k (EvtPollingQueue (the_end w2 p))" "evtq_contents (EvtPollingQueue (the_end w2 p)) = []"
    using 2(2) by (auto simp: poll_pair_def)
  from c obtain pl where e: "FifoLinks (proto w2) p = Some pl" "\<not> MutexHeld pl" "the_end w2 p = pl"
    by (rule connectedE)
  let ?w1 = "setFifo p (\<lambda>l. l\<lparr>IsEvtPollingActive := True\<rparr>) w2"
  have lp: "FifoLinks (proto ?w1) p = Some (pl\<lparr>IsEvtPollingActive := True\<rparr>)" using e by simp
  obtain w4 where "dequeue_evt p ?w1 = Done (IOC_RESULT_EVTDESC_QUEUE_EMPTY, None, w4)"
    using dequeue_evt_spec [OF lp, of k] q e by auto
  then have "\<exists>w3. pullEvt_ofProtoFifo st turns link2 (Some opt_NonBlock) w2 = Done (IOC_RESULT_NO_EVENT_PENDING, None, w3)"
    using p2 by (auto simp: pullEvt_ofProtoFifo_def deref_def priv_end_def IOC_Option_isNonBlockMode_def
        opt_NonBlock_def IOC_OPTID_TIMEOUT_def Let_def split: option.splits)
  then show ?thesis using 1(1) 2(1) by blast
qed

text \<open>C22: Closing a link while another thread holds the mutex of its peer (it receives, polls or sends at
  that moment) leaves the peer's pointer to the freed object in place: the next event the peer
  posts follows a dangling pointer.\<close>

theorem close_under_contention_dangles:
  assumes "connected w link f p" "EvtDescQueue_isEmpty (EvtPollingQueue (the_end w f))"
    "priv_end w link2 = Some p" "pPeer (the_end w p) = Some f"
  shows "\<exists>w'. closeLink_ofProtoFifo True link (setFifo p (\<lambda>l. l\<lparr>MutexHeld := True\<rparr>) w) = Done (IOC_RESULT_SUCCESS, w') \<and>
    pPeer (the_end w' p) = Some f \<and> FifoLinks (proto w') f = None \<and>
    postEvt_ofProtoFifo cb link2 e (unlockFifo p w') = Abort"
proof -
  from assms(1) obtain lk l pl where e: "LinkHeap w link = Some lk" "pProtoPriv lk = Some f" "p \<noteq> f"
    "FifoLinks (proto w) f = Some l" "\<not> MutexHeld l" "pPeer l = Some p"
    "FifoLinks (proto w) p = Some pl" "the_end w p = pl" "the_end w f = l"
    by (rule connectedE)
  let ?w = "setFifo p (\<lambda>l. l\<lparr>MutexHeld := True\<rparr>) w"
  let ?w' = "free_fifo_link f (unlockFifo f (setFifo f (\<lambda>l. l\<lparr>pPeer := None\<rparr>) (setFifo f (\<lambda>l. l\<lparr>MutexHeld := True\<rparr>) ?w)))"
  have "closeLink_ofProtoFifo True link ?w = Done (IOC_RESULT_SUCCESS, ?w')"
    using e assms(2) by (simp add: closeLink_ofProtoFifo_def closeLink_locked_def deref_def lockFifo_def fderef_def Let_def
        EvtDescQueue_deinitOne_def EvtDescQueue_isEmpty_def)
  moreover have "FifoLinks (proto ?w') f = None" "FifoLinks (proto ?w') p = Some (pl\<lparr>MutexHeld := True\<rparr>)"
    using e by auto
  moreover have "postEvt_ofProtoFifo cb link2 e (unlockFifo p ?w') = Abort"
    using assms(3,4) e by (auto simp: postEvt_ofProtoFifo_def deref_def priv_end_def lockFifo_def fderef_def
        split: option.splits)
  ultimately show ?thesis using assms(4) e by (intro exI [of _ ?w']) (simp add: the_end_def)
qed

section \<open>Witnesses\<close>

lemma connected_pair_ok:
  assumes "\<And>l. pPeer (g l) = pPeer l" "\<And>l. MutexHeld (g l) = MutexHeld l" "\<And>l. pProtoPriv (h0 l) = pProtoPriv l"
    "\<And>l. pProtoPriv (h1 l) = pProtoPriv l"
  shows "connected (connected_pair g h0 h1) 0 1 2" "priv_end (connected_pair g h0 h1) 1 = Some 2"
    "the_end (connected_pair g h0 h1) 2 = g ((fresh_fifo_link 1 fresh_PollingBuffer fresh_batch)\<lparr>pPeer := Some 1\<rparr>)"
    "the_end (connected_pair g h0 h1) 1 = (fresh_fifo_link 0 fresh_PollingBuffer fresh_batch)\<lparr>pPeer := Some 2\<rparr>"
    "pPeer (the_end (connected_pair g h0 h1) 2) = Some 1"
  using assms by (auto simp: connected_def priv_end_def the_end_def connected_pair_def fresh_fifo_link_def)

definition sub_seven :: "nat option \<Rightarrow> IOC_SubEvtArgs_T" where
  "sub_seven F = \<lparr>CbProcEvt_F = F, pCbPrivData = 5, EvtNum = 2, pEvtIDs = [7, 7]\<rparr>"

definition event_seven :: IOC_EvtDesc_T where "event_seven = zero_evt\<lparr>EvtID := 7\<rparr>"

definition seven_world :: "nat option \<Rightarrow> fifo_state ioc_world" where
  "seven_world F = connected_pair (\<lambda>l. l\<lparr>SubEvtArgs := sub_seven F\<rparr>) id id"

lemma seven_world_ok:
  "connected (seven_world F) 0 1 2" "priv_end (seven_world F) 1 = Some 2"
  "SubEvtArgs (the_end (seven_world F) 2) = sub_seven F" "pPeer (the_end (seven_world F) 2) = Some 1"
  "EvtPollingQueue (the_end (seven_world F) 2) = EvtDescQueue_initOne"
  "EvtPollingQueue (the_end (seven_world F) 1) = EvtDescQueue_initOne"
  unfolding seven_world_def
  using connected_pair_ok [of "\<lambda>l. l\<lparr>SubEvtArgs := sub_seven F\<rparr>" id id] by (auto simp: fresh_fifo_link_def)

theorem fifo_post_runs_callback_witness:
  "\<exists>w'. postEvt_ofProtoFifo (\<lambda>F priv e w. Done (w\<lparr>auto_log := auto_log w @ [(F, EvtID e, 0, priv)]\<rparr>)) 0 event_seven
      (seven_world (Some 3)) = Done (IOC_RESULT_SUCCESS, w') \<and>
    FifoLinks (proto w') = FifoLinks (proto (seven_world (Some 3)))"
proof -
  have "occurrences event_seven (sub_seven (Some 3)) 0 = 2"
    by (simp add: occurrences_def event_seven_def sub_seven_def)
  then show ?thesis
    using fifo_post_runs_callback [OF seven_world_ok(1,3), of _ 3
      "\<lambda>F priv e w. Done (w\<lparr>auto_log := auto_log w @ [(F, EvtID e, 0, priv)]\<rparr>)" event_seven
      "\<lambda>w. w\<lparr>auto_log := auto_log w @ [(3, EvtID event_seven, 0, 5)]\<rparr>"]
    by (auto simp: sub_seven_def)
qed

theorem fifo_post_reentrant_witness:
  "postEvt_ofProtoFifo (\<lambda>F priv e w. bindO (postEvt_ofProtoFifo (\<lambda>_ _ _ _. Abort) 1 event_seven w) (\<lambda>(_, w'). Done w'))
     0 event_seven (seven_world (Some 3)) = Block"
  by (rule fifo_post_reentrant_blocks [OF seven_world_ok(1,3) _ _ _ seven_world_ok(2), of _ _ _ _
        "\<lambda>_ _ _ _. Abort" event_seven]) (simp_all add: sub_seven_def event_seven_def)

theorem fifo_poll_in_order_witness:
  "\<exists>w1 w2. post_events (\<lambda>_ _ _ _. Abort) 0 [event_seven, event_seven] (seven_world None) =
      Done ([IOC_RESULT_SUCCESS, IOC_RESULT_SUCCESS], w1) \<and>
    pull_events 2 1 (Some opt_NonBlock) w1 = Done ([Some event_seven, Some event_seven], w2)"
proof -
  have "poll_pair (seven_world None) 0 1 2 1 (length [event_seven, event_seven] + 0) (sub_seven None) []"
    using seven_world_ok [of None] by (simp add: poll_pair_def sub_seven_def)
  moreover have "\<forall>e\<in>set [event_seven, event_seven]. subscribed (sub_seven None) e"
    by (simp add: subscribed_def sub_seven_def event_seven_def)
  ultimately obtain w1 w2 where
    "post_events (\<lambda>_ _ _ _. Abort) 0 [event_seven, event_seven] (seven_world None) =
       Done (replicate 2 IOC_RESULT_SUCCESS, w1)"
    "pull_events (min 64 2) 1 (Some opt_NonBlock) w1 = Done (map Some (take 64 [event_seven, event_seven]), w2)"
    using fifo_poll_in_order [of "seven_world None" 0 1 2 1 "[event_seven, event_seven]" 0 "sub_seven None"
      "\<lambda>_ _ _ _. Abort" time0 "[]"] by (simp only: list.size) (auto simp: numeral_2_eq_2 simp del: post_events.simps pull_events.simps)
  then show ?thesis by (auto simp: numeral_2_eq_2 simp del: post_events.simps pull_events.simps)
qed

theorem close_under_contention_witness:
  "\<exists>w'. closeLink_ofProtoFifo True 0 (setFifo 2 (\<lambda>l. l\<lparr>MutexHeld := True\<rparr>) (seven_world None)) =
      Done (IOC_RESULT_SUCCESS, w') \<and>
    postEvt_ofProtoFifo (\<lambda>_ _ _ w. Done w) 1 event_seven (unlockFifo 2 w') = Abort"
  using close_under_contention_dangles [OF seven_world_ok(1) _ seven_world_ok(2,4), of None
      "\<lambda>_ _ _ w. Done w" event_seven]
  by (auto simp: seven_world_ok [simplified] EvtDescQueue_isEmpty_def EvtDescQueue_initOne_def)

end
