(* ===== verification/FifoCommand.thy ===== *)
theory FifoCommand
  imports FifoEvent
begin

text \<open>
  \<^verbatim>\<open>src/Source/_IOC_SrvProtoFifo.c\<close>, part three: commands.  An executor with a callback runs it in
  a thread of its own under a timeout; an executor without one is served by two circular queues of
  64 entries, commands on its own end and responses on the initiator's end.
\<close>

section \<open>The two queues of an end\<close>

definition cmdq_full :: "CmdPolling_T \<Rightarrow> bool" where
  "cmdq_full c \<longleftrightarrow> QueuedCmdNum c - ProcedCmdNum c \<ge> 64"

definition cmdq_put :: "IOC_CmdDesc_T \<Rightarrow> CmdPolling_T \<Rightarrow> CmdPolling_T" where
  "cmdq_put d c = c\<lparr>QueuedCmdDescs := (QueuedCmdDescs c)[unat (QueuedCmdNum c mod 64) := d],
     QueuedCmdNum := QueuedCmdNum c + 1\<rparr>"

definition cmdq_get :: "CmdPolling_T \<Rightarrow> IOC_CmdDesc_T \<times> CmdPolling_T" where
  "cmdq_get c = (QueuedCmdDescs c ! unat (ProcedCmdNum c mod 64), c\<lparr>ProcedCmdNum := ProcedCmdNum c + 1\<rparr>)"

definition respq_full :: "CmdPolling_T \<Rightarrow> bool" where
  "respq_full c \<longleftrightarrow> QueuedRespNum c - ProcedRespNum c \<ge> 64"

definition respq_put :: "IOC_CmdDesc_T \<Rightarrow> CmdPolling_T \<Rightarrow> CmdPolling_T" where
  "respq_put d c = c\<lparr>QueuedRespDescs := (QueuedRespDescs c)[unat (QueuedRespNum c mod 64) := d],
     QueuedRespNum := QueuedRespNum c + 1\<rparr>"

text \<open>The search of the response to a command: all entries up to the one found are consumed.\<close>

definition cmd_seq :: "IOC_CmdDesc_T \<Rightarrow> ULONG" where "cmd_seq d = SeqID (CmdMsgDesc d)"

definition respq_find :: "ULONG \<Rightarrow> CmdPolling_T \<Rightarrow> (IOC_CmdDesc_T \<times> CmdPolling_T) option" where
  "respq_find s c = (case find (\<lambda>i. cmd_seq (QueuedRespDescs c ! (i mod 64)) = s)
       [unat (ProcedRespNum c)..<unat (QueuedRespNum c)] of
     None \<Rightarrow> None
   | Some i \<Rightarrow> Some (QueuedRespDescs c ! (i mod 64), c\<lparr>ProcedRespNum := of_nat i + 1\<rparr>))"

definition setCmdPolling :: "nat \<Rightarrow> (CmdPolling_T \<Rightarrow> CmdPolling_T) \<Rightarrow> 'x fifo_world \<Rightarrow> 'x fifo_world" where
  "setCmdPolling f g w = setFifo f (\<lambda>l. l\<lparr>CmdPolling := g (CmdPolling l)\<rparr>) w"

section \<open>Executing\<close>

text \<open>The checks: the result when one fails, else the two ends, the executor's link and its usage
  arguments.  The peer pointer is read under the end's mutex.\<close>

definition exec_checks ::
  "nat \<Rightarrow> 'x fifo_world \<Rightarrow> (IOC_Result_T + (nat \<times> nat \<times> nat \<times> usage_args_union)) outcome" where
  "exec_checks link w = deref link w (\<lambda>lk.
     if \<not> has_usage (Usage lk) IOC_LinkUsageCmdInitiator then Done (Inl IOC_RESULT_INVALID_PARAM)
     else case pProtoPriv lk of
       None \<Rightarrow> Done (Inl IOC_RESULT_NOT_EXIST_LINK)
     | Some f \<Rightarrow> lockFifo f w (\<lambda>w1. fderef f w1 (\<lambda>l. case pPeer l of
         None \<Rightarrow> Done (Inl IOC_RESULT_NOT_EXIST_LINK)
       | Some p \<Rightarrow> fderef p w1 (\<lambda>pl. deref (pOwnerLinkObj pl) w1 (\<lambda>plk.
           if \<not> has_usage (Usage plk) IOC_LinkUsageCmdExecutor then Done (Inl IOC_RESULT_NO_CMD_EXECUTOR)
           else case UsageArgs plk of
             None \<Rightarrow> Done (Inl IOC_RESULT_NO_CMD_EXECUTOR)
           | Some u \<Rightarrow> Done (Inr (f, p, pOwnerLinkObj pl, u)))))))"

text \<open>Without a callback: number the command and queue a copy of it, marked as pending.\<close>

definition exec_poll_begin ::
  "nat \<Rightarrow> IOC_CmdDesc_T \<Rightarrow> 'x fifo_world \<Rightarrow> (IOC_Result_T \<times> IOC_CmdDesc_T \<times> 'x fifo_world) outcome" where
  "exec_poll_begin p d w =
    (let d1 = d\<lparr>CmdMsgDesc := (CmdMsgDesc d)\<lparr>SeqID := sequenceCounter (proto w)\<rparr>\<rparr>;
         w1 = w\<lparr>proto := (proto w)\<lparr>sequenceCounter := sequenceCounter (proto w) + 1\<rparr>\<rparr>;
         w2 = setCmdPolling p (\<lambda>c. c\<lparr>IsCmdPollingActive := True\<rparr>) w1
     in fderef p w2 (\<lambda>pl.
          if cmdq_full (CmdPolling pl) then Done (IOC_RESULT_TOO_MANY_QUEUING_EVTDESC, d1, w2)
          else Done (IOC_RESULT_SUCCESS, d1,
            setCmdPolling p (cmdq_put (d1\<lparr>Status := IOC_CMD_STATUS_PENDING\<rparr>)) w2)))"

text \<open>Then wait for the response; each turn is what the other threads do until a signal.\<close>

fun exec_poll_wait ::
  "nat \<Rightarrow> ('x fifo_world \<Rightarrow> 'x fifo_world) list \<Rightarrow> IOC_CmdDesc_T \<Rightarrow> 'x fifo_world \<Rightarrow>
   (IOC_CmdDesc_T \<times> 'x fifo_world) outcome" where
  "exec_poll_wait f turns d w = fderef f w (\<lambda>l. case respq_find (cmd_seq d) (CmdPolling l) of
     Some (resp, c) \<Rightarrow> Done (resp, setCmdPolling f (\<lambda>_. c) w)
   | None \<Rightarrow> (case turns of [] \<Rightarrow> Block | others # ts \<Rightarrow> exec_poll_wait f ts d (others w)))"

declare exec_poll_wait.simps [simp del]

text \<open>With a callback.  \<open>ce_in_time ms\<close>: it completes within so many milliseconds; then it has the
  effect \<open>ce_run\<close> on the descriptor and the world.  Otherwise it has done \<open>ce_late\<close> when it is
  cancelled and joined.  \<open>ce_thread\<close>: the thread was created.\<close>

record 'x cmd_env =
  ce_thread :: bool
  ce_in_time :: "ULONG \<Rightarrow> bool"
  ce_run :: "nat \<Rightarrow> nat \<Rightarrow> ULONG \<Rightarrow> IOC_CmdDesc_T \<times> 'x fifo_world \<Rightarrow> IOC_Result_T \<times> IOC_CmdDesc_T \<times> 'x fifo_world"
  ce_late :: "nat \<Rightarrow> nat \<Rightarrow> ULONG \<Rightarrow> IOC_CmdDesc_T \<times> 'x fifo_world \<Rightarrow> IOC_CmdDesc_T \<times> 'x fifo_world"

definition cmd_timeoutMs :: "IOC_Options_T option \<Rightarrow> IOC_CmdDesc_T \<Rightarrow> ULONG" where
  "cmd_timeoutMs opt d = (case opt of
     Some op \<Rightarrow> if IDs op AND IOC_OPTID_TIMEOUT \<noteq> 0 then TimeoutUS op div 1000
       else if TimeoutMs d > 0 then TimeoutMs d else 5000
   | None \<Rightarrow> if TimeoutMs d > 0 then TimeoutMs d else 5000)"

definition exec_callback ::
  "'x cmd_env \<Rightarrow> nat \<Rightarrow> nat \<Rightarrow> nat \<Rightarrow> IOC_Options_T option \<Rightarrow> IOC_CmdDesc_T \<Rightarrow> 'x fifo_world \<Rightarrow>
   (IOC_Result_T \<times> IOC_CmdDesc_T \<times> 'x fifo_world) outcome" where
  "exec_callback env F priv plink opt d w = deref plink w (\<lambda>plk.
     let w1 = setLink plink (\<lambda>l. l\<lparr>IsProcessing := True\<rparr>) w;
         d1 = d\<lparr>Status := IOC_CMD_STATUS_PROCESSING\<rparr>;
         (r, completed, d2, w2) =
           (if \<not> ce_thread env then (IOC_RESULT_BUG, False, d1, w1)
            else if ce_in_time env (cmd_timeoutMs opt d1) then
              let (r, d2, w2) = ce_run env F priv (ID plk) (d1, w1) in (r, True, d2, w2)
            else let (d2, w2) = ce_late env F priv (ID plk) (d1, w1) in (IOC_RESULT_TIMEOUT, False, d2, w2));
         w3 = setLink plink (\<lambda>l. l\<lparr>IsProcessing := False\<rparr>) w2;
         d3 = (if r = IOC_RESULT_TIMEOUT
               then d2\<lparr>Status := IOC_CMD_STATUS_TIMEOUT, CmdResult := IOC_RESULT_TIMEOUT\<rparr>
               else if r = IOC_RESULT_SUCCESS \<and> completed
               then d2\<lparr>Status := IOC_CMD_STATUS_SUCCESS, CmdResult := IOC_RESULT_SUCCESS\<rparr>
               else d2\<lparr>Status := IOC_CMD_STATUS_FAILED, CmdResult := r\<rparr>)
     in Done (r, d3, w3))"

definition execCmd_ofProtoFifo ::
  "'x cmd_env \<Rightarrow> ('x fifo_world \<Rightarrow> 'x fifo_world) list \<Rightarrow> nat \<Rightarrow> IOC_CmdDesc_T \<Rightarrow> IOC_Options_T option \<Rightarrow>
   'x fifo_world \<Rightarrow> (IOC_Result_T \<times> IOC_CmdDesc_T \<times> 'x fifo_world) outcome" where
  "execCmd_ofProtoFifo env turns link d opt w = bindO (exec_checks link w) (\<lambda>c. case c of
     Inl r \<Rightarrow> Done (r, d, w)
   | Inr (f, p, plink, u) \<Rightarrow> (case fst (as_callback u) of
       None \<Rightarrow> bindO (exec_poll_begin p d w) (\<lambda>(r, d1, w1).
         if r \<noteq> IOC_RESULT_SUCCESS then Done (r, d1, w1)
         else bindO (exec_poll_wait f turns d1 w1) (\<lambda>(d2, w2). Done (IOC_RESULT_SUCCESS, d2, w2)))
     | Some F \<Rightarrow> (case as_cmd_ids u of
         None \<Rightarrow> Abort
       | Some ids \<Rightarrow> if CmdID d \<in> set ids then exec_callback env F (snd (as_callback u)) plink opt d w
           else Done (IOC_RESULT_NOT_SUPPORT, d, w))))"

section \<open>Waiting and acknowledging\<close>

text \<open>Each turn of the wait: whether it timed out, and what the other threads did.\<close>

fun wait_loop ::
  "nat \<Rightarrow> ULONG \<Rightarrow> bool \<Rightarrow> (bool \<times> ('x fifo_world \<Rightarrow> 'x fifo_world)) list \<Rightarrow> 'x fifo_world \<Rightarrow>
   (IOC_Result_T \<times> 'x fifo_world) outcome" where
  "wait_loop f timeout nonblocking turns w = fderef f w (\<lambda>l.
     if QueuedCmdNum (CmdPolling l) \<noteq> ProcedCmdNum (CmdPolling l) then Done (IOC_RESULT_SUCCESS, w)
     else if nonblocking then Done (IOC_RESULT_NO_EVENT_PENDING, w)
     else case turns of [] \<Rightarrow> Block
       | (expired, others) # ts \<Rightarrow>
           if timeout \<noteq> IOC_TIMEOUT_INFINITE \<and> expired then Done (IOC_RESULT_TIMEOUT, others w)
           else wait_loop f timeout nonblocking ts (others w))"

declare wait_loop.simps [simp del]

definition waitCmd_ofProtoFifo ::
  "(bool \<times> ('x fifo_world \<Rightarrow> 'x fifo_world)) list \<Rightarrow> nat \<Rightarrow> IOC_Options_T option \<Rightarrow> 'x fifo_world \<Rightarrow>
   (IOC_Result_T \<times> IOC_CmdDesc_T option \<times> 'x fifo_world) outcome" where
  "waitCmd_ofProtoFifo turns link opt w = deref link w (\<lambda>lk.
     if \<not> has_usage (Usage lk) IOC_LinkUsageCmdExecutor then Done (IOC_RESULT_INVALID_PARAM, None, w)
     else case pProtoPriv lk of
       None \<Rightarrow> Done (IOC_RESULT_NOT_EXIST_LINK, None, w)
     | Some f \<Rightarrow> fderef f w (\<lambda>_.
         let w1 = setCmdPolling f (\<lambda>c. c\<lparr>IsCmdPollingActive := True\<rparr>) w
         in bindO (wait_loop f (IOC_Option_getTimeoutUS opt) (IOC_Option_isNonBlockMode opt) turns w1) (\<lambda>(r, w2).
              if r \<noteq> IOC_RESULT_SUCCESS then Done (r, None, w2)
              else fderef f w2 (\<lambda>l. let (d, c) = cmdq_get (CmdPolling l)
                in Done (IOC_RESULT_SUCCESS, Some (d\<lparr>Status := IOC_CMD_STATUS_PROCESSING\<rparr>),
                     setCmdPolling f (\<lambda>_. c) w2)))))"

definition ackCmd_ofProtoFifo ::
  "nat \<Rightarrow> IOC_CmdDesc_T \<Rightarrow> 'x fifo_world \<Rightarrow> (IOC_Result_T \<times> 'x fifo_world) outcome" where
  "ackCmd_ofProtoFifo link d w = deref link w (\<lambda>lk.
     if \<not> has_usage (Usage lk) IOC_LinkUsageCmdExecutor then Done (IOC_RESULT_INVALID_PARAM, w)
     else case pProtoPriv lk of
       None \<Rightarrow> Done (IOC_RESULT_NOT_EXIST_LINK, w)
     | Some f \<Rightarrow> lockFifo f w (\<lambda>w1. fderef f w1 (\<lambda>l. case pPeer l of
         None \<Rightarrow> Done (IOC_RESULT_NOT_EXIST_LINK, w)
       | Some p \<Rightarrow> fderef p w (\<lambda>pl.
           if respq_full (CmdPolling pl) then Done (IOC_RESULT_TOO_MANY_QUEUING_EVTDESC, w)
           else Done (IOC_RESULT_SUCCESS, setCmdPolling p (respq_put d) w)))))"


section \<open>The queues as lists\<close>

definition cmdq_inv :: "nat \<Rightarrow> CmdPolling_T \<Rightarrow> bool" where
  "cmdq_inv k c \<longleftrightarrow> cring_inv k (QueuedCmdDescs c) (QueuedCmdNum c) (ProcedCmdNum c)"
definition cmdq_contents :: "CmdPolling_T \<Rightarrow> IOC_CmdDesc_T list" where
  "cmdq_contents c = cring (QueuedCmdDescs c) (QueuedCmdNum c) (ProcedCmdNum c)"
definition respq_inv :: "nat \<Rightarrow> CmdPolling_T \<Rightarrow> bool" where
  "respq_inv k c \<longleftrightarrow> cring_inv k (QueuedRespDescs c) (QueuedRespNum c) (ProcedRespNum c)"
definition respq_contents :: "CmdPolling_T \<Rightarrow> IOC_CmdDesc_T list" where
  "respq_contents c = cring (QueuedRespDescs c) (QueuedRespNum c) (ProcedRespNum c)"

lemmas queue_defs = cmdq_inv_def cmdq_contents_def respq_inv_def respq_contents_def

lemma cmdq_full_iff: "cmdq_inv k c \<Longrightarrow> cmdq_full c \<longleftrightarrow> length (cmdq_contents c) = 64"
  using cring_count(2,4) [of k "QueuedCmdDescs c"] by (fastforce simp: queue_defs cmdq_full_def)

lemma respq_full_iff: "respq_inv k c \<Longrightarrow> respq_full c \<longleftrightarrow> length (respq_contents c) = 64"
  using cring_count(2,4) [of k "QueuedRespDescs c"] by (fastforce simp: queue_defs respq_full_def)

lemma cmdq_put_spec:
  "cmdq_inv (Suc k) c \<Longrightarrow> length (cmdq_contents c) < 64 \<Longrightarrow>
   cmdq_inv k (cmdq_put d c) \<and> cmdq_contents (cmdq_put d c) = cmdq_contents c @ [d]"
  by (simp add: queue_defs cmdq_put_def cring_put)

lemma respq_put_spec:
  "respq_inv (Suc k) c \<Longrightarrow> length (respq_contents c) < 64 \<Longrightarrow>
   respq_inv k (respq_put d c) \<and> respq_contents (respq_put d c) = respq_contents c @ [d]"
  by (simp add: queue_defs respq_put_def cring_put)

lemma cmdq_get_spec:
  assumes "cmdq_inv k c" "cmdq_contents c = d # ds"
  shows "\<exists>c'. cmdq_get c = (d, c') \<and> cmdq_inv k c' \<and> cmdq_contents c' = ds"
  using cring_get [OF assms [unfolded queue_defs]] by (simp add: queue_defs cmdq_get_def)

text \<open>The command queue as the bounded queue interface sees it.\<close>

definition cmdq_enq :: "IOC_CmdDesc_T \<Rightarrow> CmdPolling_T \<Rightarrow> (bool \<times> CmdPolling_T) outcome" where
  "cmdq_enq d c = (if cmdq_full c then Done (False, c) else Done (True, cmdq_put d c))"

definition cmdq_deq :: "CmdPolling_T \<Rightarrow> (IOC_CmdDesc_T option \<times> CmdPolling_T) outcome" where
  "cmdq_deq c = (if QueuedCmdNum c = ProcedCmdNum c then Done (None, c)
     else let (d, c') = cmdq_get c in Done (Some d, c'))"

interpretation cmdq: bounded_queue cmdq_inv cmdq_contents 64 cmdq_enq cmdq_deq
proof (unfold_locales, goal_cases)
  case (1 k q)
  then show ?case using cring_count(4) [of k] by (simp add: queue_defs)
next
  case (2 k q x)
  then show ?case using cmdq_full_iff [of "Suc k" q] cmdq_put_spec [of k q x] by (simp add: cmdq_enq_def)
next
  case (3 k q x)
  then show ?case using cmdq_full_iff [of k q] by (simp add: cmdq_enq_def)
next
  case (4 k q)
  then have "QueuedCmdNum q = ProcedCmdNum q" using cring_count(3) [of k] by (auto simp: queue_defs)
  then show ?case by (simp add: cmdq_deq_def)
next
  case (5 k q x xs)
  then show ?case using cmdq_get_spec [of k q x xs] cring_count(3) [of k "QueuedCmdDescs q"]
    by (fastforce simp: queue_defs cmdq_deq_def)
next
  case (6 k q)
  then show ?case by (auto simp: queue_defs intro: cring_mono)
qed

text \<open>The search consumes everything up to the response it finds.\<close>

lemma find_map_comp: "find P (map h xs) = map_option h (find (\<lambda>x. P (h x)) xs)"
  by (induction xs) auto

lemma find_upt:
  "find P [a..<a + n] = map_option (\<lambda>i. a + i) (find (\<lambda>i. P (a + i)) [0..<n])"
proof -
  have "[a..<a + n] = map (\<lambda>i. a + i) [0..<n]" by (simp add: map_add_upt add.commute)
  then show ?thesis by (simp add: find_map_comp)
qed

lemma respq_find_spec:
  assumes "respq_inv k c"
  shows "respq_find s c = (case find (\<lambda>i. cmd_seq (respq_contents c ! i) = s) [0..<length (respq_contents c)] of
      None \<Rightarrow> None
    | Some i \<Rightarrow> Some (respq_contents c ! i, c\<lparr>ProcedRespNum := ProcedRespNum c + of_nat (Suc i)\<rparr>))"
proof -
  let ?p = "unat (ProcedRespNum c)" and ?n = "length (respq_contents c)"
  have i: "length (QueuedRespDescs c) = 64" "?p \<le> unat (QueuedRespNum c)"
    "?n = unat (QueuedRespNum c) - ?p"
    using assms by (simp_all add: queue_defs cring_inv_def length_cring)
  have nth: "QueuedRespDescs c ! ((?p + j) mod 64) = respq_contents c ! j" if "j < ?n" for j
    using nth_cring [of j "QueuedRespNum c" "ProcedRespNum c" "QueuedRespDescs c"] that i
    by (simp add: respq_contents_def)
  have up: "[?p..<unat (QueuedRespNum c)] = [?p..<?p + ?n]" using i by simp
  have "find (\<lambda>i. cmd_seq (QueuedRespDescs c ! (i mod 64)) = s) [?p..<unat (QueuedRespNum c)] =
      map_option (\<lambda>i. ?p + i) (find (\<lambda>i. cmd_seq (QueuedRespDescs c ! ((?p + i) mod 64)) = s) [0..<?n])"
    unfolding up by (rule find_upt)
  also have "find (\<lambda>i. cmd_seq (QueuedRespDescs c ! ((?p + i) mod 64)) = s) [0..<?n] =
      find (\<lambda>i. cmd_seq (respq_contents c ! i) = s) [0..<?n]"
    using nth by (intro find_cong) auto
  finally have f: "find (\<lambda>i. cmd_seq (QueuedRespDescs c ! (i mod 64)) = s) [?p..<unat (QueuedRespNum c)] =
      map_option (\<lambda>i. ?p + i) (find (\<lambda>i. cmd_seq (respq_contents c ! i) = s) [0..<?n])" .
  show ?thesis
  proof (cases "find (\<lambda>i. cmd_seq (respq_contents c ! i) = s) [0..<?n]")
    case None
    then show ?thesis using f by (simp add: respq_find_def)
  next
    case (Some j)
    then have "j < ?n" by (auto simp: find_Some_iff)
    then show ?thesis using Some f nth by (simp add: respq_find_def add_ac)
  qed
qed

lemma respq_find_first:
  assumes "respq_inv k c" "respq_contents c = us @ r # vs" "cmd_seq r = s" "\<forall>u\<in>set us. cmd_seq u \<noteq> s"
  shows "\<exists>c'. respq_find s c = Some (r, c') \<and> respq_inv k c' \<and> respq_contents c' = vs"
proof -
  have "find (\<lambda>i. cmd_seq (respq_contents c ! i) = s) [0..<length (respq_contents c)] = Some (length us)"
    using assms(2-4) by (auto simp: find_Some_iff nth_append intro!: exI [of _ "length us"])
  then have "respq_find s c = Some (r, c\<lparr>ProcedRespNum := ProcedRespNum c + of_nat (Suc (length us))\<rparr>)"
    using respq_find_spec [OF assms(1), of s] assms(2) by (simp add: nth_append)
  moreover have "Suc (length us) \<le> length (respq_contents c)" using assms(2) by simp
  ultimately show ?thesis
    using cring_drop [OF assms(1) [unfolded respq_inv_def], of "Suc (length us)"] assms(2)
    by (auto simp: queue_defs simp del: of_nat_Suc)
qed

lemma respq_find_none:
  assumes "respq_inv k c" "\<forall>u\<in>set (respq_contents c). cmd_seq u \<noteq> s"
  shows "respq_find s c = None"
proof -
  have "find (\<lambda>i. cmd_seq (respq_contents c ! i) = s) [0..<length (respq_contents c)] = None"
    using assms(2) by (auto simp: find_None_iff)
  then show ?thesis using respq_find_spec [OF assms(1), of s] by simp
qed


section \<open>What the operations do\<close>

lemma setCmdPolling_sel [simp]:
  "FifoLinks (proto (setCmdPolling f g w)) = (FifoLinks (proto w))
     (f := map_option (\<lambda>l. l\<lparr>CmdPolling := g (CmdPolling l)\<rparr>) (FifoLinks (proto w) f))"
  "LinkHeap (setCmdPolling f g w) = LinkHeap w"
  "sequenceCounter (proto (setCmdPolling f g w)) = sequenceCounter (proto w)"
  by (simp_all add: setCmdPolling_def setFifo_def)

lemma polling_active_simps [simp]:
  "cmdq_inv k (c\<lparr>IsCmdPollingActive := b\<rparr>) = cmdq_inv k c"
  "cmdq_contents (c\<lparr>IsCmdPollingActive := b\<rparr>) = cmdq_contents c"
  "respq_inv k (c\<lparr>IsCmdPollingActive := b\<rparr>) = respq_inv k c"
  "respq_contents (c\<lparr>IsCmdPollingActive := b\<rparr>) = respq_contents c"
  "cmdq_full (c\<lparr>IsCmdPollingActive := b\<rparr>) = cmdq_full c"
  by (simp_all add: queue_defs cmdq_full_def)

text \<open>An end whose link may wait for and acknowledge commands.\<close>

definition executor_end :: "'x fifo_world \<Rightarrow> nat \<Rightarrow> nat \<Rightarrow> FifoLinkObject_T \<Rightarrow> bool" where
  "executor_end w link p pl \<longleftrightarrow> (\<exists>lk. LinkHeap w link = Some lk \<and> has_usage (Usage lk) IOC_LinkUsageCmdExecutor \<and>
     pProtoPriv lk = Some p) \<and> FifoLinks (proto w) p = Some pl"

lemma waitCmd_ready:
  assumes "executor_end w link p pl" "cmdq_inv k (CmdPolling pl)" "cmdq_contents (CmdPolling pl) = d # ds"
  shows "\<exists>c w'. waitCmd_ofProtoFifo turns link opt w =
      Done (IOC_RESULT_SUCCESS, Some (d\<lparr>Status := IOC_CMD_STATUS_PROCESSING\<rparr>), w') \<and>
    cmdq_inv k c \<and> cmdq_contents c = ds \<and> FifoLinks (proto w') = (FifoLinks (proto w))(p := Some (pl\<lparr>CmdPolling := c\<rparr>)) \<and>
    LinkHeap w' = LinkHeap w"
proof -
  obtain lk where lk: "LinkHeap w link = Some lk" "has_usage (Usage lk) IOC_LinkUsageCmdExecutor"
    "pProtoPriv lk = Some p" "FifoLinks (proto w) p = Some pl"
    using assms(1) by (auto simp: executor_end_def)
  let ?c1 = "(CmdPolling pl)\<lparr>IsCmdPollingActive := True\<rparr>"
  let ?w1 = "setCmdPolling p (\<lambda>c. c\<lparr>IsCmdPollingActive := True\<rparr>) w"
  obtain c where c: "cmdq_get ?c1 = (d, c)" "cmdq_inv k c" "cmdq_contents c = ds"
    using cmdq_get_spec [of k ?c1 d ds] assms(2,3) by auto
  have ne: "QueuedCmdNum (CmdPolling pl) \<noteq> ProcedCmdNum (CmdPolling pl)"
    using cring_count(3) [OF assms(2) [unfolded cmdq_inv_def]] assms(3) by (simp add: cmdq_contents_def)
  have "wait_loop p t nb turns ?w1 = Done (IOC_RESULT_SUCCESS, ?w1)" for t nb
    using ne lk(4) by (subst wait_loop.simps) (simp add: fderef_def)
  then have "waitCmd_ofProtoFifo turns link opt w = Done (IOC_RESULT_SUCCESS,
      Some (d\<lparr>Status := IOC_CMD_STATUS_PROCESSING\<rparr>), setCmdPolling p (\<lambda>_. c) ?w1)"
    using lk c(1) by (simp add: waitCmd_ofProtoFifo_def deref_def fderef_def Let_def)
  then show ?thesis using c(2,3) lk(4) by auto
qed

lemma ackCmd_room:
  assumes "executor_end w link p pl" "\<not> MutexHeld pl" "pPeer pl = Some f" "FifoLinks (proto w) f = Some l"
    "respq_inv k (CmdPolling l)" "length (respq_contents (CmdPolling l)) < 64"
  shows "ackCmd_ofProtoFifo link d w = Done (IOC_RESULT_SUCCESS, setCmdPolling f (respq_put d) w)"
  using assms respq_full_iff [OF assms(5)]
  by (auto simp: executor_end_def ackCmd_ofProtoFifo_def deref_def lockFifo_def fderef_def)

lemma exec_poll_begin_room:
  assumes "FifoLinks (proto w) p = Some pl" "cmdq_inv (Suc k) (CmdPolling pl)"
    "length (cmdq_contents (CmdPolling pl)) < 64"
  shows "\<exists>c w'. exec_poll_begin p d w = Done (IOC_RESULT_SUCCESS,
      d\<lparr>CmdMsgDesc := (CmdMsgDesc d)\<lparr>SeqID := sequenceCounter (proto w)\<rparr>\<rparr>, w') \<and>
    cmdq_inv k c \<and> cmdq_contents c = cmdq_contents (CmdPolling pl) @
      [d\<lparr>CmdMsgDesc := (CmdMsgDesc d)\<lparr>SeqID := sequenceCounter (proto w)\<rparr>, Status := IOC_CMD_STATUS_PENDING\<rparr>] \<and>
    FifoLinks (proto w') = (FifoLinks (proto w))(p := Some (pl\<lparr>CmdPolling := c\<rparr>)) \<and> LinkHeap w' = LinkHeap w"
proof -
  let ?c1 = "(CmdPolling pl)\<lparr>IsCmdPollingActive := True\<rparr>"
  let ?d = "d\<lparr>CmdMsgDesc := (CmdMsgDesc d)\<lparr>SeqID := sequenceCounter (proto w)\<rparr>, Status := IOC_CMD_STATUS_PENDING\<rparr>"
  have "cmdq_inv k (cmdq_put ?d ?c1)" "cmdq_contents (cmdq_put ?d ?c1) = cmdq_contents (CmdPolling pl) @ [?d]"
    using cmdq_put_spec [of k ?c1 ?d] assms(2,3) by simp_all
  moreover have "\<not> cmdq_full (CmdPolling pl)" using cmdq_full_iff [OF assms(2)] assms(3) by simp
  ultimately show ?thesis using assms(1) by (simp add: exec_poll_begin_def fderef_def Let_def) blast
qed

lemma exec_checks_ok:
  assumes "connected w link f p" "has_usage (role_of w link) IOC_LinkUsageCmdInitiator"
    "pOwnerLinkObj (the_end w p) = link2" "LinkHeap w link2 = Some lk2"
    "has_usage (Usage lk2) IOC_LinkUsageCmdExecutor" "UsageArgs lk2 = Some u"
  shows "exec_checks link w = Done (Inr (f, p, link2, u))"
  using assms by (auto elim!: connectedE simp: exec_checks_def deref_def lockFifo_def fderef_def role_of_def)

section \<open>Properties\<close>

text \<open>The polling executor: take a command, acknowledge it with a reply.\<close>

definition executor_turn :: "(IOC_CmdDesc_T \<Rightarrow> IOC_CmdDesc_T) \<Rightarrow> nat \<Rightarrow> 'x fifo_world \<Rightarrow> 'x fifo_world outcome" where
  "executor_turn reply link w = bindO (waitCmd_ofProtoFifo [] link None w) (\<lambda>(r, d, w1). case d of
     None \<Rightarrow> Done w1
   | Some d \<Rightarrow> bindO (ackCmd_ofProtoFifo link (reply d) w1) (\<lambda>(_, w2). Done w2))"

definition run_or_stay :: "('x fifo_world \<Rightarrow> 'x fifo_world outcome) \<Rightarrow> 'x fifo_world \<Rightarrow> 'x fifo_world" where
  "run_or_stay h w = (case h w of Done w' \<Rightarrow> w' | _ \<Rightarrow> w)"

text \<open>C7: Executing a command against a polling executor returns exactly the descriptor the executor
  acknowledges: if no command is queued before it, no older response carries its number, and the
  executor takes the command and acknowledges it with any descriptor of the same number while the
  initiator waits, the call returns success with that descriptor.  The executor sees the command
  with its number, in processing state.\<close>

theorem cmd_poll_roundtrip:
  assumes "connected w link f p" "has_usage (role_of w link) IOC_LinkUsageCmdInitiator"
    and ex: "pOwnerLinkObj (the_end w p) = link2" "LinkHeap w link2 = Some lk2" "pProtoPriv lk2 = Some p"
      "has_usage (Usage lk2) IOC_LinkUsageCmdExecutor" "UsageArgs lk2 = Some u" "fst (as_callback u) = None"
      "pPeer (the_end w p) = Some f"
    and q: "cmdq_inv 1 (CmdPolling (the_end w p))" "cmdq_contents (CmdPolling (the_end w p)) = []"
      "respq_inv 1 (CmdPolling (the_end w f))" "length (respq_contents (CmdPolling (the_end w f))) < 64"
      "\<forall>r\<in>set (respq_contents (CmdPolling (the_end w f))). cmd_seq r \<noteq> sequenceCounter (proto w)"
    and reply: "\<forall>x. cmd_seq (reply x) = cmd_seq x"
  shows "\<exists>w'. execCmd_ofProtoFifo env [run_or_stay (executor_turn reply link2)] link d opt w =
    Done (IOC_RESULT_SUCCESS, reply (d\<lparr>CmdMsgDesc := (CmdMsgDesc d)\<lparr>SeqID := sequenceCounter (proto w)\<rparr>,
      Status := IOC_CMD_STATUS_PROCESSING\<rparr>), w')"
proof -
  from assms(1) obtain l pl where e: "p \<noteq> f" "FifoLinks (proto w) f = Some l" "\<not> MutexHeld l"
    "FifoLinks (proto w) p = Some pl" "\<not> MutexHeld pl" "the_end w p = pl" "the_end w f = l"
    by (rule connectedE)
  let ?d1 = "d\<lparr>CmdMsgDesc := (CmdMsgDesc d)\<lparr>SeqID := sequenceCounter (proto w)\<rparr>\<rparr>"
  have seq: "cmd_seq ?d1 = sequenceCounter (proto w)" by (simp add: cmd_seq_def)
  obtain c w1 where 1: "exec_poll_begin p d w = Done (IOC_RESULT_SUCCESS, ?d1, w1)" "cmdq_inv 0 c"
      "cmdq_contents c = [?d1\<lparr>Status := IOC_CMD_STATUS_PENDING\<rparr>]"
      "FifoLinks (proto w1) = (FifoLinks (proto w))(p := Some (pl\<lparr>CmdPolling := c\<rparr>))" "LinkHeap w1 = LinkHeap w"
    using exec_poll_begin_room [OF e(4), of 0 d] q(1,2) e(6) by auto
  have x1: "executor_end w1 link2 p (pl\<lparr>CmdPolling := c\<rparr>)"
    using ex(2-4) 1(4,5) by (auto simp: executor_end_def)
  obtain c' w2 where 2: "waitCmd_ofProtoFifo [] link2 None w1 =
        Done (IOC_RESULT_SUCCESS, Some (?d1\<lparr>Status := IOC_CMD_STATUS_PROCESSING\<rparr>), w2)"
      "FifoLinks (proto w2) = (FifoLinks (proto w1))(p := Some (pl\<lparr>CmdPolling := c'\<rparr>))" "LinkHeap w2 = LinkHeap w1"
    using waitCmd_ready [OF x1, of 0 "?d1\<lparr>Status := IOC_CMD_STATUS_PENDING\<rparr>" "[]" "[]" None] 1(2,3) by auto
  let ?r = "reply (?d1\<lparr>Status := IOC_CMD_STATUS_PROCESSING\<rparr>)"
  have f2: "FifoLinks (proto w2) f = Some l" using 2(2) 1(4) e by auto
  have x2: "executor_end w2 link2 p (pl\<lparr>CmdPolling := c'\<rparr>)"
    using ex(2-4) 1(5) 2(2,3) by (auto simp: executor_end_def)
  have 3: "ackCmd_ofProtoFifo link2 ?r w2 = Done (IOC_RESULT_SUCCESS, setCmdPolling f (respq_put ?r) w2)"
    using ackCmd_room [OF x2 _ _ f2, of 1] e(5,6,7) ex(7) q(3,4) by simp
  let ?w3 = "setCmdPolling f (respq_put ?r) w2"
  have turn: "run_or_stay (executor_turn reply link2) w1 = ?w3"
    using 2(1) 3 by (simp add: run_or_stay_def executor_turn_def)
  have none: "respq_find (cmd_seq ?d1) (CmdPolling l) = None"
    using respq_find_none [OF q(3)] q(5) e(7) seq by simp
  have put: "respq_inv 0 (respq_put ?r (CmdPolling l))"
    "respq_contents (respq_put ?r (CmdPolling l)) = respq_contents (CmdPolling l) @ [?r]"
    using respq_put_spec [of 0 "CmdPolling l" ?r] q(3,4) e(7) by simp_all
  have rs: "cmd_seq ?r = cmd_seq ?d1" using reply by (simp add: cmd_seq_def)
  obtain c4 where "respq_find (cmd_seq ?d1) (respq_put ?r (CmdPolling l)) = Some (?r, c4)"
    using respq_find_first [OF put(1), of "respq_contents (CmdPolling l)" ?r "[]" "cmd_seq ?d1"] put(2) rs q(5) e(7) seq
    by auto
  then have 4: "exec_poll_wait f [] ?d1 ?w3 = Done (?r, setCmdPolling f (\<lambda>_. c4) ?w3)"
    using f2 by (subst exec_poll_wait.simps) (simp add: fderef_def)
  have "exec_poll_wait f [run_or_stay (executor_turn reply link2)] ?d1 w1 = exec_poll_wait f [] ?d1 ?w3"
    using none turn 1(4) e by (subst exec_poll_wait.simps) (simp add: fderef_def)
  then show ?thesis
    using exec_checks_ok [OF assms(1,2) ex(1,2,4,5)] ex(6) 1(1) 4
    by (simp add: execCmd_ofProtoFifo_def)
qed

text \<open>C26: Two threads that execute commands on one link share its response queue, and the one whose
  response comes second throws the other's away: finding its own response consumes all entries
  before it, so that the thread that waits for the first response waits for ever unless it comes
  again.\<close>

theorem cmd_response_discarded:
  assumes "FifoLinks (proto w) f = Some l" "respq_inv k (CmdPolling l)"
    "respq_contents (CmdPolling l) = [r1, r2]" "cmd_seq r1 = cmd_seq d1" "cmd_seq r2 = cmd_seq d2"
    "cmd_seq d1 \<noteq> cmd_seq d2"
  shows "\<exists>w'. exec_poll_wait f [] d2 w = Done (r2, w') \<and> exec_poll_wait f [] d1 w' = Block \<and>
    (\<exists>w1. exec_poll_wait f [] d1 w = Done (r1, w1))"
proof -
  obtain c where c: "respq_find (cmd_seq d2) (CmdPolling l) = Some (r2, c)" "respq_inv k c" "respq_contents c = []"
    using respq_find_first [OF assms(2), of "[r1]" r2 "[]" "cmd_seq d2"] assms(3-6) by auto
  obtain c1 where c1: "respq_find (cmd_seq d1) (CmdPolling l) = Some (r1, c1)"
    using respq_find_first [OF assms(2), of "[]" r1 "[r2]" "cmd_seq d1"] assms(3-6) by auto
  have "respq_find (cmd_seq d1) c = None" using respq_find_none [OF c(2)] c(3) by simp
  then have "exec_poll_wait f [] d2 w = Done (r2, setCmdPolling f (\<lambda>_. c) w)"
    "exec_poll_wait f [] d1 (setCmdPolling f (\<lambda>_. c) w) = Block"
    "exec_poll_wait f [] d1 w = Done (r1, setCmdPolling f (\<lambda>_. c1) w)"
    using assms(1) c(1) c1 by (simp_all add: exec_poll_wait.simps [of f "[]"] fderef_def)
  then show ?thesis by blast
qed

text \<open>Executing a command through a callback: the callback runs with the executor's link marked as
  processing, the mark is gone afterwards, and the result, the descriptor's result and its status
  always agree.\<close>

theorem cmd_callback_status:
  assumes "LinkHeap w plink = Some plk" "ce_thread env"
    and run: "ce_run env F priv (ID plk) (d\<lparr>Status := IOC_CMD_STATUS_PROCESSING\<rparr>,
        setLink plink (\<lambda>l. l\<lparr>IsProcessing := True\<rparr>) w) = (rc, dc, wc)" "LinkHeap wc plink \<noteq> None"
    and late: "ce_late env F priv (ID plk) (d\<lparr>Status := IOC_CMD_STATUS_PROCESSING\<rparr>,
        setLink plink (\<lambda>l. l\<lparr>IsProcessing := True\<rparr>) w) = (dl, wl)" "LinkHeap wl plink \<noteq> None"
  shows "\<exists>r d' w'. exec_callback env F priv plink opt d w = Done (r, d', w') \<and>
    r = (if ce_in_time env (cmd_timeoutMs opt d) then rc else IOC_RESULT_TIMEOUT) \<and> CmdResult d' = r \<and>
    Status d' = (if r = IOC_RESULT_TIMEOUT then IOC_CMD_STATUS_TIMEOUT
      else if r = IOC_RESULT_SUCCESS then IOC_CMD_STATUS_SUCCESS else IOC_CMD_STATUS_FAILED) \<and>
    map_option IsProcessing (LinkHeap w' plink) = Some False"
proof -
  have "cmd_timeoutMs opt (d\<lparr>Status := IOC_CMD_STATUS_PROCESSING\<rparr>) = cmd_timeoutMs opt d"
    by (simp add: cmd_timeoutMs_def split: option.split)
  then show ?thesis using assms by (auto simp: exec_callback_def deref_def Let_def)
qed

text \<open>The command queue of an end is a bounded queue: over any sequence of executions and waits
  nothing is lost, duplicated or reordered, and at most 64 commands wait.\<close>

theorem cmdq_run_fifo:
  assumes "cmdq_inv (num_enqs ops) c"
  shows "\<exists>acc del c'. run_queue cmdq_enq cmdq_deq ops c = Done (acc, del, c') \<and>
    cmdq_contents c @ acc = del @ cmdq_contents c' \<and> length (cmdq_contents c') \<le> 64"
  using cmdq.run_fifo [of ops 0 c] cmdq.inv_cap assms by fastforce


section \<open>Witnesses\<close>

text \<open>An initiator connected to an executor without a callback.\<close>

definition sample_cmd_args :: "nat option \<Rightarrow> usage_args_union" where
  "sample_cmd_args F = pCmd \<lparr>cuCbExecCmd_F = F, cuCbPrivData = 0, cuCmdNum = 1, cuCmdIDs = [9]\<rparr>"

definition cmd_world :: "(CmdPolling_T \<Rightarrow> CmdPolling_T) \<Rightarrow> fifo_state ioc_world" where
  "cmd_world g = connected_pair (\<lambda>l. l\<lparr>CmdPolling := g (CmdPolling l)\<rparr>)
     (\<lambda>l. l\<lparr>Usage := IOC_LinkUsageCmdInitiator\<rparr>)
     (\<lambda>l. l\<lparr>Usage := IOC_LinkUsageCmdExecutor, UsageArgs := Some (sample_cmd_args None)\<rparr>)"

lemma cmd_world_ok:
  "connected (cmd_world g) 0 1 2" "pPeer (the_end (cmd_world g) 2) = Some 1"
  "CmdPolling (the_end (cmd_world g) 2) = g initCmdPolling" "CmdPolling (the_end (cmd_world g) 1) = initCmdPolling"
  "pOwnerLinkObj (the_end (cmd_world g) 2) = 1" "role_of (cmd_world g) 0 = IOC_LinkUsageCmdInitiator"
  "LinkHeap (cmd_world g) 1 = Some ((new_link 1)\<lparr>pProtoPriv := Some 2, Usage := IOC_LinkUsageCmdExecutor,
     UsageArgs := Some (sample_cmd_args None)\<rparr>)"
  "sequenceCounter (proto (cmd_world g)) = 1"
  unfolding cmd_world_def
  using connected_pair_ok [of "\<lambda>l. l\<lparr>CmdPolling := g (CmdPolling l)\<rparr>"
    "\<lambda>l. l\<lparr>Usage := IOC_LinkUsageCmdInitiator\<rparr>"
    "\<lambda>l. l\<lparr>Usage := IOC_LinkUsageCmdExecutor, UsageArgs := Some (sample_cmd_args None)\<rparr>"]
  by (auto simp: fresh_fifo_link_def connected_pair_def role_of_def fifo_init_def)

lemma initCmdPolling_ok:
  "k < 2 ^ 64 \<Longrightarrow> cmdq_inv k initCmdPolling" "k < 2 ^ 64 \<Longrightarrow> respq_inv k initCmdPolling"
  "cmdq_contents initCmdPolling = []" "respq_contents initCmdPolling = []"
  by (simp_all add: queue_defs initCmdPolling_def cring_inv_def cring_def)

definition sample_env :: "'x cmd_env" where
  "sample_env = \<lparr>ce_thread = True, ce_in_time = (\<lambda>ms. ms \<ge> 100),
     ce_run = (\<lambda>F priv link (d, w). (IOC_RESULT_SUCCESS, d, w)), ce_late = (\<lambda>F priv link (d, w). (d, w))\<rparr>"

lemma sample_cmd_args_ok [simp]: "fst (as_callback (sample_cmd_args F)) = F"
  by (simp add: sample_cmd_args_def as_callback_def)

theorem cmd_poll_roundtrip_witness:
  "\<exists>w'. execCmd_ofProtoFifo sample_env [run_or_stay (executor_turn (\<lambda>x. x\<lparr>Status := IOC_CMD_STATUS_SUCCESS\<rparr>) 1)]
      0 (zero_cmd\<lparr>CmdID := 9\<rparr>) None (cmd_world (\<lambda>c. c)) =
    Done (IOC_RESULT_SUCCESS, zero_cmd\<lparr>CmdID := 9, CmdMsgDesc := zero_msg\<lparr>SeqID := 1\<rparr>,
      Status := IOC_CMD_STATUS_SUCCESS\<rparr>, w')"
proof -
  have u: "has_usage IOC_LinkUsageCmdInitiator IOC_LinkUsageCmdInitiator"
    "has_usage IOC_LinkUsageCmdExecutor IOC_LinkUsageCmdExecutor"
    by (simp_all add: has_usage_def usage_defs)
  have "\<exists>w'. execCmd_ofProtoFifo sample_env [run_or_stay (executor_turn (\<lambda>x. x\<lparr>Status := IOC_CMD_STATUS_SUCCESS\<rparr>) 1)]
      0 (zero_cmd\<lparr>CmdID := 9\<rparr>) None (cmd_world (\<lambda>c. c)) =
    Done (IOC_RESULT_SUCCESS, (zero_cmd\<lparr>CmdID := 9\<rparr>)\<lparr>CmdMsgDesc := (CmdMsgDesc (zero_cmd\<lparr>CmdID := 9\<rparr>))\<lparr>SeqID :=
      sequenceCounter (proto (cmd_world (\<lambda>c. c)))\<rparr>,
      Status := IOC_CMD_STATUS_PROCESSING\<rparr>\<lparr>Status := IOC_CMD_STATUS_SUCCESS\<rparr>, w')"
    by (rule cmd_poll_roundtrip [where u = "sample_cmd_args None", OF cmd_world_ok(1) _ cmd_world_ok(5,7)])
      (use u in \<open>simp_all add: cmd_world_ok [simplified] initCmdPolling_ok [simplified] cmd_seq_def\<close>)
  then show ?thesis by (simp add: cmd_world_ok zero_cmd_def)
qed

theorem cmd_response_discarded_witness:
  "\<exists>w'. exec_poll_wait 2 [] (zero_cmd\<lparr>CmdMsgDesc := zero_msg\<lparr>SeqID := 4\<rparr>\<rparr>)
      (cmd_world (\<lambda>c. respq_put (zero_cmd\<lparr>CmdMsgDesc := zero_msg\<lparr>SeqID := 4\<rparr>\<rparr>) (respq_put zero_cmd c))) = Done
      (zero_cmd\<lparr>CmdMsgDesc := zero_msg\<lparr>SeqID := 4\<rparr>\<rparr>, w') \<and> exec_poll_wait 2 [] zero_cmd w' = Block"
proof -
  let ?r = "zero_cmd\<lparr>CmdMsgDesc := zero_msg\<lparr>SeqID := 4\<rparr>\<rparr>"
  let ?g = "\<lambda>c. respq_put ?r (respq_put zero_cmd c)"
  have q: "respq_inv 0 (?g initCmdPolling)" "respq_contents (?g initCmdPolling) = [zero_cmd, ?r]"
    using respq_put_spec [of 1 initCmdPolling zero_cmd] respq_put_spec [of 0 "respq_put zero_cmd initCmdPolling" ?r]
    by (simp_all add: initCmdPolling_ok)
  have e: "FifoLinks (proto (cmd_world ?g)) 2 = Some (the_end (cmd_world ?g) 2)"
    using cmd_world_ok(1) [of ?g] by (auto elim!: connectedE)
  show ?thesis
    using cmd_response_discarded [OF e, of 0 zero_cmd ?r zero_cmd ?r] q
    by (simp add: cmd_world_ok cmd_seq_def zero_cmd_def zero_msg_def) blast
qed

theorem cmd_callback_status_witness:
  "\<exists>d' w'. exec_callback sample_env 3 0 1 (Some (opt_Timeout 50000)) zero_cmd (cmd_world (\<lambda>c. c)) =
      Done (IOC_RESULT_TIMEOUT, d', w') \<and> Status d' = IOC_CMD_STATUS_TIMEOUT"
proof -
  have "\<not> (100 :: ULONG) \<le> 50000 div 1000" by simp
  then have late: "\<not> ce_in_time sample_env (cmd_timeoutMs (Some (opt_Timeout 50000)) zero_cmd)"
    by (simp add: sample_env_def cmd_timeoutMs_def opt_Timeout_def IOC_OPTID_TIMEOUT_def)
  have env: "ce_thread sample_env" "ce_run sample_env F q l dw = (IOC_RESULT_SUCCESS, dw)" "ce_late sample_env F q l dw = dw"
    for F q l and dw :: "IOC_CmdDesc_T \<times> fifo_state ioc_world"
    by (simp_all add: sample_env_def split: prod.splits)
  have heap: "LinkHeap (setLink 1 (\<lambda>l. l\<lparr>IsProcessing := True\<rparr>) (cmd_world (\<lambda>c. c))) 1 \<noteq> None"
    by (simp add: cmd_world_ok [simplified])
  show ?thesis
    using cmd_callback_status [OF cmd_world_ok(7), of sample_env 3 0 zero_cmd "\<lambda>c. c" IOC_RESULT_SUCCESS
        "zero_cmd\<lparr>Status := IOC_CMD_STATUS_PROCESSING\<rparr>" "setLink 1 (\<lambda>l. l\<lparr>IsProcessing := True\<rparr>) (cmd_world (\<lambda>c. c))"
        "zero_cmd\<lparr>Status := IOC_CMD_STATUS_PROCESSING\<rparr>" "setLink 1 (\<lambda>l. l\<lparr>IsProcessing := True\<rparr>) (cmd_world (\<lambda>c. c))"
        "Some (opt_Timeout 50000)", OF env(1,2) heap env(3) heap]
    unfolding if_not_P [OF late] by auto
qed

theorem cmdq_run_fifo_witness:
  "\<exists>acc del c'. run_queue cmdq_enq cmdq_deq [Enq zero_cmd, Deq, Deq] initCmdPolling = Done (acc, del, c') \<and>
    acc = del @ cmdq_contents c'"
  using cmdq_run_fifo [of "[Enq zero_cmd, Deq, Deq]" initCmdPolling] initCmdPolling_ok by fastforce

end
