(* ===== verification/FifoData.thy ===== *)
theory FifoData
  imports FifoCommand "HOL-Library.Signed_Division"
begin

text \<open>
  \<^verbatim>\<open>src/Source/_IOC_SrvProtoFifo.c\<close>, part four: data.  A receiver with a callback gets the data in
  a thread of its own, in batches while a time window is open; a receiver without one finds it in
  its polling buffer.  The clock readings of one call, and whether its allocations and its thread
  creation succeed, are inputs (\<open>send_env\<close>).  A started thread runs to its end before the sender goes on
  (\<open>se_early\<close>), or waits in \<open>async_threads\<close> until it runs (\<open>run_async\<close>).
\<close>

section \<open>The batch of a receiver\<close>

definition getElapsedTimeMs :: "timespec \<Rightarrow> timespec \<Rightarrow> int" where
  "getElapsedTimeMs st en =
     (tv_sec en - tv_sec st) * 1000 + (tv_nsec en - tv_nsec st) sdiv 1000000"

definition isBatchWindowExpired :: "timespec \<Rightarrow> CallbackBatch_T \<Rightarrow> bool" where
  "isBatchWindowExpired now b \<longleftrightarrow> IsBatchWindowOpen b \<and>
     getElapsedTimeMs (BatchWindowStart b) now \<ge> BatchWindowDurationMs b"

definition shouldOpenBatchWindow :: "CallbackBatch_T \<Rightarrow> int \<Rightarrow> bool" where
  "shouldOpenBatchWindow b ms \<longleftrightarrow> ms \<ge> SlowCallbackThresholdMs b"

definition batch_of :: "FifoLinkObject_T \<Rightarrow> CallbackBatch_T" where
  "batch_of l = CallbackBatch (DatReceiver l)"

definition setReceiver :: "nat \<Rightarrow> (DatReceiver_T \<Rightarrow> DatReceiver_T) \<Rightarrow> 'x fifo_world \<Rightarrow> 'x fifo_world" where
  "setReceiver f g w = setFifo f (\<lambda>l. l\<lparr>DatReceiver := g (DatReceiver l)\<rparr>) w"

definition setBatch :: "nat \<Rightarrow> (CallbackBatch_T \<Rightarrow> CallbackBatch_T) \<Rightarrow> 'x fifo_world \<Rightarrow> 'x fifo_world" where
  "setBatch f g w = setReceiver f (\<lambda>r. r\<lparr>CallbackBatch := g (CallbackBatch r)\<rparr>) w"

text \<open>\<^verbatim>\<open>BatchMutex\<close> is a default mutex: a thread that locks it twice waits for ever.\<close>

definition lockBatch :: "nat \<Rightarrow> 'x fifo_world \<Rightarrow> ('x fifo_world \<Rightarrow> 'b outcome) \<Rightarrow> 'b outcome" where
  "lockBatch f w k = fderef f w (\<lambda>l. if BatchMutexHeld (batch_of l) then Block
     else k (setBatch f (\<lambda>b. b\<lparr>BatchMutexHeld := True\<rparr>) w))"

definition unlockBatch :: "nat \<Rightarrow> 'x fifo_world \<Rightarrow> 'x fifo_world" where
  "unlockBatch f w = setBatch f (\<lambda>b. b\<lparr>BatchMutexHeld := False\<rparr>) w"

definition addDataToBatch ::
  "timespec \<Rightarrow> byte list option \<Rightarrow> nat \<Rightarrow> 'x fifo_world \<Rightarrow> (IOC_Result_T \<times> 'x fifo_world) outcome" where
  "addDataToBatch now data f w = (case data of
     None \<Rightarrow> Done (IOC_RESULT_INVALID_PARAM, w)
   | Some d \<Rightarrow> if length d = 0 then Done (IOC_RESULT_INVALID_PARAM, w)
       else lockBatch f w (\<lambda>w1. fderef f w1 (\<lambda>l. let b = batch_of l in
         if \<not> IsBatchWindowOpen b \<or> isBatchWindowExpired now b
         then Done (IOC_RESULT_NOT_SUPPORT, unlockBatch f w1)
         else if length d \<le> BatchBufferSize b - AccumulatedDataSize b
         then Done (IOC_RESULT_SUCCESS, unlockBatch f (setBatch f (\<lambda>b. b\<lparr>
           pBatchBuffer := blit (AccumulatedDataSize b) d (pBatchBuffer b),
           AccumulatedDataSize := AccumulatedDataSize b + length d\<rparr>) w1))
         else Done (IOC_RESULT_BUFFER_FULL, unlockBatch f w1))))"

text \<open>What a data callback does: the function pointer, its private data, the receiving link and the
  descriptor determine its result and how it changes the world, including by calls into the library.\<close>

type_synonym 'x dat_callback =
  "nat \<Rightarrow> nat \<Rightarrow> ULONG \<Rightarrow> IOC_DatDesc_T \<Rightarrow> 'x fifo_world \<Rightarrow> (IOC_Result_T \<times> 'x fifo_world) outcome"

definition callReceiver ::
  "'x dat_callback \<Rightarrow> nat \<Rightarrow> nat \<Rightarrow> nat \<Rightarrow> IOC_DatDesc_T \<Rightarrow> 'x fifo_world \<Rightarrow> (IOC_Result_T \<times> 'x fifo_world) outcome"
where
  "callReceiver cb F cbpriv f d w =
     fderef f w (\<lambda>l. deref (pOwnerLinkObj l) w (\<lambda>lk. cb F cbpriv (ID lk) d w))"

definition flushCallbackBatch ::
  "'x dat_callback \<Rightarrow> nat \<Rightarrow> 'x fifo_world \<Rightarrow> (IOC_Result_T \<times> 'x fifo_world) outcome" where
  "flushCallbackBatch cb f w = lockBatch f w (\<lambda>w1. fderef f w1 (\<lambda>l. let b = batch_of l in
     if AccumulatedDataSize b = 0 then Done (IOC_RESULT_SUCCESS, unlockBatch f w1)
     else
       let n = AccumulatedDataSize b;
           w2 = unlockBatch f (setBatch f (\<lambda>b. b\<lparr>AccumulatedDataSize := 0\<rparr>) w1)
       in case CbRecvDat_F (DatReceiver l) of
            None \<Rightarrow> Done (IOC_RESULT_SUCCESS, w2)
          | Some F \<Rightarrow> if IsReceiverRegistered (DatReceiver l)
              then callReceiver cb F (drCbPrivData (DatReceiver l)) f (IOC_initDatDesc\<lparr>
                pData := Some (pBatchBuffer b), PtrDataSize := of_nat n, PtrDataLen := of_nat n\<rparr>) w2
              else Done (IOC_RESULT_SUCCESS, w2)))"

definition closeBatchWindow :: "'x dat_callback \<Rightarrow> nat \<Rightarrow> 'x fifo_world \<Rightarrow> 'x fifo_world outcome" where
  "closeBatchWindow cb f w = lockBatch f w (\<lambda>w1.
     bindO (flushCallbackBatch cb f (unlockBatch f (setBatch f (\<lambda>b. b\<lparr>IsBatchWindowOpen := False\<rparr>) w1)))
       (\<lambda>(_, w2). Done w2))"

text \<open>The thread of one asynchronous callback; \<open>now\<close> is the time at its end.\<close>

definition asyncCallbackThreadFunc ::
  "'x dat_callback \<Rightarrow> timespec \<Rightarrow> AsyncCallbackContext_T \<Rightarrow> 'x fifo_world \<Rightarrow> 'x fifo_world outcome" where
  "asyncCallbackThreadFunc cb now c w =
     bindO (cb (acCallback c) (acPrivData c) (acLinkID c) (acDatDesc c) w) (\<lambda>(_, w1).
       let ms = getElapsedTimeMs (acStartTime c) now; f = acFifoLink c
       in lockBatch f w1 (\<lambda>w2.
            let w3 = unlockBatch f (setBatch f (\<lambda>b.
                  let b1 = b\<lparr>LastCallbackEnd := now, IsInCallback := False\<rparr>
                  in if shouldOpenBatchWindow b1 ms
                     then b1\<lparr>IsBatchWindowOpen := True, BatchWindowStart := now\<rparr> else b1) w2)
            in fderef f w3 (\<lambda>l. if AccumulatedDataSize (batch_of l) > 0
                 then bindO (flushCallbackBatch cb f w3) (\<lambda>(_, w4). Done w4) else Done w3)))"

text \<open>One of the started threads runs.\<close>

definition run_async :: "'x dat_callback \<Rightarrow> timespec \<Rightarrow> nat \<Rightarrow> 'x fifo_world \<Rightarrow> 'x fifo_world outcome" where
  "run_async cb now i w = (let ts = async_threads (proto w) in
     if i < length ts then asyncCallbackThreadFunc cb now (ts ! i)
       (w\<lparr>proto := (proto w)\<lparr>async_threads := take i ts @ drop (Suc i) ts\<rparr>\<rparr>)
     else Block)"

section \<open>Sending\<close>

text \<open>The inputs of one call: the clock where it is read (\<open>se_stale\<close> is the uninitialised end time
  that is used when the copy of the payload cannot be allocated), the allocations of the context and
  of the copy, the creation of the thread, and whether the scheduler runs the thread before the sender,
  with the time at which it then ends.\<close>

record send_env =
  se_expire :: timespec
  se_add :: timespec
  se_check :: timespec
  se_start :: timespec
  se_end :: timespec
  se_stale :: timespec
  se_sent :: timespec
  se_ctx :: bool
  se_copy :: bool
  se_thread :: bool
  se_early :: "timespec option"

datatype send_mode = TrueNonBlock | ZeroTimeout | Blocking

definition send_mode_of :: "IOC_Options_T option \<Rightarrow> send_mode" where
  "send_mode_of opt = (case opt of None \<Rightarrow> Blocking
   | Some op \<Rightarrow> if IDs op AND IOC_OPTID_TIMEOUT \<noteq> 0 then
       if TimeoutUS op = IOC_TIMEOUT_NONBLOCK then TrueNonBlock
       else if TimeoutUS op = 0 \<or> TimeoutUS op = IOC_TIMEOUT_IMMEDIATE then ZeroTimeout
       else Blocking
     else Blocking)"

text \<open>The payload: a block of \<^verbatim>\<open>PtrDataSize\<close> bytes, or \<^verbatim>\<open>NULL\<close>.  Whoever sends owes a block of that size.\<close>

definition dat_bytes :: "IOC_DatDesc_T \<Rightarrow> byte list option" where
  "dat_bytes d = map_option (take (unat (PtrDataSize d))) (pData d)"

text \<open>The receiver as the sender reads it under both mutexes.\<close>

definition send_peer ::
  "nat \<Rightarrow> 'x fifo_world \<Rightarrow> (IOC_Result_T + (nat \<times> nat \<times> nat option \<times> nat \<times> bool)) outcome" where
  "send_peer link w = deref link w (\<lambda>lk. case pProtoPriv lk of
     None \<Rightarrow> Done (Inl IOC_RESULT_NOT_EXIST_LINK)
   | Some f \<Rightarrow> lockFifo f w (\<lambda>w1. fderef f w1 (\<lambda>l. case pPeer l of
       None \<Rightarrow> Done (Inl IOC_RESULT_LINK_BROKEN)
     | Some p \<Rightarrow> lockFifo p w1 (\<lambda>w2. fderef p w2 (\<lambda>pl.
         Done (Inr (f, p, CbRecvDat_F (DatReceiver pl), drCbPrivData (DatReceiver pl),
           IsReceiverRegistered (DatReceiver pl))))))))"

text \<open>The window: a result when the data was batched, else what is left to do.\<close>

definition send_window ::
  "'x dat_callback \<Rightarrow> send_env \<Rightarrow> nat \<Rightarrow> nat option \<Rightarrow> bool \<Rightarrow> IOC_DatDesc_T \<Rightarrow> 'x fifo_world \<Rightarrow>
   (IOC_Result_T option \<times> 'x fifo_world) outcome" where
  "send_window cb env p F registered d w = lockBatch p w (\<lambda>w1. fderef p w1 (\<lambda>l.
     let wopen = IsBatchWindowOpen (batch_of l);
         expired = isBatchWindowExpired (se_expire env) (batch_of l);
         w2 = unlockBatch p w1
     in bindO (if wopen \<and> expired then bindO (closeBatchWindow cb p w2) (\<lambda>w3. Done (False, w3))
               else Done (wopen, w2)) (\<lambda>(wopen, w3).
          if wopen \<and> registered \<and> F \<noteq> None then
            bindO (addDataToBatch (se_add env) (dat_bytes d) p w3) (\<lambda>(r, w4).
              if r = IOC_RESULT_SUCCESS then Done (Some IOC_RESULT_SUCCESS, w4)
              else if r = IOC_RESULT_BUFFER_FULL then
                bindO (closeBatchWindow cb p w4) (\<lambda>w5. Done (None, w5))
              else if r = IOC_RESULT_NOT_SUPPORT then Done (None, w4)
              else Done (Some r, w4))
          else Done (None, w3))))"

text \<open>Not blocking: at most one chunk may be pending, and the count of pending chunks goes down
  only at every fifth accepted call of the whole process.\<close>

definition MAX_PENDING_CHUNKS :: int where "MAX_PENDING_CHUNKS = 1"

definition setPending :: "nat \<Rightarrow> (int \<Rightarrow> int) \<Rightarrow> 'x fifo_world \<Rightarrow> 'x fifo_world" where
  "setPending p g w = setReceiver p (\<lambda>r. r\<lparr>PendingDataCount := g (PendingDataCount r)\<rparr>) w"

definition send_drain :: "nat \<Rightarrow> 'x fifo_world \<Rightarrow> 'x fifo_world outcome" where
  "send_drain p w = (let n = drainCounter (proto w) + 1 in
     if n \<ge> 5 then lockFifo p w (\<lambda>w1. Done (unlockFifo p
       (setPending p (\<lambda>c. if c > 0 then c - 1 else c) (w1\<lparr>proto := (proto w1)\<lparr>drainCounter := 0\<rparr>\<rparr>))))
     else Done (w\<lparr>proto := (proto w)\<lparr>drainCounter := n\<rparr>\<rparr>))"

definition send_nonblock ::
  "'x dat_callback \<Rightarrow> send_env \<Rightarrow> send_mode \<Rightarrow> nat \<Rightarrow> nat \<Rightarrow> nat \<Rightarrow> IOC_DatDesc_T \<Rightarrow> 'x fifo_world \<Rightarrow>
   ((IOC_Result_T + IOC_Result_T) \<times> 'x fifo_world) outcome" where
  "send_nonblock cb env mode p F cbpriv d w = lockFifo p w (\<lambda>w1. fderef p w1 (\<lambda>l.
     if PendingDataCount (DatReceiver l) \<ge> MAX_PENDING_CHUNKS then
       Done (Inl (if mode = TrueNonBlock then IOC_RESULT_BUFFER_FULL else IOC_RESULT_TIMEOUT), unlockFifo p w1)
     else
       let w2 = unlockFifo p (setPending p (\<lambda>c. c + 1) w1)
       in bindO (if mode = TrueNonBlock then
            bindO (callReceiver cb F cbpriv p d w2) (\<lambda>(r, w3).
              let ms = getElapsedTimeMs (se_start env) (se_end env)
              in lockBatch p w3 (\<lambda>w4. Done (r, unlockBatch p (setBatch p (\<lambda>b.
                   let b1 = b\<lparr>LastCallbackStart := se_start env, LastCallbackEnd := se_end env\<rparr>
                   in if shouldOpenBatchWindow b1 ms
                      then b1\<lparr>IsBatchWindowOpen := True, BatchWindowStart := se_end env\<rparr> else b1) w4))))
          else Done (IOC_RESULT_TIMEOUT, w2)) (\<lambda>(r, w5).
            bindO (send_drain p w5) (\<lambda>w6. Done (Inr r, w6)))))"


text \<open>Blocking: whether to batch.  A window that has expired is closed and flushed first; the second
  component says whether the data is to be batched, the third and fourth are what the code read
  of a running callback and of the window.  The mutex of the batch is still held.\<close>

definition send_decide ::
  "'x dat_callback \<Rightarrow> send_env \<Rightarrow> nat \<Rightarrow> 'x fifo_world \<Rightarrow> ('x fifo_world \<times> bool \<times> bool \<times> bool) outcome" where
  "send_decide cb env p w = lockBatch p w (\<lambda>w1. fderef p w1 (\<lambda>l.
     let b = batch_of l; now = se_check env in
     bindO (if IsBatchWindowOpen b \<and> getElapsedTimeMs (BatchWindowStart b) now \<ge> BatchWindowDurationMs b
       then let w2 = setBatch p (\<lambda>b. b\<lparr>IsBatchWindowOpen := False\<rparr>) w1
            in if AccumulatedDataSize b > 0
               then bindO (flushCallbackBatch cb p (unlockBatch p w2)) (\<lambda>(_, w3). lockBatch p w3 Done)
               else Done w2
       else Done w1) (\<lambda>w4. fderef p w4 (\<lambda>l4.
         let b4 = batch_of l4;
             since = getElapsedTimeMs (LastCallbackEnd b4) now;
             early = IsInCallback b4 \<or> IsBatchWindowOpen b4 \<or>
               (AccumulatedDataSize b4 > 0 \<and> since < BatchWindowDurationMs b4);
             recent = since < 2 * SlowCallbackThresholdMs b4;
             w5 = (if \<not> early \<and> recent
               then setBatch p (\<lambda>b. b\<lparr>IsBatchWindowOpen := True, BatchWindowStart := now\<rparr>) w4 else w4)
         in Done (w5, early \<or> recent, IsInCallback b4, IsBatchWindowOpen b4)))))"

text \<open>Batching, still under the mutex that \<^verbatim>\<open>__IOC_addDataToBatch\<close> takes itself; or marking the
  callback as running.\<close>

definition send_batch ::
  "'x dat_callback \<Rightarrow> send_env \<Rightarrow> nat \<Rightarrow> IOC_DatDesc_T \<Rightarrow> 'x fifo_world \<Rightarrow> (IOC_Result_T option \<times> 'x fifo_world) outcome" where
  "send_batch cb env p d w = bindO (send_decide cb env p w) (\<lambda>(w1, should_batch, running, wopen).
     if should_batch then
       bindO (addDataToBatch (se_add env) (dat_bytes d) p w1) (\<lambda>(r, w2).
         let w3 = (if \<not> running \<and> \<not> wopen \<and> r = IOC_RESULT_SUCCESS
               then setBatch p (\<lambda>b. b\<lparr>IsBatchWindowOpen := True, BatchWindowStart := se_check env\<rparr>) w2 else w2);
             w4 = unlockBatch p w3
         in if r = IOC_RESULT_SUCCESS then Done (Some IOC_RESULT_SUCCESS, w4)
            else if r = IOC_RESULT_BUFFER_FULL then
              bindO (flushCallbackBatch cb p w4) (\<lambda>(_, w5). Done (None, w5))
            else Done (Some r, w4))
     else Done (None, unlockBatch p (setBatch p (\<lambda>b. b\<lparr>IsInCallback := True\<rparr>) w1)))"

definition spawn :: "AsyncCallbackContext_T \<Rightarrow> 'x fifo_world \<Rightarrow> 'x fifo_world" where
  "spawn c w = w\<lparr>proto := (proto w)\<lparr>async_threads := async_threads (proto w) @ [c]\<rparr>\<rparr>"

text \<open>The new thread may be scheduled before the sender goes on, which holds no mutex at that point.  A thread
  that has to wait for another one stays among the started ones.\<close>

definition early_turn :: "'x dat_callback \<Rightarrow> send_env \<Rightarrow> 'x fifo_world \<Rightarrow> 'x fifo_world outcome" where
  "early_turn cb env w = (case se_early env of None \<Rightarrow> Done w
   | Some now \<Rightarrow> (case run_async cb now (length (async_threads (proto w)) - 1) w of
        Done w1 \<Rightarrow> Done w1 | Abort \<Rightarrow> Abort | Block \<Rightarrow> Done w))"

text \<open>The dispatch: to a new thread, or, when memory or the thread is not to be had, by a direct call.
  The result and the end time.\<close>

definition send_dispatch ::
  "'x dat_callback \<Rightarrow> send_env \<Rightarrow> nat \<Rightarrow> nat \<Rightarrow> nat \<Rightarrow> IOC_DatDesc_T \<Rightarrow> 'x fifo_world \<Rightarrow>
   (IOC_Result_T \<times> timespec \<times> 'x fifo_world) outcome" where
  "send_dispatch cb env p F cbpriv d w =
    (let direct = (\<lambda>en. bindO (callReceiver cb F cbpriv p d w) (\<lambda>(r, w1). Done (r, en, w1)))
     in if \<not> se_ctx env then direct (se_end env)
        else fderef p w (\<lambda>l. deref (pOwnerLinkObj l) w (\<lambda>lk.
          if PtrDataSize d > 0 \<and> pData d \<noteq> None \<and> \<not> se_copy env then direct (se_stale env)
          else if \<not> se_thread env then direct (se_end env)
          else bindO (early_turn cb env (spawn \<lparr>acCallback = F, acLinkID = ID lk,
              acDatDesc = d\<lparr>pData := if PtrDataSize d > 0 then dat_bytes d else pData d\<rparr>,
              acPrivData = cbpriv, acStartTime = se_start env, acFifoLink = p\<rparr> w))
            (\<lambda>w1. Done (IOC_RESULT_SUCCESS, se_end env, w1)))))"

text \<open>After the callback: a window is opened in any case, data batched meanwhile is flushed, and the
  data is also stored for polling, whatever the result of that.\<close>

definition send_after ::
  "'x dat_callback \<Rightarrow> nat \<Rightarrow> timespec \<Rightarrow> IOC_DatDesc_T \<Rightarrow> 'x fifo_world \<Rightarrow> 'x fifo_world outcome" where
  "send_after cb p en d w = lockBatch p w (\<lambda>w1.
     let w2 = setBatch p (\<lambda>b. b\<lparr>LastCallbackEnd := en, IsInCallback := False, IsBatchWindowOpen := True,
           BatchWindowStart := en\<rparr>) w1
     in fderef p w2 (\<lambda>l.
       bindO (if AccumulatedDataSize (batch_of l) > 0
         then bindO (flushCallbackBatch cb p (unlockBatch p w2)) (\<lambda>(_, w3). Done w3)
         else Done (unlockBatch p w2)) (\<lambda>w3. lockFifo p w3 (\<lambda>w4. Done (unlockFifo p
           (setReceiver p (\<lambda>r. r\<lparr>PollingBuffer := snd (fifo_storeDataInPollingBuffer (dat_bytes d)
              ((PollingBuffer r)\<lparr>IsPollingMode := True\<rparr>))\<rparr>) w4))))))"

definition send_blocking ::
  "'x dat_callback \<Rightarrow> send_env \<Rightarrow> nat \<Rightarrow> nat \<Rightarrow> nat \<Rightarrow> IOC_DatDesc_T \<Rightarrow> 'x fifo_world \<Rightarrow>
   ((IOC_Result_T + IOC_Result_T) \<times> 'x fifo_world) outcome" where
  "send_blocking cb env p F cbpriv d w = bindO (send_batch cb env p d w) (\<lambda>(done, w1). case done of
     Some r \<Rightarrow> Done (Inl r, w1)
   | None \<Rightarrow> lockBatch p w1 (\<lambda>w2.
       let w3 = unlockBatch p (setBatch p (\<lambda>b. b\<lparr>LastCallbackStart := se_start env\<rparr>) w2)
       in bindO (send_dispatch cb env p F cbpriv d w3) (\<lambda>(r, en, w4).
            bindO (send_after cb p en d w4) (\<lambda>w5. Done (Inr r, w5)))))"

text \<open>The sender remembers small data it has sent.\<close>

definition send_cache :: "send_env \<Rightarrow> nat \<Rightarrow> IOC_DatDesc_T \<Rightarrow> 'x fifo_world \<Rightarrow> 'x fifo_world outcome" where
  "send_cache env f d w = lockFifo f w (\<lambda>w1.
     if unat (PtrDataSize d) \<le> 1024 then
       if PtrDataSize d > 0 \<and> pData d = None then Abort
       else Done (unlockFifo f (setReceiver f (\<lambda>r. r\<lparr>LastSentCache := (LastSentCache r)\<lparr>
         LastSentData := (case dat_bytes d of None \<Rightarrow> LastSentData (LastSentCache r)
           | Some bs \<Rightarrow> blit 0 bs (LastSentData (LastSentCache r))),
         LastSentDataSize := unat (PtrDataSize d), HasRecentlySentData := True,
         LastSentTime := se_sent env\<rparr>\<rparr>) w1))
     else Done (unlockFifo f w1))"

text \<open>Without a callback: into the polling buffer, without any mutex.\<close>

definition send_polling :: "nat \<Rightarrow> send_mode \<Rightarrow> IOC_DatDesc_T \<Rightarrow> 'x fifo_world \<Rightarrow> (IOC_Result_T \<times> 'x fifo_world) outcome" where
  "send_polling p mode d w = fderef p w (\<lambda>l.
     let (r, pb) = fifo_storeDataInPollingBuffer (dat_bytes d) ((PollingBuffer (DatReceiver l))\<lparr>IsPollingMode := True\<rparr>);
         w1 = setReceiver p (\<lambda>x. x\<lparr>PollingBuffer := pb\<rparr>) w
     in Done (if r = IOC_RESULT_SUCCESS then IOC_RESULT_SUCCESS
              else if r = IOC_RESULT_BUFFER_FULL then
                (if mode = ZeroTimeout then IOC_RESULT_TIMEOUT else IOC_RESULT_BUFFER_FULL)
              else r, w1))"

definition sendData_ofProtoFifo ::
  "'x dat_callback \<Rightarrow> send_env \<Rightarrow> nat \<Rightarrow> IOC_DatDesc_T \<Rightarrow> IOC_Options_T option \<Rightarrow> 'x fifo_world \<Rightarrow>
   (IOC_Result_T \<times> 'x fifo_world) outcome" where
  "sendData_ofProtoFifo cb env link d opt w = bindO (send_peer link w) (\<lambda>x. case x of
     Inl r \<Rightarrow> Done (r, w)
   | Inr (f, p, F, cbpriv, registered) \<Rightarrow>
       bindO (send_window cb env p F registered d w) (\<lambda>(done, w1). case done of
         Some r \<Rightarrow> Done (r, w1)
       | None \<Rightarrow>
           (let mode = send_mode_of opt in
            if registered \<and> F \<noteq> None then
              bindO (if mode = Blocking then send_blocking cb env p (the F) cbpriv d w1
                     else send_nonblock cb env mode p (the F) cbpriv d w1) (\<lambda>(r, w2). case r of
                Inl r \<Rightarrow> Done (r, w2)
              | Inr r \<Rightarrow> bindO (send_cache env f d w2) (\<lambda>w3. Done (r, w3)))
            else send_polling p mode d w1)))"

section \<open>Receiving and flushing\<close>

text \<open>The block the descriptor points to, with the first bytes replaced.\<close>

definition deliver :: "byte list \<Rightarrow> IOC_DatDesc_T \<Rightarrow> IOC_DatDesc_T" where
  "deliver bs d = d\<lparr>pData := map_option (blit 0 bs) (pData d)\<rparr>"

text \<open>A zero-timeout call on a link that does not poll hands out what the same link has last sent,
  for 100 ms.\<close>

definition recv_cached ::
  "timespec \<Rightarrow> nat \<Rightarrow> IOC_DatDesc_T \<Rightarrow> 'x fifo_world \<Rightarrow> (IOC_Result_T \<times> IOC_DatDesc_T \<times> 'x fifo_world) outcome" where
  "recv_cached now f d w = fderef f w (\<lambda>l. let c = LastSentCache (DatReceiver l) in
     if HasRecentlySentData c \<and> getElapsedTimeMs (LastSentTime c) now < 100 then
       let n = (if LastSentDataSize c \<le> unat (PtrDataSize d) then LastSentDataSize c else unat (PtrDataSize d))
       in if n > 0 \<and> pData d = None then Abort
          else Done (IOC_RESULT_SUCCESS, (deliver (take n (LastSentData c)) d)\<lparr>PtrDataSize := of_nat n\<rparr>,
            setReceiver f (\<lambda>r. r\<lparr>LastSentCache := (LastSentCache r)\<lparr>HasRecentlySentData := False\<rparr>\<rparr>) w)
     else Done (IOC_RESULT_TIMEOUT, d\<lparr>PtrDataSize := 0\<rparr>, w))"

definition recvData_ofProtoFifo ::
  "(PollingBuffer_T \<Rightarrow> PollingBuffer_T) list \<Rightarrow> bool \<times> (PollingBuffer_T \<Rightarrow> PollingBuffer_T) \<Rightarrow> timespec \<Rightarrow>
   nat \<Rightarrow> IOC_DatDesc_T \<Rightarrow> IOC_Options_T option \<Rightarrow> 'x fifo_world \<Rightarrow>
   (IOC_Result_T \<times> IOC_DatDesc_T \<times> 'x fifo_world) outcome" where
  "recvData_ofProtoFifo wakes timed now link d opt w = deref link w (\<lambda>lk. case pProtoPriv lk of
     None \<Rightarrow> Done (IOC_RESULT_NOT_EXIST_LINK, d, w)
   | Some f \<Rightarrow>
      (let timeoutUS = (case opt of None \<Rightarrow> None
             | Some op \<Rightarrow> if IDs op AND IOC_OPTID_TIMEOUT \<noteq> 0 then Some (TimeoutUS op) else None);
           sync_nonblock = (timeoutUS = Some IOC_TIMEOUT_NONBLOCK \<and> IDs (the opt) AND IOC_OPTID_SYNC_MODE \<noteq> 0);
           zero = (timeoutUS = Some IOC_TIMEOUT_IMMEDIATE)
       in if sync_nonblock then Done (IOC_RESULT_NO_DATA, d\<lparr>PtrDataSize := 0\<rparr>, w)
          else lockFifo f w (\<lambda>w1. fderef f w1 (\<lambda>l.
            let pb = PollingBuffer (DatReceiver l) in
            if \<not> IsPollingMode pb then
              if zero then recv_cached now f d (unlockFifo f w1)
              else Done (IOC_RESULT_NOT_SUPPORT, d, unlockFifo f w1)
            else bindO (fifo_readDataFromPollingBufferWithTimeout
                  (case pData d of None \<Rightarrow> 0 | Some _ \<Rightarrow> unat (PtrDataSize d))
                  (case timeoutUS of None \<Rightarrow> -1 | Some us \<Rightarrow> sint us) wakes timed pb) (\<lambda>(r, out, pb1).
              let w2 = unlockFifo f (setReceiver f (\<lambda>x. x\<lparr>PollingBuffer := pb1\<rparr>) w1)
              in Done (r,
                if r = IOC_RESULT_SUCCESS then (deliver out d)\<lparr>PtrDataSize := of_nat (length out)\<rparr>
                else if r = IOC_RESULT_NO_DATA then d\<lparr>PtrDataSize := 0\<rparr> else d, w2))))))"

definition flushData_ofProtoFifo ::
  "'x dat_callback \<Rightarrow> nat \<Rightarrow> 'x fifo_world \<Rightarrow> (IOC_Result_T \<times> 'x fifo_world) outcome" where
  "flushData_ofProtoFifo cb link w = deref link w (\<lambda>lk. case pProtoPriv lk of
     None \<Rightarrow> Done (IOC_RESULT_NOT_EXIST_LINK, w)
   | Some f \<Rightarrow> lockFifo f w (\<lambda>w1. fderef f w1 (\<lambda>l. case pPeer l of
       None \<Rightarrow> Done (IOC_RESULT_NOT_EXIST_LINK, w)
     | Some p \<Rightarrow> lockBatch p w (\<lambda>w2. fderef p w2 (\<lambda>pl.
         if IsBatchWindowOpen (batch_of pl) \<or> AccumulatedDataSize (batch_of pl) > 0
         then bindO (closeBatchWindow cb p w) (\<lambda>w3. Done (IOC_RESULT_SUCCESS, w3))
         else Done (IOC_RESULT_SUCCESS, w))))))"



section \<open>What the accessors change\<close>

lemma fderef_Some: "FifoLinks (proto w) f = Some l \<Longrightarrow> fderef f w k = k l"
  by (simp add: fderef_def)

lemma lockFifo_free:
  "FifoLinks (proto w) f = Some l \<Longrightarrow> \<not> MutexHeld l \<Longrightarrow>
   lockFifo f w k = k (setFifo f (\<lambda>l. l\<lparr>MutexHeld := True\<rparr>) w)"
  by (simp add: lockFifo_def fderef_Some)

lemma lockBatch_free:
  "FifoLinks (proto w) f = Some l \<Longrightarrow> \<not> BatchMutexHeld (batch_of l) \<Longrightarrow>
   lockBatch f w k = k (setBatch f (\<lambda>b. b\<lparr>BatchMutexHeld := True\<rparr>) w)"
  by (simp add: lockBatch_def fderef_Some)

lemma lockBatch_held:
  "FifoLinks (proto w) f = Some l \<Longrightarrow> BatchMutexHeld (batch_of l) \<Longrightarrow> lockBatch f w k = Block"
  by (simp add: lockBatch_def fderef_Some)

lemmas fifo_upds = setBatch_def setReceiver_def unlockBatch_def setPending_def unlockFifo_def

lemma setFifo_setFifo [simp]: "setFifo f g (setFifo f h w) = setFifo f (\<lambda>l. g (h l)) w"
  by (simp add: setFifo_def option.map_comp comp_def)

lemma setFifo_id: "FifoLinks (proto w) f = Some l \<Longrightarrow> g l = l \<Longrightarrow> setFifo f g w = w"
  by (simp add: setFifo_def fun_upd_idem)

lemma setFifo_eq: "FifoLinks (proto w) f = Some l \<Longrightarrow> g l = h l \<Longrightarrow> setFifo f g w = setFifo f h w"
  by (rule setFifo_cong) simp

lemma batch_of_upd [simp]:
  "batch_of (l\<lparr>DatReceiver := (DatReceiver l')\<lparr>CallbackBatch := b\<rparr>\<rparr>) = b"
  "batch_of (l\<lparr>MutexHeld := m\<rparr>) = batch_of l"
  by (simp_all add: batch_of_def)

text \<open>Reading the receiver takes both mutexes and gives them back.\<close>

lemma send_peer_connected:
  assumes "connected w link f p"
  shows "send_peer link w = Done (Inr (f, p, CbRecvDat_F (DatReceiver (the_end w p)),
    drCbPrivData (DatReceiver (the_end w p)), IsReceiverRegistered (DatReceiver (the_end w p))))"
  using assms by (auto elim!: connectedE simp: send_peer_def deref_def lockFifo_def fderef_def)

lemma send_window_closed:
  assumes "FifoLinks (proto w) p = Some l" "\<not> BatchMutexHeld (batch_of l)" "\<not> IsBatchWindowOpen (batch_of l)"
  shows "send_window cb env p F registered d w = Done (None, w)"
proof -
  have "unlockBatch p (setBatch p (\<lambda>b. b\<lparr>BatchMutexHeld := True\<rparr>) w) = w"
    unfolding fifo_upds setFifo_setFifo
    by (rule setFifo_id [OF assms(1)]) (use assms(2) in \<open>simp add: batch_of_def\<close>)
  then show ?thesis using assms
    by (simp add: send_window_def lockBatch_free fderef_def fifo_upds batch_of_def)
qed


section \<open>Polling links carry a byte stream\<close>

text \<open>The receiver \<open>link2\<close> (end \<open>p\<close>) has no callback and has polled; \<open>link\<close> (end \<open>f\<close>) sends to it.\<close>

definition poll_link :: "nat \<Rightarrow> nat \<Rightarrow> nat \<Rightarrow> nat \<Rightarrow> 'x fifo_world \<Rightarrow> bool" where
  "poll_link link link2 f p w \<longleftrightarrow> connected w link f p \<and> priv_end w link2 = Some p \<and>
     \<not> (IsReceiverRegistered (DatReceiver (the_end w p)) \<and> CbRecvDat_F (DatReceiver (the_end w p)) \<noteq> None) \<and>
     \<not> BatchMutexHeld (batch_of (the_end w p)) \<and> \<not> IsBatchWindowOpen (batch_of (the_end w p)) \<and>
     IsPollingMode (PollingBuffer (DatReceiver (the_end w p))) \<and> pb_inv (PollingBuffer (DatReceiver (the_end w p)))"

definition poll_bytes :: "nat \<Rightarrow> 'x fifo_world \<Rightarrow> byte list" where
  "poll_bytes p w = pb_bytes (PollingBuffer (DatReceiver (the_end w p)))"

definition dat_of :: "byte list \<Rightarrow> IOC_DatDesc_T" where
  "dat_of bs = IOC_initDatDesc\<lparr>pData := Some bs, PtrDataSize := of_nat (length bs)\<rparr>"

text \<open>A write is a send with any options (a block is shorter than the address space); a read offers a
  buffer of \<open>n\<close> bytes, 64 KB at most, and does not wait.\<close>

definition link_wr ::
  "'x dat_callback \<Rightarrow> send_env \<Rightarrow> IOC_Options_T option \<Rightarrow> nat \<Rightarrow> byte list \<Rightarrow> 'x fifo_world \<Rightarrow> bool \<times> 'x fifo_world"
where
  "link_wr cb env opt link d w = (if d = [] then (True, w) else if length d \<ge> 2 ^ 64 then (False, w)
     else case sendData_ofProtoFifo cb env link (dat_of d) opt w of
       Done (r, w') \<Rightarrow> (r = IOC_RESULT_SUCCESS, w') | _ \<Rightarrow> (False, w))"

definition link_rd :: "timespec \<Rightarrow> nat \<Rightarrow> nat \<Rightarrow> 'x fifo_world \<Rightarrow> byte list \<times> 'x fifo_world" where
  "link_rd now link2 n w = (if n = 0 then ([], w)
     else case recvData_ofProtoFifo [] (True, id) now link2 (dat_of (replicate (min n POLLING_BUFFER_SIZE) 0))
         (Some (opt_Timeout IOC_TIMEOUT_IMMEDIATE)) w of
       Done (r, d, w') \<Rightarrow> ((if r = IOC_RESULT_SUCCESS then the (dat_bytes d) else []), w') | _ \<Rightarrow> ([], w))"

lemma connected_setReceiver [simp]: "connected (setReceiver q g w) link f p = connected w link f p"
  by (auto simp: connected_def priv_end_def setReceiver_def)

lemma priv_end_setReceiver [simp]: "priv_end (setReceiver q g w) link = priv_end w link"
  by (simp add: priv_end_def setReceiver_def)

lemma the_end_setReceiver [simp]:
  "FifoLinks (proto w) p = Some l \<Longrightarrow> the_end (setReceiver p g w) p = l\<lparr>DatReceiver := g (DatReceiver l)\<rparr>"
  by (simp add: the_end_def setReceiver_def)

lemma dat_of_upd [simp]: "(dat_of d)\<lparr>pData := Some d\<rparr> = dat_of d"
  by (simp add: dat_of_def)

lemma poll_linkE:
  assumes "poll_link link link2 f p w"
  obtains l where "FifoLinks (proto w) p = Some l" "the_end w p = l" "\<not> MutexHeld l" "connected w link f p"
    "\<not> (IsReceiverRegistered (DatReceiver l) \<and> CbRecvDat_F (DatReceiver l) \<noteq> None)"
    "\<not> BatchMutexHeld (batch_of l)" "\<not> IsBatchWindowOpen (batch_of l)"
    "IsPollingMode (PollingBuffer (DatReceiver l))" "pb_inv (PollingBuffer (DatReceiver l))" "priv_end w link2 = Some p"
  using assms by (auto simp: poll_link_def elim!: connectedE)

lemma poll_link_set:
  assumes "poll_link link link2 f p w" "pb_inv pb" "IsPollingMode pb"
  shows "poll_link link link2 f p (setReceiver p (\<lambda>r. r\<lparr>PollingBuffer := pb\<rparr>) w)"
    "poll_bytes p (setReceiver p (\<lambda>r. r\<lparr>PollingBuffer := pb\<rparr>) w) = pb_bytes pb"
proof -
  from assms(1) obtain l where "FifoLinks (proto w) p = Some l" "the_end w p = l" by (rule poll_linkE)
  then show "poll_link link link2 f p (setReceiver p (\<lambda>r. r\<lparr>PollingBuffer := pb\<rparr>) w)"
    "poll_bytes p (setReceiver p (\<lambda>r. r\<lparr>PollingBuffer := pb\<rparr>) w) = pb_bytes pb"
    using assms by (simp_all add: poll_bytes_def poll_link_def batch_of_def)
qed

lemma dat_bytes_dat_of: "length d < 2 ^ 64 \<Longrightarrow> dat_bytes (dat_of d) = Some d"
  by (simp add: dat_bytes_def dat_of_def unat_of_nat)

lemma send_polling_link:
  assumes "poll_link link link2 f p w" "d \<noteq> []" "length d < 2 ^ 64"
    "fifo_storeDataInPollingBuffer (Some d) (PollingBuffer (DatReceiver (the_end w p))) = (r, pb)"
    "r = IOC_RESULT_SUCCESS \<or> r = IOC_RESULT_BUFFER_FULL"
  shows "\<exists>r'. sendData_ofProtoFifo cb env link (dat_of d) opt w =
      Done (r', setReceiver p (\<lambda>x. x\<lparr>PollingBuffer := pb\<rparr>) w) \<and> (r' = IOC_RESULT_SUCCESS \<longleftrightarrow> r = IOC_RESULT_SUCCESS)"
proof -
  from assms(1) obtain l where l: "FifoLinks (proto w) p = Some l" "the_end w p = l" "\<not> MutexHeld l" "connected w link f p"
    "\<not> (IsReceiverRegistered (DatReceiver l) \<and> CbRecvDat_F (DatReceiver l) \<noteq> None)"
    "\<not> BatchMutexHeld (batch_of l)" "\<not> IsBatchWindowOpen (batch_of l)"
    "IsPollingMode (PollingBuffer (DatReceiver l))" by (rule poll_linkE) auto
  have pb: "(PollingBuffer (DatReceiver l))\<lparr>IsPollingMode := True\<rparr> = PollingBuffer (DatReceiver l)"
    using l(8) by simp
  have "send_polling p mode (dat_of d) w = Done (if r = IOC_RESULT_SUCCESS then IOC_RESULT_SUCCESS
      else if mode = ZeroTimeout then IOC_RESULT_TIMEOUT else IOC_RESULT_BUFFER_FULL,
      setReceiver p (\<lambda>x. x\<lparr>PollingBuffer := pb\<rparr>) w)" for mode
    using assms(3-5) l(1,2) by (auto simp: send_polling_def fderef_Some dat_bytes_dat_of pb)
  then show ?thesis
    using l send_peer_connected [OF l(4)] send_window_closed [OF l(1,6,7)]
    by (auto simp: sendData_ofProtoFifo_def Let_def)
qed


lemma recv_polling_link:
  assumes "poll_link link link2 f p w" "0 < n" "n \<le> POLLING_BUFFER_SIZE"
  shows "\<exists>d pb. recvData_ofProtoFifo [] (True, id) now link2 (dat_of (replicate n 0))
      (Some (opt_Timeout IOC_TIMEOUT_IMMEDIATE)) w =
      Done (if poll_bytes p w = [] then IOC_RESULT_TIMEOUT else IOC_RESULT_SUCCESS, d,
        setReceiver p (\<lambda>x. x\<lparr>PollingBuffer := pb\<rparr>) w) \<and>
    pb_inv pb \<and> IsPollingMode pb \<and> pb_bytes pb = drop n (poll_bytes p w) \<and>
    (poll_bytes p w \<noteq> [] \<longrightarrow> dat_bytes d = Some (take n (poll_bytes p w)))"
proof -
  from assms(1) obtain l where l: "FifoLinks (proto w) p = Some l" "the_end w p = l" "\<not> MutexHeld l"
    "IsPollingMode (PollingBuffer (DatReceiver l))" "pb_inv (PollingBuffer (DatReceiver l))" "priv_end w link2 = Some p"
    by (rule poll_linkE)
  from l(6) obtain lk where lk: "LinkHeap w link2 = Some lk" "pProtoPriv lk = Some p"
    by (auto simp: priv_end_def split: option.splits)
  let ?pb = "PollingBuffer (DatReceiver l)" and ?d = "dat_of (replicate n 0)"
  have n: "unat (PtrDataSize ?d) = n" "pData ?d = Some (replicate n 0)"
    using assms(3) by (simp_all add: dat_of_def unat_of_nat POLLING_BUFFER_SIZE_def)
  have len: "AvailableData ?pb = 0 \<longleftrightarrow> poll_bytes p w = []"
    using l(2) length_pb_bytes [of ?pb] by (auto simp: poll_bytes_def simp del: length_pb_bytes)
  have unlock: "unlockFifo p (setReceiver p (\<lambda>x. x\<lparr>PollingBuffer := b\<rparr>) (setFifo p (\<lambda>l. l\<lparr>MutexHeld := True\<rparr>) w)) =
      setReceiver p (\<lambda>x. x\<lparr>PollingBuffer := b\<rparr>) w" for b
    unfolding fifo_upds setFifo_setFifo by (rule setFifo_eq [OF l(1)]) (use l(3) in simp)
  have opt: "IDs (opt_Timeout 1000) AND IOC_OPTID_TIMEOUT \<noteq> 0" "TimeoutUS (opt_Timeout 1000) = 1000"
    by (simp_all add: opt_Timeout_def IOC_OPTID_TIMEOUT_def)
  have run: "recvData_ofProtoFifo [] (True, id) now link2 ?d (Some (opt_Timeout IOC_TIMEOUT_IMMEDIATE)) w =
      bindO (fifo_readDataFromPollingBufferWithTimeout n 1000 [] (True, id) ?pb) (\<lambda>(r, out, pb1).
        Done (r, if r = IOC_RESULT_SUCCESS then (deliver out ?d)\<lparr>PtrDataSize := of_nat (length out)\<rparr>
          else if r = IOC_RESULT_NO_DATA then ?d\<lparr>PtrDataSize := 0\<rparr> else ?d,
          setReceiver p (\<lambda>x. x\<lparr>PollingBuffer := pb1\<rparr>) w))"
    using lk l(1,3,4) opt n
    by (simp add: recvData_ofProtoFifo_def deref_def lockFifo_free fderef_def Let_def unlock case_prod_unfold)
  show ?thesis
  proof (cases "poll_bytes p w = []")
    case True
    then show ?thesis using run assms(2) len l
      by (auto simp: fifo_readDataFromPollingBufferWithTimeout_def poll_bytes_def)
  next
    case False
    obtain b' where b': "fifo_copyOut n ?pb = (take n (pb_bytes ?pb), b')" "pb_inv b'" "pb_bytes b' = drop n (pb_bytes ?pb)"
      using fifo_copyOut_spec [OF l(5)] by blast
    have mode: "IsPollingMode b'"
      using b'(1) l(4) by (auto simp: fifo_copyOut_def Let_def split: if_splits prod.splits)
    have "length (take n (pb_bytes ?pb)) < 2 ^ 64" using assms(3) by (simp add: POLLING_BUFFER_SIZE_def)
    then have "dat_bytes ((deliver (take n (pb_bytes ?pb)) ?d)\<lparr>PtrDataSize := of_nat (length (take n (pb_bytes ?pb)))\<rparr>) =
        Some (take n (pb_bytes ?pb))"
      using n by (simp add: dat_bytes_def deliver_def unat_of_nat blit_def min_def)
    then show ?thesis
      using False run assms(2) len b' mode l(2)
      by (auto simp: fifo_readDataFromPollingBufferWithTimeout_def poll_bytes_def)
  qed
qed

interpretation fifo_link: byte_stream "poll_link link link2 f p" "poll_bytes p" POLLING_BUFFER_SIZE
    "link_wr cb env opt link" "link_rd now link2"
  for link link2 f p cb env opt now
proof (unfold_locales, goal_cases)
  case (1 w)
  then show ?case by (auto simp: poll_bytes_def pb_inv_cap elim!: poll_linkE)
next
  case (2 w d)
  then obtain pb where pb: "PollingBuffer (DatReceiver (the_end w p)) = pb" "pb_inv pb" "IsPollingMode pb"
    by (auto elim!: poll_linkE)
  show ?case
  proof (cases "d = []")
    case False
    obtain pb' where pb': "fifo_storeDataInPollingBuffer (Some d) pb = (IOC_RESULT_SUCCESS, pb')" "pb_inv pb'"
        "pb_bytes pb' = pb_bytes pb @ d"
      using fifo_store_spec [OF pb(2) False] 2(2) pb(1,2) by (auto simp: poll_bytes_def pb_inv_def)
    have "IsPollingMode pb'"
      using pb'(1) pb(3) by (auto simp: fifo_storeDataInPollingBuffer_def Let_def split: if_splits)
    moreover have len: "length d < 2 ^ 64" using 2(2) by (simp add: POLLING_BUFFER_SIZE_def)
    ultimately show ?thesis
      using send_polling_link [OF 2(1) False len, of IOC_RESULT_SUCCESS pb' cb env opt] pb' pb(1)
        poll_link_set [OF 2(1) pb'(2)] False
      by (auto simp: link_wr_def poll_bytes_def)
  qed (use 2 in \<open>simp add: link_wr_def\<close>)
next
  case (3 w d)
  then obtain l pb where pb: "FifoLinks (proto w) p = Some l" "PollingBuffer (DatReceiver l) = pb"
    "the_end w p = l" "pb_inv pb" by (auto elim!: poll_linkE)
  have ne: "d \<noteq> []" using 3 pb by (auto simp: poll_bytes_def dest: pb_inv_cap)
  have full: "fifo_storeDataInPollingBuffer (Some d) pb = (IOC_RESULT_BUFFER_FULL, pb)"
    using fifo_store_spec [OF pb(4) ne] 3(2) pb by (auto simp: poll_bytes_def pb_inv_def)
  have "setReceiver p (\<lambda>x. x\<lparr>PollingBuffer := pb\<rparr>) w = w"
    unfolding fifo_upds by (rule setFifo_id [OF pb(1)]) (use pb(2) in auto)
  then show ?case
    using send_polling_link [OF 3(1) ne, of IOC_RESULT_BUFFER_FULL pb cb env opt] full pb ne
    by (auto simp: link_wr_def)
next
  case (4 w n)
  show ?case
  proof (cases "n = 0")
    case False
    let ?n = "min n POLLING_BUFFER_SIZE"
    have n: "0 < ?n" "?n \<le> POLLING_BUFFER_SIZE" using False by (simp_all add: POLLING_BUFFER_SIZE_def)
    have len: "length (poll_bytes p w) \<le> POLLING_BUFFER_SIZE"
      using 4 by (auto simp: poll_bytes_def pb_inv_cap elim!: poll_linkE)
    then have td: "take ?n (poll_bytes p w) = take n (poll_bytes p w)" "drop ?n (poll_bytes p w) = drop n (poll_bytes p w)"
      by (auto simp: min_def)
    obtain d pb where *: "recvData_ofProtoFifo [] (True, id) now link2 (dat_of (replicate ?n 0))
        (Some (opt_Timeout IOC_TIMEOUT_IMMEDIATE)) w =
        Done (if poll_bytes p w = [] then IOC_RESULT_TIMEOUT else IOC_RESULT_SUCCESS, d,
          setReceiver p (\<lambda>x. x\<lparr>PollingBuffer := pb\<rparr>) w)"
      "pb_inv pb" "IsPollingMode pb" "pb_bytes pb = drop n (poll_bytes p w)"
      "poll_bytes p w \<noteq> [] \<longrightarrow> dat_bytes d = Some (take n (poll_bytes p w))"
      using recv_polling_link [OF 4 n, of now] unfolding td by blast
    then show ?thesis using False poll_link_set [OF 4 *(2,3)] by (auto simp: link_rd_def)
  qed (use 4 in \<open>simp add: link_rd_def\<close>)
qed


section \<open>Batching\<close>

text \<open>A receiver with a callback whose batch is free; \<open>batched\<close> is what has accumulated.\<close>

definition batched :: "CallbackBatch_T \<Rightarrow> byte list" where
  "batched b = take (AccumulatedDataSize b) (pBatchBuffer b)"

definition batch_ok :: "CallbackBatch_T \<Rightarrow> bool" where
  "batch_ok b \<longleftrightarrow> length (pBatchBuffer b) = BatchBufferSize b \<and> AccumulatedDataSize b \<le> BatchBufferSize b \<and>
     BatchBufferSize b < 2 ^ 64 \<and> \<not> BatchMutexHeld b"

lemma setReceiver_sel [simp]:
  "FifoLinks (proto (setReceiver f g w)) = (FifoLinks (proto w))
     (f := map_option (\<lambda>l. l\<lparr>DatReceiver := g (DatReceiver l)\<rparr>) (FifoLinks (proto w) f))"
  "LinkHeap (setReceiver f g w) = LinkHeap w"
  by (simp_all add: setReceiver_def)

lemma setFifo_log [simp]:
  "recv_log (proto (setFifo f g w)) = recv_log (proto w)"
  "async_threads (proto (setFifo f g w)) = async_threads (proto w)"
  "drainCounter (proto (setFifo f g w)) = drainCounter (proto w)"
  by (simp_all add: setFifo_def)

lemma batched_add:
  assumes "batch_ok b" "length d \<le> BatchBufferSize b - AccumulatedDataSize b"
    "b' = b\<lparr>pBatchBuffer := blit (AccumulatedDataSize b) d (pBatchBuffer b),
       AccumulatedDataSize := AccumulatedDataSize b + length d\<rparr>"
  shows "batch_ok b'" "batched b' = batched b @ d"
  using assms by (auto simp: batch_ok_def batched_def blit_def)

text \<open>Under the mutex the batch is a value: \<open>putBatch p b\<close> writes it.\<close>

definition putBatch :: "nat \<Rightarrow> CallbackBatch_T \<Rightarrow> 'x fifo_world \<Rightarrow> 'x fifo_world" where
  "putBatch p b w = setBatch p (\<lambda>_. b) w"

definition with_batch :: "CallbackBatch_T \<Rightarrow> FifoLinkObject_T \<Rightarrow> FifoLinkObject_T" where
  "with_batch b l = l\<lparr>DatReceiver := (DatReceiver l)\<lparr>CallbackBatch := b\<rparr>\<rparr>"

lemma with_batch_simps [simp]:
  "batch_of (with_batch b l) = b" "MutexHeld (with_batch b l) = MutexHeld l" "pPeer (with_batch b l) = pPeer l"
  "pOwnerLinkObj (with_batch b l) = pOwnerLinkObj l" "with_batch (batch_of l) l = l"
  "CbRecvDat_F (DatReceiver (with_batch b l)) = CbRecvDat_F (DatReceiver l)"
  "drCbPrivData (DatReceiver (with_batch b l)) = drCbPrivData (DatReceiver l)"
  "IsReceiverRegistered (DatReceiver (with_batch b l)) = IsReceiverRegistered (DatReceiver l)"
  "PendingDataCount (DatReceiver (with_batch b l)) = PendingDataCount (DatReceiver l)"
  "PollingBuffer (DatReceiver (with_batch b l)) = PollingBuffer (DatReceiver l)"
  "with_batch b (with_batch b' l) = with_batch b l"
  by (simp_all add: with_batch_def batch_of_def)

lemma putBatch_sel [simp]:
  "FifoLinks (proto (putBatch p b w)) = (FifoLinks (proto w))(p := map_option (with_batch b) (FifoLinks (proto w) p))"
  "LinkHeap (putBatch p b w) = LinkHeap w" "recv_log (proto (putBatch p b w)) = recv_log (proto w)"
  "async_threads (proto (putBatch p b w)) = async_threads (proto w)"
  "drainCounter (proto (putBatch p b w)) = drainCounter (proto w)"
  by (simp_all add: putBatch_def setBatch_def setReceiver_def with_batch_def [abs_def])

lemma setBatch_put:
  "FifoLinks (proto w) p = Some l \<Longrightarrow> setBatch p g w = putBatch p (g (batch_of l)) w"
  unfolding putBatch_def fifo_upds by (rule setFifo_eq) (simp_all add: batch_of_def)

lemma putBatch_same: "FifoLinks (proto w) p = Some l \<Longrightarrow> batch_of l = b \<Longrightarrow> putBatch p b w = w"
  unfolding putBatch_def fifo_upds by (rule setFifo_id) (auto simp: batch_of_def)

lemma putBatch_step [simp]:
  "putBatch p b (putBatch p b' w) = putBatch p b w" "setBatch p g (putBatch p b w) = putBatch p (g b) w"
  "unlockBatch p (putBatch p b w) = putBatch p (b\<lparr>BatchMutexHeld := False\<rparr>) w"
  by (simp_all add: putBatch_def fifo_upds)

lemma lockBatch_put:
  "FifoLinks (proto w) p = Some l \<Longrightarrow> \<not> BatchMutexHeld (batch_of l) \<Longrightarrow>
   lockBatch p w k = k (putBatch p ((batch_of l)\<lparr>BatchMutexHeld := True\<rparr>) w)"
  by (simp add: lockBatch_free setBatch_put)

lemma connected_putBatch [simp]: "connected (putBatch p b w) link f q = connected w link f q"
  by (simp add: putBatch_def setBatch_def)

lemma unheld:
  "\<not> BatchMutexHeld b \<Longrightarrow> b\<lparr>BatchMutexHeld := False\<rparr> = b"
  "\<not> BatchMutexHeld b \<Longrightarrow> b\<lparr>pBatchBuffer := x, AccumulatedDataSize := n, BatchMutexHeld := False\<rparr> =
     b\<lparr>pBatchBuffer := x, AccumulatedDataSize := n\<rparr>"
  "\<not> BatchMutexHeld b \<Longrightarrow> b\<lparr>AccumulatedDataSize := n, BatchMutexHeld := False\<rparr> = b\<lparr>AccumulatedDataSize := n\<rparr>"
  "\<not> BatchMutexHeld b \<Longrightarrow> b\<lparr>BatchMutexHeld := False, IsBatchWindowOpen := o'\<rparr> = b\<lparr>IsBatchWindowOpen := o'\<rparr>"
  "\<not> BatchMutexHeld b \<Longrightarrow> b\<lparr>IsInCallback := i, BatchMutexHeld := False\<rparr> = b\<lparr>IsInCallback := i\<rparr>"
  "\<not> BatchMutexHeld b \<Longrightarrow> b\<lparr>LastCallbackStart := t, BatchMutexHeld := False\<rparr> = b\<lparr>LastCallbackStart := t\<rparr>"
  by simp_all

lemma addDataToBatch_open:
  assumes "FifoLinks (proto w) p = Some l" "batch_of l = b" "batch_ok b" "IsBatchWindowOpen b"
    "\<not> isBatchWindowExpired now b" "d \<noteq> []" "length (batched b) + length d \<le> BatchBufferSize b"
  shows "addDataToBatch now (Some d) p w = Done (IOC_RESULT_SUCCESS, putBatch p (b\<lparr>
    pBatchBuffer := blit (AccumulatedDataSize b) d (pBatchBuffer b),
    AccumulatedDataSize := AccumulatedDataSize b + length d\<rparr>) w)"
proof -
  have "length d \<le> BatchBufferSize b - AccumulatedDataSize b"
    using assms(3,7) by (auto simp: batch_ok_def batched_def)
  then show ?thesis using assms
    by (simp add: addDataToBatch_def batch_ok_def unheld lockBatch_put fderef_Some Let_def isBatchWindowExpired_def)
qed

lemma send_window_batches:
  assumes "FifoLinks (proto w) p = Some l" "batch_of l = b" "batch_ok b" "IsBatchWindowOpen b"
    "\<not> isBatchWindowExpired (se_expire env) b" "\<not> isBatchWindowExpired (se_add env) b"
    "dat_bytes d = Some bs" "bs \<noteq> []" "length (batched b) + length bs \<le> BatchBufferSize b"
  shows "send_window cb env p (Some F) True d w = Done (Some IOC_RESULT_SUCCESS, putBatch p (b\<lparr>
    pBatchBuffer := blit (AccumulatedDataSize b) bs (pBatchBuffer b),
    AccumulatedDataSize := AccumulatedDataSize b + length bs\<rparr>) w)"
proof -
  have b: "b\<lparr>BatchMutexHeld := False\<rparr> = b" "\<not> BatchMutexHeld b" using assms(3) by (simp_all add: batch_ok_def)
  have "\<not> isBatchWindowExpired (se_expire env) (b\<lparr>BatchMutexHeld := True\<rparr>)"
    using assms(5) by (simp add: isBatchWindowExpired_def)
  then show ?thesis
    using assms b addDataToBatch_open [OF assms(1-4,6,8,9)]
    by (simp add: send_window_def lockBatch_put fderef_Some Let_def putBatch_same [OF assms(1)])
qed

text \<open>The callback that only notes its invocation.\<close>

definition noting :: "'x dat_callback" where
  "noting F cbpriv link d w = Done (IOC_RESULT_SUCCESS,
     w\<lparr>proto := (proto w)\<lparr>recv_log := recv_log (proto w) @ [(F, cbpriv, link, the (dat_bytes d))]\<rparr>\<rparr>)"

lemma flushCallbackBatch_full:
  assumes "FifoLinks (proto w) p = Some l" "batch_of l = b" "batch_ok b" "batched b \<noteq> []"
    "CbRecvDat_F (DatReceiver l) = Some F" "IsReceiverRegistered (DatReceiver l)"
    "LinkHeap w (pOwnerLinkObj l) = Some lk"
  shows "\<exists>d. flushCallbackBatch cb p w = cb F (drCbPrivData (DatReceiver l)) (ID lk) d
      (putBatch p (b\<lparr>AccumulatedDataSize := 0\<rparr>) w) \<and> dat_bytes d = Some (batched b)"
proof -
  have b: "b\<lparr>BatchMutexHeld := False\<rparr> = b" "\<not> BatchMutexHeld b" "AccumulatedDataSize b \<noteq> 0"
    "AccumulatedDataSize b < 2 ^ 64"
    using assms(3,4) by (auto simp: batch_ok_def batched_def)
  let ?d = "IOC_initDatDesc\<lparr>pData := Some (pBatchBuffer b), PtrDataSize := of_nat (AccumulatedDataSize b),
      PtrDataLen := of_nat (AccumulatedDataSize b)\<rparr>"
  have "flushCallbackBatch cb p w = cb F (drCbPrivData (DatReceiver l)) (ID lk) ?d
      (putBatch p (b\<lparr>AccumulatedDataSize := 0, BatchMutexHeld := False\<rparr>) w)"
    using assms b(2,3)
    by (simp add: flushCallbackBatch_def lockBatch_put fderef_Some Let_def callReceiver_def deref_def)
  moreover have "b\<lparr>AccumulatedDataSize := 0, BatchMutexHeld := False\<rparr> = b\<lparr>AccumulatedDataSize := 0\<rparr>"
    using b(2) by simp
  moreover have "dat_bytes ?d = Some (batched b)" using b(4) by (simp add: dat_bytes_def batched_def unat_of_nat)
  ultimately show ?thesis by auto
qed


lemma closeBatchWindow_put:
  assumes "FifoLinks (proto w) p = Some l" "batch_of l = b" "\<not> BatchMutexHeld b"
  shows "closeBatchWindow cb p w = bindO (flushCallbackBatch cb p (putBatch p (b\<lparr>IsBatchWindowOpen := False\<rparr>) w))
    (\<lambda>(_, w2). Done w2)"
  using assms by (simp add: closeBatchWindow_def lockBatch_put unheld)

lemma flush_empty:
  assumes "FifoLinks (proto w) p = Some l" "batch_of l = b" "\<not> BatchMutexHeld b" "AccumulatedDataSize b = 0"
  shows "flushCallbackBatch cb p w = Done (IOC_RESULT_SUCCESS, w)"
  using assms by (simp add: flushCallbackBatch_def lockBatch_put fderef_Some unheld putBatch_same)

text \<open>A link whose peer end \<open>p\<close> delivers to a callback, its owner and its batch.\<close>

definition callback_link ::
  "'x fifo_world \<Rightarrow> nat \<Rightarrow> nat \<Rightarrow> nat \<Rightarrow> nat \<Rightarrow> LinkObject_T \<Rightarrow> CallbackBatch_T \<Rightarrow> bool" where
  "callback_link w link f p F lk b \<longleftrightarrow> connected w link f p \<and>
     CbRecvDat_F (DatReceiver (the_end w p)) = Some F \<and> IsReceiverRegistered (DatReceiver (the_end w p)) \<and>
     LinkHeap w (pOwnerLinkObj (the_end w p)) = Some lk \<and> batch_of (the_end w p) = b \<and> batch_ok b"

abbreviation receiver_priv :: "'x fifo_world \<Rightarrow> nat \<Rightarrow> nat" where
  "receiver_priv w p \<equiv> drCbPrivData (DatReceiver (the_end w p))"

lemma callback_linkE:
  assumes "callback_link w link f p F lk b"
  obtains l where "FifoLinks (proto w) p = Some l" "the_end w p = l" "\<not> MutexHeld l" "batch_of l = b" "batch_ok b"
    "CbRecvDat_F (DatReceiver l) = Some F" "IsReceiverRegistered (DatReceiver l)" "connected w link f p"
    "LinkHeap w (pOwnerLinkObj l) = Some lk" "\<not> BatchMutexHeld b"
  using assms by (auto simp: callback_link_def batch_ok_def elim!: connectedE)

lemma the_end_putBatch [simp]:
  "FifoLinks (proto w) p = Some l \<Longrightarrow> the_end (putBatch p b w) p = with_batch b l"
  by (simp add: the_end_def)

lemma callback_link_put:
  assumes "callback_link w link f p F lk b" "batch_ok b'"
  shows "callback_link (putBatch p b' w) link f p F lk b'" "receiver_priv (putBatch p b' w) p = receiver_priv w p"
proof -
  from assms(1) obtain l where "FifoLinks (proto w) p = Some l" "the_end w p = l" by (rule callback_linkE)
  then show "callback_link (putBatch p b' w) link f p F lk b'" "receiver_priv (putBatch p b' w) p = receiver_priv w p"
    using assms by (simp_all add: callback_link_def)
qed

lemma flushData_callback:
  assumes "callback_link w link f p F lk b"
  shows "flushData_ofProtoFifo cb link w =
    (if IsBatchWindowOpen b \<or> AccumulatedDataSize b > 0
     then bindO (closeBatchWindow cb p w) (\<lambda>w3. Done (IOC_RESULT_SUCCESS, w3)) else Done (IOC_RESULT_SUCCESS, w))"
proof -
  from assms obtain l where "FifoLinks (proto w) p = Some l" "\<not> MutexHeld l" "batch_of l = b"
    "connected w link f p" "\<not> BatchMutexHeld b" by (rule callback_linkE)
  then show ?thesis
    by (auto elim!: connectedE simp: flushData_ofProtoFifo_def deref_def lockFifo_free fderef_Some lockBatch_put)
qed

fun send_all ::
  "'x dat_callback \<Rightarrow> (send_env \<times> byte list) list \<Rightarrow> nat \<Rightarrow> IOC_Options_T option \<Rightarrow> 'x fifo_world \<Rightarrow>
   (IOC_Result_T list \<times> 'x fifo_world) outcome" where
  "send_all cb [] link opt w = Done ([], w)"
| "send_all cb ((env, d) # sends) link opt w = bindO (sendData_ofProtoFifo cb env link (dat_of d) opt w) (\<lambda>(r, w1).
     bindO (send_all cb sends link opt w1) (\<lambda>(rs, w2). Done (r # rs, w2)))"

text \<open>While the window is open.\<close>

definition in_window :: "CallbackBatch_T \<Rightarrow> send_env \<Rightarrow> bool" where
  "in_window b env \<longleftrightarrow> IsBatchWindowOpen b \<and> \<not> isBatchWindowExpired (se_expire env) b \<and>
     \<not> isBatchWindowExpired (se_add env) b"

lemma send_in_window:
  assumes "callback_link w link f p F lk b" "in_window b env" "d \<noteq> []"
    "length (batched b) + length d \<le> BatchBufferSize b"
  shows "\<exists>b'. sendData_ofProtoFifo cb env link (dat_of d) opt w = Done (IOC_RESULT_SUCCESS, putBatch p b' w) \<and>
    batch_ok b' \<and> batched b' = batched b @ d \<and> BatchBufferSize b' = BatchBufferSize b \<and>
    IsBatchWindowOpen b' \<and> (\<forall>e. in_window b' e \<longleftrightarrow> in_window b e)"
proof -
  from assms(1) obtain l where l: "FifoLinks (proto w) p = Some l" "the_end w p = l" "batch_of l = b" "batch_ok b"
    "CbRecvDat_F (DatReceiver l) = Some F" "IsReceiverRegistered (DatReceiver l)" "connected w link f p"
    by (rule callback_linkE)
  have len: "length d < 2 ^ 64" using assms(4) l(4) by (simp add: batch_ok_def)
  let ?b = "b\<lparr>pBatchBuffer := blit (AccumulatedDataSize b) d (pBatchBuffer b),
      AccumulatedDataSize := AccumulatedDataSize b + length d\<rparr>"
  have "length d \<le> BatchBufferSize b - AccumulatedDataSize b"
    using assms(4) l(4) by (auto simp: batch_ok_def batched_def)
  note b = batched_add [OF l(4) this refl]
  have "sendData_ofProtoFifo cb env link (dat_of d) opt w = Done (IOC_RESULT_SUCCESS, putBatch p ?b w)"
    using send_peer_connected [OF l(7)] l assms(2-4) dat_bytes_dat_of [OF len]
      send_window_batches [OF l(1,3,4), of env "dat_of d" d cb F]
    by (simp add: sendData_ofProtoFifo_def in_window_def)
  moreover have "in_window ?b e \<longleftrightarrow> in_window b e" for e
    by (simp add: in_window_def isBatchWindowExpired_def)
  ultimately show ?thesis using b assms(2) by (intro exI [of _ ?b]) (simp add: in_window_def)
qed

lemma send_all_in_window:
  assumes "callback_link w link f p F lk b" "\<forall>(env, d)\<in>set sends. in_window b env \<and> d \<noteq> []"
    "length (batched b) + length (concat (map snd sends)) \<le> BatchBufferSize b" "IsBatchWindowOpen b"
  shows "\<exists>b'. send_all cb sends link opt w = Done (replicate (length sends) IOC_RESULT_SUCCESS, putBatch p b' w) \<and>
    batch_ok b' \<and> batched b' = batched b @ concat (map snd sends) \<and> IsBatchWindowOpen b'"
  using assms
proof (induction sends arbitrary: w b)
  case Nil
  then obtain l where "FifoLinks (proto w) p = Some l" "batch_of l = b" "batch_ok b" by (auto elim!: callback_linkE)
  then show ?case using Nil.prems(4) by (intro exI [of _ b]) (simp add: putBatch_same)
next
  case (Cons s sends)
  obtain env d where s: "s = (env, d)" by (cases s)
  have pre: "in_window b env" "d \<noteq> []" "length (batched b) + length d \<le> BatchBufferSize b"
    using Cons.prems s by auto
  obtain b1 where 1: "sendData_ofProtoFifo cb env link (dat_of d) opt w = Done (IOC_RESULT_SUCCESS, putBatch p b1 w)"
    "batch_ok b1" "batched b1 = batched b @ d" "BatchBufferSize b1 = BatchBufferSize b" "IsBatchWindowOpen b1"
    "\<forall>e. in_window b1 e \<longleftrightarrow> in_window b e"
    using send_in_window [OF Cons.prems(1) pre] by blast
  have "\<forall>(env, d)\<in>set sends. in_window b1 env \<and> d \<noteq> []"
    "length (batched b1) + length (concat (map snd sends)) \<le> BatchBufferSize b1"
    using Cons.prems(2,3) 1(3,4,6) s by auto
  from Cons.IH [OF callback_link_put(1) [OF Cons.prems(1) 1(2)] this 1(5)] obtain b2 where
    "send_all cb sends link opt (putBatch p b1 w) = Done (replicate (length sends) IOC_RESULT_SUCCESS, putBatch p b2 w)"
    "batch_ok b2" "batched b2 = batched b1 @ concat (map snd sends)" "IsBatchWindowOpen b2" by auto
  then show ?case using 1(1,3) s by auto
qed


section \<open>Blocking sends\<close>

lemma send_batch_recent:
  assumes "FifoLinks (proto w) p = Some l" "batch_of l = b" "\<not> BatchMutexHeld b" "\<not> IsBatchWindowOpen b"
    "getElapsedTimeMs (LastCallbackEnd b) (se_check env) < 2 * SlowCallbackThresholdMs b"
    "dat_bytes d = Some bs" "bs \<noteq> []"
  shows "send_batch cb env p d w = Block"
  using assms by (simp add: send_batch_def send_decide_def lockBatch_put fderef_Some Let_def
      addDataToBatch_def lockBatch_held)


lemma spawn_sel [simp]:
  "FifoLinks (proto (spawn c w)) = FifoLinks (proto w)" "LinkHeap (spawn c w) = LinkHeap w"
  "recv_log (proto (spawn c w)) = recv_log (proto w)" "async_threads (proto (spawn c w)) = async_threads (proto w) @ [c]"
  by (simp_all add: spawn_def)

lemma setReceiver_log [simp]:
  "recv_log (proto (setReceiver f g w)) = recv_log (proto w)"
  "async_threads (proto (setReceiver f g w)) = async_threads (proto w)"
  "drainCounter (proto (setReceiver f g w)) = drainCounter (proto w)"
  by (simp_all add: setReceiver_def)

lemma send_cache_ok:
  assumes "FifoLinks (proto w) f = Some l" "\<not> MutexHeld l" "pData d \<noteq> None"
  shows "\<exists>h. send_cache env f d w = Done (setReceiver f h w)"
proof -
  have unlock: "unlockFifo f (setReceiver f h (setFifo f (\<lambda>l. l\<lparr>MutexHeld := True\<rparr>) w)) = setReceiver f h w" for h
    unfolding fifo_upds setFifo_setFifo by (rule setFifo_eq [OF assms(1)]) (use assms(2) in simp)
  have same: "unlockFifo f (setFifo f (\<lambda>l. l\<lparr>MutexHeld := True\<rparr>) w) = setReceiver f id w"
    unfolding fifo_upds setFifo_setFifo by (rule setFifo_eq [OF assms(1)]) (use assms(2) in simp)
  show ?thesis using assms by (auto simp: send_cache_def lockFifo_free unlock same)
qed

definition noted :: "AsyncCallbackContext_T \<Rightarrow> 'x fifo_world \<Rightarrow> 'x fifo_world" where
  "noted c w = w\<lparr>proto := (proto w)\<lparr>recv_log := recv_log (proto w) @
     [(acCallback c, acPrivData c, acLinkID c, the (dat_bytes (acDatDesc c)))]\<rparr>\<rparr>"

lemma noted_sel [simp]:
  "FifoLinks (proto (noted c w)) = FifoLinks (proto w)" "LinkHeap (noted c w) = LinkHeap w"
  "async_threads (proto (noted c w)) = async_threads (proto w)"
  "recv_log (proto (noted c w)) = recv_log (proto w) @ [(acCallback c, acPrivData c, acLinkID c, the (dat_bytes (acDatDesc c)))]"
  by (simp_all add: noted_def)





section \<open>Sends that must not block\<close>

lemma connected_same:
  assumes "connected w link f p" "LinkHeap w' = LinkHeap w" "FifoLinks (proto w') f = Some lf" "FifoLinks (proto w') p = Some lp"
    "same_ends (the_end w f) lf" "same_ends (the_end w p) lp"
  shows "connected w' link f p"
  using assms by (auto simp: connected_def priv_end_def same_ends_def the_end_def)

lemma putBatch_setReceiver:
  "FifoLinks (proto w) p = Some l \<Longrightarrow> putBatch p b w = setReceiver p (\<lambda>r. r\<lparr>CallbackBatch := b\<rparr>) w"
  by (simp add: putBatch_def setBatch_def)

lemma nonblock_full:
  assumes "connected w link f p" "FifoLinks (proto w) p = Some l" "CbRecvDat_F (DatReceiver l) = Some F"
    "IsReceiverRegistered (DatReceiver l)" "\<not> BatchMutexHeld (batch_of l)" "\<not> IsBatchWindowOpen (batch_of l)"
    "PendingDataCount (DatReceiver l) \<ge> 1" "send_mode_of opt = TrueNonBlock"
  shows "sendData_ofProtoFifo cb env link d opt w = Done (IOC_RESULT_BUFFER_FULL, w)"
proof -
  have l: "the_end w p = l" "\<not> MutexHeld l" using assms(1,2) by (auto simp: the_end_def connected_def)
  have "unlockFifo p (setFifo p (\<lambda>l. l\<lparr>MutexHeld := True\<rparr>) w) = w"
    unfolding fifo_upds setFifo_setFifo by (rule setFifo_id [OF assms(2)]) (use l(2) in simp)
  then have "send_nonblock cb env TrueNonBlock p F k d w = Done (Inl IOC_RESULT_BUFFER_FULL, w)" for k
    using assms(2,7) l(2) by (simp add: send_nonblock_def lockFifo_free fderef_def MAX_PENDING_CHUNKS_def)
  then show ?thesis
    using send_peer_connected [OF assms(1)] send_window_closed [OF assms(2,5,6)] assms(3,4,8) l(1)
    by (simp add: sendData_ofProtoFifo_def)
qed

lemma send_nonblock_accepted:
  assumes "FifoLinks (proto w) p = Some l" "\<not> MutexHeld l" "batch_of l = b" "\<not> BatchMutexHeld b"
    "PendingDataCount (DatReceiver l) = 0" "drainCounter (proto w) < 4" "LinkHeap w (pOwnerLinkObj l) = Some lk"
    "getElapsedTimeMs (se_start env) (se_end env) < SlowCallbackThresholdMs b"
  shows "\<exists>w' l'. send_nonblock noting env TrueNonBlock p F cbpriv d w = Done (Inr IOC_RESULT_SUCCESS, w') \<and>
    LinkHeap w' = LinkHeap w \<and> FifoLinks (proto w') = (FifoLinks (proto w))(p := Some l') \<and> same_ends l l' \<and>
    recv_log (proto w') = recv_log (proto w) @ [(F, cbpriv, ID lk, the (dat_bytes d))] \<and>
    CbRecvDat_F (DatReceiver l') = CbRecvDat_F (DatReceiver l) \<and>
    IsReceiverRegistered (DatReceiver l') = IsReceiverRegistered (DatReceiver l) \<and>
    PendingDataCount (DatReceiver l') = 1 \<and> \<not> BatchMutexHeld (batch_of l') \<and>
    IsBatchWindowOpen (batch_of l') = IsBatchWindowOpen b"
proof -
  let ?w2 = "setPending p (\<lambda>c. c + 1) w" and ?l2 = "l\<lparr>DatReceiver := (DatReceiver l)\<lparr>PendingDataCount := 1\<rparr>\<rparr>"
  have unlock: "unlockFifo p (setPending p (\<lambda>c. c + 1) (setFifo p (\<lambda>l. l\<lparr>MutexHeld := True\<rparr>) w)) = ?w2"
    unfolding fifo_upds setFifo_setFifo by (rule setFifo_eq [OF assms(1)]) (use assms(2) in simp)
  have 2: "FifoLinks (proto ?w2) = (FifoLinks (proto w))(p := Some ?l2)" "LinkHeap ?w2 = LinkHeap w"
    "recv_log (proto ?w2) = recv_log (proto w)" "drainCounter (proto ?w2) = drainCounter (proto w)"
    using assms(1,5) by (simp_all add: setPending_def)
  let ?w3 = "?w2\<lparr>proto := (proto ?w2)\<lparr>recv_log := recv_log (proto w) @ [(F, cbpriv, ID lk, the (dat_bytes d))]\<rparr>\<rparr>"
  have cb: "callReceiver noting F cbpriv p d ?w2 = Done (IOC_RESULT_SUCCESS, ?w3)"
    using 2 assms(7) by (simp add: callReceiver_def fderef_def deref_def noting_def)
  have 3: "FifoLinks (proto ?w3) p = Some ?l2" "batch_of ?l2 = b" using 2(1) assms(3) by (simp_all add: batch_of_def)
  let ?b4 = "b\<lparr>LastCallbackStart := se_start env, LastCallbackEnd := se_end env, BatchMutexHeld := False\<rparr>"
  let ?w4 = "putBatch p ?b4 ?w3"
  have 4: "send_drain p ?w4 = Done (?w4\<lparr>proto := (proto ?w4)\<lparr>drainCounter := drainCounter (proto w) + 1\<rparr>\<rparr>)"
    using assms(6) 2(4) by (simp add: send_drain_def Let_def)
  let ?w5 = "?w4\<lparr>proto := (proto ?w4)\<lparr>drainCounter := drainCounter (proto w) + 1\<rparr>\<rparr>" and ?l5 = "with_batch ?b4 ?l2"
  have "send_nonblock noting env TrueNonBlock p F cbpriv d w = Done (Inr IOC_RESULT_SUCCESS, ?w5)"
    using assms(1,2,4,5,8) unlock cb 3 4
    by (simp add: send_nonblock_def lockFifo_free fderef_def MAX_PENDING_CHUNKS_def Let_def
        lockBatch_put [OF 3(1)] shouldOpenBatchWindow_def)
  moreover have "LinkHeap ?w5 = LinkHeap w" "FifoLinks (proto ?w5) = (FifoLinks (proto w))(p := Some ?l5)"
    "recv_log (proto ?w5) = recv_log (proto w) @ [(F, cbpriv, ID lk, the (dat_bytes d))]"
    using 2 by simp_all
  moreover have "same_ends l ?l5" "CbRecvDat_F (DatReceiver ?l5) = CbRecvDat_F (DatReceiver l)"
    "IsReceiverRegistered (DatReceiver ?l5) = IsReceiverRegistered (DatReceiver l)"
    "PendingDataCount (DatReceiver ?l5) = 1" "\<not> BatchMutexHeld (batch_of ?l5)"
    "IsBatchWindowOpen (batch_of ?l5) = IsBatchWindowOpen b"
    by (simp_all add: same_ends_def)
  ultimately show ?thesis by blast
qed



section \<open>Properties\<close>

text \<open>C2: A polling link is a reliable byte stream: over any sequence of sends and receives, whatever
  the options of the sends, the bytes received are the bytes of the accepted sends in order, nothing
  lost, duplicated or invented; a send is accepted whole or refused whole.\<close>

theorem fifo_link_in_order:
  assumes "poll_link link link2 f p w"
  shows "\<exists>sent received w'. run_stream (link_wr cb env opt link) (link_rd now link2) ops w = (sent, received, w') \<and>
    poll_link link link2 f p w' \<and> poll_bytes p w @ sent = received @ poll_bytes p w'"
  using fifo_link.run_in_order [OF assms] by blast

text \<open>C23: While the batch window is open, sends never call the receiver: they are all accepted and
  accumulate, and the flush that ends the burst delivers them in one call, in order, after what had
  accumulated before.\<close>

theorem fifo_batch_delivers:
  assumes "callback_link w link f p F lk b" "IsBatchWindowOpen b"
    "\<forall>(env, d)\<in>set sends. in_window b env \<and> d \<noteq> []"
    "length (batched b) + length (concat (map snd sends)) \<le> BatchBufferSize b"
    "batched b @ concat (map snd sends) \<noteq> []"
  shows "\<exists>w1 w2. send_all cb sends link opt w = Done (replicate (length sends) IOC_RESULT_SUCCESS, w1) \<and>
    recv_log (proto w1) = recv_log (proto w) \<and> async_threads (proto w1) = async_threads (proto w) \<and>
    flushData_ofProtoFifo noting link w1 = Done (IOC_RESULT_SUCCESS, w2) \<and>
    recv_log (proto w2) = recv_log (proto w) @
      [(F, receiver_priv w p, ID lk, batched b @ concat (map snd sends))]"
proof -
  obtain b' where 1: "send_all cb sends link opt w = Done (replicate (length sends) IOC_RESULT_SUCCESS, putBatch p b' w)"
      "batch_ok b'" "batched b' = batched b @ concat (map snd sends)" "IsBatchWindowOpen b'"
    using send_all_in_window [OF assms(1,3,4,2)] by blast
  let ?w1 = "putBatch p b' w" and ?b2 = "b'\<lparr>IsBatchWindowOpen := False\<rparr>"
  note c1 = callback_link_put [OF assms(1) 1(2)]
  have b2: "batch_ok ?b2" "batched ?b2 = batched b'" using 1(2) by (simp_all add: batch_ok_def batched_def)
  note c2 = callback_link_put [OF assms(1) b2(1)]
  have ne: "batched ?b2 \<noteq> []" using b2(2) 1(3) assms(5) by simp
  from c2(1) obtain l where l: "FifoLinks (proto (putBatch p ?b2 w)) p = Some l" "the_end (putBatch p ?b2 w) p = l"
      "batch_of l = ?b2" "batch_ok ?b2" "CbRecvDat_F (DatReceiver l) = Some F" "IsReceiverRegistered (DatReceiver l)"
      "LinkHeap (putBatch p ?b2 w) (pOwnerLinkObj l) = Some lk"
    by (rule callback_linkE)
  obtain d where d: "flushCallbackBatch noting p (putBatch p ?b2 w) = noting F (drCbPrivData (DatReceiver l)) (ID lk) d
      (putBatch p (?b2\<lparr>AccumulatedDataSize := 0\<rparr>) (putBatch p ?b2 w))" "dat_bytes d = Some (batched ?b2)"
    using flushCallbackBatch_full [OF l(1,3,4) ne l(5,6,7)] by blast
  from c1(1) obtain l1 where l1: "FifoLinks (proto ?w1) p = Some l1" "batch_of l1 = b'" "\<not> BatchMutexHeld b'"
    by (rule callback_linkE)
  have "flushData_ofProtoFifo noting link ?w1 = bindO (flushCallbackBatch noting p (putBatch p ?b2 w))
      (\<lambda>(_, w3). Done (IOC_RESULT_SUCCESS, w3))"
    using flushData_callback [OF c1(1)] closeBatchWindow_put [OF l1] 1(4)
    by (simp add: bindO_assoc case_prod_unfold)
  moreover have "drCbPrivData (DatReceiver l) = receiver_priv w p" using l(2) c2(2) by simp
  ultimately show ?thesis
    using 1(1,3) d b2(2) by (simp add: noting_def)
qed


text \<open>C25: Flushing leaves a trap behind: a blocking send that follows a flush within 16 ms of the end of
  the last callback never returns.  The window is closed, so the sender decides to batch under the
  mutex of the batch, and the function that adds the data locks that mutex again.\<close>

theorem send_soon_after_flush_blocks:
  assumes "callback_link w link f p F lk b" "AccumulatedDataSize b = 0" "d \<noteq> []" "length d < 2 ^ 64"
    "send_mode_of opt = Blocking" "getElapsedTimeMs (LastCallbackEnd b) (se_check env) < 2 * SlowCallbackThresholdMs b"
  shows "\<exists>w1. flushData_ofProtoFifo cb link w = Done (IOC_RESULT_SUCCESS, w1) \<and>
    sendData_ofProtoFifo cb env link (dat_of d) opt w1 = Block"
proof -
  let ?b = "b\<lparr>IsBatchWindowOpen := False\<rparr>" and ?w1 = "putBatch p (b\<lparr>IsBatchWindowOpen := False\<rparr>) w"
  from assms(1) obtain l where l: "FifoLinks (proto w) p = Some l" "batch_of l = b" "batch_ok b" "\<not> BatchMutexHeld b"
    by (rule callback_linkE)
  have "flushData_ofProtoFifo cb link w = Done (IOC_RESULT_SUCCESS, ?w1)"
  proof (cases "IsBatchWindowOpen b")
    case True
    have "flushCallbackBatch cb p ?w1 = Done (IOC_RESULT_SUCCESS, ?w1)"
      by (rule flush_empty [where l = "with_batch ?b l" and b = ?b]) (use l assms(2) in auto)
    then show ?thesis
      using True flushData_callback [OF assms(1)] closeBatchWindow_put [OF l(1,2,4)] by simp
  next
    case False
    then have same: "?b = b" by simp
    have "?w1 = w" unfolding same by (rule putBatch_same [OF l(1,2)])
    then show ?thesis using flushData_callback [OF assms(1)] False assms(2) by simp
  qed
  moreover have "sendData_ofProtoFifo cb env link (dat_of d) opt ?w1 = Block"
  proof -
    have ok: "batch_ok ?b" using l(3) by (simp add: batch_ok_def)
    from callback_link_put(1) [OF assms(1) ok] obtain l1 where l1: "FifoLinks (proto ?w1) p = Some l1"
        "the_end ?w1 p = l1" "batch_of l1 = ?b" "connected ?w1 link f p"
        "CbRecvDat_F (DatReceiver l1) = Some F" "IsReceiverRegistered (DatReceiver l1)"
      by (rule callback_linkE)
    have "send_blocking cb env p F (drCbPrivData (DatReceiver l1)) (dat_of d) ?w1 = Block"
      using send_batch_recent [OF l1(1,3), of env "dat_of d" d cb] l(4) assms(3,6) dat_bytes_dat_of [OF assms(4)]
      by (simp add: send_blocking_def)
    then show ?thesis
      using send_peer_connected [OF l1(4)] l1(2,3,5,6) assms(5) l(4) send_window_closed [OF l1(1)]
      by (simp add: sendData_ofProtoFifo_def)
  qed
  ultimately show ?thesis by blast
qed



text \<open>A link accepts one non-blocking send and refuses all later ones: the count of pending chunks
  is raised by the first, and only an accepted call can lower it.  The callback has long returned.\<close>

theorem nonblock_send_only_once:
  assumes "callback_link w link f p F lk b" "\<not> IsBatchWindowOpen b" "PendingDataCount (DatReceiver (the_end w p)) = 0"
    "drainCounter (proto w) < 4" "send_mode_of opt = TrueNonBlock" "length d < 2 ^ 64"
    "getElapsedTimeMs (se_start env) (se_end env) < SlowCallbackThresholdMs b"
  shows "\<exists>w1. sendData_ofProtoFifo noting env link (dat_of d) opt w = Done (IOC_RESULT_SUCCESS, w1) \<and>
    recv_log (proto w1) = recv_log (proto w) @ [(F, receiver_priv w p, ID lk, d)] \<and>
    (\<forall>cb env' d'. sendData_ofProtoFifo cb env' link d' opt w1 = Done (IOC_RESULT_BUFFER_FULL, w1))"
proof -
  from assms(1) obtain l where l: "FifoLinks (proto w) p = Some l" "the_end w p = l" "\<not> MutexHeld l" "batch_of l = b"
    "CbRecvDat_F (DatReceiver l) = Some F" "IsReceiverRegistered (DatReceiver l)" "connected w link f p"
    "LinkHeap w (pOwnerLinkObj l) = Some lk" "\<not> BatchMutexHeld b" by (rule callback_linkE)
  have pend: "PendingDataCount (DatReceiver l) = 0" using assms(3) l(2) by simp
  obtain w2 l2 where 2: "send_nonblock noting env TrueNonBlock p F (receiver_priv w p) (dat_of d) w = Done (Inr IOC_RESULT_SUCCESS, w2)"
    "LinkHeap w2 = LinkHeap w" "FifoLinks (proto w2) = (FifoLinks (proto w))(p := Some l2)" "same_ends l l2"
    "recv_log (proto w2) = recv_log (proto w) @ [(F, receiver_priv w p, ID lk, d)]"
    "CbRecvDat_F (DatReceiver l2) = Some F" "IsReceiverRegistered (DatReceiver l2)" "PendingDataCount (DatReceiver l2) = 1"
    "\<not> BatchMutexHeld (batch_of l2)" "\<not> IsBatchWindowOpen (batch_of l2)"
    using send_nonblock_accepted [OF l(1,3,4,9) pend assms(4) l(8) assms(7), of F "receiver_priv w p" "dat_of d"]
      dat_bytes_dat_of [OF assms(6)] l(5,6) assms(2) by auto
  from l(7) obtain lf where lf: "p \<noteq> f" "FifoLinks (proto w) f = Some lf" "\<not> MutexHeld lf" "the_end w f = lf"
    by (rule connectedE)
  obtain h where h: "send_cache env f (dat_of d) w2 = Done (setReceiver f h w2)"
    using send_cache_ok [of w2 f lf "dat_of d" env] lf 2(3) by (auto simp: dat_of_def)
  let ?w3 = "setReceiver f h w2"
  have w3: "FifoLinks (proto ?w3) p = Some l2" using 2(3) lf(1) by simp
  have con: "connected ?w3 link f p"
    by (rule connected_same [OF l(7) _ _ w3, where lf = "lf\<lparr>DatReceiver := h (DatReceiver lf)\<rparr>"])
      (use 2(2,3,4) lf l(2) in \<open>auto simp: same_ends_def\<close>)
  have "sendData_ofProtoFifo noting env link (dat_of d) opt w = Done (IOC_RESULT_SUCCESS, ?w3)"
    using send_peer_connected [OF l(7)] l(2,4-6,9) assms(2,5) send_window_closed [OF l(1)] 2(1) h
    by (simp add: sendData_ofProtoFifo_def)
  moreover have "sendData_ofProtoFifo cb env' link d' opt ?w3 = Done (IOC_RESULT_BUFFER_FULL, ?w3)" for cb env' d'
    by (rule nonblock_full [OF con w3 2(6,7,9,10) _ assms(5)]) (use 2(8) in simp)
  ultimately show ?thesis using 2(5) by (intro exI [of _ ?w3]) simp
qed



section \<open>Witnesses\<close>

definition dat_world :: "(DatReceiver_T \<Rightarrow> DatReceiver_T) \<Rightarrow> fifo_state ioc_world" where
  "dat_world h = connected_pair (\<lambda>l. l\<lparr>DatReceiver := h (DatReceiver l)\<rparr>) id id"

definition fresh_receiver :: DatReceiver_T where
  "fresh_receiver = DatReceiver (fresh_fifo_link 1 fresh_PollingBuffer fresh_batch)"

lemma dat_world_ok:
  "connected (dat_world h) 0 1 2" "DatReceiver (the_end (dat_world h) 2) = h fresh_receiver"
  "pOwnerLinkObj (the_end (dat_world h) 2) = 1"
  "LinkHeap (dat_world h) 1 = Some ((new_link 1)\<lparr>pProtoPriv := Some 2\<rparr>)" "priv_end (dat_world h) 1 = Some 2"
  "recv_log (proto (dat_world h)) = []" "async_threads (proto (dat_world h)) = []" "drainCounter (proto (dat_world h)) = 0"
  unfolding dat_world_def using connected_pair_ok [of "\<lambda>l. l\<lparr>DatReceiver := h (DatReceiver l)\<rparr>" id id]
  by (auto simp: fresh_fifo_link_def connected_pair_def fresh_receiver_def priv_end_def fifo_init_def)

lemma fresh_receiver_ok:
  "CallbackBatch fresh_receiver = fresh_batch" "PollingBuffer fresh_receiver = fresh_PollingBuffer"
  "CbRecvDat_F fresh_receiver = None" "drCbPrivData fresh_receiver = 0" "PendingDataCount fresh_receiver = 0"
  by (simp_all add: fresh_receiver_def fresh_fifo_link_def)

lemma fresh_batch_ok:
  "batch_ok fresh_batch" "batched fresh_batch = []" "\<not> IsBatchWindowOpen fresh_batch" "\<not> BatchMutexHeld fresh_batch"
  "\<not> IsInCallback fresh_batch" "AccumulatedDataSize fresh_batch = 0" "LastCallbackEnd fresh_batch = time0"
  "SlowCallbackThresholdMs fresh_batch = 8" "BatchBufferSize fresh_batch = 16384"
  "BatchWindowStart fresh_batch = time0" "BatchWindowDurationMs fresh_batch = 25"
  by (simp_all add: fresh_batch_def zero_batch_def batch_ok_def batched_def PROTO_FIFO_SEND_QUEUE_SIZE_def)

text \<open>All clocks at one time, all resources there.\<close>

definition env_at :: "timespec \<Rightarrow> send_env" where
  "env_at t = \<lparr>se_expire = t, se_add = t, se_check = t, se_start = t, se_end = t, se_stale = t, se_sent = t,
     se_ctx = True, se_copy = True, se_thread = True, se_early = None\<rparr>"

definition call_world :: "(CallbackBatch_T \<Rightarrow> CallbackBatch_T) \<Rightarrow> fifo_state ioc_world" where
  "call_world g = dat_world (\<lambda>r. r\<lparr>CbRecvDat_F := Some 3, IsReceiverRegistered := True, CallbackBatch := g (CallbackBatch r)\<rparr>)"

lemma call_world_ok:
  "batch_ok (g fresh_batch) \<Longrightarrow>
   callback_link (call_world g) 0 1 2 3 ((new_link 1)\<lparr>pProtoPriv := Some 2\<rparr>) (g fresh_batch)"
  "receiver_priv (call_world g) 2 = 0" "PollingBuffer (DatReceiver (the_end (call_world g) 2)) = fresh_PollingBuffer"
  "PendingDataCount (DatReceiver (the_end (call_world g) 2)) = 0"
  "recv_log (proto (call_world g)) = []" "async_threads (proto (call_world g)) = []" "drainCounter (proto (call_world g)) = 0"
  by (simp_all add: callback_link_def call_world_def dat_world_ok [simplified] fresh_receiver_ok batch_of_def)

lemma elapsed_0 [simp]: "getElapsedTimeMs t t = 0"
  by (simp add: getElapsedTimeMs_def)

theorem fifo_link_in_order_witness:
  "\<exists>sent received w'. run_stream (link_wr noting (env_at time0) None 0) (link_rd time0 1) [Wr [1, 2, 3], Rd 2]
      (dat_world (\<lambda>r. r\<lparr>PollingBuffer := (PollingBuffer r)\<lparr>IsPollingMode := True\<rparr>\<rparr>)) = (sent, received, w') \<and>
    sent = received @ poll_bytes 2 w'"
proof -
  let ?w = "dat_world (\<lambda>r. r\<lparr>PollingBuffer := (PollingBuffer r)\<lparr>IsPollingMode := True\<rparr>\<rparr>)"
  have pb: "pb_inv (fresh_PollingBuffer\<lparr>IsPollingMode := True\<rparr>)" "pb_bytes (fresh_PollingBuffer\<lparr>IsPollingMode := True\<rparr>) = []"
    using fresh_PollingBuffer_ok by (simp_all add: pb_inv_def pb_bytes_def)
  have "poll_link 0 1 1 2 ?w"
    using pb by (simp add: poll_link_def dat_world_ok [simplified] fresh_receiver_ok fresh_batch_ok batch_of_def)
  from fifo_link_in_order [OF this, of noting "env_at time0" None time0 "[Wr [1, 2, 3], Rd 2]"] show ?thesis
    using pb by (auto simp: poll_bytes_def dat_world_ok fresh_receiver_ok)
qed

theorem fifo_batch_delivers_witness:
  "\<exists>w1 w2. send_all noting [(env_at time0, [1, 2]), (env_at time0, [3])] 0 None (call_world (\<lambda>b. b\<lparr>IsBatchWindowOpen := True\<rparr>)) =
      Done ([IOC_RESULT_SUCCESS, IOC_RESULT_SUCCESS], w1) \<and>
    flushData_ofProtoFifo noting 0 w1 = Done (IOC_RESULT_SUCCESS, w2) \<and>
    recv_log (proto w2) = [(3, 0, ID (new_link 1), [1, 2, 3])]"
proof -
  let ?b = "fresh_batch\<lparr>IsBatchWindowOpen := True\<rparr>"
  have b: "batch_ok ?b" "batched ?b = []" using fresh_batch_ok by (simp_all add: batch_ok_def batched_def)
  have "in_window ?b (env_at time0)"
    using fresh_batch_ok by (simp add: in_window_def isBatchWindowExpired_def env_at_def)
  then show ?thesis
    using fifo_batch_delivers [OF call_world_ok(1) [of "\<lambda>b. b\<lparr>IsBatchWindowOpen := True\<rparr>", OF b(1)],
        of "[(env_at time0, [1, 2]), (env_at time0, [3])]" noting None] b fresh_batch_ok
    by (auto simp: call_world_ok simp del: send_all.simps)
qed

theorem send_soon_after_flush_blocks_witness:
  "\<exists>w1. flushData_ofProtoFifo noting 0 (call_world (\<lambda>b. b)) = Done (IOC_RESULT_SUCCESS, w1) \<and>
    sendData_ofProtoFifo noting (env_at time0) 0 (dat_of [7]) None w1 = Block"
  using send_soon_after_flush_blocks [OF call_world_ok(1) [of "\<lambda>b. b", OF fresh_batch_ok(1)], of "[7]" None "env_at time0" noting]
    fresh_batch_ok by (auto simp: send_mode_of_def env_at_def)


theorem nonblock_send_only_once_witness:
  "\<exists>w1. sendData_ofProtoFifo noting (env_at time0) 0 (dat_of [7]) (Some opt_NonBlock) (call_world (\<lambda>b. b)) =
      Done (IOC_RESULT_SUCCESS, w1) \<and>
    sendData_ofProtoFifo noting (env_at time0) 0 (dat_of [8]) (Some opt_NonBlock) w1 = Done (IOC_RESULT_BUFFER_FULL, w1)"
proof -
  have "send_mode_of (Some opt_NonBlock) = TrueNonBlock"
    by (simp add: send_mode_of_def opt_NonBlock_def IOC_OPTID_TIMEOUT_def)
  then show ?thesis
    using nonblock_send_only_once [OF call_world_ok(1) [of "\<lambda>b. b", OF fresh_batch_ok(1)] fresh_batch_ok(3),
        of "Some opt_NonBlock" "[7]" "env_at time0"] fresh_batch_ok
    by (auto simp: call_world_ok env_at_def)
qed

end
