(* ===== verification/ConetApi.thy ===== *)
theory ConetApi
  imports ServiceTable
begin

text \<open>
  The calls an application makes on a link, and how they reach the protocols:
  \<^verbatim>\<open>src/Source/IOC_Event.c\<close>, \<^verbatim>\<open>_IOC_ConetEvent.c\<close>, \<^verbatim>\<open>IOC_Data.c\<close>, \<^verbatim>\<open>IOC_Command.c\<close> and
  \<^verbatim>\<open>IOC_Capability.c\<close>.  A protocol is a table of functions (\<open>SrvProtoMethods\<close>); the library has a
  list of them, in which a link finds its own by index.
\<close>

section \<open>The method table of a protocol\<close>

text \<open>Links and services are named as in the service table: links by address, services by slot.\<close>

record 'p SrvProtoMethods =
  mProtocol :: string
  OpOnlineService :: "nat \<Rightarrow> 'p ioc_world \<Rightarrow> (IOC_Result_T \<times> 'p ioc_world) outcome"
  OpOfflineService :: "nat \<Rightarrow> 'p ioc_world \<Rightarrow> (IOC_Result_T \<times> 'p ioc_world) outcome"
  OpConnectService :: "nat \<Rightarrow> IOC_ConnArgs_T \<Rightarrow> IOC_Options_T option \<Rightarrow> 'p ioc_world \<Rightarrow>
    (IOC_Result_T \<times> 'p ioc_world) outcome"
  OpAcceptClient :: "nat \<Rightarrow> nat \<Rightarrow> IOC_Options_T option \<Rightarrow> 'p ioc_world \<Rightarrow> (IOC_Result_T \<times> 'p ioc_world) outcome"
  OpCloseLink :: "nat \<Rightarrow> 'p ioc_world \<Rightarrow> (IOC_Result_T \<times> 'p ioc_world) outcome"
  OpSubEvt :: "(nat \<Rightarrow> IOC_SubEvtArgs_T \<Rightarrow> 'p ioc_world \<Rightarrow> (IOC_Result_T \<times> 'p ioc_world) outcome) option"
  OpUnsubEvt :: "(nat \<Rightarrow> IOC_SubEvtArgs_T \<Rightarrow> 'p ioc_world \<Rightarrow> (IOC_Result_T \<times> 'p ioc_world) outcome) option"
  OpPostEvt :: "(nat \<Rightarrow> IOC_EvtDesc_T \<Rightarrow> IOC_Options_T option \<Rightarrow> 'p ioc_world \<Rightarrow>
    (IOC_Result_T \<times> 'p ioc_world) outcome) option"
  OpPullEvt :: "(nat \<Rightarrow> IOC_Options_T option \<Rightarrow> 'p ioc_world \<Rightarrow>
    (IOC_Result_T \<times> IOC_EvtDesc_T option \<times> 'p ioc_world) outcome) option"
  OpSendData :: "(nat \<Rightarrow> IOC_DatDesc_T \<Rightarrow> IOC_Options_T option \<Rightarrow> 'p ioc_world \<Rightarrow>
    (IOC_Result_T \<times> 'p ioc_world) outcome) option"
  OpRecvData :: "(nat \<Rightarrow> IOC_DatDesc_T \<Rightarrow> IOC_Options_T option \<Rightarrow> 'p ioc_world \<Rightarrow>
    (IOC_Result_T \<times> IOC_DatDesc_T \<times> 'p ioc_world) outcome) option"
  OpExecCmd :: "(nat \<Rightarrow> IOC_CmdDesc_T \<Rightarrow> IOC_Options_T option \<Rightarrow> 'p ioc_world \<Rightarrow>
    (IOC_Result_T \<times> IOC_CmdDesc_T \<times> 'p ioc_world) outcome) option"
  OpWaitCmd :: "(nat \<Rightarrow> IOC_Options_T option \<Rightarrow> 'p ioc_world \<Rightarrow>
    (IOC_Result_T \<times> IOC_CmdDesc_T option \<times> 'p ioc_world) outcome) option"
  OpAckCmd :: "(nat \<Rightarrow> IOC_CmdDesc_T \<Rightarrow> IOC_Options_T option \<Rightarrow> 'p ioc_world \<Rightarrow>
    (IOC_Result_T \<times> 'p ioc_world) outcome) option"

text \<open>A method of a link; without a table, or where the table has a null pointer, the answer is
  \<open>missing\<close> (a failed assertion for some calls, a result for others).\<close>

definition method_of ::
  "'p SrvProtoMethods list \<Rightarrow> LinkObject_T \<Rightarrow> ('p SrvProtoMethods \<Rightarrow> 'f option) \<Rightarrow> 'b outcome \<Rightarrow> ('f \<Rightarrow> 'b outcome) \<Rightarrow>
   'b outcome" where
  "method_of ms lk sel missing k = (case pMethods lk of
     None \<Rightarrow> missing
   | Some m \<Rightarrow> (case sel (ms ! m) of None \<Rightarrow> missing | Some f \<Rightarrow> k f))"

text \<open>The link behind an identifier.\<close>

definition with_link ::
  "ULONG \<Rightarrow> 'p ioc_world \<Rightarrow> 'b outcome \<Rightarrow> (nat \<Rightarrow> LinkObject_T \<Rightarrow> 'b outcome) \<Rightarrow> 'b outcome" where
  "with_link link w missing k = (case getLinkObjByLinkID link w of
     None \<Rightarrow> missing
   | Some a \<Rightarrow> deref a w (\<lambda>lk. k a lk))"

section \<open>Events on connected links\<close>

definition subEVT_inConetMode ::
  "'p SrvProtoMethods list \<Rightarrow> ULONG \<Rightarrow> IOC_SubEvtArgs_T \<Rightarrow> 'p ioc_world \<Rightarrow> (IOC_Result_T \<times> 'p ioc_world) outcome" where
  "subEVT_inConetMode ms link args w = with_link link w (Done (IOC_RESULT_NOT_EXIST_LINK, w)) (\<lambda>a lk.
     method_of ms lk OpSubEvt Abort (\<lambda>op. op a args w))"

definition unsubEVT_inConetMode ::
  "'p SrvProtoMethods list \<Rightarrow> ULONG \<Rightarrow> IOC_SubEvtArgs_T \<Rightarrow> 'p ioc_world \<Rightarrow> (IOC_Result_T \<times> 'p ioc_world) outcome" where
  "unsubEVT_inConetMode ms link args w = with_link link w (Done (IOC_RESULT_NOT_EXIST_LINK, w)) (\<lambda>a lk.
     method_of ms lk OpUnsubEvt Abort (\<lambda>op. op a args w))"

definition postEVT_inConetMode ::
  "'p SrvProtoMethods list \<Rightarrow> ULONG \<Rightarrow> IOC_EvtDesc_T \<Rightarrow> IOC_Options_T option \<Rightarrow> 'p ioc_world \<Rightarrow>
   (IOC_Result_T \<times> 'p ioc_world) outcome" where
  "postEVT_inConetMode ms link e opt w = with_link link w (Done (IOC_RESULT_NOT_EXIST_LINK, w)) (\<lambda>a lk.
     method_of ms lk OpPostEvt Abort (\<lambda>op. op a e opt w))"

definition pullEVT_inConetMode ::
  "'p SrvProtoMethods list \<Rightarrow> ULONG \<Rightarrow> IOC_Options_T option \<Rightarrow> 'p ioc_world \<Rightarrow>
   (IOC_Result_T \<times> IOC_EvtDesc_T option \<times> 'p ioc_world) outcome" where
  "pullEVT_inConetMode ms link opt w = with_link link w (Done (IOC_RESULT_NOT_EXIST_LINK, None, w)) (\<lambda>a lk.
     method_of ms lk OpPullEvt Abort (\<lambda>op. op a opt w))"

section \<open>The state of a connected link\<close>

text \<open>
  The main state of an existing link is always ready.  The sub state: \<open>recent\<close> says whether the last
  data operation was at most a second ago; the answer, and what the query itself changes: the
  sending flag of the link and a counter of the whole process.
\<close>

definition conet_subState :: "bool \<Rightarrow> LinkObject_T \<Rightarrow> int \<Rightarrow> IOC_LinkSubState_T \<times> LinkObject_T \<times> int" where
  "conet_subState recent lk n =
    (if has_usage (Usage lk) IOC_LinkUsageDatReceiver \<and> \<not> IsSending lk \<and>
        DatSubState lk = IOC_LinkSubStateDefault \<and> DatLastOpTime lk > 0
     then (IOC_LinkSubStateDatReceiverReady, lk, n)
     else if has_usage (Usage lk) IOC_LinkUsageDatReceiver \<and>
        (DatSubState lk = IOC_LinkSubStateDatSenderReady \<or>
         DatSubState lk = IOC_LinkSubStateDatSenderBusySendDat \<or> IsSending lk)
     then if recent \<and> DatSubState lk = IOC_LinkSubStateDatSenderReady \<and> \<not> IsSending lk
          then (IOC_LinkSubStateDatSenderBusySendDat, lk\<lparr>IsSending := True\<rparr>, n)
          else if recent \<and> IsSending lk
          then (if n + 1 = 1 then IOC_LinkSubStateDatReceiverReady else IOC_LinkSubStateDatSenderReady, lk, n + 1)
          else (IOC_LinkSubStateDatSenderReady, lk\<lparr>IsSending := False\<rparr>, n)
     else (if IsSending lk then IOC_LinkSubStateDatSenderBusySendDat
       else if IsReceiving lk then IOC_LinkSubStateDatReceiverBusyCbRecvDat
       else if has_usage (Usage lk) IOC_LinkUsageCmdInitiator \<and> IsExecuting lk
         then IOC_LinkSubStateCmdInitiatorBusyExecCmd
       else if has_usage (Usage lk) IOC_LinkUsageCmdExecutor \<and> IsWaiting lk
         then IOC_LinkSubStateCmdExecutorBusyWaitCmd
       else if has_usage (Usage lk) IOC_LinkUsageCmdExecutor \<and> IsProcessing lk
         then IOC_LinkSubStateCmdExecutorBusyExecCmd
       else if has_usage (Usage lk) IOC_LinkUsageCmdInitiator then IOC_LinkSubStateCmdInitiatorReady
       else if has_usage (Usage lk) IOC_LinkUsageCmdExecutor then IOC_LinkSubStateCmdExecutorReady
       else if has_usage (Usage lk) IOC_LinkUsageDatReceiver then IOC_LinkSubStateDatReceiverReady
       else if DatSubState lk \<noteq> IOC_LinkSubStateDefault then DatSubState lk
       else if has_usage (Usage lk) IOC_LinkUsageDatSender then IOC_LinkSubStateDatSenderReady
       else IOC_LinkSubStateDefault, lk, n))"

text \<open>\<open>want_sub\<close>: the caller passes a place for the sub state; \<open>now\<close> is the time in seconds.\<close>

definition getLinkState_inConetMode ::
  "int \<Rightarrow> ULONG \<Rightarrow> bool \<Rightarrow> 'p ioc_world \<Rightarrow>
   (IOC_Result_T \<times> (IOC_LinkState_T \<times> IOC_LinkSubState_T option) option \<times> 'p ioc_world) outcome" where
  "getLinkState_inConetMode now link want_sub w =
     with_link link w (Done (IOC_RESULT_NOT_EXIST_LINK, None, w)) (\<lambda>a lk.
       if \<not> want_sub then Done (IOC_RESULT_SUCCESS, Some (IOC_LinkStateReady, None), w)
       else let (ss, lk', n) = conet_subState (now - DatLastOpTime lk \<le> 1) lk (postBusyCallCount w)
         in Done (IOC_RESULT_SUCCESS, Some (IOC_LinkStateReady, Some ss),
              (setLink a (\<lambda>_. lk') w)\<lparr>postBusyCallCount := n\<rparr>))"

section \<open>The event calls\<close>

text \<open>A call on the automatic link runs the connectionless code on the library's link object; the
  calling thread does not hold its mutex.\<close>

definition on_conles ::
  "(cls_world \<Rightarrow> (IOC_Result_T \<times> cls_world) outcome) \<Rightarrow> 'p ioc_world \<Rightarrow> (IOC_Result_T \<times> 'p ioc_world) outcome" where
  "on_conles f w = bindO (f \<lparr>lo = conles w, mutex_held = False, invoked = [], answers = []\<rparr>)
     (\<lambda>(r, c). Done (r, w\<lparr>conles := lo c\<rparr>))"

definition IOC_subEVT ::
  "'p SrvProtoMethods list \<Rightarrow> ULONG \<Rightarrow> IOC_SubEvtArgs_T \<Rightarrow> 'p ioc_world \<Rightarrow> (IOC_Result_T \<times> 'p ioc_world) outcome" where
  "IOC_subEVT ms link a w =
    (if isAutoLink link then on_conles (subEVT a) w else subEVT_inConetMode ms link a w)"

definition IOC_unsubEVT ::
  "'p SrvProtoMethods list \<Rightarrow> ULONG \<Rightarrow> IOC_SubEvtArgs_T \<Rightarrow> 'p ioc_world \<Rightarrow> (IOC_Result_T \<times> 'p ioc_world) outcome" where
  "IOC_unsubEVT ms link a w =
    (if isAutoLink link then on_conles (unsubEVT a) w else unsubEVT_inConetMode ms link a w)"

text \<open>A post stamps the caller's descriptor: the counter of the process, then the time.\<close>

definition stamp :: "timespec \<Rightarrow> IOC_EvtDesc_T \<Rightarrow> 'p ioc_world \<Rightarrow> IOC_EvtDesc_T \<times> 'p ioc_world" where
  "stamp now e w = (let n = evtSeqID w + 1
     in (e\<lparr>MsgDesc := (MsgDesc e)\<lparr>SeqID := n, TimeStamp := now\<rparr>\<rparr>, w\<lparr>evtSeqID := n\<rparr>))"

definition IOC_postEVT ::
  "'p SrvProtoMethods list \<Rightarrow> user_code \<Rightarrow> post_env \<Rightarrow> timespec \<Rightarrow> ULONG \<Rightarrow> IOC_EvtDesc_T option \<Rightarrow>
   IOC_Options_T option \<Rightarrow> 'p ioc_world \<Rightarrow> (IOC_Result_T \<times> IOC_EvtDesc_T option \<times> 'p ioc_world) outcome" where
  "IOC_postEVT ms user env now link e opt w = (case e of
     None \<Rightarrow> Done (IOC_RESULT_INVALID_PARAM, None, w)
   | Some e0 \<Rightarrow> (let (e1, w1) = stamp now e0 w
       in bindO (if isAutoLink link then on_conles (postEVT user link e1 opt env) w1
                 else postEVT_inConetMode ms link e1 opt w1) (\<lambda>(r, w2). Done (r, Some e1, w2))))"

text \<open>\<open>want\<close>: the caller passes a place for the event.\<close>

definition IOC_pullEVT ::
  "'p SrvProtoMethods list \<Rightarrow> ULONG \<Rightarrow> bool \<Rightarrow> IOC_Options_T option \<Rightarrow> 'p ioc_world \<Rightarrow>
   (IOC_Result_T \<times> IOC_EvtDesc_T option \<times> 'p ioc_world) outcome" where
  "IOC_pullEVT ms link want opt w =
    (if \<not> want then Done (IOC_RESULT_INVALID_PARAM, None, w)
     else if isAutoLink link then Done (pullEVT_inConlesMode, None, w)
     else pullEVT_inConetMode ms link opt w)"

definition IOC_forceProcEVT ::
  "timespec \<Rightarrow> (timespec \<times> (ClsEvtLinkObj_T \<Rightarrow> ClsEvtLinkObj_T)) list \<Rightarrow> 'p ioc_world \<Rightarrow> 'p ioc_world outcome" where
  "IOC_forceProcEVT st rs w = bindO (forceProcEvt st rs (conles w)) (\<lambda>l. Done (w\<lparr>conles := l\<rparr>))"

definition IOC_getLinkState ::
  "int \<Rightarrow> ULONG \<Rightarrow> bool \<Rightarrow> bool \<Rightarrow> 'p ioc_world \<Rightarrow>
   (IOC_Result_T \<times> (IOC_LinkState_T \<times> IOC_LinkSubState_T option) option \<times> 'p ioc_world) outcome" where
  "IOC_getLinkState now link want_state want_sub w =
    (if isAutoLink link then
       if \<not> want_state then Abort
       else bindO (getLinkState_inConlesMode link (conles w)) (\<lambda>(r, s).
         Done (r, map_option (\<lambda>(m, ss). (m, if want_sub then Some ss else None)) s, w))
     else if \<not> want_state then Done (IOC_RESULT_INVALID_PARAM, None, w)
     else getLinkState_inConetMode now link want_sub w)"

section \<open>The data calls\<close>

definition IOC_MAX_DATA_SIZE :: ULONG where "IOC_MAX_DATA_SIZE = 64 * 1024 * 1024"

text \<open>\<open>t0\<close> and \<open>t1\<close>: the time before and after.  A protocol without data support leaves the sub state
  at busy.\<close>

definition IOC_sendDAT ::
  "'p SrvProtoMethods list \<Rightarrow> int \<Rightarrow> int \<Rightarrow> ULONG \<Rightarrow> IOC_DatDesc_T option \<Rightarrow> IOC_Options_T option \<Rightarrow>
   'p ioc_world \<Rightarrow> (IOC_Result_T \<times> 'p ioc_world) outcome" where
  "IOC_sendDAT ms t0 t1 link d opt w =
    (if link = ULONG_MAX then Done (IOC_RESULT_NOT_EXIST_LINK, w)
     else with_link link w (Done (IOC_RESULT_NOT_EXIST_LINK, w)) (\<lambda>a lk.
       if \<not> has_usage (Usage lk) IOC_LinkUsageDatSender then Done (IOC_RESULT_INCOMPATIBLE_USAGE, w)
       else case d of
         None \<Rightarrow> Done (IOC_RESULT_INVALID_PARAM, w)
       | Some d \<Rightarrow>
          if PtrDataSize d + EmdDataLen d > IOC_MAX_DATA_SIZE then Done (IOC_RESULT_DATA_TOO_LARGE, w)
          else if PtrDataSize d = 0 \<and> EmdDataLen d = 0 then Done (IOC_RESULT_ZERO_DATA, w)
          else
            let w1 = setLink a (\<lambda>l. l\<lparr>IsSending := True, DatSubState := IOC_LinkSubStateDatSenderBusySendDat,
                  DatLastOpTime := t0\<rparr>) w
            in bindO (updateConlesEventSubState link IOC_LinkSubStateDatSenderBusySendDat w1) (\<lambda>w2.
                 method_of ms lk OpSendData
                   (Done (IOC_RESULT_NOT_SUPPORT, setLink a (\<lambda>l. l\<lparr>IsSending := False\<rparr>) w2)) (\<lambda>op.
                   bindO (op a d opt w2) (\<lambda>(r, w3). deref a w3 (\<lambda>_.
                     bindO (updateConlesEventSubState link IOC_LinkSubStateDatSenderReady (setLink a (\<lambda>l.
                         l\<lparr>IsSending := False, DatSubState := IOC_LinkSubStateDatSenderReady, DatLastOpTime := t1\<rparr>) w3))
                       (\<lambda>w4. Done (r, w4))))))))"

text \<open>\<open>flush\<close> is the flush function of the FIFO protocol, the only one that has one.\<close>

definition IOC_flushDAT ::
  "'p SrvProtoMethods list \<Rightarrow> (nat \<Rightarrow> 'p ioc_world \<Rightarrow> (IOC_Result_T \<times> 'p ioc_world) outcome) \<Rightarrow> ULONG \<Rightarrow>
   'p ioc_world \<Rightarrow> (IOC_Result_T \<times> 'p ioc_world) outcome" where
  "IOC_flushDAT ms flush link w =
    (if link = ULONG_MAX then Done (IOC_RESULT_NOT_EXIST_LINK, w)
     else with_link link w (Done (IOC_RESULT_NOT_EXIST_LINK, w)) (\<lambda>a lk.
       if \<not> has_usage (Usage lk) IOC_LinkUsageDatSender then Done (IOC_RESULT_INCOMPATIBLE_USAGE, w)
       else case pMethods lk of
         None \<Rightarrow> Done (IOC_RESULT_SUCCESS, w)
       | Some m \<Rightarrow> if mProtocol (ms ! m) = ''fifo'' then flush a w else Done (IOC_RESULT_SUCCESS, w)))"

definition IOC_recvDAT ::
  "'p SrvProtoMethods list \<Rightarrow> ULONG \<Rightarrow> IOC_DatDesc_T option \<Rightarrow> IOC_Options_T option \<Rightarrow> 'p ioc_world \<Rightarrow>
   (IOC_Result_T \<times> IOC_DatDesc_T option \<times> 'p ioc_world) outcome" where
  "IOC_recvDAT ms link d opt w =
    (if link = ULONG_MAX then Done (IOC_RESULT_NOT_EXIST_LINK, d, w)
     else case getLinkObjByLinkID link w of
       None \<Rightarrow> Done (IOC_RESULT_NOT_EXIST_LINK, d, w)
     | Some a \<Rightarrow> (case d of
         None \<Rightarrow> Done (IOC_RESULT_INVALID_PARAM, None, w)
       | Some d0 \<Rightarrow> deref a w (\<lambda>lk. method_of ms lk OpRecvData (Done (IOC_RESULT_NOT_SUPPORT, d, w)) (\<lambda>op.
           bindO (op a d0 opt w) (\<lambda>(r, d1, w1). Done (r, Some d1, w1))))))"

section \<open>The command calls\<close>

text \<open>What a command callback does: the function pointer, its private data, the executor's link and
  the descriptor determine the result, the new descriptor and how it changes the world.\<close>

type_synonym 'p cmd_callback =
  "nat \<Rightarrow> nat \<Rightarrow> ULONG \<Rightarrow> IOC_CmdDesc_T \<Rightarrow> 'p ioc_world \<Rightarrow> (IOC_Result_T \<times> IOC_CmdDesc_T \<times> 'p ioc_world) outcome"

text \<open>The fallback for a link without a protocol: it looks for the other end itself.  All links are
  read once to be printed; then the first one, in the order of identifiers, that has the
  complementary command role and the same path is taken.  The union of usage arguments is read as that of commands, so arguments of another kind are a block
  of the wrong shape; only the command ones are modelled, others end the run.\<close>

definition is_cmd_peer :: "LinkObject_T \<Rightarrow> LinkObject_T \<Rightarrow> bool" where
  "is_cmd_peer src cand \<longleftrightarrow>
     ((has_usage (Usage src) IOC_LinkUsageCmdInitiator \<and> has_usage (Usage cand) IOC_LinkUsageCmdExecutor) \<or>
      (has_usage (Usage src) IOC_LinkUsageCmdExecutor \<and> has_usage (Usage cand) IOC_LinkUsageCmdInitiator)) \<and>
     pPath (LinkSrvURI src) = pPath (LinkSrvURI cand)"

fun find_dest :: "ULONG \<Rightarrow> LinkObject_T \<Rightarrow> ULONG list \<Rightarrow> 'p ioc_world \<Rightarrow> nat option outcome" where
  "find_dest link src [] w = Done None"
| "find_dest link src (c # cs) w =
    (if c = link then find_dest link src cs w
     else case getLinkObjByLinkID c w of
       None \<Rightarrow> find_dest link src cs w
     | Some a \<Rightarrow> deref a w (\<lambda>cand. if is_cmd_peer src cand then Done (Some a) else find_dest link src cs w))"

definition findDestinationLink :: "ULONG \<Rightarrow> 'p ioc_world \<Rightarrow> (IOC_Result_T \<times> nat option) outcome" where
  "findDestinationLink link w = with_link link w (Done (IOC_RESULT_NOT_EXIST_LINK, None)) (\<lambda>_ src.
     let ids = map of_nat [1..<1100] in
     if list_ex (\<lambda>c. case getLinkObjByLinkID c w of None \<Rightarrow> False | Some a \<Rightarrow> LinkHeap w a = None) ids then Abort
     else bindO (find_dest link src ids w) (\<lambda>f. case f of
       None \<Rightarrow> Done (IOC_RESULT_NO_CMD_EXECUTOR, None) | Some a \<Rightarrow> Done (IOC_RESULT_SUCCESS, Some a)))"

definition executeCommandViaCallback ::
  "'p cmd_callback \<Rightarrow> nat \<Rightarrow> IOC_CmdDesc_T \<Rightarrow> 'p ioc_world \<Rightarrow> (IOC_Result_T \<times> IOC_CmdDesc_T \<times> 'p ioc_world) outcome"
where
  "executeCommandViaCallback cb dest d w = deref dest w (\<lambda>lk.
     if \<not> has_usage (Usage lk) IOC_LinkUsageCmdExecutor \<or> UsageArgs lk = None
     then Done (IOC_RESULT_NO_CMD_EXECUTOR, d, w)
     else case the (UsageArgs lk) of
       pCmd u \<Rightarrow>
         if CmdID d \<notin> set (take (unat (cuCmdNum u)) (cuCmdIDs u)) then Done (IOC_RESULT_NOT_SUPPORT, d, w)
         else (case cuCbExecCmd_F u of
           None \<Rightarrow> Abort
         | Some F \<Rightarrow> bindO (cb F (cuCbPrivData u) (ID lk) (d\<lparr>Status := IOC_CMD_STATUS_PROCESSING\<rparr>)
             (setLink dest (\<lambda>l. l\<lparr>IsProcessing := True\<rparr>) w)) (\<lambda>(r, d1, w1).
               Done (r, d1\<lparr>Status := (if r = IOC_RESULT_SUCCESS then IOC_CMD_STATUS_SUCCESS else IOC_CMD_STATUS_FAILED),
                 CmdResult := r\<rparr>, setLink dest (\<lambda>l. l\<lparr>IsProcessing := False\<rparr>) w1)))
     | _ \<Rightarrow> Abort)"

definition execCMD_legacy ::
  "'p cmd_callback \<Rightarrow> ULONG \<Rightarrow> IOC_CmdDesc_T \<Rightarrow> 'p ioc_world \<Rightarrow> (IOC_Result_T \<times> IOC_CmdDesc_T \<times> 'p ioc_world) outcome" where
  "execCMD_legacy cb link d w = (case getLinkObjByLinkID link w of
     None \<Rightarrow> Done (IOC_RESULT_NOT_EXIST_LINK, d, w)
   | Some _ \<Rightarrow>
      (let d1 = d\<lparr>Status := IOC_CMD_STATUS_PENDING\<rparr>;
           failed = (\<lambda>r. d1\<lparr>Status := IOC_CMD_STATUS_FAILED, CmdResult := r\<rparr>)
       in bindO (findDestinationLink link w) (\<lambda>(r, dest).
            if r \<noteq> IOC_RESULT_SUCCESS then Done (r, failed r, w)
            else bindO (executeCommandViaCallback cb (the dest) d1 w) (\<lambda>(r, d2, w1).
              Done (r, if r = IOC_RESULT_SUCCESS then d2 else failed r, w1)))))"

definition IOC_execCMD ::
  "'p SrvProtoMethods list \<Rightarrow> 'p cmd_callback \<Rightarrow> ULONG \<Rightarrow> IOC_CmdDesc_T option \<Rightarrow> IOC_Options_T option \<Rightarrow>
   'p ioc_world \<Rightarrow> (IOC_Result_T \<times> IOC_CmdDesc_T option \<times> 'p ioc_world) outcome" where
  "IOC_execCMD ms cb link d opt w = (case d of
     None \<Rightarrow> Done (IOC_RESULT_INVALID_PARAM, None, w)
   | Some d0 \<Rightarrow> with_link link w (Done (IOC_RESULT_NOT_EXIST_LINK, d, w)) (\<lambda>a lk.
       if \<not> has_usage (Usage lk) IOC_LinkUsageCmdInitiator then Done (IOC_RESULT_INVALID_PARAM, d, w)
       else method_of ms lk OpExecCmd
         (bindO (execCMD_legacy cb link d0 w) (\<lambda>(r, d1, w1). Done (r, Some d1, w1))) (\<lambda>op.
           bindO (op a d0 opt (setLink a (\<lambda>l. l\<lparr>IsExecuting := True\<rparr>) w)) (\<lambda>(r, d1, w1).
             deref a w1 (\<lambda>_. Done (r, Some d1, setLink a (\<lambda>l. l\<lparr>IsExecuting := False\<rparr>) w1))))))"

definition IOC_waitCMD ::
  "'p SrvProtoMethods list \<Rightarrow> ULONG \<Rightarrow> bool \<Rightarrow> IOC_Options_T option \<Rightarrow> 'p ioc_world \<Rightarrow>
   (IOC_Result_T \<times> IOC_CmdDesc_T option \<times> 'p ioc_world) outcome" where
  "IOC_waitCMD ms link want opt w =
    (if \<not> want then Done (IOC_RESULT_INVALID_PARAM, None, w)
     else with_link link w (Done (IOC_RESULT_NOT_EXIST_LINK, None, w)) (\<lambda>a lk.
       if \<not> has_usage (Usage lk) IOC_LinkUsageCmdExecutor then Done (IOC_RESULT_INVALID_PARAM, None, w)
       else method_of ms lk OpWaitCmd (Done (IOC_RESULT_NOT_SUPPORT, None, w)) (\<lambda>op.
         bindO (op a opt (setLink a (\<lambda>l. l\<lparr>IsWaiting := True\<rparr>) w)) (\<lambda>(r, d1, w1).
           deref a w1 (\<lambda>_. Done (r, d1, setLink a (\<lambda>l. l\<lparr>IsWaiting := False\<rparr>) w1))))))"

definition IOC_ackCMD ::
  "'p SrvProtoMethods list \<Rightarrow> ULONG \<Rightarrow> IOC_CmdDesc_T option \<Rightarrow> IOC_Options_T option \<Rightarrow> 'p ioc_world \<Rightarrow>
   (IOC_Result_T \<times> 'p ioc_world) outcome" where
  "IOC_ackCMD ms link d opt w = (case d of
     None \<Rightarrow> Done (IOC_RESULT_INVALID_PARAM, w)
   | Some d0 \<Rightarrow> with_link link w (Done (IOC_RESULT_NOT_EXIST_LINK, w)) (\<lambda>a lk.
       if \<not> has_usage (Usage lk) IOC_LinkUsageCmdExecutor then Done (IOC_RESULT_INVALID_PARAM, w)
       else method_of ms lk OpAckCmd (Done (IOC_RESULT_NOT_SUPPORT, w)) (\<lambda>op. op a d0 opt w)))"

section \<open>Capabilities\<close>

definition MAX_IOC_CLI_OBJ_NUM_PER_SRV :: "16 word" where "MAX_IOC_CLI_OBJ_NUM_PER_SRV = 3"

datatype capability =
    ConlesModeEvent "16 word" "16 word"
  | ConetModeEvent "16 word" "16 word"
  | ConetModeCommand "16 word" "16 word"
  | ConetModeData "16 word" "16 word" ULONG

definition IOC_getCapability :: "IOC_CapabilityID_T \<Rightarrow> IOC_Result_T \<times> capability option" where
  "IOC_getCapability c =
    (let srvs = of_nat MAX_IOC_SRV_OBJ_NUM; clis = MAX_IOC_CLI_OBJ_NUM_PER_SRV in case c of
       IOC_CAPID_CONLES_MODE_EVENT \<Rightarrow> (let (r, x) = getCapability_inConlesMode c
         in (r, map_option (\<lambda>(a, b). ConlesModeEvent a b) x))
     | IOC_CAPID_CONET_MODE_DATA \<Rightarrow> (IOC_RESULT_SUCCESS, Some (ConetModeData srvs clis (128 * 1024)))
     | IOC_CAPID_CONET_MODE_EVENT \<Rightarrow> (IOC_RESULT_SUCCESS, Some (ConetModeEvent srvs clis))
     | IOC_CAPID_CONET_MODE_COMMAND \<Rightarrow> (IOC_RESULT_SUCCESS, Some (ConetModeCommand srvs clis)))"


section \<open>Properties\<close>

lemma postBusyCallCount_setLink [simp]: "postBusyCallCount (setLink a f w) = postBusyCallCount w"
  by (simp add: setLink_def)

text \<open>Asking for the state of an idle link changes it: three queries in a row within a second of the
  last data operation, with nothing in between, report a sender that is busy sending, a receiver that
  is ready, and a sender that is ready.\<close>

theorem state_query_changes_answer:
  assumes "i < 32" "LinkTbl w ! i = Some a" "LinkHeap w a = Some lk" "has_usage (Usage lk) IOC_LinkUsageDatReceiver"
    "DatSubState lk = IOC_LinkSubStateDatSenderReady" "\<not> IsSending lk" "now - DatLastOpTime lk \<le> 1"
    "postBusyCallCount w = 0"
  defines "query \<equiv> IOC_getLinkState now (LinkObjTblIdxToLinkID i) True True"
    and "answer \<equiv> \<lambda>ss. Some (IOC_LinkStateReady, Some ss)"
  shows "\<exists>w1 w2 w3. query w = Done (IOC_RESULT_SUCCESS, answer IOC_LinkSubStateDatSenderBusySendDat, w1) \<and>
    query w1 = Done (IOC_RESULT_SUCCESS, answer IOC_LinkSubStateDatReceiverReady, w2) \<and>
    query w2 = Done (IOC_RESULT_SUCCESS, answer IOC_LinkSubStateDatSenderReady, w3)"
proof -
  have q: "query v = (let (ss, lk', n) = conet_subState (now - DatLastOpTime l \<le> 1) l (postBusyCallCount v)
      in Done (IOC_RESULT_SUCCESS, answer ss, (setLink a (\<lambda>_. lk') v)\<lparr>postBusyCallCount := n\<rparr>))"
    if "LinkTbl v = LinkTbl w" "LinkHeap v a = Some l" for v l
    using that assms(1,2) by (simp add: query_def answer_def IOC_getLinkState_def isAutoLink_def
        getLinkState_inConetMode_def with_link_def deref_def)
  let ?w1 = "(setLink a (\<lambda>_. lk\<lparr>IsSending := True\<rparr>) w)\<lparr>postBusyCallCount := 0\<rparr>"
  let ?w2 = "(setLink a (\<lambda>_. lk\<lparr>IsSending := True\<rparr>) ?w1)\<lparr>postBusyCallCount := 1\<rparr>"
  have 1: "query w = Done (IOC_RESULT_SUCCESS, answer IOC_LinkSubStateDatSenderBusySendDat, ?w1)"
    using q [of w lk] assms(3-8) by (simp add: conet_subState_def)
  have 2: "query ?w1 = Done (IOC_RESULT_SUCCESS, answer IOC_LinkSubStateDatReceiverReady, ?w2)"
    using q [of ?w1 "lk\<lparr>IsSending := True\<rparr>"] assms(3-8) by (simp add: conet_subState_def)
  have "\<exists>w3. query ?w2 = Done (IOC_RESULT_SUCCESS, answer IOC_LinkSubStateDatSenderReady, w3)"
    using q [of ?w2 "lk\<lparr>IsSending := True\<rparr>"] assms(3-8) by (simp add: conet_subState_def)
  then show ?thesis using 1 2 by blast
qed

theorem state_query_changes_answer_witness:
  "\<exists>w1 w2 w3. IOC_getLinkState 0 1025 True True (setLink 0 (\<lambda>l. l\<lparr>Usage := IOC_LinkUsageDatReceiver,
      DatSubState := IOC_LinkSubStateDatSenderReady\<rparr>) one_link) =
      Done (IOC_RESULT_SUCCESS, Some (IOC_LinkStateReady, Some IOC_LinkSubStateDatSenderBusySendDat), w1) \<and>
    IOC_getLinkState 0 1025 True True w1 =
      Done (IOC_RESULT_SUCCESS, Some (IOC_LinkStateReady, Some IOC_LinkSubStateDatReceiverReady), w2) \<and>
    IOC_getLinkState 0 1025 True True w2 =
      Done (IOC_RESULT_SUCCESS, Some (IOC_LinkStateReady, Some IOC_LinkSubStateDatSenderReady), w3)"
proof -
  let ?lk = "(new_link 0)\<lparr>Usage := IOC_LinkUsageDatReceiver, DatSubState := IOC_LinkSubStateDatSenderReady\<rparr>"
  let ?w = "setLink 0 (\<lambda>l. l\<lparr>Usage := IOC_LinkUsageDatReceiver, DatSubState := IOC_LinkSubStateDatSenderReady\<rparr>) one_link"
  have h: "LinkHeap ?w 0 = Some ?lk" "LinkTbl ?w ! 0 = Some 0" "postBusyCallCount ?w = 0"
    by (simp_all add: one_link_def init_world_def)
  have l: "has_usage (Usage ?lk) IOC_LinkUsageDatReceiver" "DatSubState ?lk = IOC_LinkSubStateDatSenderReady" "\<not> IsSending ?lk"
    "0 - DatLastOpTime ?lk \<le> 1"
    by (simp_all add: has_usage_def usage_defs new_link_def)
  show ?thesis
    using state_query_changes_answer [OF _ h(2,1) l h(3)] by (simp add: LinkObjTblIdxToLinkID_def)
qed

end
