(* ===== verification/ServiceApi.thy ===== *)
theory ServiceApi
  imports ConetApi
begin

text \<open>
  The service calls of \<^verbatim>\<open>src/Source/IOC_Service.c\<close>: online and offline, accepting and connecting,
  closing, broadcasting and the queries, over a list \<open>ms\<close> of protocol method tables.  Each turn of
  the two daemon threads is a function of its own.  A cancelled daemon is taken to stop between two
  of its turns.
\<close>

section \<open>Online\<close>

definition isValidSrvArgs :: "IOC_SrvArgs_T option \<Rightarrow> bool" where
  "isValidSrvArgs args = (case args of None \<Rightarrow> False
   | Some a \<Rightarrow> rawProtocol (ArgSrvURI a) \<noteq> None \<and> rawHost (ArgSrvURI a) \<noteq> None \<and> rawPath (ArgSrvURI a) \<noteq> None \<and>
       ArgUsageCapabilites a AND IOC_LinkUsageMask \<noteq> 0)"

text \<open>With the automatic protocol every outcome runs into \<^verbatim>\<open>_IOC_LogNotTested\<close>.\<close>

fun online_auto :: "'p SrvProtoMethods list \<Rightarrow> nat \<Rightarrow> 'p ioc_world \<Rightarrow> (IOC_Result_T \<times> 'p ioc_world) outcome" where
  "online_auto [] i w = Abort"
| "online_auto (m # ms) i w = bindO (OpOnlineService m i w) (\<lambda>(r, w1).
     if r \<noteq> IOC_RESULT_SUCCESS then Abort else online_auto ms i w1)"

definition proto_index :: "string \<Rightarrow> 'p SrvProtoMethods list \<Rightarrow> nat option" where
  "proto_index p ms = first_index (\<lambda>m. mProtocol m = p) ms"

text \<open>An error of the protocol is reported as an unsupported protocol.\<close>

definition onlineServiceByProto ::
  "'p SrvProtoMethods list \<Rightarrow> nat \<Rightarrow> 'p ioc_world \<Rightarrow> (IOC_Result_T \<times> 'p ioc_world) outcome" where
  "onlineServiceByProto ms i w = derefSrv i w (\<lambda>s.
     if pProtocol (SrvURI s) = ''auto'' then online_auto ms i w
     else bindO (case proto_index (pProtocol (SrvURI s)) ms of
         None \<Rightarrow> Done (IOC_RESULT_BUG, w)
       | Some m \<Rightarrow> bindO (OpOnlineService (ms ! m) i w) (\<lambda>(r, w1).
           Done (r, if r = IOC_RESULT_SUCCESS then setSrv i (\<lambda>s. s\<lparr>SrvMethods := Some m\<rparr>) w1 else w1)))
       (\<lambda>(r, w1). derefSrv i w1 (\<lambda>s1. Done (if SrvMethods s1 = None then IOC_RESULT_NOT_SUPPORT else r, w1))))"

definition dat_initial_state :: "usage \<Rightarrow> IOC_LinkSubState_T" where
  "dat_initial_state caps =
    (if has_usage caps IOC_LinkUsageDatSender then IOC_LinkSubStateDatSenderReady
     else if has_usage caps IOC_LinkUsageDatReceiver then IOC_LinkSubStateDatReceiverReady
     else IOC_LinkSubStateDefault)"

text \<open>\<open>want\<close>: the caller passes a place for the identifier; \<open>threads\<close>: the daemon threads can be
  created (else the path marked as not tested is taken).\<close>

definition IOC_onlineService ::
  "'p SrvProtoMethods list \<Rightarrow> bool \<Rightarrow> bool \<Rightarrow> bool \<Rightarrow> bool \<Rightarrow> IOC_SrvArgs_T option \<Rightarrow> 'p ioc_world \<Rightarrow>
   (IOC_Result_T \<times> ULONG option \<times> 'p ioc_world) outcome" where
  "IOC_onlineService ms mem mutex_ok threads want args w =
    (if \<not> want then Done (IOC_RESULT_INVALID_PARAM, None, w)
     else if \<not> isValidSrvArgs args then Done (IOC_RESULT_INVALID_PARAM, None, w)
     else bindO (allocSrvObj mem mutex_ok (the args) w) (\<lambda>(r, slot, w1).
       if r \<noteq> IOC_RESULT_SUCCESS then Done (r, None, w1)
       else (let i = the slot; a = the args in
         bindO (onlineServiceByProto ms i w1) (\<lambda>(r, w2).
           if r \<noteq> IOC_RESULT_SUCCESS then bindO (freeSrvObj i w2) (\<lambda>w3. Done (r, None, w3))
           else if ArgFlags a AND (IOC_SRVFLAG_BROADCAST_EVENT OR IOC_SRVFLAG_AUTO_ACCEPT) \<noteq> 0 \<and> \<not> threads then Abort
           else derefSrv i w2 (\<lambda>s.
             if dat_initial_state (ArgUsageCapabilites a) \<noteq> IOC_LinkSubStateDefault
             then bindO (updateConlesEventSubState CONLES_MODE_AUTO_LINK_ID
                 (dat_initial_state (ArgUsageCapabilites a)) w2) (\<lambda>w3. Done (IOC_RESULT_SUCCESS, Some (SrvID s), w3))
             else Done (IOC_RESULT_SUCCESS, Some (SrvID s), w2))))))"

section \<open>Closing a link\<close>

definition IOC_closeLink ::
  "'p SrvProtoMethods list \<Rightarrow> ULONG \<Rightarrow> 'p ioc_world \<Rightarrow> (IOC_Result_T \<times> 'p ioc_world) outcome" where
  "IOC_closeLink ms link w = with_link link w (Done (IOC_RESULT_NOT_EXIST_LINK, w)) (\<lambda>a lk.
     case pMethods lk of
       None \<Rightarrow> Abort
     | Some m \<Rightarrow>
         bindO (OpCloseLink (ms ! m) a (setLink a (\<lambda>l. l\<lparr>ConnState := IOC_LinkConnStateDisconnecting,
             IsConnected := False\<rparr>) w)) (\<lambda>(r, w1).
           if r \<noteq> IOC_RESULT_SUCCESS then Done (r, w1)
           else bindO (freeLinkObj a w1) (\<lambda>w2. Done (IOC_RESULT_SUCCESS, w2))))"

section \<open>The daemon threads\<close>

definition track_link :: "nat \<Rightarrow> nat option list \<Rightarrow> nat option list" where
  "track_link a links = (case first_index (\<lambda>x. x = None) links of None \<Rightarrow> links | Some k \<Rightarrow> links[k := Some a])"

text \<open>One turn of the broadcast daemon.  A full table of tracked links is passed over in silence.\<close>

definition ServiceBroadcastDaemon_turn ::
  "'p SrvProtoMethods list \<Rightarrow> bool \<Rightarrow> bool \<Rightarrow> nat \<Rightarrow> 'p ioc_world \<Rightarrow> 'p ioc_world outcome" where
  "ServiceBroadcastDaemon_turn ms mem mutexes_ok i w = bindO (allocLinkObj mem mutexes_ok w) (\<lambda>(link, w1). case link of
     None \<Rightarrow> Done w1
   | Some a \<Rightarrow> derefSrv i w1 (\<lambda>s. case SrvMethods s of
       None \<Rightarrow> Abort
     | Some m \<Rightarrow> bindO (OpAcceptClient (ms ! m) i a None w1) (\<lambda>(r, w2).
         if r \<noteq> IOC_RESULT_SUCCESS then freeLinkObj a w2
         else Done (setSrv i (\<lambda>s. if None \<in> set (BroadcastLinks s)
                then s\<lparr>BroadcastLinks := track_link a (BroadcastLinks s), BroadcastCount := BroadcastCount s + 1\<rparr> else s)
              (setLink a (\<lambda>l. l\<lparr>pMethods := Some m\<rparr>) w2)))))"

text \<open>One turn of the accepting daemon; \<open>hook\<close> is the effect of the service's accept hook.\<close>

definition ServiceAutoAcceptDaemon_turn ::
  "'p SrvProtoMethods list \<Rightarrow> (nat \<Rightarrow> ULONG \<Rightarrow> ULONG \<Rightarrow> nat \<Rightarrow> 'p ioc_world \<Rightarrow> 'p ioc_world outcome) \<Rightarrow>
   bool \<Rightarrow> bool \<Rightarrow> nat \<Rightarrow> 'p ioc_world \<Rightarrow> 'p ioc_world outcome" where
  "ServiceAutoAcceptDaemon_turn ms hook mem mutexes_ok i w = bindO (allocLinkObj mem mutexes_ok w) (\<lambda>(link, w1). case link of
     None \<Rightarrow> Done w1
   | Some a \<Rightarrow> derefSrv i w1 (\<lambda>s. case SrvMethods s of
       None \<Rightarrow> Abort
     | Some m \<Rightarrow> bindO (OpAcceptClient (ms ! m) i a None w1) (\<lambda>(r, w2).
         if r \<noteq> IOC_RESULT_SUCCESS then freeLinkObj a w2
         else deref a w2 (\<lambda>lk. derefSrv i w2 (\<lambda>s.
           let w3 = setLink a (\<lambda>l. l\<lparr>pMethods := Some m, ConnState := IOC_LinkConnStateConnected, IsConnected := True,
                 UsageArgs := (if SrvCmd s \<noteq> None then map_option pCmd (SrvCmd s)
                   else if SrvDat s \<noteq> None then map_option pDat (SrvDat s) else UsageArgs l)\<rparr>) w2
           in bindO (updateConlesEventSubState (ID lk) (dat_initial_state (UsageCapabilites s)) w3) (\<lambda>w4.
                let w5 = setSrv i (\<lambda>s. if None \<in> set (AutoLinks s)
                      then s\<lparr>AutoLinks := track_link a (AutoLinks s), AutoCount := AutoCount s + 1\<rparr> else s) w4
                in case OnAutoAccepted_F s of
                     None \<Rightarrow> Done w5
                   | Some F \<Rightarrow> hook F (SrvID s) (ID lk) (pSrvPriv s) w5))))))"

section \<open>Offline\<close>

text \<open>The accepted links, slot by slot.  Those of the broadcast daemon are closed by the protocol but
  stay in the link table.\<close>

fun close_broadcast ::
  "'p SrvProtoMethods \<Rightarrow> nat \<Rightarrow> nat list \<Rightarrow> 'p ioc_world \<Rightarrow> 'p ioc_world outcome" where
  "close_broadcast m i [] w = Done w"
| "close_broadcast m i (k # ks) w = derefSrv i w (\<lambda>s. case BroadcastLinks s ! k of
     None \<Rightarrow> close_broadcast m i ks w
   | Some a \<Rightarrow> bindO (OpCloseLink m a w) (\<lambda>(_, w1). close_broadcast m i ks w1))"

fun close_auto :: "'p SrvProtoMethods \<Rightarrow> nat \<Rightarrow> nat list \<Rightarrow> 'p ioc_world \<Rightarrow> 'p ioc_world outcome" where
  "close_auto m i [] w = Done w"
| "close_auto m i (k # ks) w = derefSrv i w (\<lambda>s. case AutoLinks s ! k of
     None \<Rightarrow> close_auto m i ks w
   | Some a \<Rightarrow> deref a w (\<lambda>lk.
       let w1 = setSrv i (\<lambda>s. s\<lparr>AutoLinks := (AutoLinks s)[k := None]\<rparr>) w
       in if getLinkObjByLinkID (ID lk) w1 = None then close_auto m i ks w1
          else bindO (OpCloseLink m a w1) (\<lambda>(_, w2). bindO (freeLinkObj a w2) (close_auto m i ks))))"

fun close_manual ::
  "'p SrvProtoMethods list \<Rightarrow> nat \<Rightarrow> nat list \<Rightarrow> 'p ioc_world \<Rightarrow> 'p ioc_world outcome" where
  "close_manual ms i [] w = Done w"
| "close_manual ms i (k # ks) w = derefSrv i w (\<lambda>s.
     if ManualLinkIDs s ! k = ULONG_MAX then close_manual ms i ks w
     else bindO (IOC_closeLink ms (ManualLinkIDs s ! k) w) (\<lambda>(_, w1). close_manual ms i ks (setSrv i (\<lambda>s.
       s\<lparr>ManualLinkIDs := (ManualLinkIDs s)[k := ULONG_MAX], ManualCount := ManualCount s - 1\<rparr>) w1)))"

definition IOC_offlineService ::
  "'p SrvProtoMethods list \<Rightarrow> ULONG \<Rightarrow> 'p ioc_world \<Rightarrow> (IOC_Result_T \<times> 'p ioc_world) outcome" where
  "IOC_offlineService ms sid w = (case getSrvObjBySrvID sid w of
     None \<Rightarrow> Done (IOC_RESULT_NOT_EXIST_SERVICE, w)
   | Some s \<Rightarrow> (case SrvMethods s of
       None \<Rightarrow> Abort
     | Some mi \<Rightarrow>
        (let m = ms ! mi; i = unat sid; keep = (Flags s AND IOC_SRVFLAG_KEEP_ACCEPTED_LINK \<noteq> 0) in
         bindO (if Flags s AND IOC_SRVFLAG_BROADCAST_EVENT \<noteq> 0 \<and> \<not> keep
                then close_broadcast m i [0..<3] w else Done w) (\<lambda>w1.
         bindO (if Flags s AND IOC_SRVFLAG_AUTO_ACCEPT \<noteq> 0 \<and> \<not> keep
                then close_auto m i [0..<16] w1 else Done w1) (\<lambda>w2.
         bindO (if \<not> keep then close_manual ms i [0..<32] w2 else Done w2) (\<lambda>w3.
         bindO (OpOfflineService m i w3) (\<lambda>(r, w4).
           if r \<noteq> IOC_RESULT_SUCCESS then Done (r, w4)
           else bindO (freeSrvObj i w4) (\<lambda>w5. Done (IOC_RESULT_SUCCESS, w5)))))))))"


section \<open>Accepting\<close>

text \<open>The usage arguments copied to the accepted link share one union, so that the last copy counts.
  The events to subscribe are taken from the service, whose own arguments are separate pointers.\<close>

definition accept_usageArgs :: "ServiceObject_T \<Rightarrow> usage_args_union option \<Rightarrow> usage_args_union option" where
  "accept_usageArgs s u =
    (let c = UsageCapabilites s;
         u1 = (if has_usage c IOC_LinkUsageEvtConsumer then map_option pEvt (SrvEvt s) else u);
         u2 = (if has_usage c IOC_LinkUsageCmdExecutor then map_option pCmd (SrvCmd s) else u1)
     in if has_usage c IOC_LinkUsageDatReceiver then map_option pDat (SrvDat s) else u2)"

definition sub_args_of :: "IOC_EvtUsageArgs_T \<Rightarrow> IOC_SubEvtArgs_T" where
  "sub_args_of e = \<lparr>CbProcEvt_F = euCbProcEvt_F e, pCbPrivData = euCbPrivData e, EvtNum = euEvtNum e,
     pEvtIDs = euEvtIDs e\<rparr>"

definition track_manual :: "ULONG \<Rightarrow> ServiceObject_T \<Rightarrow> ServiceObject_T" where
  "track_manual link s = (case first_index (\<lambda>x. x = ULONG_MAX) (ManualLinkIDs s) of
     None \<Rightarrow> s
   | Some k \<Rightarrow> s\<lparr>ManualLinkIDs := (ManualLinkIDs s)[k := link], ManualCount := ManualCount s + 1\<rparr>)"

definition untrack_manual :: "ULONG \<Rightarrow> ServiceObject_T \<Rightarrow> ServiceObject_T" where
  "untrack_manual link s = (case first_index (\<lambda>x. x = link) (ManualLinkIDs s) of
     None \<Rightarrow> s
   | Some k \<Rightarrow> s\<lparr>ManualLinkIDs := (ManualLinkIDs s)[k := ULONG_MAX], ManualCount := ManualCount s - 1\<rparr>)"

text \<open>The last step.  After a failed subscription the identifier is read from the link that has just
  been closed.\<close>

definition accept_subscribe ::
  "'p SrvProtoMethods list \<Rightarrow> nat \<Rightarrow> nat \<Rightarrow> ULONG \<Rightarrow> 'p ioc_world \<Rightarrow>
   (IOC_Result_T \<times> ULONG option \<times> 'p ioc_world) outcome" where
  "accept_subscribe ms i a link w = derefSrv i w (\<lambda>s.
     if \<not> (has_usage (UsageCapabilites s) IOC_LinkUsageEvtConsumer \<and> SrvEvt s \<noteq> None)
     then Done (IOC_RESULT_SUCCESS, Some link, w)
     else bindO (IOC_subEVT ms link (sub_args_of (the (SrvEvt s))) w) (\<lambda>(r, w1).
       if r = IOC_RESULT_SUCCESS then Done (r, Some link, w1)
       else bindO (IOC_closeLink ms link w1) (\<lambda>(_, w2). deref a w2 (\<lambda>lk.
         Done (r, Some ULONG_MAX, setSrv i (untrack_manual (ID lk)) w2)))))"

definition IOC_acceptClient ::
  "'p SrvProtoMethods list \<Rightarrow> bool \<Rightarrow> bool \<Rightarrow> bool \<Rightarrow> ULONG \<Rightarrow> IOC_Options_T option \<Rightarrow> 'p ioc_world \<Rightarrow>
   (IOC_Result_T \<times> ULONG option \<times> 'p ioc_world) outcome" where
  "IOC_acceptClient ms mem mutexes_ok want sid opt w =
    (if \<not> want then Done (IOC_RESULT_INVALID_PARAM, None, w)
     else case getSrvObjBySrvID sid w of
       None \<Rightarrow> Done (IOC_RESULT_NOT_EXIST_SERVICE, None, w)
     | Some s \<Rightarrow>
        if Flags s AND IOC_SRVFLAG_AUTO_ACCEPT \<noteq> 0 then Done (IOC_RESULT_NOT_SUPPORT_MANUAL_ACCEPT, None, w)
        else bindO (allocLinkObj mem mutexes_ok w) (\<lambda>(link, w1). case link of
          None \<Rightarrow> Done (IOC_RESULT_POSIX_ENOMEM, None, w1)
        | Some a \<Rightarrow>
           (let i = unat sid;
                w2 = setLink a (\<lambda>l. l\<lparr>pMethods := SrvMethods s, Usage := UsageCapabilites s, LinkSrvURI := SrvURI s,
                       UsageArgs := accept_usageArgs s (UsageArgs l)\<rparr>) w1
            in case SrvMethods s of
                 None \<Rightarrow> Abort
               | Some m \<Rightarrow> bindO (OpAcceptClient (ms ! m) i a opt w2) (\<lambda>(r, w3).
                   if r \<noteq> IOC_RESULT_SUCCESS then bindO (freeLinkObj a w3) (\<lambda>w4. Done (r, None, w4))
                   else deref a w3 (\<lambda>lk. accept_subscribe ms i a (ID lk) (setSrv i (track_manual (ID lk)) w3))))))"

section \<open>Connecting\<close>

text \<open>With the automatic protocol, the first one that connects runs into \<^verbatim>\<open>_IOC_LogNotTested\<close>; otherwise
  the last error is returned.\<close>

fun connect_auto ::
  "'p SrvProtoMethods list \<Rightarrow> nat \<Rightarrow> IOC_ConnArgs_T \<Rightarrow> IOC_Options_T option \<Rightarrow> IOC_Result_T \<Rightarrow> 'p ioc_world \<Rightarrow>
   (IOC_Result_T \<times> 'p ioc_world) outcome" where
  "connect_auto [] a args opt r w = Done (r, w)"
| "connect_auto (m # ms) a args opt r w = bindO (OpConnectService m a args opt w) (\<lambda>(r1, w1).
     if r1 = IOC_RESULT_SUCCESS then Abort else connect_auto ms a args opt r1 w1)"

definition connectServiceByProto ::
  "'p SrvProtoMethods list \<Rightarrow> nat \<Rightarrow> IOC_ConnArgs_T \<Rightarrow> IOC_Options_T option \<Rightarrow> 'p ioc_world \<Rightarrow>
   (IOC_Result_T \<times> 'p ioc_world) outcome" where
  "connectServiceByProto ms a args opt w = deref a w (\<lambda>_.
     let w1 = setLink a (\<lambda>l. l\<lparr>LinkSrvURI := ConnSrvURI args, Usage := ConnUsage args,
           UsageArgs := ConnUsageArgs args, ConnState := IOC_LinkConnStateConnecting\<rparr>) w;
         p = pProtocol (ConnSrvURI args)
     in if p = ''auto'' then connect_auto ms a args opt IOC_RESULT_BUG w1
        else case proto_index p ms of
          None \<Rightarrow> Done (IOC_RESULT_NOT_SUPPORT, w1)
        | Some m \<Rightarrow> bindO (OpConnectService (ms ! m) a args opt w1) (\<lambda>(r, w2).
            if r \<noteq> IOC_RESULT_SUCCESS then Done (r, w2)
            else deref a w2 (\<lambda>_. Done (r, setLink a (\<lambda>l. l\<lparr>pMethods := Some m,
              ConnState := IOC_LinkConnStateConnected, IsConnected := True\<rparr>) w2))))"

text \<open>\<open>free(pLinkObj)\<close>: the object alone; its slot in the table and the counter stay as they are.\<close>

definition free_only :: "nat \<Rightarrow> 'p ioc_world \<Rightarrow> 'p ioc_world" where
  "free_only a w = w\<lparr>LinkHeap := (LinkHeap w)(a := None)\<rparr>"

definition IOC_connectService ::
  "'p SrvProtoMethods list \<Rightarrow> bool \<Rightarrow> bool \<Rightarrow> bool \<Rightarrow> IOC_ConnArgs_T option \<Rightarrow> IOC_Options_T option \<Rightarrow> 'p ioc_world \<Rightarrow>
   (IOC_Result_T \<times> ULONG option \<times> 'p ioc_world) outcome" where
  "IOC_connectService ms mem mutexes_ok want args opt w =
    (if \<not> want \<or> args = None then Done (IOC_RESULT_INVALID_PARAM, None, w)
     else bindO (allocLinkObj mem mutexes_ok w) (\<lambda>(link, w1). case link of
       None \<Rightarrow> Done (IOC_RESULT_POSIX_ENOMEM, None, w1)
     | Some a \<Rightarrow>
        (let c = the args in bindO (connectServiceByProto ms a c opt w1) (\<lambda>(r, w2).
           if r \<noteq> IOC_RESULT_SUCCESS then Done (r, None, free_only a w2)
           else deref a w2 (\<lambda>lk.
             if ConnUsage c = IOC_LinkUsageEvtConsumer \<and> ConnUsageArgs c \<noteq> None
             then case the (ConnUsageArgs c) of
                 pEvt e \<Rightarrow> bindO (IOC_subEVT ms (ID lk) (sub_args_of e) w2) (\<lambda>(r, w3).
                   if r = IOC_RESULT_SUCCESS then Done (r, Some (ID lk), w3)
                   else bindO (IOC_closeLink ms (ID lk) w3) (\<lambda>(_, w4). Done (r, Some ULONG_MAX, w4)))
               | _ \<Rightarrow> Abort
             else Done (IOC_RESULT_SUCCESS, Some (ID lk), w2))))))"

section \<open>Broadcasting and queries\<close>

text \<open>The result of each post is ignored.\<close>

fun broadcast_to ::
  "(nat \<Rightarrow> IOC_EvtDesc_T \<Rightarrow> IOC_Options_T option \<Rightarrow> 'p ioc_world \<Rightarrow> (IOC_Result_T \<times> 'p ioc_world) outcome) option \<Rightarrow>
   nat \<Rightarrow> nat list \<Rightarrow> IOC_EvtDesc_T \<Rightarrow> IOC_Options_T option \<Rightarrow> nat \<Rightarrow> 'p ioc_world \<Rightarrow> (nat \<times> 'p ioc_world) outcome" where
  "broadcast_to op i [] e opt n w = Done (n, w)"
| "broadcast_to op i (k # ks) e opt n w = derefSrv i w (\<lambda>s. case BroadcastLinks s ! k of
     None \<Rightarrow> broadcast_to op i ks e opt n w
   | Some a \<Rightarrow> (case op of None \<Rightarrow> Abort
       | Some f \<Rightarrow> bindO (f a e opt w) (\<lambda>(_, w1). broadcast_to op i ks e opt (n + 1) w1)))"

definition IOC_broadcastEVT ::
  "'p SrvProtoMethods list \<Rightarrow> ULONG \<Rightarrow> IOC_EvtDesc_T \<Rightarrow> IOC_Options_T option \<Rightarrow> 'p ioc_world \<Rightarrow>
   (IOC_Result_T \<times> 'p ioc_world) outcome" where
  "IOC_broadcastEVT ms sid e opt w = (case getSrvObjBySrvID sid w of
     None \<Rightarrow> Done (IOC_RESULT_NOT_EXIST_SERVICE, w)
   | Some s \<Rightarrow>
      if Flags s AND IOC_SRVFLAG_BROADCAST_EVENT = 0 then Done (IOC_RESULT_NOT_SUPPORT_BROADCAST_EVENT, w)
      else bindO (broadcast_to (case SrvMethods s of None \<Rightarrow> None | Some m \<Rightarrow> OpPostEvt (ms ! m)) (unat sid)
          [0..<3] e opt 0 w) (\<lambda>(n, w1).
        Done (if n > 0 then IOC_RESULT_SUCCESS else IOC_RESULT_NO_EVENT_CONSUMER, w1)))"

text \<open>Collecting identifiers into a buffer of \<open>n\<close> entries; the second loop leaves out those present.\<close>

fun collect_ids :: "bool \<Rightarrow> nat \<Rightarrow> nat option list \<Rightarrow> ULONG list \<Rightarrow> 'p ioc_world \<Rightarrow> ULONG list outcome" where
  "collect_ids dedup n [] ids w = Done ids"
| "collect_ids dedup n (x # xs) ids w =
    (if length ids < n then (case x of
       None \<Rightarrow> collect_ids dedup n xs ids w
     | Some a \<Rightarrow> deref a w (\<lambda>lk.
         collect_ids dedup n xs (if dedup \<and> ID lk \<in> set ids then ids else ids @ [ID lk]) w))
     else Done ids)"

definition IOC_getServiceLinkIDs ::
  "ULONG \<Rightarrow> bool \<Rightarrow> 16 word \<Rightarrow> bool \<Rightarrow> 'p ioc_world \<Rightarrow> (IOC_Result_T \<times> ULONG list option) outcome" where
  "IOC_getServiceLinkIDs sid want_ids max_links want_count w =
    (if \<not> want_ids \<or> \<not> want_count then Done (IOC_RESULT_INVALID_PARAM, None)
     else case getSrvObjBySrvID sid w of
       None \<Rightarrow> Done (IOC_RESULT_NOT_EXIST_SERVICE, None)
     | Some s \<Rightarrow>
        (let n = unat max_links; auto = Flags s AND IOC_SRVFLAG_AUTO_ACCEPT \<noteq> 0 in
         bindO (if auto then collect_ids False n (AutoLinks s) [] w else Done []) (\<lambda>ids.
         bindO (if Flags s AND IOC_SRVFLAG_BROADCAST_EVENT \<noteq> 0 then collect_ids True n (BroadcastLinks s) ids w
                else Done ids) (\<lambda>ids.
           Done (if length ids = n \<and> auto \<and> list_ex (\<lambda>x. x \<noteq> None) (drop n (AutoLinks s))
                 then IOC_RESULT_BUFFER_TOO_SMALL else IOC_RESULT_SUCCESS, Some ids)))))"

definition IOC_getServiceState :: "ULONG \<Rightarrow> bool \<Rightarrow> 'p ioc_world \<Rightarrow> IOC_Result_T \<times> 16 word option" where
  "IOC_getServiceState sid want_count w = (case getSrvObjBySrvID sid w of
     None \<Rightarrow> (IOC_RESULT_NOT_EXIST_SERVICE, None)
   | Some s \<Rightarrow>
      (let count = (\<lambda>flag links. if Flags s AND flag \<noteq> 0 then length (filter (\<lambda>x. x \<noteq> None) links) else 0)
       in (IOC_RESULT_SUCCESS, if want_count then Some (of_nat (count IOC_SRVFLAG_AUTO_ACCEPT (AutoLinks s) +
             count IOC_SRVFLAG_BROADCAST_EVENT (BroadcastLinks s))) else None)))"

definition IOC_getLinkConnState ::
  "ULONG \<Rightarrow> bool \<Rightarrow> 'p ioc_world \<Rightarrow> (IOC_Result_T \<times> IOC_LinkConnState_T option) outcome" where
  "IOC_getLinkConnState link want w =
    (if \<not> want then Done (IOC_RESULT_INVALID_PARAM, None)
     else if link = ULONG_MAX then Done (IOC_RESULT_INVALID_PARAM, None)
     else with_link link w (Done (IOC_RESULT_NOT_EXIST_LINK, None)) (\<lambda>_ lk.
       Done (IOC_RESULT_SUCCESS, Some (ConnState lk))))"

section \<open>Connecting and accepting whatever the protocol\<close>

text \<open>The world with a new link in slot \<open>k\<close>, and the link on either side as the protocol first sees it.\<close>

definition with_new_link :: "nat \<Rightarrow> 'p ioc_world \<Rightarrow> 'p ioc_world" where
  "with_new_link k w = w\<lparr>LinkTbl := (LinkTbl w)[k := Some (next_addr w)],
     LinkHeap := (LinkHeap w)(next_addr w := Some (new_link k)), next_addr := next_addr w + 1, LinkCount := LinkCount w + 1\<rparr>"

definition client_link :: "IOC_ConnArgs_T \<Rightarrow> LinkObject_T \<Rightarrow> LinkObject_T" where
  "client_link args l = l\<lparr>LinkSrvURI := ConnSrvURI args, Usage := ConnUsage args, UsageArgs := ConnUsageArgs args,
     ConnState := IOC_LinkConnStateConnecting\<rparr>"

definition server_link :: "ServiceObject_T \<Rightarrow> LinkObject_T \<Rightarrow> LinkObject_T" where
  "server_link s l = l\<lparr>pMethods := SrvMethods s, Usage := UsageCapabilites s, LinkSrvURI := SrvURI s,
     UsageArgs := accept_usageArgs s (UsageArgs l)\<rparr>"

lemma new_link_sel [simp]:
  "LinkTbl (with_new_link k w) = (LinkTbl w)[k := Some (next_addr w)]" "next_addr (with_new_link k w) = next_addr w + 1"
  "LinkHeap (with_new_link k w) = (LinkHeap w)(next_addr w := Some (new_link k))" "SrvTbl (with_new_link k w) = SrvTbl w"
  "proto (with_new_link k w) = proto w" "FailNextAllocCount (with_new_link k w) = FailNextAllocCount w"
  by (simp_all add: with_new_link_def)

lemma side_link_sel [simp]:
  "ID (client_link args l) = ID l" "Usage (client_link args l) = ConnUsage args" "ID (server_link s l) = ID l"
  "ConnState (server_link s l) = ConnState l" "pMethods (server_link s l) = SrvMethods s"
  "ID (new_link k) = LinkObjTblIdxToLinkID k" "ConnState (new_link k) = IOC_LinkConnStateDisconnected"
  by (simp_all add: client_link_def server_link_def new_link_def)

lemma alloc_new_link:
  assumes "links_ok w" "FailNextAllocCount w \<le> 0" "first_index (\<lambda>slot. slot = None) (LinkTbl w) = Some k"
  shows "allocLinkObj True True w = Done (Some (next_addr w), with_new_link k w)" "links_ok (with_new_link k w)"
    "k < 32" "LinkTbl w ! k = None" "LinkHeap w (next_addr w) = None"
  using allocLinkObj_room [OF assms] by (simp_all add: with_new_link_def)

lemma connect_by_proto:
  assumes ok: "links_ok w" "FailNextAllocCount w \<le> 0" "first_index (\<lambda>slot. slot = None) (LinkTbl w) = Some k"
    and args: "proto_index (pProtocol (ConnSrvURI args)) ms = Some m" "pProtocol (ConnSrvURI args) \<noteq> ''auto''"
      "ConnUsage args \<noteq> IOC_LinkUsageEvtConsumer \<or> ConnUsageArgs args = None"
    and op: "OpConnectService (ms ! m) (next_addr w) args opt (setLink (next_addr w) (client_link args) (with_new_link k w)) =
        Done (IOC_RESULT_SUCCESS, w')" "LinkHeap w' (next_addr w) = Some lk"
  shows "IOC_connectService ms True True True (Some args) opt w = Done (IOC_RESULT_SUCCESS, Some (ID lk),
    setLink (next_addr w) (\<lambda>l. l\<lparr>pMethods := Some m, ConnState := IOC_LinkConnStateConnected, IsConnected := True\<rparr>) w')"
proof -
  have "connectServiceByProto ms (next_addr w) args opt (with_new_link k w) = Done (IOC_RESULT_SUCCESS,
      setLink (next_addr w) (\<lambda>l. l\<lparr>pMethods := Some m, ConnState := IOC_LinkConnStateConnected, IsConnected := True\<rparr>) w')"
    using args(1,2) op unfolding client_link_def [abs_def] by (simp add: connectServiceByProto_def deref_def)
  then show ?thesis using alloc_new_link(1) [OF ok] args(3) op(2) by (auto simp: IOC_connectService_def deref_def)
qed

lemma accept_by_proto:
  assumes ok: "links_ok w" "FailNextAllocCount w \<le> 0" "first_index (\<lambda>slot. slot = None) (LinkTbl w) = Some k"
    and so: "i < 32" "SrvTbl w ! i = Some so" "Flags so AND IOC_SRVFLAG_AUTO_ACCEPT = 0" "SrvMethods so = Some m" "SrvEvt so = None"
    and op: "OpAcceptClient (ms ! m) i (next_addr w) opt (setLink (next_addr w) (server_link so) (with_new_link k w)) =
        Done (IOC_RESULT_SUCCESS, w')" "LinkHeap w' (next_addr w) = Some lk" "SrvTbl w' = SrvTbl w" "length (SrvTbl w) = 32"
  shows "IOC_acceptClient ms True True True (of_nat i) opt w = Done (IOC_RESULT_SUCCESS, Some (ID lk), setSrv i (track_manual (ID lk)) w')"
proof -
  have i: "unat (of_nat i :: ULONG) = i" "(of_nat i :: ULONG) < 32" using so(1) by (simp_all add: unat_of_nat word_less_nat_alt)
  then have get: "getSrvObjBySrvID (of_nat i) w = Some so" using so(2) by (simp add: getSrvObjBySrvID_def MAX_IOC_SRV_OBJ_NUM_def)
  have "SrvEvt (track_manual (ID lk) so) = None" using so(5) by (simp add: track_manual_def split: option.split)
  moreover have "SrvTbl (setSrv i (track_manual (ID lk)) w') ! i = Some (track_manual (ID lk) so)"
    using so(1,2) op(3,4) by (simp add: setSrv_def)
  ultimately have "accept_subscribe ms i (next_addr w) (ID lk) (setSrv i (track_manual (ID lk)) w') =
      Done (IOC_RESULT_SUCCESS, Some (ID lk), setSrv i (track_manual (ID lk)) w')"
    by (simp add: accept_subscribe_def derefSrv_def)
  then show ?thesis using get so(3,4) i alloc_new_link(1) [OF ok] op(1,2) unfolding server_link_def [abs_def]
    by (simp add: IOC_acceptClient_def deref_def)
qed

end
