(* ===== verification/FifoMethods.thy ===== *)
theory FifoMethods
  imports FifoData ServiceApi
begin

text \<open>
  The method table of the FIFO protocol, \<^verbatim>\<open>_gIOC_SrvProtoFifoMethods\<close>, and the service layer run on it:
  what closing a link, taking a service offline, failing to connect and sending data do to the
  tables of the library and to both ends of the protocol.
\<close>

section \<open>The method table\<close>

text \<open>What the environment supplies to the calls: memory, the turns of other threads while a call
  waits, callbacks and clocks, as in the definitions of the operations.\<close>

record 'x fifo_env =
  fe_srv_mem :: bool
  fe_mem :: link_mem
  fe_wake :: "('x fifo_world \<Rightarrow> 'x fifo_world) option"
  fe_start :: timespec
  fe_accept :: "(timespec \<times> ('x fifo_world \<Rightarrow> 'x fifo_world)) list"
  fe_destroy :: bool
  fe_evt :: "'x evt_callback"
  fe_pull :: "(('x fifo_world \<Rightarrow> 'x fifo_world) \<times> timespec) list"
  fe_dat :: "'x dat_callback"
  fe_send :: send_env
  fe_wakes :: "(PollingBuffer_T \<Rightarrow> PollingBuffer_T) list"
  fe_timed :: "bool \<times> (PollingBuffer_T \<Rightarrow> PollingBuffer_T)"
  fe_cmd :: "'x cmd_env"
  fe_exec :: "('x fifo_world \<Rightarrow> 'x fifo_world) list"
  fe_waitcmd :: "(bool \<times> ('x fifo_world \<Rightarrow> 'x fifo_world)) list"

definition gIOC_SrvProtoFifoMethods :: "'x fifo_env \<Rightarrow> 'x fifo_state_scheme SrvProtoMethods" where
  "gIOC_SrvProtoFifoMethods env = \<lparr>mProtocol = ''fifo'',
     OpOnlineService = onlineService_ofProtoFifo (fe_srv_mem env),
     OpOfflineService = offlineService_ofProtoFifo,
     OpConnectService = (\<lambda>link args opt. connectService_ofProtoFifo (fe_mem env) (fe_wake env) link args),
     OpAcceptClient = acceptClient_ofProtoFifo (fe_mem env) (fe_start env) (fe_accept env),
     OpCloseLink = closeLink_ofProtoFifo (fe_destroy env),
     OpSubEvt = Some subEvt_ofProtoFifo,
     OpUnsubEvt = Some unsubEvt_ofProtoFifo,
     OpPostEvt = Some (\<lambda>link e opt. postEvt_ofProtoFifo (fe_evt env) link e),
     OpPullEvt = Some (pullEvt_ofProtoFifo (fe_start env) (fe_pull env)),
     OpSendData = Some (sendData_ofProtoFifo (fe_dat env) (fe_send env)),
     OpRecvData = Some (recvData_ofProtoFifo (fe_wakes env) (fe_timed env) (fe_start env)),
     OpExecCmd = Some (execCmd_ofProtoFifo (fe_cmd env) (fe_exec env)),
     OpWaitCmd = Some (waitCmd_ofProtoFifo (fe_waitcmd env)),
     OpAckCmd = Some (\<lambda>link d opt. ackCmd_ofProtoFifo link d)\<rparr>"

lemma fifo_methods_sel [simp]:
  "mProtocol (gIOC_SrvProtoFifoMethods env) = ''fifo''"
  "OpOfflineService (gIOC_SrvProtoFifoMethods env) = offlineService_ofProtoFifo"
  "OpConnectService (gIOC_SrvProtoFifoMethods env) =
     (\<lambda>link args opt. connectService_ofProtoFifo (fe_mem env) (fe_wake env) link args)"
  "OpCloseLink (gIOC_SrvProtoFifoMethods env) = closeLink_ofProtoFifo (fe_destroy env)"
  "OpSubEvt (gIOC_SrvProtoFifoMethods env) = Some subEvt_ofProtoFifo"
  "OpSendData (gIOC_SrvProtoFifoMethods env) = Some (sendData_ofProtoFifo (fe_dat env) (fe_send env))"
  by (simp_all add: gIOC_SrvProtoFifoMethods_def)

section \<open>What every protocol promises to the service layer\<close>

lemma links_ok_setLink:
  assumes "links_ok w" "\<And>l. ID (f l) = ID l"
  shows "links_ok (setLink a f w)"
proof -
  have h: "LinkHeap (setLink a f w) b = (if b = a then map_option f (LinkHeap w a) else LinkHeap w b)" for b by simp
  show ?thesis unfolding links_ok_def
  proof (intro conjI allI impI)
    fix i b assume "i < 32" "LinkTbl (setLink a f w) ! i = Some b"
    then obtain l where "LinkHeap w b = Some l" "ID l = LinkObjTblIdxToLinkID i"
      using links_okD [OF assms(1), of i b] by auto
    then show "\<exists>l. LinkHeap (setLink a f w) b = Some l \<and> ID l = LinkObjTblIdxToLinkID i"
      by (cases "b = a") (simp_all add: h assms(2))
  next
    fix b l assume "LinkHeap (setLink a f w) b = Some l"
    then obtain k where "LinkHeap w b = Some k" by (auto simp: h split: if_splits)
    then show "b < next_addr (setLink a f w)" "\<exists>i<32. LinkTbl (setLink a f w) ! i = Some b"
      using assms(1) by (auto simp: links_ok_def)
  qed (use assms(1) in \<open>simp_all add: links_ok_def setLink_def\<close>)
qed

lemma links_ok_proto: "links_ok w \<Longrightarrow> links_ok (w\<lparr>proto := p\<rparr>)"
  by (simp add: links_ok_def)

lemma links_ok_setSrv: "links_ok w \<Longrightarrow> links_ok (setSrv i f w)"
  by (simp add: links_ok_def setSrv_def)

text \<open>Closing a link and taking a service offline change the protocol's own state, and of the library's tables
  only that link or service, whose identity they keep.\<close>

locale link_protocol =
  fixes close :: "nat \<Rightarrow> 'p ioc_world \<Rightarrow> (IOC_Result_T \<times> 'p ioc_world) outcome"
    and offline :: "nat \<Rightarrow> 'p ioc_world \<Rightarrow> (IOC_Result_T \<times> 'p ioc_world) outcome"
  assumes close_frame: "close a w = Done (r, w') \<Longrightarrow> \<exists>p h. (\<forall>l. ID (h l) = ID l) \<and> w' = (setLink a h w)\<lparr>proto := p\<rparr>"
    and offline_frame: "offline i w = Done (r, w') \<Longrightarrow>
      \<exists>p h. (\<forall>s. SrvID (h s) = SrvID s \<and> SrvURI (h s) = SrvURI s) \<and> w' = (setSrv i h w)\<lparr>proto := p\<rparr>"

begin

text \<open>Closing a link of the table, when the protocol closes its end.\<close>

lemma closeLink_removes:
  assumes "links_ok w" "i < 32" "LinkTbl w ! i = Some a" "LinkHeap w a = Some lk" "pMethods lk = Some m"
    and m: "OpCloseLink (ms ! m) = close"
    and c: "close a (setLink a (\<lambda>l. l\<lparr>ConnState := IOC_LinkConnStateDisconnecting, IsConnected := False\<rparr>) w) =
      Done (IOC_RESULT_SUCCESS, w1)"
  shows "\<exists>w'. IOC_closeLink ms (LinkObjTblIdxToLinkID i) w = Done (IOC_RESULT_SUCCESS, w') \<and> links_ok w' \<and>
    LinkTbl w' = (LinkTbl w)[i := None] \<and> LinkHeap w' = (LinkHeap w)(a := None) \<and> proto w' = proto w1 \<and>
    SrvTbl w' = SrvTbl w \<and> ServiceCount w' = ServiceCount w"
proof -
  let ?f = "\<lambda>l. l\<lparr>ConnState := IOC_LinkConnStateDisconnecting, IsConnected := False\<rparr>"
  obtain p g where g: "\<And>l. ID (g l) = ID l" and w1: "w1 = (setLink a g (setLink a ?f w))\<lparr>proto := p\<rparr>"
    using close_frame [OF c] by blast
  have ok: "links_ok w1" unfolding w1 using assms(1) g by (intro links_ok_proto links_ok_setLink) simp_all
  have h: "LinkHeap w1 a = Some (g (?f lk))" using assms(4) by (simp add: w1 setLink_def)
  obtain k w' where k: "k < 32" "LinkTbl w1 ! k = Some a" "freeLinkObj a w1 = Done w'" "links_ok w'"
    "LinkTbl w' = (LinkTbl w1)[k := None]" "LinkHeap w' = (LinkHeap w1)(a := None)" "proto w' = proto w1"
    "SrvTbl w' = SrvTbl w1" "ServiceCount w' = ServiceCount w1"
    using freeLinkObj_live [OF ok h] by metis
  have t: "LinkTbl w1 = LinkTbl w" "SrvTbl w1 = SrvTbl w" "ServiceCount w1 = ServiceCount w"
    "(LinkHeap w1)(a := None) = (LinkHeap w)(a := None)"
    by (simp_all add: w1 setLink_def fun_eq_iff)
  have "k = i" using links_ok_slot_unique [OF assms(1) k(1) assms(2)] k(2) assms(3) t by simp
  then show ?thesis
    using k t assms m c by (simp add: IOC_closeLink_def with_link_def deref_def)
qed

end

text \<open>A protocol that leaves the tables alone altogether.\<close>

locale detached_protocol =
  fixes close :: "nat \<Rightarrow> 'p ioc_world \<Rightarrow> (IOC_Result_T \<times> 'p ioc_world) outcome"
    and offline :: "nat \<Rightarrow> 'p ioc_world \<Rightarrow> (IOC_Result_T \<times> 'p ioc_world) outcome"
  assumes close_own: "close a w = Done (r, w') \<Longrightarrow> \<exists>p. w' = w\<lparr>proto := p\<rparr>"
    and offline_own: "offline i w = Done (r, w') \<Longrightarrow> \<exists>p. w' = w\<lparr>proto := p\<rparr>"

begin

text \<open>Changing nothing is a change of this kind.\<close>

lemma unchanged: "setLink a (\<lambda>l. l) w = w" "setSrv i (\<lambda>s. s) w = w"
  by (simp_all add: setLink_def setSrv_def option.map_ident)

end

sublocale detached_protocol \<subseteq> link_protocol close offline
proof (unfold_locales, goal_cases)
  case (1 a w r w')
  then obtain p where "w' = w\<lparr>proto := p\<rparr>" using close_own by blast
  then show ?case using unchanged(1) [of a w] by (intro exI [of _ p] exI [of _ "\<lambda>l. l"]) simp
next
  case (2 i w r w')
  then obtain p where "w' = w\<lparr>proto := p\<rparr>" using offline_own by blast
  then show ?case using unchanged(2) [of i w] by (intro exI [of _ p] exI [of _ "\<lambda>s. s"]) simp
qed

section \<open>The FIFO protocol keeps its promise\<close>

lemma fifo_frame:
  "(\<exists>p. x = w\<lparr>proto := p\<rparr>) \<Longrightarrow> \<exists>p. free_fifo_link f x = w\<lparr>proto := p\<rparr>"
  "(\<exists>p. x = w\<lparr>proto := p\<rparr>) \<Longrightarrow> \<exists>p. unlockFifo f x = w\<lparr>proto := p\<rparr>"
  "(\<exists>p. x = w\<lparr>proto := p\<rparr>) \<Longrightarrow> \<exists>p. setFifo f g x = w\<lparr>proto := p\<rparr>"
  by (auto simp: setFifo_def unlockFifo_def free_fifo_link_def)

lemma frame_refl: "\<exists>p. w = w\<lparr>proto := p\<rparr>"
  by (rule exI [of _ "proto w"]) simp

interpretation fifo_protocol: detached_protocol "closeLink_ofProtoFifo ok" offlineService_ofProtoFifo
proof (unfold_locales, goal_cases)
  case (1 a w r w')
  then show ?case
    by (auto simp: closeLink_ofProtoFifo_def closeLink_locked_def outcome_simps Let_def split: option.splits if_splits
        intro!: fifo_frame frame_refl)
next
  case (2 i w r w')
  then obtain s where "SrvTbl w ! i = Some s" by (auto simp: offlineService_ofProtoFifo_def derefSrv_Done)
  with 2 show ?case
    by (cases "SrvProtoPriv s") (auto simp: offlineService_ofProtoFifo_def derefSrv_Done fsderef_Done Let_def)
qed

lemma closeLink_returns:
  assumes "LinkHeap w a = Some lk" "pProtoPriv lk = Some f" "FifoLinks (proto w) f = Some l" "\<not> MutexHeld l"
    and p: "\<And>p. pPeer l = Some p \<Longrightarrow> p \<noteq> f \<and> (\<exists>q. FifoLinks (proto w) p = Some q)"
    and q: "EvtDescQueue_isEmpty (EvtPollingQueue l)" "ok"
  shows "\<exists>w'. closeLink_ofProtoFifo ok a w = Done (IOC_RESULT_SUCCESS, w')"
proof (cases "pPeer l")
  case None
  then show ?thesis using assms
    by (simp add: closeLink_ofProtoFifo_def closeLink_locked_def deref_def lockFifo_def fderef_def EvtDescQueue_deinitOne_def
        EvtDescQueue_isEmpty_def log_assert_def)
next
  case (Some x)
  then obtain y where "x \<noteq> f" "FifoLinks (proto w) x = Some y" using p by blast
  then show ?thesis using assms Some
    by (simp add: closeLink_ofProtoFifo_def closeLink_locked_def deref_def lockFifo_def fderef_def EvtDescQueue_deinitOne_def Let_def
        EvtDescQueue_isEmpty_def log_assert_def)
qed

text \<open>Forgetting a link whose end is gone.\<close>

lemma ends_forget:
  assumes i: "ends_inv n fl pv us pend W A C D" and k: "pv k = Some f" "fl f = None" "C k = None"
  shows "ends_inv n fl (pv(k := None)) (us(k := r)) pend W A C D"
proof -
  note d = ends_invD [OF i]
  have own: "pOwnerLinkObj l \<noteq> k" if "fl g = Some l" for g l using d(3) [OF that, of k] k that by auto
  have "W k = None" using d(6) [of k] k by (cases "W k") auto
  moreover have "A k = None" using d(8) [of k] k by (cases "A k") auto
  ultimately have free: "W k = None" "A k = None" .
  have pv: "(pv(k := None)) j = Some g \<longleftrightarrow> pv j = Some g" if "fl g = Some l" for g l j
    using that k by auto
  have us: "(us(k := r)) (pOwnerLinkObj l) = us (pOwnerLinkObj l)" if "fl g = Some l" for g l using own [OF that] by simp
  show ?thesis unfolding ends_inv_def
  proof (intro conjI allI impI)
    fix g l j assume l: "fl g = Some l"
    show "g < n" "((pv(k := None)) j = Some g) = (j = pOwnerLinkObj l)"
      using d(1,3) [OF l] pv [OF l] by auto
  next
    fix g l p assume l: "fl g = Some l" "pPeer l = Some p"
    show "p \<noteq> g" "p < n" using d(2) [OF l] by auto
    show "(\<exists>q. fl p = Some q \<and> pPeer q = Some g \<and>
        complementary ((us(k := r)) (pOwnerLinkObj l)) ((us(k := r)) (pOwnerLinkObj q))) \<or> fl p = None \<and> (g, p) \<in> D"
      using d(4) [OF l] us l by fastforce
  next
    fix j g assume "(pv(k := None)) j = Some g"
    then show "g < n" using d(5) by (auto split: if_splits)
  next
    fix j fs g assume w: "W j = Some (fs, g)"
    then show "(pv(k := None)) j = Some g" "\<exists>l. fl g = Some l" "A j = None" using d(6) [OF w] free by auto
  next
    fix fs j assume "pend fs = Some j"
    then show "\<exists>g l. W j = Some (fs, g) \<and> fl g = Some l \<and> pPeer l = None" by (rule d(7))
  next
    fix j srv g assume a: "A j = Some (srv, g)"
    then show "(pv(k := None)) j = Some g" "\<exists>l. fl g = Some l \<and> pPeer l = None" using d(8) [OF a] free by auto
  next
    fix j g assume c: "C j = Some g"
    then show "(pv(k := None)) j = Some g" "W j = None" "A j = None" using d(9) [OF c] k(3) by auto
  qed
qed


section \<open>Closing a link\<close>

text \<open>A link that an application may close: nobody connects or accepts on it, its methods are those of
  the FIFO protocol, its end is there and has no event queued (closing asserts that).\<close>

definition closable :: "'x fifo_state_scheme SrvProtoMethods list \<Rightarrow> 'x handshake \<Rightarrow> nat \<Rightarrow> bool" where
  "closable ms s a \<longleftrightarrow> unused a s \<and> (\<exists>lk m env f l. LinkHeap (World s) a = Some lk \<and> pMethods lk = Some m \<and>
     ms ! m = gIOC_SrvProtoFifoMethods env \<and> fe_destroy env \<and> pProtoPriv lk = Some f \<and>
     FifoLinks (proto (World s)) f = Some l \<and> EvtDescQueue_isEmpty (EvtPollingQueue l))"

text \<open>The ends after the end \<open>f\<close> with state \<open>l\<close> is closed.\<close>

definition close_end :: "nat \<Rightarrow> FifoLinkObject_T \<Rightarrow> (nat \<Rightarrow> FifoLinkObject_T option) \<Rightarrow> nat \<Rightarrow> FifoLinkObject_T option" where
  "close_end f l fl = (case pPeer l of None \<Rightarrow> fl(f := None)
     | Some p \<Rightarrow> fl(p := map_option (\<lambda>q. q\<lparr>pPeer := None\<rparr>) (fl p), f := None))"

lemma close_end_other:
  "g \<noteq> f \<Longrightarrow> fl g = Some k \<Longrightarrow> close_end f l fl g = Some (if pPeer l = Some g then k\<lparr>pPeer := None\<rparr> else k)"
  by (simp add: close_end_def split: option.split)

lemma close_end_self [simp]: "close_end f l fl f = None"
  by (simp add: close_end_def split: option.split)

lemma hs_inv_same:
  assumes "hs_inv s" "priv_end w = priv_end (World s)" "role_of w = role_of (World s)"
    "pending w = pending (World s)" "FifoLinks (proto w) = FifoLinks (proto (World s))"
    "next_fifo (proto w) = next_fifo (proto (World s))"
  shows "hs_inv (s\<lparr>World := w\<rparr>)"
  using assms(1) by (simp add: hs_inv_def hs_wf_def Let_def assms(2-))

lemma closeLink_step:
  assumes inv: "hs_inv s" and ok: "links_ok (World s)" and i: "i < 32" "LinkTbl (World s) ! i = Some a"
    and a: "closable ms s a"
  obtains w' lk f l where "IOC_closeLink ms (LinkObjTblIdxToLinkID i) (World s) = Done (IOC_RESULT_SUCCESS, w')"
    "links_ok w'" "hs_inv (s\<lparr>World := w'\<rparr>)" "LinkTbl w' = (LinkTbl (World s))[i := None]"
    "LinkHeap w' = (LinkHeap (World s))(a := None)" "SrvTbl w' = SrvTbl (World s)"
    "ServiceCount w' = ServiceCount (World s)" "FifoSrvs (proto w') = FifoSrvs (proto (World s))"
    "LinkHeap (World s) a = Some lk" "pProtoPriv lk = Some f" "FifoLinks (proto (World s)) f = Some l"
    "FifoLinks (proto w') = close_end f l (FifoLinks (proto (World s)))"
    "\<And>b. b \<noteq> a \<Longrightarrow> closable ms s b \<Longrightarrow> closable ms (s\<lparr>World := w'\<rparr>) b"
proof -
  let ?w = "World s" and ?f = "\<lambda>l. l\<lparr>ConnState := IOC_LinkConnStateDisconnecting, IsConnected := False\<rparr>"
  let ?wd = "setLink a ?f ?w"
  have e: "ends_inv (next_fifo (proto ?w)) (FifoLinks (proto ?w)) (priv_end ?w) (role_of ?w) (pending ?w)
      (Waiting s) (Accepting s) (Closing s) {}" and q: "\<forall>f l. FifoLinks (proto ?w) f = Some l \<longrightarrow> \<not> MutexHeld l"
    using inv by (simp_all add: hs_inv_def hs_wf_def Let_def)
  note d = ends_invD [OF e]
  obtain lk m env f l where lk: "LinkHeap ?w a = Some lk" "pMethods lk = Some m" "ms ! m = gIOC_SrvProtoFifoMethods env"
    "fe_destroy env" "pProtoPriv lk = Some f" "FifoLinks (proto ?w) f = Some l" "EvtDescQueue_isEmpty (EvtPollingQueue l)"
    and un: "unused a s" using a by (auto simp: closable_def)
  have pv0: "priv_end ?wd = priv_end ?w" "role_of ?wd = role_of ?w" "pending ?wd = pending ?w"
    by (auto simp: priv_end_def role_of_def pending_def fun_eq_iff split: option.splits)
  have inv0: "hs_inv (s\<lparr>World := ?wd\<rparr>)" by (rule hs_inv_same [OF inv pv0]) simp_all
  have un0: "unused a (s\<lparr>World := ?wd\<rparr>)" using un by (simp add: unused_def)
  have peer: "p \<noteq> f \<and> (\<exists>q. FifoLinks (proto ?wd) p = Some q)" if "pPeer l = Some p" for p
    using d(2,4) [OF lk(6) that] by auto
  obtain w1 where c: "closeLink_ofProtoFifo (fe_destroy env) a ?wd = Done (IOC_RESULT_SUCCESS, w1)"
    using closeLink_returns [of ?wd a "?f lk" f l "fe_destroy env", OF _ _ _ _ peer] lk q by auto
  have inv1: "hs_inv (s\<lparr>World := w1\<rparr>)" using inv_close [OF inv0 un0, of "fe_destroy env" _ w1] c by simp
  obtain p where "w1 = ?wd\<lparr>proto := p\<rparr>" using fifo_protocol.close_own [OF c] by blast
  have "\<forall>g k. FifoLinks (proto ?wd) g = Some k \<longrightarrow> pPeer k \<noteq> Some g" using d(2) by fastforce
  from closeLink_effect [OF c this] have "FifoLinks (proto w1) = closed_end f l (FifoLinks (proto ?w))"
    and h1: "LinkHeap w1 = LinkHeap ?wd" and s1: "FifoSrvs (proto w1) = FifoSrvs (proto ?w)"
    using lk by auto
  moreover have "closed_end f l (FifoLinks (proto ?w)) = close_end f l (FifoLinks (proto ?w))"
    using q by (auto simp: closed_end_def close_end_def fun_eq_iff split: option.split intro!: map_option_cong)
  ultimately have fl: "FifoLinks (proto w1) = close_end f l (FifoLinks (proto ?w))" by simp
  have "OpCloseLink (ms ! m) = closeLink_ofProtoFifo (fe_destroy env)" using lk(3) by simp
  from fifo_protocol.closeLink_removes [OF ok i lk(1,2) this c] obtain w' where
    w': "IOC_closeLink ms (LinkObjTblIdxToLinkID i) ?w = Done (IOC_RESULT_SUCCESS, w')" "links_ok w'"
      "LinkTbl w' = (LinkTbl ?w)[i := None]" "LinkHeap w' = (LinkHeap ?w)(a := None)" "proto w' = proto w1"
      "SrvTbl w' = SrvTbl ?w" "ServiceCount w' = ServiceCount ?w" by blast
  have "priv_end w1 a = Some f" using h1 lk by (simp add: priv_end_def)
  moreover have "priv_end w' = (priv_end w1)(a := None)" "role_of w' = (role_of w1)(a := 0)" "pending w' = pending w1"
    using w' h1 by (auto simp: priv_end_def role_of_def pending_def fun_eq_iff)
  moreover have "\<forall>g k. FifoLinks (proto w') g = Some k \<longrightarrow> \<not> MutexHeld k"
    using inv1 w'(5) by (simp add: hs_inv_def)
  moreover have "ends_inv (next_fifo (proto w1)) (FifoLinks (proto w1)) (priv_end w1) (role_of w1) (pending w1)
      (Waiting s) (Accepting s) (Closing s) {}" using inv1 by (simp add: hs_inv_def hs_wf_def Let_def)
  ultimately have inv': "hs_inv (s\<lparr>World := w'\<rparr>)"
    using ends_forget [of _ _ "priv_end w1" "role_of w1" _ _ _ "Closing s" _ a f 0] fl w'(5) un by (simp add: hs_inv_def hs_wf_def Let_def unused_def)
  have keep: "closable ms (s\<lparr>World := w'\<rparr>) b" if b: "b \<noteq> a" "closable ms s b" for b
  proof -
    obtain lb mb envb g k where k: "LinkHeap ?w b = Some lb" "pMethods lb = Some mb" "ms ! mb = gIOC_SrvProtoFifoMethods envb"
      "fe_destroy envb" "pProtoPriv lb = Some g" "FifoLinks (proto ?w) g = Some k" "EvtDescQueue_isEmpty (EvtPollingQueue k)"
      "unused b s" using b(2) by (auto simp: closable_def)
    have "g \<noteq> f" using d(3) [OF k(6), of b] d(3) [OF k(6), of a] k(1,5) lk(1,5) b(1) by (auto simp: priv_end_def)
    from close_end_other [of g f "FifoLinks (proto ?w)", OF this k(6), of l] k b(1) w' fl show ?thesis
      by (auto simp: closable_def unused_def)
  qed
  show ?thesis using that [OF w'(1,2) inv' w'(3,4,6,7) _ lk(1,5,6) _ keep] w'(5) fl s1 by simp
qed


section \<open>Closing the links a service tracks\<close>

definition tracked :: "ServiceObject_T \<Rightarrow> nat list \<Rightarrow> nat set" where
  "tracked so ks = {j. j < 32 \<and> (\<exists>k\<in>set ks. ManualLinkIDs so ! k = LinkObjTblIdxToLinkID j)}"

text \<open>The identifiers a service tracks: none, or that of a table slot.\<close>

definition manual_ok :: "ServiceObject_T \<Rightarrow> nat list \<Rightarrow> bool" where
  "manual_ok so ks \<longleftrightarrow> (\<forall>k\<in>set ks. ManualLinkIDs so ! k = ULONG_MAX \<or>
     (\<exists>j<32. ManualLinkIDs so ! k = LinkObjTblIdxToLinkID j))"

lemma setSrv_sel [simp]:
  "LinkTbl (setSrv i f w) = LinkTbl w" "LinkHeap (setSrv i f w) = LinkHeap w" "proto (setSrv i f w) = proto w"
  "ServiceCount (setSrv i f w) = ServiceCount w" "length (SrvTbl (setSrv i f w)) = length (SrvTbl w)"
  "j \<noteq> i \<Longrightarrow> SrvTbl (setSrv i f w) ! j = SrvTbl w ! j"
  "i < length (SrvTbl w) \<Longrightarrow> SrvTbl (setSrv i f w) ! i = map_option f (SrvTbl w ! i)"
  by (simp_all add: setSrv_def)

lemma hs_inv_setSrv: "hs_inv s \<Longrightarrow> hs_inv (s\<lparr>World := setSrv i f (World s)\<rparr>)"
  by (rule hs_inv_same) (simp_all add: priv_end_def role_of_def pending_def fun_eq_iff)

lemma closable_setSrv: "closable ms s a \<Longrightarrow> closable ms (s\<lparr>World := setSrv i f (World s)\<rparr>) a"
  by (simp add: closable_def unused_def)

text \<open>What the loop leaves behind: the slots of the tracked links are free, all else is as before.\<close>

definition closed_slots :: "nat set \<Rightarrow> 'x fifo_world \<Rightarrow> 'x fifo_world \<Rightarrow> bool" where
  "closed_slots J w w' \<longleftrightarrow> LinkTbl w' = map (\<lambda>j. if j \<in> J then None else LinkTbl w ! j) [0..<32] \<and>
     (\<forall>b. LinkHeap w' b = (if \<exists>j\<in>J. LinkTbl w ! j = Some b then None else LinkHeap w b)) \<and>
     FifoSrvs (proto w') = FifoSrvs (proto w) \<and> ServiceCount w' = ServiceCount w"

lemma closed_slots_none: "length (LinkTbl w) = 32 \<Longrightarrow> closed_slots {} w w"
  by (simp add: closed_slots_def list_eq_iff_nth_eq)

lemma closed_slots_step:
  assumes "closed_slots J w1 w'" "LinkTbl w1 = (LinkTbl w)[j := None]"
    "LinkHeap w1 = (case LinkTbl w ! j of None \<Rightarrow> LinkHeap w | Some a \<Rightarrow> (LinkHeap w)(a := None))"
    "FifoSrvs (proto w1) = FifoSrvs (proto w)" "ServiceCount w1 = ServiceCount w" "length (LinkTbl w) = 32" "j < 32"
    "J \<subseteq> {..<32}"
  shows "closed_slots (insert j J) w w'"
proof -
  have "LinkHeap w' b = (if \<exists>k\<in>insert j J. LinkTbl w ! k = Some b then None else LinkHeap w b)" for b
  proof -
    have "LinkTbl w1 ! k = Some b \<longleftrightarrow> k \<noteq> j \<and> LinkTbl w ! k = Some b" if "k \<in> J" for k
      using that assms(2,6-8) by (auto simp: nth_list_update)
    then have "LinkHeap w' b = (if \<exists>k\<in>J. k \<noteq> j \<and> LinkTbl w ! k = Some b then None else LinkHeap w1 b)"
      using assms(1) by (auto simp: closed_slots_def)
    then show ?thesis using assms(3) by (auto split: option.splits)
  qed
  moreover have "LinkTbl w' = map (\<lambda>k. if k \<in> insert j J then None else LinkTbl w ! k) [0..<32]"
    using assms(1,2,6,7) by (auto simp: closed_slots_def nth_list_update)
  ultimately show ?thesis using assms(1,4,5) by (simp add: closed_slots_def)
qed


text \<open>Writing back a service after one of its tracked identifiers is cleared.\<close>

abbreviation clear_manual :: "nat \<Rightarrow> ServiceObject_T \<Rightarrow> ServiceObject_T" where
  "clear_manual k s \<equiv> s\<lparr>ManualLinkIDs := (ManualLinkIDs s)[k := ULONG_MAX], ManualCount := ManualCount s - 1\<rparr>"

lemma tracked_clear: "k \<notin> set ks \<Longrightarrow> tracked (clear_manual k so) ks = tracked so ks"
  "k \<notin> set ks \<Longrightarrow> manual_ok (clear_manual k so) ks = manual_ok so ks"
proof -
  assume "k \<notin> set ks"
  then have "(ManualLinkIDs so)[k := ULONG_MAX] ! k' = ManualLinkIDs so ! k'" if "k' \<in> set ks" for k'
    using that by (metis nth_list_update_neq)
  then show "tracked (clear_manual k so) ks = tracked so ks" "manual_ok (clear_manual k so) ks = manual_ok so ks"
    by (auto simp: tracked_def manual_ok_def)
qed

definition same_service :: "ServiceObject_T \<Rightarrow> ServiceObject_T \<Rightarrow> bool" where
  "same_service s t \<longleftrightarrow> SrvID t = SrvID s \<and> SrvURI t = SrvURI s \<and> SrvMethods t = SrvMethods s \<and>
     SrvProtoPriv t = SrvProtoPriv s"

lemma close_manual_closes:
  assumes "hs_inv s" "links_ok (World s)" "length (SrvTbl (World s)) = 32" "i < 32" "SrvTbl (World s) ! i = Some so"
    "distinct ks" "manual_ok so ks"
    "\<forall>j\<in>tracked so ks. \<forall>a. LinkTbl (World s) ! j = Some a \<longrightarrow> closable ms s a"
  shows "\<exists>w' so'. close_manual ms i ks (World s) = Done w' \<and> hs_inv (s\<lparr>World := w'\<rparr>) \<and> links_ok w' \<and>
    closed_slots (tracked so ks) (World s) w' \<and> SrvTbl w' = (SrvTbl (World s))[i := Some so'] \<and> same_service so so'"
  using assms
proof (induction ks arbitrary: s so)
  case Nil
  have t: "tracked so [] = {}" by (simp add: tracked_def)
  have "SrvTbl (World s) = (SrvTbl (World s))[i := Some so]" using Nil.prems(5) by (metis list_update_id)
  moreover have "hs_inv (s\<lparr>World := World s\<rparr>)" using Nil.prems(1) by simp
  ultimately show ?case
    using Nil.prems(2) closed_slots_none [of "World s"] t by (auto simp: links_ok_def same_service_def intro!: exI [of _ so])
next
  case (Cons k ks)
  let ?w = "World s"
  have len: "length (LinkTbl ?w) = 32" using Cons.prems(2) by (simp add: links_ok_def)
  have sub: "tracked so ks \<subseteq> tracked so (k # ks)" by (auto simp: tracked_def)
  have ok: "manual_ok so ks" "distinct ks" "k \<notin> set ks" using Cons.prems(6,7) by (simp_all add: manual_ok_def)
  show ?case
  proof (cases "ManualLinkIDs so ! k = ULONG_MAX")
    case True
    have eq: "tracked so (k # ks) = tracked so ks" using True slot_id_valid by (fastforce simp: tracked_def)
    have "close_manual ms i (k # ks) ?w = close_manual ms i ks ?w"
      using True Cons.prems(5) by (simp add: derefSrv_def)
    then show ?thesis using Cons.IH [OF Cons.prems(1-5) ok(2,1)] Cons.prems(8) eq by auto
  next
    case False
    then obtain j where j: "j < 32" "ManualLinkIDs so ! k = LinkObjTblIdxToLinkID j"
      using Cons.prems(7) by (auto simp: manual_ok_def)
    have tr: "tracked so (k # ks) = insert j (tracked so ks)" using j by (auto simp: tracked_def)
    obtain r w1 where w1: "IOC_closeLink ms (LinkObjTblIdxToLinkID j) ?w = Done (r, w1)" "hs_inv (s\<lparr>World := w1\<rparr>)"
      "links_ok w1" "LinkTbl w1 = (LinkTbl ?w)[j := None]"
      "LinkHeap w1 = (case LinkTbl ?w ! j of None \<Rightarrow> LinkHeap ?w | Some a \<Rightarrow> (LinkHeap ?w)(a := None))"
      "FifoSrvs (proto w1) = FifoSrvs (proto ?w)" "SrvTbl w1 = SrvTbl ?w" "ServiceCount w1 = ServiceCount ?w"
      "\<And>b. LinkTbl ?w ! j \<noteq> Some b \<Longrightarrow> closable ms s b \<Longrightarrow> closable ms (s\<lparr>World := w1\<rparr>) b"
    proof (cases "LinkTbl ?w ! j")
      case None
      then have "(LinkTbl ?w)[j := None] = LinkTbl ?w" by (metis list_update_id)
      then show ?thesis using that [of IOC_RESULT_NOT_EXIST_LINK ?w] None Cons.prems(1,2) j(1)
        by (simp add: IOC_closeLink_def with_link_def)
    next
      case (Some a)
      then have "closable ms s a" using Cons.prems(8) tr by blast
      from closeLink_step [OF Cons.prems(1,2) j(1) Some this] obtain w' where
        "IOC_closeLink ms (LinkObjTblIdxToLinkID j) ?w = Done (IOC_RESULT_SUCCESS, w')" "links_ok w'"
        "hs_inv (s\<lparr>World := w'\<rparr>)" "LinkTbl w' = (LinkTbl ?w)[j := None]" "LinkHeap w' = (LinkHeap ?w)(a := None)"
        "SrvTbl w' = SrvTbl ?w" "ServiceCount w' = ServiceCount ?w" "FifoSrvs (proto w') = FifoSrvs (proto ?w)"
        "\<And>b. b \<noteq> a \<Longrightarrow> closable ms s b \<Longrightarrow> closable ms (s\<lparr>World := w'\<rparr>) b" by metis
      then show ?thesis using that [of IOC_RESULT_SUCCESS w'] Some by simp
    qed
    let ?so = "clear_manual k so" and ?wk = "setSrv i (clear_manual k) w1"
    let ?sk = "s\<lparr>World := ?wk\<rparr>"
    have so: "SrvTbl ?wk ! i = Some ?so" using Cons.prems(3-5) w1(7) by simp
    have inv: "hs_inv ?sk" using hs_inv_setSrv [OF w1(2), of i "clear_manual k"] by simp
    have cl: "closable ms ?sk a" if "j' \<in> tracked ?so ks" "LinkTbl ?wk ! j' = Some a" for j' a
    proof -
      have j': "j' < 32" "j' \<in> tracked so ks" using that(1) unfolding tracked_clear(1) [OF ok(3)]
        by (simp_all add: tracked_def)
      have "j' \<noteq> j" "LinkTbl ?w ! j' = Some a" using that(2) w1(4) j' len
        by (cases "j' = j"; simp)+
      moreover from this have "LinkTbl ?w ! j \<noteq> Some a"
        using links_ok_slot_unique [OF Cons.prems(2) j'(1) j(1)] by blast
      ultimately show ?thesis
        using closable_setSrv [of ms "s\<lparr>World := w1\<rparr>" a i "clear_manual k"] w1(9) Cons.prems(8) j'(2) sub by auto
    qed
    from Cons.IH [of ?sk ?so, OF inv _ _ Cons.prems(4)] obtain w' so' where
      2: "close_manual ms i ks ?wk = Done w'" "hs_inv (?sk\<lparr>World := w'\<rparr>)" "links_ok w'"
        "closed_slots (tracked so ks) ?wk w'" "SrvTbl w' = (SrvTbl ?wk)[i := Some so']" "same_service ?so so'"
      using links_ok_setSrv [OF w1(3)] Cons.prems(3) w1(7) so ok tracked_clear [OF ok(3)] cl by auto
    have "closed_slots (insert j (tracked so ks)) ?w w'"
      by (rule closed_slots_step [OF 2(4)]) (use w1 len j(1) in \<open>auto simp: tracked_def\<close>)
    moreover have "close_manual ms i (k # ks) ?w = Done w'"
      using False Cons.prems(5) j w1(1) 2(1) by (simp add: derefSrv_def)
    moreover have "SrvTbl w' = (SrvTbl ?w)[i := Some so']"
      using 2(5) w1(7) by (simp add: setSrv_def)
    moreover have "same_service so so'" using 2(6) by (simp add: same_service_def)
    ultimately show ?thesis using 2(2,3) tr by auto
  qed
qed


section \<open>Going offline\<close>

lemma services_ok_cong:
  "SrvTbl w' = SrvTbl w \<Longrightarrow> ServiceCount w' = ServiceCount w \<Longrightarrow> services_ok w' = services_ok w"
  unfolding services_ok_def by simp

lemma used_le: "used tbl \<le> length tbl"
  by (simp add: used_def)

lemma freeSrvObj_keeps:
  assumes "services_ok w" "i < 32" "SrvTbl w ! i = Some s"
  shows "freeSrvObj i w = Done (w\<lparr>SrvTbl := (SrvTbl w)[i := None], ServiceCount := ServiceCount w - 1\<rparr>)"
    "services_ok (w\<lparr>SrvTbl := (SrvTbl w)[i := None], ServiceCount := ServiceCount w - 1\<rparr>)"
proof -
  have len: "length (SrvTbl w) = 32" and c: "ServiceCount w = of_nat (used (SrvTbl w))"
    using assms(1) by (simp_all add: services_ok_def)
  have u: "Suc (used ((SrvTbl w)[i := None])) = used (SrvTbl w)"
    using used_update(2) [of i "SrvTbl w" s] assms len by simp
  have "used (SrvTbl w) \<le> 32" using used_le [of "SrvTbl w"] len by simp
  then have "unat (ServiceCount w) = used (SrvTbl w)" using c by (simp add: unat_of_nat)
  then have "ServiceCount w > 0" using u by (simp add: word_less_nat_alt)
  then show "freeSrvObj i w = Done (w\<lparr>SrvTbl := (SrvTbl w)[i := None], ServiceCount := ServiceCount w - 1\<rparr>)"
    using assms by (simp add: freeSrvObj_def MAX_IOC_SRV_OBJ_NUM_def)
  have s: "SrvTbl w ! j = Some t \<and> j \<noteq> i" if "(SrvTbl w)[i := None] ! j = Some t" for j t
    using that len assms(2) by (cases "j = i") auto
  have "ServiceCount w - 1 = of_nat (used ((SrvTbl w)[i := None]))" using c by (simp flip: u)
  then show "services_ok (w\<lparr>SrvTbl := (SrvTbl w)[i := None], ServiceCount := ServiceCount w - 1\<rparr>)"
    unfolding services_ok_def
  proof (intro conjI allI impI)
    fix j t assume "j < 32" "SrvTbl (w\<lparr>SrvTbl := (SrvTbl w)[i := None], ServiceCount := ServiceCount w - 1\<rparr>) ! j = Some t"
    then show "SrvID t = of_nat j" using s [of j t] assms(1) unfolding services_ok_def by fastforce
  next
    fix j k t u assume *: "j < 32" "k < 32"
      "SrvTbl (w\<lparr>SrvTbl := (SrvTbl w)[i := None], ServiceCount := ServiceCount w - 1\<rparr>) ! j = Some t \<and>
       SrvTbl (w\<lparr>SrvTbl := (SrvTbl w)[i := None], ServiceCount := ServiceCount w - 1\<rparr>) ! k = Some u \<and> SrvURI t = SrvURI u"
    then have "SrvTbl w ! j = Some t" "SrvTbl w ! k = Some u" using s by auto
    then show "j = k" using * assms(1) unfolding services_ok_def by blast
  qed (use len in simp_all)
qed

lemma services_ok_same:
  assumes "services_ok w" "i < 32" "SrvTbl w ! i = Some so" "SrvTbl w' = (SrvTbl w)[i := Some so']"
    "same_service so so'" "ServiceCount w' = ServiceCount w"
  shows "services_ok w'"
proof -
  have len: "length (SrvTbl w) = 32" using assms(1) by (simp add: services_ok_def)
  have get: "\<exists>x. SrvTbl w ! j = Some x \<and> SrvID t = SrvID x \<and> SrvURI t = SrvURI x" if "j < 32" "SrvTbl w' ! j = Some t" for j t
    using that assms(2-5) len by (cases "j = i") (auto simp: same_service_def)
  have "used (SrvTbl w') = used (SrvTbl w)" using used_update(3) [of i "SrvTbl w" so so'] assms(2-4) len by simp
  moreover have "SrvID t = of_nat j" if "j < 32" "SrvTbl w' ! j = Some t" for j t
    using get [OF that] assms(1) that(1) by (auto simp: services_ok_def)
  moreover have "j = k" if "j < 32" "k < 32" "SrvTbl w' ! j = Some t" "SrvTbl w' ! k = Some u" "SrvURI t = SrvURI u" for j k t u
    using get [OF that(1,3)] get [OF that(2,4)] assms(1) that(1,2,5) unfolding services_ok_def by metis
  ultimately show ?thesis using assms(1,4,6) unfolding services_ok_def by auto
qed

section \<open>Properties\<close>

text \<open>C27: Closing a connected FIFO link removes exactly that link, whatever the state of all the others:
  the call succeeds, its identifier names nothing any more and all other identifiers name what they
  named, its object and its end are freed, and its peer, if it has one, is told that it has none.\<close>

theorem close_link_exact:
  assumes "hs_inv s" "links_ok (World s)" "i < 32" "getLinkObjByLinkID (LinkObjTblIdxToLinkID i) (World s) = Some a"
    "closable ms s a" "priv_end (World s) a = Some f" "FifoLinks (proto (World s)) f = Some l"
  shows "\<exists>w'. IOC_closeLink ms (LinkObjTblIdxToLinkID i) (World s) = Done (IOC_RESULT_SUCCESS, w') \<and>
    links_ok w' \<and> hs_inv (s\<lparr>World := w'\<rparr>) \<and> LinkHeap w' = (LinkHeap (World s))(a := None) \<and>
    (\<forall>j<32. getLinkObjByLinkID (LinkObjTblIdxToLinkID j) w' =
       (if j = i then None else getLinkObjByLinkID (LinkObjTblIdxToLinkID j) (World s))) \<and>
    FifoLinks (proto w') f = None \<and>
    (\<forall>g k. g \<noteq> f \<and> FifoLinks (proto (World s)) g = Some k \<longrightarrow>
       FifoLinks (proto w') g = Some (if pPeer l = Some g then k\<lparr>pPeer := None\<rparr> else k))"
proof -
  have t: "LinkTbl (World s) ! i = Some a" "length (LinkTbl (World s)) = 32"
    using assms(2-4) by (simp_all add: links_ok_def)
  from closeLink_step [OF assms(1,2,3) t(1) assms(5)] obtain w' lk f' l' where
    w': "IOC_closeLink ms (LinkObjTblIdxToLinkID i) (World s) = Done (IOC_RESULT_SUCCESS, w')" "links_ok w'"
      "hs_inv (s\<lparr>World := w'\<rparr>)" "LinkTbl w' = (LinkTbl (World s))[i := None]"
      "LinkHeap w' = (LinkHeap (World s))(a := None)" "LinkHeap (World s) a = Some lk" "pProtoPriv lk = Some f'"
      "FifoLinks (proto (World s)) f' = Some l'"
      "FifoLinks (proto w') = close_end f' l' (FifoLinks (proto (World s)))" by metis
  have "f' = f" "l' = l" using w'(6-8) assms(6,7) by (auto simp: priv_end_def)
  then show ?thesis using w' t assms(3) close_end_other [of _ f "FifoLinks (proto (World s))"] by auto
qed

text \<open>C28: Taking a service offline, which accepts by hand and does not keep its links, succeeds, frees
  the service and closes every link identifier it tracks; all other links stay.  What a tracked
  identifier names is whatever has its table slot now: a link that was closed before and whose slot
  was reused by another service is closed all the same.\<close>

theorem offline_closes_tracked:
  assumes inv: "hs_inv s" "links_ok (World s)" "services_ok (World s)"
    and so: "i < 32" "getSrvObjBySrvID (of_nat i) (World s) = Some so"
    and flags: "Flags so AND IOC_SRVFLAG_BROADCAST_EVENT = 0" "Flags so AND IOC_SRVFLAG_AUTO_ACCEPT = 0"
      "Flags so AND IOC_SRVFLAG_KEEP_ACCEPTED_LINK = 0"
    and m: "SrvMethods so = Some m" "ms ! m = gIOC_SrvProtoFifoMethods env" "SrvProtoPriv so = Some fs"
      "FifoSrvs (proto (World s)) fs = Some fso"
    and links: "manual_ok so [0..<32]"
      "\<forall>j\<in>tracked so [0..<32]. \<forall>a. LinkTbl (World s) ! j = Some a \<longrightarrow> closable ms s a"
  shows "\<exists>w'. IOC_offlineService ms (of_nat i) (World s) = Done (IOC_RESULT_SUCCESS, w') \<and> links_ok w' \<and>
    services_ok w' \<and> getSrvObjBySrvID (of_nat i) w' = None \<and> FifoSrvs (proto w') fs = None \<and>
    (\<forall>j<32. getLinkObjByLinkID (LinkObjTblIdxToLinkID j) w' =
       (if j \<in> tracked so [0..<32] then None else getLinkObjByLinkID (LinkObjTblIdxToLinkID j) (World s)))"
proof -
  let ?w = "World s"
  have len: "length (SrvTbl ?w) = 32" using inv(3) by (simp add: services_ok_def)
  have ui: "unat (of_nat i :: ULONG) = i" "(of_nat i :: ULONG) < 32"
    using so(1) by (simp_all add: unat_of_nat word_less_nat_alt)
  have s: "SrvTbl ?w ! i = Some so" using so ui by (simp add: getSrvObjBySrvID_def MAX_IOC_SRV_OBJ_NUM_def)
  obtain w1 so1 where 1: "close_manual ms i [0..<32] ?w = Done w1" "links_ok w1"
    "closed_slots (tracked so [0..<32]) ?w w1" "SrvTbl w1 = (SrvTbl ?w)[i := Some so1]" "same_service so so1"
    using close_manual_closes [OF inv(1,2) len so(1) s distinct_upt links] by blast
  have s1: "SrvTbl w1 ! i = Some so1" using 1(4) so(1) len by simp
  have "FifoSrvs (proto w1) fs = Some fso" "SrvProtoPriv so1 = Some fs"
    using 1(3,5) m by (simp_all add: closed_slots_def same_service_def)
  then obtain w2 where 2: "offlineService_ofProtoFifo i w1 = Done (IOC_RESULT_SUCCESS, w2)"
      "FifoSrvs (proto w2) fs = None"
    using s1 by (simp add: offlineService_ofProtoFifo_def derefSrv_def fsderef_def Let_def)
  obtain p where p: "w2 = w1\<lparr>proto := p\<rparr>" using fifo_protocol.offline_own [OF 2(1)] by blast
  have ok: "services_ok w2" "links_ok w2" "SrvTbl w2 ! i = Some so1"
  proof -
    have "ServiceCount w1 = ServiceCount ?w" using 1(3) by (simp add: closed_slots_def)
    from services_ok_same [OF inv(3) so(1) s 1(4,5) this] show "services_ok w2"
      using services_ok_cong [of w2 w1] by (simp add: p)
    show "links_ok w2" unfolding p by (rule links_ok_proto [OF 1(2)])
    show "SrvTbl w2 ! i = Some so1" using s1 by (simp add: p)
  qed
  note f = freeSrvObj_keeps [OF ok(1) so(1) ok(3)]
  let ?w3 = "w2\<lparr>SrvTbl := (SrvTbl w2)[i := None], ServiceCount := ServiceCount w2 - 1\<rparr>"
  have "IOC_offlineService ms (of_nat i) ?w = Done (IOC_RESULT_SUCCESS, ?w3)"
    using so(2) m flags 1(1) 2(1) f(1) ui by (simp add: IOC_offlineService_def Let_def)
  moreover have "links_ok ?w3" using ok(2) by (simp add: links_ok_def)
  moreover have "getSrvObjBySrvID (of_nat i) ?w3 = None"
    using ui ok(1) so(1) by (simp add: getSrvObjBySrvID_def MAX_IOC_SRV_OBJ_NUM_def services_ok_def)
  moreover have "LinkTbl ?w3 ! j = (if j \<in> tracked so [0..<32] then None else LinkTbl ?w ! j)" if "j < 32" for j
    using 1(3) that by (simp add: p closed_slots_def)
  ultimately show ?thesis using f(2) 2(2) by auto
qed


section \<open>Failing to connect\<close>

fun connects :: "'p SrvProtoMethods list \<Rightarrow> IOC_ConnArgs_T \<Rightarrow> IOC_Options_T option \<Rightarrow> nat \<Rightarrow> 'p ioc_world \<Rightarrow>
  (IOC_Result_T list \<times> 'p ioc_world) outcome" where
  "connects ms args opt 0 w = Done ([], w)"
| "connects ms args opt (Suc n) w = bindO (IOC_connectService ms True True True (Some args) opt w) (\<lambda>(r, _, w1).
     bindO (connects ms args opt n w1) (\<lambda>(rs, w2). Done (r # rs, w2)))"

lemma lookup_cong:
  "SrvTbl w' = SrvTbl w \<Longrightarrow> FifoSrvs (proto w') = FifoSrvs (proto w) \<Longrightarrow>
   getSrvProtoObjBySrvURI uri w' slots = getSrvProtoObjBySrvURI uri w slots"
  by (induction uri w slots rule: getSrvProtoObjBySrvURI.induct)
    (simp_all add: fsderef_def derefSrv_def split: option.split)

text \<open>The room of the table: its length, no lock left behind, no address used beyond the next one.\<close>

definition table_fit :: "'p ioc_world \<Rightarrow> bool" where
  "table_fit w \<longleftrightarrow> length (LinkTbl w) = 32 \<and> \<not> LinkTblLocked w \<and> FailNextAllocCount w \<le> 0 \<and>
     (\<forall>a\<ge>next_addr w. LinkHeap w a = None)"

lemma links_ok_fit: "links_ok w \<Longrightarrow> FailNextAllocCount w \<le> 0 \<Longrightarrow> table_fit w"
  unfolding links_ok_def table_fit_def by (metis leD not_None_eq)

lemma failed_connect:
  assumes "table_fit w" "ms ! 0 = gIOC_SrvProtoFifoMethods env" "ms \<noteq> []" "pProtocol (ConnSrvURI args) = ''fifo''"
    and none: "getSrvProtoObjBySrvURI (ConnSrvURI args) w (OnlinedSrvFifo (proto w)) = Done None"
    and i: "first_index (\<lambda>slot. slot = None) (LinkTbl w) = Some i"
  shows "IOC_connectService ms True True True (Some args) opt w = Done (IOC_RESULT_NOT_EXIST_SERVICE, None,
    w\<lparr>LinkTbl := (LinkTbl w)[i := Some (next_addr w)], next_addr := next_addr w + 1, LinkCount := LinkCount w + 1\<rparr>)"
proof -
  have a: "LinkHeap w (next_addr w) = None" using assms(1) by (simp add: table_fit_def)
  have alloc: "allocLinkObj True True w = Done (Some (next_addr w), w\<lparr>LinkTbl := (LinkTbl w)[i := Some (next_addr w)],
      LinkHeap := (LinkHeap w)(next_addr w := Some (new_link i)), next_addr := next_addr w + 1,
      LinkCount := LinkCount w + 1\<rparr>)" (is "_ = Done (_, ?v)")
    using assms(1) i by (simp add: allocLinkObj_def table_fit_def test_calloc_def Let_def)
  have m: "proto_index ''fifo'' ms = Some 0"
    using assms(2,3) by (cases ms) (simp_all add: proto_index_def)
  let ?u = "setLink (next_addr w) (\<lambda>l. l\<lparr>LinkSrvURI := ConnSrvURI args, Usage := ConnUsage args,
      UsageArgs := ConnUsageArgs args, ConnState := IOC_LinkConnStateConnecting\<rparr>) ?v"
  have "getSrvProtoObjBySrvURI (ConnSrvURI args) ?u (OnlinedSrvFifo (proto w)) = Done None"
    using lookup_cong [of ?u w] none by simp
  then have "connectServiceByProto ms (next_addr w) args opt ?v = Done (IOC_RESULT_NOT_EXIST_SERVICE, ?u)"
    using m assms(2,4) by (simp add: connectServiceByProto_def deref_def connectService_ofProtoFifo_def
        connect_begin_def Let_def)
  moreover have "free_only (next_addr w) ?u = w\<lparr>LinkTbl := (LinkTbl w)[i := Some (next_addr w)],
      next_addr := next_addr w + 1, LinkCount := LinkCount w + 1\<rparr>"
  proof -
    have "(LinkHeap ?u)(next_addr w := None) = LinkHeap w" using a by (auto simp: fun_eq_iff)
    then show ?thesis by (simp add: free_only_def setLink_def)
  qed
  ultimately show ?thesis using alloc by (simp add: IOC_connectService_def)
qed

text \<open>C29: A connect that finds no service leaves its slot of the link table occupied by the address of
  the object it has freed, and the link counter too high: of any number of such connects, as many
  report that the service does not exist as there were free slots, and all others, although no link
  has been made, that memory is exhausted.\<close>

theorem connect_failures_fill_table:
  assumes "links_ok w" "FailNextAllocCount w \<le> 0"
    and ms: "ms ! 0 = gIOC_SrvProtoFifoMethods env" "ms \<noteq> []" "pProtocol (ConnSrvURI args) = ''fifo''"
    and none: "getSrvProtoObjBySrvURI (ConnSrvURI args) w (OnlinedSrvFifo (proto w)) = Done None"
  defines "room \<equiv> 32 - used (LinkTbl w)"
  shows "\<exists>w'. connects ms args opt n w = Done (replicate (min n room) IOC_RESULT_NOT_EXIST_SERVICE @
      replicate (n - room) IOC_RESULT_POSIX_ENOMEM, w') \<and> LinkHeap w' = LinkHeap w \<and>
    used (LinkTbl w') = used (LinkTbl w) + min n room \<and> LinkCount w' = LinkCount w + of_nat (min n room)"
proof -
  have "table_fit w" by (rule links_ok_fit [OF assms(1,2)])
  then show ?thesis using none unfolding room_def
  proof (induction n arbitrary: w)
    case 0
    then show ?case by simp
  next
    case (Suc n)
    have len: "length (LinkTbl w) = 32" using Suc.prems(1) by (simp add: table_fit_def)
    show ?case
    proof (cases "first_index (\<lambda>slot. slot = None) (LinkTbl w)")
      case None
      then have full: "used (LinkTbl w) = 32" using first_free [of "LinkTbl w"] len by simp
      have "allocLinkObj True True w = Done (None, w)"
        using None Suc.prems(1) by (simp add: allocLinkObj_def table_fit_def del: first_index_None)
      then have "IOC_connectService ms True True True (Some args) opt w = Done (IOC_RESULT_POSIX_ENOMEM, None, w)"
        by (simp add: IOC_connectService_def)
      then show ?thesis using Suc.IH [OF Suc.prems] full by auto
    next
      case (Some i)
      let ?w1 = "w\<lparr>LinkTbl := (LinkTbl w)[i := Some (next_addr w)], next_addr := next_addr w + 1,
        LinkCount := LinkCount w + 1\<rparr>"
      have il: "i < 32" "LinkTbl w ! i = None" using first_indexD [OF Some] len by auto
      have u: "used (LinkTbl ?w1) = Suc (used (LinkTbl w))" using used_update(1) [of i "LinkTbl w"] il len by simp
      have u1: "Suc (used (LinkTbl w)) \<le> 32" using u used_le [of "LinkTbl ?w1"] len by simp
      have fit: "table_fit ?w1" using Suc.prems(1) by (simp add: table_fit_def)
      have none1: "getSrvProtoObjBySrvURI (ConnSrvURI args) ?w1 (OnlinedSrvFifo (proto ?w1)) = Done None"
        using lookup_cong [of ?w1 w] Suc.prems(2) by simp
      from Suc.IH [OF fit none1] obtain w' where
        w': "connects ms args opt n ?w1 = Done (replicate (min n (32 - used (LinkTbl ?w1))) IOC_RESULT_NOT_EXIST_SERVICE @
            replicate (n - (32 - used (LinkTbl ?w1))) IOC_RESULT_POSIX_ENOMEM, w')" "LinkHeap w' = LinkHeap ?w1"
          "used (LinkTbl w') = used (LinkTbl ?w1) + min n (32 - used (LinkTbl ?w1))"
          "LinkCount w' = LinkCount ?w1 + of_nat (min n (32 - used (LinkTbl ?w1)))" by blast
      have k: "32 - used (LinkTbl w) = Suc (32 - used (LinkTbl ?w1))" using u u1 by simp
      have "connects ms args opt (Suc n) w = Done (IOC_RESULT_NOT_EXIST_SERVICE #
          replicate (min n (32 - used (LinkTbl ?w1))) IOC_RESULT_NOT_EXIST_SERVICE @
          replicate (n - (32 - used (LinkTbl ?w1))) IOC_RESULT_POSIX_ENOMEM, w')"
        using failed_connect [OF Suc.prems(1) ms Suc.prems(2) Some, of opt] w'(1) by simp
      moreover have "LinkCount w' = LinkCount w + of_nat (Suc (min n (32 - used (LinkTbl ?w1))))"
        using w'(4) by simp
      ultimately show ?thesis using w'(2,3) u k by simp
    qed
  qed
qed


section \<open>Accepting through the service layer\<close>

lemma setupDatReceiver_frame: "setupDatReceiver link srv w = Done (r, w') \<Longrightarrow> \<exists>p. w' = w\<lparr>proto := p\<rparr>"
  by (auto simp: setupDatReceiver_def outcome_simps Let_def split: option.splits if_splits
      intro!: fifo_frame frame_refl)

lemma setupClientReceiver_frame: "setupClientReceiver f d w = Done w' \<Longrightarrow> \<exists>p. w' = w\<lparr>proto := p\<rparr>"
  by (auto simp: setupClientReceiver_def outcome_simps intro!: fifo_frame frame_refl)

lemma setLink_proto: "setLink a g (w\<lparr>proto := p\<rparr>) = (setLink a g w)\<lparr>proto := p\<rparr>"
  by (simp add: setLink_def)

lemma setFifoSrv_frame: "(\<exists>p. x = w\<lparr>proto := p\<rparr>) \<Longrightarrow> \<exists>p. setFifoSrv f g x = w\<lparr>proto := p\<rparr>"
  by (auto simp: setFifoSrv_def)

lemma accept_try_frame:
  assumes "accept_try srv link f w = Done (Accepted, w')"
  shows "\<exists>role p. w' = (setLink link (\<lambda>l. l\<lparr>Usage := role\<rparr>) w)\<lparr>proto := p\<rparr>"
proof -
  obtain s fs fso client cl cf cfl l r w5 where
    *: "SrvTbl w ! srv = Some s" "SrvProtoPriv s = Some fs" "FifoSrvs (proto w) fs = Some fso"
      "pConnLinkObj fso = Some client" "LinkHeap w client = Some cl"
      "negotiateLinkRole (UsageCapabilites s) (Usage cl) \<noteq> 0" "pProtoPriv cl = Some cf"
      "FifoLinks (proto w) cf = Some cfl" "FifoLinks (proto w) f = Some l"
    and 5: "setupDatReceiver link srv (setLink link (\<lambda>l. l\<lparr>Usage := negotiateLinkRole (UsageCapabilites s) (Usage cl)\<rparr>)
        (setFifo cf (\<lambda>l. l\<lparr>pPeer := Some f\<rparr>) (setFifo f (\<lambda>l. l\<lparr>pPeer := Some cf\<rparr>)
          (setFifoSrv fs (\<lambda>x. x\<lparr>pConnLinkObj := None\<rparr>) w)))) = Done (r, w5)"
    and 6: "(case UsageArgs cl of
         Some u \<Rightarrow> if has_usage (Usage cl) IOC_LinkUsageDatReceiver
           then setupClientReceiver cf (as_pDat u) w5 else Done w5
       | None \<Rightarrow> Done w5) = Done w'"
    using assms by (auto simp: accept_try_def outcome_simps Let_def usage_defs(1) split: option.splits if_splits)
  obtain p where p: "setFifo cf (\<lambda>l. l\<lparr>pPeer := Some f\<rparr>) (setFifo f (\<lambda>l. l\<lparr>pPeer := Some cf\<rparr>)
          (setFifoSrv fs (\<lambda>x. x\<lparr>pConnLinkObj := None\<rparr>) w)) = w\<lparr>proto := p\<rparr>"
    using fifo_frame(3) [OF fifo_frame(3) [OF setFifoSrv_frame [OF frame_refl]]] by blast
  obtain p5 where p5: "w5 = (setLink link (\<lambda>l. l\<lparr>Usage := negotiateLinkRole (UsageCapabilites s) (Usage cl)\<rparr>) w)\<lparr>proto := p5\<rparr>"
    using setupDatReceiver_frame [OF 5] unfolding p setLink_proto by auto
  have "w' = w5 \<or> (\<exists>d. setupClientReceiver cf d w5 = Done w')" using 6 by (auto split: option.splits if_splits)
  then have "\<exists>p. w' = w5\<lparr>proto := p\<rparr>" using setupClientReceiver_frame frame_refl [of w5] by blast
  then show ?thesis unfolding p5 by auto
qed

lemma accept_begin_frame:
  assumes "accept_begin m link w = Done (f, w')"
  shows "\<exists>p. w' = (setLink link (\<lambda>l. l\<lparr>pProtoPriv := Some f\<rparr>) w)\<lparr>proto := p\<rparr>"
  using assms by (auto simp: accept_begin_def outcome_simps add_fifo_link_def Let_def setLink_proto)

lemma connect_begin_frame:
  assumes "connect_begin m link args w = Done (Inr (fs, f, w'))"
  shows "\<exists>p. w' = (setLink link (\<lambda>l. l\<lparr>pProtoPriv := Some f\<rparr>) w)\<lparr>proto := p\<rparr>"
  using assms by (auto simp: connect_begin_def outcome_simps add_fifo_link_def setFifoSrv_def Let_def setLink_proto
      split: option.splits if_splits)

text \<open>A client shown to the service is accepted.\<close>

lemma accept_protocol:
  assumes srv: "SrvTbl w ! srv = Some s" "SrvProtoPriv s = Some fs" "FifoSrvs (proto w) fs = Some fso"
      "pConnLinkObj fso = Some client"
    and cl: "LinkHeap w client = Some cl" "pProtoPriv cl = Some cf" "FifoLinks (proto w) cf = Some cfl" "\<not> MutexHeld cfl"
      "cf \<noteq> next_fifo (proto w)" "client \<noteq> link"
    and link: "LinkHeap w link = Some lk" and mem: "mem_ok m"
    and role: "negotiateLinkRole (UsageCapabilites s) (Usage cl) \<noteq> 0"
  shows "\<exists>w' l' cfl'. acceptClient_ofProtoFifo m st turns srv link opt w = Done (IOC_RESULT_SUCCESS, w') \<and>
    LinkHeap w' = (LinkHeap w)(link := Some (lk\<lparr>pProtoPriv := Some (next_fifo (proto w)),
      Usage := negotiateLinkRole (UsageCapabilites s) (Usage cl)\<rparr>)) \<and>
    pPeer l' = Some cf \<and> \<not> MutexHeld l' \<and> pPeer cfl' = Some (next_fifo (proto w)) \<and> \<not> MutexHeld cfl' \<and>
    FifoLinks (proto w') = (FifoLinks (proto w))(next_fifo (proto w) := Some l', cf := Some cfl') \<and>
    FifoSrvs (proto w') = (FifoSrvs (proto w))(fs := Some (fso\<lparr>pConnLinkObj := None\<rparr>)) \<and>
    (\<exists>g p. w' = (setLink link g w)\<lparr>proto := p\<rparr>)"
proof -
  let ?n = "next_fifo (proto w)"
  obtain l2 where nl: "new_fifo_link m link = Done l2" using new_fifo_link_ok [OF mem] by blast
  define w2 where "w2 = setLink link (\<lambda>l. l\<lparr>pProtoPriv := Some ?n\<rparr>) (snd (add_fifo_link l2 w))"
  have ab: "accept_begin m link w = Done (?n, w2)"
    using nl by (simp add: accept_begin_def w2_def case_prod_beta Let_def)
  have l2: "pPeer l2 = None" "\<not> MutexHeld l2" using new_fifo_link_effect [OF nl] by simp_all
  have tbl: "SrvTbl w2 = SrvTbl w" "FifoSrvs (proto w2) = FifoSrvs (proto w)"
      "FifoLinks (proto w2) = (FifoLinks (proto w))(?n := Some l2)"
      "LinkHeap w2 = (LinkHeap w)(link := Some (lk\<lparr>pProtoPriv := Some ?n\<rparr>))"
    using link by (simp_all add: w2_def)
  obtain w3 where look: "accept_try srv link ?n w2 = Done (Accepted, w3)"
    using accept_try_returns [of w2 srv s fs fso client cl cf cfl link "lk\<lparr>pProtoPriv := Some ?n\<rparr>" ?n l2]
      srv cl tbl l2 role by auto
  have acc: "acceptClient_ofProtoFifo m st turns srv link opt w = Done (IOC_RESULT_SUCCESS, w3)"
    using ab accept_loop_accepted [OF look] by (simp add: acceptClient_split)
  have lk: "LinkHeap w2 link = Some (lk\<lparr>pProtoPriv := Some ?n\<rparr>)" using tbl by simp
  have apart: "\<forall>fs' fso' client' cl'. FifoSrvs (proto w2) fs' = Some fso' \<longrightarrow> pConnLinkObj fso' = Some client' \<longrightarrow>
      LinkHeap w2 client' = Some cl' \<longrightarrow> SrvTbl w2 ! srv \<noteq> None \<longrightarrow> SrvProtoPriv (the (SrvTbl w2 ! srv)) = Some fs' \<longrightarrow>
      pProtoPriv cl' \<noteq> Some ?n \<and> client' \<noteq> link"
    using srv tbl cl by auto
  from accept_try_Accepted [OF look lk _ apart] obtain l' cfl' where
    3: "same_ends (l2\<lparr>pPeer := Some cf\<rparr>) l'" "same_ends (cfl\<lparr>pPeer := Some ?n\<rparr>) cfl'"
       "FifoLinks (proto w3) = (FifoLinks (proto w2))(?n := Some l', cf := Some cfl')"
       "LinkHeap w3 = (LinkHeap w2)(link := Some (lk\<lparr>pProtoPriv := Some ?n,
          Usage := negotiateLinkRole (UsageCapabilites s) (Usage cl)\<rparr>))"
       "FifoSrvs (proto w3) = (FifoSrvs (proto w2))(fs := Some (fso\<lparr>pConnLinkObj := None\<rparr>))"
    using srv tbl cl by auto
  have "\<exists>g p. w3 = (setLink link g w)\<lparr>proto := p\<rparr>"
  proof -
    obtain p where p: "w2 = (setLink link (\<lambda>l. l\<lparr>pProtoPriv := Some ?n\<rparr>) w)\<lparr>proto := p\<rparr>"
      using accept_begin_frame [OF ab] by blast
    obtain ro q where "w3 = (setLink link (\<lambda>l. l\<lparr>Usage := ro\<rparr>) w2)\<lparr>proto := q\<rparr>" using accept_try_frame [OF look] by blast
    moreover have "setLink link f (setLink link g w) = setLink link (\<lambda>l. f (g l)) w" for f g
      by (simp add: setLink_def option.map_comp comp_def)
    ultimately show ?thesis unfolding p setLink_proto by auto
  qed
  then show ?thesis using acc 3 tbl l2 cl(4) by (auto simp: same_ends_def)
qed


lemma accept_service:
  assumes ok: "links_ok v" "FailNextAllocCount v \<le> 0" "first_index (\<lambda>slot. slot = None) (LinkTbl v) = Some k"
    and so: "i < 32" "length (SrvTbl v) = 32" "SrvTbl v ! i = Some so" "Flags so AND IOC_SRVFLAG_AUTO_ACCEPT = 0"
      "SrvMethods so = Some 0" "ms ! 0 = gIOC_SrvProtoFifoMethods env" "mem_ok (fe_mem env)"
    and quiet: "SrvEvt so = None"
    and srv: "SrvProtoPriv so = Some fs" "FifoSrvs (proto v) fs = Some fso" "pConnLinkObj fso = Some client"
    and cl: "LinkHeap v client = Some cl" "pProtoPriv cl = Some cf" "FifoLinks (proto v) cf = Some cfl" "\<not> MutexHeld cfl"
      "cf \<noteq> next_fifo (proto v)"
    and role: "negotiateLinkRole (UsageCapabilites so) (Usage cl) \<noteq> 0"
  shows "\<exists>v' lk l' cfl'. IOC_acceptClient ms True True True (of_nat i) opt v =
      Done (IOC_RESULT_SUCCESS, Some (LinkObjTblIdxToLinkID k), v') \<and>
    LinkTbl v' = (LinkTbl v)[k := Some (next_addr v)] \<and> LinkHeap v' = (LinkHeap v)(next_addr v := Some lk) \<and>
    ID lk = LinkObjTblIdxToLinkID k \<and> ConnState lk = IOC_LinkConnStateDisconnected \<and>
    Usage lk = negotiateLinkRole (UsageCapabilites so) (Usage cl) \<and> pProtoPriv lk = Some (next_fifo (proto v)) \<and>
    pPeer l' = Some cf \<and> \<not> MutexHeld l' \<and> pPeer cfl' = Some (next_fifo (proto v)) \<and> \<not> MutexHeld cfl' \<and>
    FifoLinks (proto v') = (FifoLinks (proto v))(next_fifo (proto v) := Some l', cf := Some cfl') \<and>
    FifoSrvs (proto v') = (FifoSrvs (proto v))(fs := Some (fso\<lparr>pConnLinkObj := None\<rparr>)) \<and>
    SrvTbl v' = (SrvTbl v)[i := Some (track_manual (LinkObjTblIdxToLinkID k) so)]"
proof -
  let ?a = "next_addr v" and ?id = "LinkObjTblIdxToLinkID k"
  let ?v2 = "setLink ?a (server_link so) (with_new_link k v)"
  let ?lk = "(server_link so (new_link k))\<lparr>pProtoPriv := Some (next_fifo (proto v)),
        Usage := negotiateLinkRole (UsageCapabilites so) (Usage cl)\<rparr>"
  note al = alloc_new_link [OF ok]
  have ca: "client \<noteq> ?a" using al(5) cl(1) by auto
  obtain v3 l' cfl' g p where
    3: "acceptClient_ofProtoFifo (fe_mem env) (fe_start env) (fe_accept env) i ?a opt ?v2 = Done (IOC_RESULT_SUCCESS, v3)"
      "LinkHeap v3 = (LinkHeap ?v2)(?a := Some ?lk)"
      "pPeer l' = Some cf" "\<not> MutexHeld l'" "pPeer cfl' = Some (next_fifo (proto v))" "\<not> MutexHeld cfl'"
      "FifoLinks (proto v3) = (FifoLinks (proto v))(next_fifo (proto v) := Some l', cf := Some cfl')"
      "FifoSrvs (proto v3) = (FifoSrvs (proto v))(fs := Some (fso\<lparr>pConnLinkObj := None\<rparr>))"
      "v3 = (setLink ?a g ?v2)\<lparr>proto := p\<rparr>"
    using accept_protocol [of ?v2 i so fs fso client cl cf cfl ?a "server_link so (new_link k)" "fe_mem env" "fe_start env" "fe_accept env" opt]
      so srv cl ca role by auto
  have op: "OpAcceptClient (ms ! 0) = acceptClient_ofProtoFifo (fe_mem env) (fe_start env) (fe_accept env)"
    using so(6) by (simp add: gIOC_SrvProtoFifoMethods_def)
  have t3: "SrvTbl v3 = SrvTbl v" "LinkTbl v3 = (LinkTbl v)[k := Some ?a]" by (simp_all add: 3(9) setLink_def)
  have h3: "LinkHeap v3 = (LinkHeap v)(?a := Some ?lk)" using 3(2) by (simp add: fun_eq_iff)
  have "IOC_acceptClient ms True True True (of_nat i) opt v = Done (IOC_RESULT_SUCCESS, Some (ID ?lk), setSrv i (track_manual (ID ?lk)) v3)"
    using accept_by_proto [OF ok so(1,3-5) quiet, of ms opt v3 ?lk] op 3(1) h3 t3(1) so(2) by simp
  moreover have "SrvTbl (setSrv i (track_manual ?id) v3) = (SrvTbl v)[i := Some (track_manual ?id so)]" using t3 so(3) by (simp add: setSrv_def)
  ultimately show ?thesis using t3 h3 3(3-8)
    by (intro exI [of _ "setSrv i (track_manual ?id) v3"] exI [of _ ?lk] exI [of _ l'] exI [of _ cfl']) simp
qed

section \<open>Connecting through the service layer\<close>

text \<open>A server thread that accepts by hand while the client waits, and does nothing else.\<close>

definition accept_turn ::
  "'x fifo_state_scheme SrvProtoMethods list \<Rightarrow> nat \<Rightarrow> IOC_Options_T option \<Rightarrow> 'x fifo_world \<Rightarrow> 'x fifo_world" where
  "accept_turn ms i opt w =
    (case IOC_acceptClient ms True True True (of_nat i) opt w of Done (_, _, w') \<Rightarrow> w' | _ \<Rightarrow> w)"

text \<open>A service that is online with the FIFO protocol, accepts by hand, has no client waiting, and
  subscribes to nothing by itself.\<close>

definition ready_service :: "nat \<Rightarrow> nat \<Rightarrow> ServiceObject_T \<Rightarrow> 'x fifo_world \<Rightarrow> bool" where
  "ready_service i fs so w \<longleftrightarrow> i < 32 \<and> length (SrvTbl w) = 32 \<and> SrvTbl w ! i = Some so \<and>
     Flags so AND IOC_SRVFLAG_AUTO_ACCEPT = 0 \<and> SrvMethods so = Some 0 \<and> SrvEvt so = None \<and> SrvProtoPriv so = Some fs \<and>
     (\<exists>fso. FifoSrvs (proto w) fs = Some fso \<and> pConnLinkObj fso = None \<and> \<not> ConnMutexHeld fso) \<and>
     getSrvProtoObjBySrvURI (SrvURI so) w (OnlinedSrvFifo (proto w)) = Done (Some fs)"

text \<open>What a client has done when it goes to wait.\<close>

lemma client_waits:
  assumes ok: "links_ok w" "FailNextAllocCount w \<le> 0" "first_index (\<lambda>slot. slot = None) (LinkTbl w) = Some c"
    and rs: "ready_service i fs so w" and args: "ConnSrvURI args = SrvURI so" "mem_ok m"
  defines "a \<equiv> next_addr w"
  defines "v \<equiv> setLink a (client_link args) (with_new_link c w)"
  shows "\<exists>w1 l fso. connect_begin m a args v = Done (Inr (fs, next_fifo (proto w), w1)) \<and> links_ok w1 \<and>
    FailNextAllocCount w1 = FailNextAllocCount w \<and> next_addr w1 = a + 1 \<and>
    LinkTbl w1 = (LinkTbl w)[c := Some a] \<and> SrvTbl w1 = SrvTbl w \<and> next_fifo (proto w1) = Suc (next_fifo (proto w)) \<and>
    LinkHeap w1 = (LinkHeap w)(a := Some ((client_link args (new_link c))\<lparr>pProtoPriv := Some (next_fifo (proto w))\<rparr>)) \<and>
    FifoLinks (proto w1) = (FifoLinks (proto w))(next_fifo (proto w) := Some l) \<and> pPeer l = None \<and> \<not> MutexHeld l \<and>
    FifoSrvs (proto w1) = (FifoSrvs (proto w))(fs := Some (fso\<lparr>ConnMutexHeld := True, pConnLinkObj := Some a\<rparr>))"
proof -
  note al = alloc_new_link [OF ok]
  have okv: "links_ok v" unfolding v_def by (rule links_ok_setLink) (use al(2) in \<open>simp_all add: a_def\<close>)
  obtain fso where fso: "FifoSrvs (proto w) fs = Some fso" "pConnLinkObj fso = None" "\<not> ConnMutexHeld fso"
    using rs by (auto simp: ready_service_def)
  have pv: "proto v = proto w" "SrvTbl v = SrvTbl w" "next_addr v = a + 1" "LinkTbl v = (LinkTbl w)[c := Some a]"
    "FailNextAllocCount v = FailNextAllocCount w" by (simp_all add: v_def a_def)
  let ?lk = "client_link args (new_link c)"
  have hv: "LinkHeap v = (LinkHeap w)(a := Some ?lk)" by (simp add: v_def a_def)
  have "getSrvProtoObjBySrvURI (ConnSrvURI args) v (OnlinedSrvFifo (proto v)) = Done (Some fs)"
    using rs lookup_cong [of v w] pv args by (simp add: ready_service_def)
  moreover obtain l0 where "new_fifo_link m a = Done l0" using new_fifo_link_ok [OF args(2)] by blast
  ultimately obtain w1 where b: "connect_begin m a args v = Done (Inr (fs, next_fifo (proto w), w1))"
    using fso hv pv by (auto simp: connect_begin_def deref_def fsderef_def Let_def case_prod_beta)
  from connect_begin_effect [OF b] obtain l where l: "pPeer l = None" "\<not> MutexHeld l"
    "FifoLinks (proto w1) = (FifoLinks (proto v))(next_fifo (proto w) := Some l)"
    "next_fifo (proto w1) = Suc (next_fifo (proto w))"
    "LinkHeap w1 = (LinkHeap v)(a := Some (?lk\<lparr>pProtoPriv := Some (next_fifo (proto w))\<rparr>))"
    "FifoSrvs (proto w1) = (FifoSrvs (proto v))(fs := Some (fso\<lparr>ConnMutexHeld := True, pConnLinkObj := Some a\<rparr>))"
    using hv pv fso by auto
  obtain p where p: "w1 = (setLink a (\<lambda>l. l\<lparr>pProtoPriv := Some (next_fifo (proto w))\<rparr>) v)\<lparr>proto := p\<rparr>"
    using connect_begin_frame [OF b] by blast
  have "links_ok w1" unfolding p by (rule links_ok_proto [OF links_ok_setLink [OF okv]]) simp
  moreover have "FailNextAllocCount w1 = FailNextAllocCount w" "next_addr w1 = a + 1"
    "LinkTbl w1 = (LinkTbl w)[c := Some a]" "SrvTbl w1 = SrvTbl w"
    using pv by (simp_all add: p)
  moreover have "LinkHeap w1 = (LinkHeap w)(a := Some (?lk\<lparr>pProtoPriv := Some (next_fifo (proto w))\<rparr>))"
    using l(5) hv by (simp add: fun_eq_iff)
  ultimately show ?thesis using b l pv by auto
qed


lemma getLinkConnState_slot:
  "i < 32 \<Longrightarrow> LinkTbl w ! i = Some a \<Longrightarrow> LinkHeap w a = Some lk \<Longrightarrow>
   IOC_getLinkConnState (LinkObjTblIdxToLinkID i) True w = Done (IOC_RESULT_SUCCESS, Some (ConnState lk))"
  by (simp add: IOC_getLinkConnState_def with_link_def deref_def)

lemma second_free:
  assumes "length tbl = 32" "used tbl \<le> 30" "first_index (\<lambda>slot. slot = None) tbl = Some c"
  shows "\<exists>k. first_index (\<lambda>slot. slot = None) (tbl[c := Some a]) = Some k \<and> k < 32 \<and> k \<noteq> c"
proof -
  have c: "c < 32" "tbl ! c = None" using first_indexD [OF assms(3)] assms(1) by auto
  then have "used (tbl[c := Some a]) = Suc (used tbl)" using used_update(1) [of c tbl] assms(1) by simp
  then obtain k where k: "first_index (\<lambda>slot. slot = None) (tbl[c := Some a]) = Some k"
    using first_free [of "tbl[c := Some a]"] assms(1,2) by (cases "first_index (\<lambda>slot. slot = None) (tbl[c := Some a])") auto
  then have "k < 32" "(tbl[c := Some a]) ! k = None" using first_indexD [OF k] assms(1) by auto
  then show ?thesis using k c(1) assms(1) by (intro exI [of _ k]) auto
qed

text \<open>The client's side: while it waits, the accepting thread finds it.\<close>

lemma connect_service_fifo:
  assumes ok: "links_ok w" "FailNextAllocCount w \<le> 0" "first_index (\<lambda>slot. slot = None) (LinkTbl w) = Some c"
      "first_index (\<lambda>slot. slot = None) ((LinkTbl w)[c := Some (next_addr w)]) = Some k"
    and rs: "ready_service i fs so w" and args: "ConnSrvURI args = SrvURI so"
      "negotiateLinkRole (UsageCapabilites so) (ConnUsage args) \<noteq> 0"
    and ms: "mem_ok m" "ms' ! 0 = gIOC_SrvProtoFifoMethods env'" "mem_ok (fe_mem env')"
  defines "a \<equiv> next_addr w" and "f \<equiv> next_fifo (proto w)"
  obtains w1 w2 w' lk lf lp where
    "IOC_acceptClient ms' True True True (of_nat i) opt' w1 = Done (IOC_RESULT_SUCCESS, Some (LinkObjTblIdxToLinkID k), w2)"
    "\<forall>turn. turn w1 = w2 \<longrightarrow> connectService_ofProtoFifo m (Some turn) a args (setLink a (client_link args) (with_new_link c w)) =
      Done (IOC_RESULT_SUCCESS, w')"
    "LinkTbl w' = (LinkTbl w)[c := Some a, k := Some (Suc a)]"
    "SrvTbl w' = (SrvTbl w)[i := Some (track_manual (LinkObjTblIdxToLinkID k) so)]"
    "LinkHeap w' a = Some ((client_link args (new_link c))\<lparr>pProtoPriv := Some f\<rparr>)" "LinkHeap w' (Suc a) = Some lk"
    "ConnState lk = IOC_LinkConnStateDisconnected" "Usage lk = negotiateLinkRole (UsageCapabilites so) (ConnUsage args)"
    "pProtoPriv lk = Some (Suc f)" "FifoLinks (proto w') f = Some lf" "FifoLinks (proto w') (Suc f) = Some lp"
    "pPeer lf = Some (Suc f)" "pPeer lp = Some f" "\<not> MutexHeld lf" "\<not> MutexHeld lp"
proof -
  let ?v = "setLink a (client_link args) (with_new_link c w)" and ?lk = "(client_link args (new_link c))\<lparr>pProtoPriv := Some f\<rparr>"
  obtain w1 l fso where 1: "connect_begin m a args ?v = Done (Inr (fs, f, w1))" "links_ok w1"
    "FailNextAllocCount w1 = FailNextAllocCount w" "next_addr w1 = a + 1" "LinkTbl w1 = (LinkTbl w)[c := Some a]"
    "SrvTbl w1 = SrvTbl w" "next_fifo (proto w1) = Suc f" "LinkHeap w1 = (LinkHeap w)(a := Some ?lk)"
    "FifoLinks (proto w1) = (FifoLinks (proto w))(f := Some l)" "\<not> MutexHeld l"
    "FifoSrvs (proto w1) = (FifoSrvs (proto w))(fs := Some (fso\<lparr>ConnMutexHeld := True, pConnLinkObj := Some a\<rparr>))"
    using client_waits [OF ok(1-3) rs args(1) ms(1)] unfolding a_def f_def by blast
  have so: "i < 32" "length (SrvTbl w1) = 32" "SrvTbl w1 ! i = Some so" "Flags so AND IOC_SRVFLAG_AUTO_ACCEPT = 0"
    "SrvMethods so = Some 0" "SrvEvt so = None" "SrvProtoPriv so = Some fs"
    using rs 1(6) by (simp_all add: ready_service_def)
  have "\<exists>w2 lk lp lf. IOC_acceptClient ms' True True True (of_nat i) opt' w1 =
      Done (IOC_RESULT_SUCCESS, Some (LinkObjTblIdxToLinkID k), w2) \<and>
    LinkTbl w2 = (LinkTbl w1)[k := Some (next_addr w1)] \<and> LinkHeap w2 = (LinkHeap w1)(next_addr w1 := Some lk) \<and>
    ID lk = LinkObjTblIdxToLinkID k \<and> ConnState lk = IOC_LinkConnStateDisconnected \<and>
    Usage lk = negotiateLinkRole (UsageCapabilites so) (Usage ?lk) \<and> pProtoPriv lk = Some (next_fifo (proto w1)) \<and>
    pPeer lp = Some f \<and> \<not> MutexHeld lp \<and> pPeer lf = Some (next_fifo (proto w1)) \<and> \<not> MutexHeld lf \<and>
    FifoLinks (proto w2) = (FifoLinks (proto w1))(next_fifo (proto w1) := Some lp, f := Some lf) \<and>
    FifoSrvs (proto w2) = (FifoSrvs (proto w1))(fs := Some (fso\<lparr>ConnMutexHeld := True, pConnLinkObj := Some a\<rparr>
      \<lparr>pConnLinkObj := None\<rparr>)) \<and>
    SrvTbl w2 = (SrvTbl w1)[i := Some (track_manual (LinkObjTblIdxToLinkID k) so)]"
    by (rule accept_service [OF 1(2) _ _ so(1-5) ms(2,3) so(6,7)]) (use 1 ok(2,4) args(2) in \<open>auto simp: a_def\<close>)
  then obtain w2 lk lp lf where 2: "IOC_acceptClient ms' True True True (of_nat i) opt' w1 =
      Done (IOC_RESULT_SUCCESS, Some (LinkObjTblIdxToLinkID k), w2)"
    "LinkTbl w2 = (LinkTbl w1)[k := Some (next_addr w1)]" "LinkHeap w2 = (LinkHeap w1)(next_addr w1 := Some lk)"
    "ConnState lk = IOC_LinkConnStateDisconnected"
    "Usage lk = negotiateLinkRole (UsageCapabilites so) (ConnUsage args)" "pProtoPriv lk = Some (Suc f)"
    "pPeer lp = Some f" "\<not> MutexHeld lp" "pPeer lf = Some (Suc f)" "\<not> MutexHeld lf"
    "FifoLinks (proto w2) = (FifoLinks (proto w1))(Suc f := Some lp, f := Some lf)"
    "FifoSrvs (proto w2) = (FifoSrvs (proto w1))(fs := Some (fso\<lparr>ConnMutexHeld := True, pConnLinkObj := None\<rparr>))"
    "SrvTbl w2 = (SrvTbl w1)[i := Some (track_manual (LinkObjTblIdxToLinkID k) so)]" using 1(7) by auto
  let ?w3 = "setFifoSrv fs (\<lambda>s. s\<lparr>ConnMutexHeld := False\<rparr>) w2"
  have "connect_end fs f a w2 = Done (IOC_RESULT_SUCCESS, ?w3)"
    using 2(9,11,12) by (simp add: connect_end_def fsderef_def fderef_def)
  then have "\<forall>turn. turn w1 = w2 \<longrightarrow> connectService_ofProtoFifo m (Some turn) a args ?v = Done (IOC_RESULT_SUCCESS, ?w3)"
    using 1(1) by (simp add: connectService_ofProtoFifo_def)
  from that [OF 2(1) this _ _ _ _ 2(4-6) _ _ 2(9,7,10,8)] show ?thesis
    using 2(2,3,11,13) 1(4-6,8) by (simp add: setFifoSrv_def)
qed

text \<open>C5: A client that connects while a server thread accepts by hand.  The client goes to wait in the state
  \<open>w1\<close>; there the accept returns success with the new identifier \<open>k\<close> and leaves \<open>w2\<close>; and whenever the other
  threads have taken \<open>w1\<close> to \<open>w2\<close> when the client is woken, the connect returns success with the new identifier
  \<open>c\<close>.  The two links are peers of each other with the client's usage and the negotiated role, the service tracks
  its link, and the client's link is reported as connected.  The link of the service, however, is reported as
  disconnected: nothing on the way sets its connection state.\<close>

theorem connect_meets_accept:
  assumes ok: "links_ok w" "FailNextAllocCount w \<le> 0" "used (LinkTbl w) \<le> 30"
    and rs: "ready_service i fs so w"
    and args: "ConnSrvURI args = SrvURI so" "pProtocol (SrvURI so) = ''fifo''"
      "ConnUsage args \<noteq> IOC_LinkUsageEvtConsumer \<or> ConnUsageArgs args = None"
      "negotiateLinkRole (UsageCapabilites so) (ConnUsage args) \<noteq> 0"
    and ms: "ms \<noteq> []" "mem_ok (fe_mem env)" "ms' ! 0 = gIOC_SrvProtoFifoMethods env'" "mem_ok (fe_mem env')"
  shows "\<exists>c k w1 w2 w' a b f p.
    IOC_acceptClient ms' True True True (of_nat i) opt' w1 = Done (IOC_RESULT_SUCCESS, Some k, w2) \<and>
    (\<forall>turn. turn w1 = w2 \<longrightarrow>
      IOC_connectService (ms[0 := gIOC_SrvProtoFifoMethods (env\<lparr>fe_wake := Some turn\<rparr>)]) True True True (Some args) opt w =
      Done (IOC_RESULT_SUCCESS, Some c, w')) \<and>
    getLinkObjByLinkID c w = None \<and> getLinkObjByLinkID k w = None \<and> c \<noteq> k \<and>
    getLinkObjByLinkID c w' = Some a \<and> getLinkObjByLinkID k w' = Some b \<and>
    SrvTbl w' ! i = Some (track_manual k so) \<and> connected w' a f p \<and> connected w' b p f \<and>
    role_of w' a = ConnUsage args \<and> role_of w' b = negotiateLinkRole (UsageCapabilites so) (ConnUsage args) \<and>
    IOC_getLinkConnState c True w' = Done (IOC_RESULT_SUCCESS, Some IOC_LinkConnStateConnected) \<and>
    IOC_getLinkConnState k True w' = Done (IOC_RESULT_SUCCESS, Some IOC_LinkConnStateDisconnected)"
proof -
  have len: "length (LinkTbl w) = 32" using ok(1) by (simp add: links_ok_def)
  obtain c where c: "first_index (\<lambda>slot. slot = None) (LinkTbl w) = Some c"
    using first_free [of "LinkTbl w"] len ok(3) by (cases "first_index (\<lambda>slot. slot = None) (LinkTbl w)") auto
  have cl: "c < 32" "LinkTbl w ! c = None" using first_indexD [OF c] len by auto
  let ?a = "next_addr w" and ?f = "next_fifo (proto w)"
    and ?up = "\<lambda>l. l\<lparr>pMethods := Some 0, ConnState := IOC_LinkConnStateConnected, IsConnected := True\<rparr>"
  obtain k where k: "first_index (\<lambda>slot. slot = None) ((LinkTbl w)[c := Some ?a]) = Some k" "k < 32" "k \<noteq> c"
    using second_free [OF len ok(3) c] by blast
  have kw: "LinkTbl w ! k = None" using first_indexD [OF k(1)] k(2,3) len by auto
  obtain w1 w2 w3 lk lf lp where
    acc: "IOC_acceptClient ms' True True True (of_nat i) opt' w1 = Done (IOC_RESULT_SUCCESS, Some (LinkObjTblIdxToLinkID k), w2)"
    and conn: "\<forall>turn. turn w1 = w2 \<longrightarrow> connectService_ofProtoFifo (fe_mem env) (Some turn) ?a args
      (setLink ?a (client_link args) (with_new_link c w)) = Done (IOC_RESULT_SUCCESS, w3)"
    and 3: "LinkTbl w3 = (LinkTbl w)[c := Some ?a, k := Some (Suc ?a)]"
      "SrvTbl w3 = (SrvTbl w)[i := Some (track_manual (LinkObjTblIdxToLinkID k) so)]"
      "LinkHeap w3 ?a = Some ((client_link args (new_link c))\<lparr>pProtoPriv := Some ?f\<rparr>)" "LinkHeap w3 (Suc ?a) = Some lk"
      "ConnState lk = IOC_LinkConnStateDisconnected" "Usage lk = negotiateLinkRole (UsageCapabilites so) (ConnUsage args)"
      "pProtoPriv lk = Some (Suc ?f)" "FifoLinks (proto w3) ?f = Some lf" "FifoLinks (proto w3) (Suc ?f) = Some lp"
      "pPeer lf = Some (Suc ?f)" "pPeer lp = Some ?f" "\<not> MutexHeld lf" "\<not> MutexHeld lp"
    by (rule connect_service_fifo [OF ok(1,2) c k(1) rs args(1,4) ms(2-4)])
  let ?lk = "(client_link args (new_link c))\<lparr>pProtoPriv := Some ?f\<rparr>" and ?w4 = "setLink ?a ?up w3"
  have res: "\<forall>turn. turn w1 = w2 \<longrightarrow>
      IOC_connectService (ms[0 := gIOC_SrvProtoFifoMethods (env\<lparr>fe_wake := Some turn\<rparr>)]) True True True (Some args) opt w =
      Done (IOC_RESULT_SUCCESS, Some (LinkObjTblIdxToLinkID c), ?w4)"
  proof (intro allI impI)
    fix turn assume turn: "turn w1 = w2"
    let ?ms = "ms[0 := gIOC_SrvProtoFifoMethods (env\<lparr>fe_wake := Some turn\<rparr>)]"
    have m: "proto_index ''fifo'' ?ms = Some 0" "?ms ! 0 = gIOC_SrvProtoFifoMethods (env\<lparr>fe_wake := Some turn\<rparr>)"
      using ms(1) by (cases ms; simp add: proto_index_def)+
    show "IOC_connectService ?ms True True True (Some args) opt w = Done (IOC_RESULT_SUCCESS, Some (LinkObjTblIdxToLinkID c), ?w4)"
      using connect_by_proto [OF ok(1,2) c, of args ?ms 0 opt w3 ?lk] m args(1-3) conn [rule_format, of turn] turn 3(3) by simp
  qed
  have i: "i < 32" "length (SrvTbl w) = 32" using rs by (simp_all add: ready_service_def)
  have t4: "LinkTbl ?w4 ! c = Some ?a" "LinkTbl ?w4 ! k = Some (Suc ?a)" "SrvTbl ?w4 ! i = Some (track_manual (LinkObjTblIdxToLinkID k) so)"
    using 3(1,2) len cl(1) k(2,3) i by simp_all
  have h4: "LinkHeap ?w4 ?a = Some (?up ?lk)" "LinkHeap ?w4 (Suc ?a) = Some lk" using 3(3,4) by simp_all
  have conn4: "connected ?w4 ?a ?f (Suc ?f)" "connected ?w4 (Suc ?a) (Suc ?f) ?f"
    using 3(7-13) h4 by (auto simp: connected_def priv_end_def)
  have roles: "role_of ?w4 ?a = ConnUsage args"
      "role_of ?w4 (Suc ?a) = negotiateLinkRole (UsageCapabilites so) (ConnUsage args)"
    using h4 3(6) by (simp_all only: role_of_def option.case) simp_all
  have ids: "getLinkObjByLinkID (LinkObjTblIdxToLinkID c) w = None" "getLinkObjByLinkID (LinkObjTblIdxToLinkID k) w = None"
      "LinkObjTblIdxToLinkID c \<noteq> LinkObjTblIdxToLinkID k" "getLinkObjByLinkID (LinkObjTblIdxToLinkID c) ?w4 = Some ?a"
      "getLinkObjByLinkID (LinkObjTblIdxToLinkID k) ?w4 = Some (Suc ?a)"
    using cl k(2,3) kw t4 by simp_all
  have states: "IOC_getLinkConnState (LinkObjTblIdxToLinkID c) True ?w4 = Done (IOC_RESULT_SUCCESS, Some IOC_LinkConnStateConnected)"
      "IOC_getLinkConnState (LinkObjTblIdxToLinkID k) True ?w4 = Done (IOC_RESULT_SUCCESS, Some IOC_LinkConnStateDisconnected)"
    using getLinkConnState_slot [OF cl(1) t4(1) h4(1)] getLinkConnState_slot [OF k(2) t4(2) h4(2)] 3(5) by simp_all
  show ?thesis using acc res ids t4(3) conn4 roles states by (intro exI conjI)
qed


section \<open>Witnesses\<close>

definition witness_env :: "('x fifo_world \<Rightarrow> 'x fifo_world) option \<Rightarrow> 'x fifo_env" where
  "witness_env wake = \<lparr>fe_srv_mem = True, fe_mem = good_mem, fe_wake = wake, fe_start = time0, fe_accept = [],
     fe_destroy = True, fe_evt = (\<lambda>_ _ _ w. Done w), fe_pull = [], fe_dat = noting, fe_send = env_at time0,
     fe_wakes = [], fe_timed = (True, id), fe_cmd = sample_env, fe_exec = [], fe_waitcmd = []\<rparr>"

text \<open>A service that tracks one accepted link (address 1), and the link of its client (address 0).\<close>

definition tracking_service :: ServiceObject_T where
  "tracking_service = (new_service 0 sample_srv_args)\<lparr>SrvMethods := Some 0, SrvProtoPriv := Some 0,
     ManualLinkIDs := LinkObjTblIdxToLinkID 1 # replicate 31 ULONG_MAX, ManualCount := 1\<rparr>"

definition svc_world :: "fifo_state ioc_world" where
  "svc_world = (init_world fifo_init)\<lparr>SrvTbl := Some tracking_service # replicate 31 None, ServiceCount := 1,
     LinkTbl := Some 0 # Some 1 # replicate 30 None, LinkCount := 2, next_addr := 2,
     LinkHeap := (\<lambda>_. None)
       (0 := Some ((new_link 0)\<lparr>Usage := IOC_LinkUsageEvtProducer, pMethods := Some 0, pProtoPriv := Some 1\<rparr>),
        1 := Some ((new_link 1)\<lparr>Usage := IOC_LinkUsageEvtConsumer, pMethods := Some 0, pProtoPriv := Some 2\<rparr>)),
     proto := fifo_init\<lparr>next_fifo := 3, OnlinedSrvFifo := Some 0 # replicate 15 None,
       FifoSrvs := (\<lambda>_. None)(0 := Some \<lparr>fsSrvObj = 0, ConnMutexHeld = False, pConnLinkObj = None\<rparr>),
       FifoLinks := (\<lambda>_. None)
         (1 := Some ((fresh_fifo_link 0 fresh_PollingBuffer fresh_batch)\<lparr>pPeer := Some 2\<rparr>),
          2 := Some ((fresh_fifo_link 1 fresh_PollingBuffer fresh_batch)\<lparr>pPeer := Some 1\<rparr>))\<rparr>\<rparr>"

definition svc_hs :: "unit handshake" where
  "svc_hs = \<lparr>World = svc_world, Waiting = (\<lambda>_. None), Accepting = (\<lambda>_. None),
     Closing = (\<lambda>_. None), Busy = {}\<rparr>"

abbreviation svc_methods :: "fifo_state SrvProtoMethods list" where
  "svc_methods \<equiv> [gIOC_SrvProtoFifoMethods (witness_env None)]"

lemma svc_tables: "links_ok svc_world" "services_ok svc_world"
proof -
  have n: "i = 0 \<or> i = 1 \<or> 2 \<le> i" for i :: nat by linarith
  have u: "used (LinkTbl svc_world) = 2" "used (SrvTbl svc_world) = 1"
    by (simp_all add: svc_world_def used_def)
  have t: "LinkTbl svc_world ! i = (if i = 0 then Some 0 else if i = 1 then Some 1 else None)"
    "SrvTbl svc_world ! i = (if i = 0 then Some tracking_service else None)" if "i < 32" for i
    using that n [of i] by (auto simp: svc_world_def nth_Cons' )
  show "links_ok svc_world" unfolding links_ok_def
  proof (intro conjI allI impI)
    fix i a assume "i < 32" "LinkTbl svc_world ! i = Some a"
    then show "\<exists>l. LinkHeap svc_world a = Some l \<and> ID l = LinkObjTblIdxToLinkID i"
      using t by (auto simp: svc_world_def new_link_def split: if_splits)
  next
    fix a l assume "LinkHeap svc_world a = Some l"
    then have "a = 0 \<or> a = 1" by (auto simp: svc_world_def split: if_splits)
    then show "a < next_addr svc_world" "\<exists>i<32. LinkTbl svc_world ! i = Some a"
      using t(1) [of a] by (auto simp: svc_world_def intro!: exI [of _ a])
  qed (use u in \<open>simp_all add: svc_world_def init_world_def\<close>)
  show "services_ok svc_world" unfolding services_ok_def
  proof (intro conjI allI impI)
    fix i s assume "i < 32" "SrvTbl svc_world ! i = Some s"
    then show "SrvID s = of_nat i" using t by (auto simp: tracking_service_def new_service_def split: if_splits)
  next
    fix i j s u assume "i < 32" "j < 32" "SrvTbl svc_world ! i = Some s \<and> SrvTbl svc_world ! j = Some u \<and> SrvURI s = SrvURI u"
    then show "i = j" using t by (auto split: if_splits)
  qed (use u in \<open>simp_all add: svc_world_def\<close>)
qed

lemma svc_ends: "hs_inv svc_hs" "closable svc_methods svc_hs 0" "closable svc_methods svc_hs 1"
proof -
  have c: "complementary IOC_LinkUsageEvtProducer IOC_LinkUsageEvtConsumer"
    by (simp add: complementary_def complement_usage_def usage_defs)
  have pv: "priv_end svc_world = (\<lambda>_. None)(0 := Some 1, 1 := Some 2)" "pending svc_world = (\<lambda>_. None)"
    "role_of svc_world 0 = IOC_LinkUsageEvtProducer" "role_of svc_world 1 = IOC_LinkUsageEvtConsumer"
    by (auto simp: priv_end_def pending_def role_of_def svc_world_def fun_eq_iff init_world_def fifo_init_def)
  show "hs_inv svc_hs"
    using c complementary_sym [OF c] pv unfolding hs_inv_def hs_wf_def Let_def ends_inv_def svc_hs_def
    by (simp add: svc_world_def fresh_fifo_link_def split: if_splits)
  have "EvtDescQueue_isEmpty EvtDescQueue_initOne" by (simp add: EvtDescQueue_isEmpty_def EvtDescQueue_initOne_def)
  then show "closable svc_methods svc_hs 0" "closable svc_methods svc_hs 1"
    by (auto simp: closable_def unused_def svc_hs_def svc_world_def fresh_fifo_link_def witness_env_def
        intro!: exI [of _ "witness_env None"])
qed


theorem close_link_exact_witness:
  "\<exists>w'. IOC_closeLink svc_methods (LinkObjTblIdxToLinkID 0) svc_world = Done (IOC_RESULT_SUCCESS, w') \<and>
    getLinkObjByLinkID (LinkObjTblIdxToLinkID 0) w' = None \<and> getLinkObjByLinkID (LinkObjTblIdxToLinkID 1) w' = Some 1 \<and>
    map_option pPeer (FifoLinks (proto w') 2) = Some None"
proof -
  let ?l = "(fresh_fifo_link 0 fresh_PollingBuffer fresh_batch)\<lparr>pPeer := Some 2\<rparr>"
  let ?k = "(fresh_fifo_link 1 fresh_PollingBuffer fresh_batch)\<lparr>pPeer := Some 1\<rparr>"
  have w: "World svc_hs = svc_world" by (simp add: svc_hs_def)
  have e: "priv_end svc_world 0 = Some 1" "FifoLinks (proto svc_world) 1 = Some ?l" "FifoLinks (proto svc_world) 2 = Some ?k"
    "LinkTbl svc_world ! 0 = Some 0" "LinkTbl svc_world ! Suc 0 = Some 1"
    by (simp_all add: priv_end_def svc_world_def)
  have g: "getLinkObjByLinkID (LinkObjTblIdxToLinkID 0) (World svc_hs) = Some 0" using w e(4) by simp
  obtain w' where w': "IOC_closeLink svc_methods (LinkObjTblIdxToLinkID 0) svc_world = Done (IOC_RESULT_SUCCESS, w')"
    "\<forall>j<32. getLinkObjByLinkID (LinkObjTblIdxToLinkID j) w' =
       (if j = 0 then None else getLinkObjByLinkID (LinkObjTblIdxToLinkID j) svc_world)"
    "\<forall>g k. g \<noteq> 1 \<and> FifoLinks (proto svc_world) g = Some k \<longrightarrow>
       FifoLinks (proto w') g = Some (if pPeer ?l = Some g then k\<lparr>pPeer := None\<rparr> else k)"
    using close_link_exact [OF svc_ends(1) _ _ g svc_ends(2), unfolded w, OF svc_tables(1) _ e(1,2)] by auto
  have "FifoLinks (proto w') 2 = Some (?k\<lparr>pPeer := None\<rparr>)" using w'(3) e(3) by simp
  then show ?thesis using w'(1,2) e(5) by (intro exI [of _ w']) simp
qed

theorem offline_closes_tracked_witness:
  "\<exists>w'. IOC_offlineService svc_methods 0 svc_world = Done (IOC_RESULT_SUCCESS, w') \<and>
    getLinkObjByLinkID (LinkObjTblIdxToLinkID 0) w' = Some 0 \<and> getLinkObjByLinkID (LinkObjTblIdxToLinkID 1) w' = None"
proof -
  let ?so = tracking_service
  have w: "World svc_hs = svc_world" by (simp add: svc_hs_def)
  have m: "ManualLinkIDs ?so ! k = (if k = 0 then LinkObjTblIdxToLinkID 1 else ULONG_MAX)" if "k < 32" for k
    using that by (simp add: tracking_service_def nth_Cons')
  have ok: "manual_ok ?so [0..<32]" unfolding manual_ok_def
  proof
    fix k assume "k \<in> set [0..<32::nat]"
    then show "ManualLinkIDs ?so ! k = ULONG_MAX \<or> (\<exists>j<32. ManualLinkIDs ?so ! k = LinkObjTblIdxToLinkID j)"
      using m [of k] by (auto intro!: exI [of _ 1])
  qed
  have tr: "tracked ?so [0..<32] = {1}"
    using m slot_id_valid by (auto simp: tracked_def slot_id_valid [symmetric] split: if_splits intro!: bexI [of _ 0])
  have s: "getSrvObjBySrvID (of_nat 0) (World svc_hs) = Some ?so"
    by (simp add: w svc_world_def getSrvObjBySrvID_def MAX_IOC_SRV_OBJ_NUM_def)
  have f: "Flags ?so = 0" "SrvMethods ?so = Some 0" "SrvProtoPriv ?so = Some 0"
    by (simp_all add: tracking_service_def new_service_def sample_srv_args_def)
  have fs: "FifoSrvs (proto (World svc_hs)) 0 = Some \<lparr>fsSrvObj = 0, ConnMutexHeld = False, pConnLinkObj = None\<rparr>"
    by (simp add: w svc_world_def)
  have e: "LinkTbl svc_world ! 0 = Some 0" "LinkTbl svc_world ! Suc 0 = Some 1" by (simp_all add: svc_world_def)
  have t: "links_ok (World svc_hs)" "services_ok (World svc_hs)" using svc_tables w by simp_all
  have z: "(0 :: nat) < 32" by simp
  have "svc_methods ! 0 = gIOC_SrvProtoFifoMethods (witness_env None)" by simp
  from offline_closes_tracked [OF svc_ends(1) t z s _ _ _ f(2) this f(3) fs ok]
  show ?thesis using f(1) tr svc_ends(3) e by (fastforce simp: w)
qed

theorem connect_failures_fill_table_witness:
  "\<exists>w'. connects svc_methods (sample_conn_args IOC_LinkUsageEvtProducer) None 40 (init_world fifo_init) =
      Done (replicate 32 IOC_RESULT_NOT_EXIST_SERVICE @ replicate 8 IOC_RESULT_POSIX_ENOMEM, w') \<and>
    used (LinkTbl w') = 32 \<and> (\<forall>a. LinkHeap w' a = None)"
proof -
  let ?w = "init_world fifo_init"
  have slots: "getSrvProtoObjBySrvURI uri w (replicate n None) = Done None" for uri w n
    by (induction n) simp_all
  have i: "FailNextAllocCount ?w \<le> 0" "used (LinkTbl ?w) = 0" "LinkHeap ?w = (\<lambda>_. None)"
    by (simp_all add: init_world_def used_def)
  have p: "pProtocol (ConnSrvURI (sample_conn_args IOC_LinkUsageEvtProducer)) = ''fifo''"
    by (simp add: sample_conn_args_def sample_uri_def)
  have none: "getSrvProtoObjBySrvURI (ConnSrvURI (sample_conn_args IOC_LinkUsageEvtProducer)) ?w
      (OnlinedSrvFifo (proto ?w)) = Done None"
    using slots [of _ ?w 16] by (simp add: init_world_def fifo_init_def)
  have "svc_methods ! 0 = gIOC_SrvProtoFifoMethods (witness_env None)" by simp
  from connect_failures_fill_table [OF links_ok_init(1) i(1) this _ p none, of None 40] i(2,3)
  show ?thesis by auto
qed

theorem connect_meets_accept_witness:
  "\<exists>c k w1 w2 w'. IOC_acceptClient svc_methods True True True 0 None w1 = Done (IOC_RESULT_SUCCESS, Some k, w2) \<and>
    IOC_connectService [gIOC_SrvProtoFifoMethods (witness_env (Some (accept_turn svc_methods 0 None)))] True True True
      (Some (sample_conn_args IOC_LinkUsageEvtProducer)) None svc_world = Done (IOC_RESULT_SUCCESS, Some c, w') \<and>
    IOC_getLinkConnState c True w' = Done (IOC_RESULT_SUCCESS, Some IOC_LinkConnStateConnected)"
proof -
  let ?args = "sample_conn_args IOC_LinkUsageEvtProducer" and ?so = tracking_service
  let ?ms = "[gIOC_SrvProtoFifoMethods (witness_env None)]"
  have f: "Flags ?so = 0" "SrvMethods ?so = Some 0" "SrvProtoPriv ?so = Some 0" "SrvEvt ?so = None"
    "UsageCapabilites ?so = IOC_LinkUsageEvtConsumer" "SrvURI ?so = sample_uri"
    by (simp_all add: tracking_service_def new_service_def sample_srv_args_def sample_uri_def)
  have rs: "ready_service 0 0 ?so svc_world"
    using f by (simp add: ready_service_def svc_world_def fsderef_def derefSrv_def isEqualSrvURI_eq)
  have a: "ConnSrvURI ?args = SrvURI ?so" "pProtocol (SrvURI ?so) = ''fifo''" "ConnUsageArgs ?args = None"
    using f by (simp_all add: sample_conn_args_def sample_uri_def)
  have neg: "negotiateLinkRole (UsageCapabilites ?so) (ConnUsage ?args) \<noteq> 0"
    using f(5) by (simp add: negotiateLinkRole_def usage_defs has_usage_def sample_conn_args_def)
  have u: "FailNextAllocCount svc_world \<le> 0" "used (LinkTbl svc_world) \<le> 30"
    by (simp_all add: svc_world_def init_world_def used_def)
  have ms: "svc_methods ! 0 = gIOC_SrvProtoFifoMethods (witness_env None)" "?ms \<noteq> []" by simp_all
  have env: "mem_ok (fe_mem (witness_env None))" "(witness_env None)\<lparr>fe_wake := x\<rparr> = witness_env x"
    for x :: "(fifo_state ioc_world \<Rightarrow> fifo_state ioc_world) option" by (simp_all add: witness_env_def good_mem_ok)
  from connect_meets_accept [OF svc_tables(1) u rs a(1,2) _ neg ms(2) env(1) ms(1) env(1), of None None] a(3)
  obtain c k w1 w2 w' where 1: "IOC_acceptClient svc_methods True True True 0 None w1 = Done (IOC_RESULT_SUCCESS, Some k, w2)"
    "\<forall>turn. turn w1 = w2 \<longrightarrow> IOC_connectService [gIOC_SrvProtoFifoMethods (witness_env (Some turn))] True True True
      (Some ?args) None svc_world = Done (IOC_RESULT_SUCCESS, Some c, w')"
    "IOC_getLinkConnState c True w' = Done (IOC_RESULT_SUCCESS, Some IOC_LinkConnStateConnected)" by (auto simp: env(2))
  have "IOC_connectService [gIOC_SrvProtoFifoMethods (witness_env (Some (accept_turn svc_methods 0 None)))] True True True
      (Some ?args) None svc_world = Done (IOC_RESULT_SUCCESS, Some c, w')"
    by (rule 1(2) [rule_format]) (simp add: accept_turn_def 1(1))
  then show ?thesis using 1(1,3) by blast
qed

end
