(* ===== verification/TcpWire.thy ===== *)
theory TcpWire
  imports Helpers
begin

text \<open>
  What the TCP protocol (\<^verbatim>\<open>src/Source/_IOC_SrvProtoTCP.c\<close>) puts on the wire and how: the eight-byte
  message header in network byte order, the memory images of the descriptors it sends as they are,
  and the loops \<^verbatim>\<open>__TCP_sendAll\<close> and \<^verbatim>\<open>__TCP_recvAll\<close> around \<^verbatim>\<open>send\<close> and \<^verbatim>\<open>recv\<close>, which may move fewer
  bytes than they are asked to.
\<close>

section \<open>Words as bytes\<close>

fun le_bytes :: "nat \<Rightarrow> 'a::len word \<Rightarrow> byte list" where
  "le_bytes 0 w = []"
| "le_bytes (Suc n) w = ucast w # le_bytes n (drop_bit 8 w)"

fun le_word :: "byte list \<Rightarrow> 'a::len word" where
  "le_word [] = 0"
| "le_word (b # bs) = ucast b OR push_bit 8 (le_word bs)"

lemma length_le_bytes [simp]: "length (le_bytes n w) = n"
  by (induction n arbitrary: w) auto

lemma le_word_le_bytes: "le_word (le_bytes n w) = take_bit (8 * n) (w :: 'a::len word)"
proof (induction n arbitrary: w)
  case (Suc n)
  show ?case by (rule bit_word_eqI) (auto simp: Suc bit_simps)
qed simp

lemma le_roundtrip [simp]: "LENGTH('a) \<le> 8 * n \<Longrightarrow> le_word (le_bytes n w) = (w :: 'a::len word)"
  unfolding le_word_le_bytes by (rule bit_word_eqI) (auto simp: bit_simps dest: bit_imp_le_length)

section \<open>Message headers\<close>

datatype TCPMessageType_T =
    TCP_MSG_USAGE_NEGOTIATION
  | TCP_MSG_EVENT
  | TCP_MSG_COMMAND
  | TCP_MSG_DATA
  | TCP_MSG_SUBSCRIBE
  | TCP_MSG_UNSUBSCRIBE

primrec msg_type :: "TCPMessageType_T \<Rightarrow> 32 word" where
  "msg_type TCP_MSG_USAGE_NEGOTIATION = 0"
| "msg_type TCP_MSG_EVENT = 1"
| "msg_type TCP_MSG_COMMAND = 2"
| "msg_type TCP_MSG_DATA = 3"
| "msg_type TCP_MSG_SUBSCRIBE = 4"
| "msg_type TCP_MSG_UNSUBSCRIBE = 5"

lemma msg_type_inj [simp]: "msg_type a = msg_type b \<longleftrightarrow> a = b"
  by (cases a; cases b) simp_all

record TCPMessageHeader_T =
  MsgType :: "32 word"
  DataSize :: "32 word"

text \<open>The packed structure after \<^verbatim>\<open>htonl\<close> on both fields, and back with \<^verbatim>\<open>ntohl\<close>.\<close>

definition put_header :: "TCPMessageHeader_T \<Rightarrow> byte list" where
  "put_header h = rev (le_bytes 4 (MsgType h)) @ rev (le_bytes 4 (DataSize h))"

definition get_header :: "byte list \<Rightarrow> TCPMessageHeader_T" where
  "get_header bs = \<lparr>MsgType = le_word (rev (take 4 bs)), DataSize = le_word (rev (take 4 (drop 4 bs)))\<rparr>"

text \<open>The size argument of \<^verbatim>\<open>htonl\<close> is 64 bits wide in the code and cut to 32.\<close>

definition tcp_header :: "TCPMessageType_T \<Rightarrow> ULONG \<Rightarrow> byte list" where
  "tcp_header t n = put_header \<lparr>MsgType = msg_type t, DataSize = ucast n\<rparr>"

section \<open>Memory images\<close>

text \<open>
  The images of the structures on the 64-bit little-endian machines the library is built for: the
  fields in order, which needs no padding.  A pointer is an address that means nothing on the other
  side.  A non-null one arrives as \<open>Some []\<close>, a block of which nothing may be read; the address
  itself is arbitrary.
\<close>

definition put_usage :: "usage \<Rightarrow> byte list" where "put_usage u = le_bytes 4 u"
definition get_usage :: "byte list \<Rightarrow> usage" where "get_usage bs = le_word bs"

definition put_long :: "int \<Rightarrow> byte list" where "put_long i = le_bytes 8 (word_of_int i :: 64 word)"
definition get_long :: "byte list \<Rightarrow> int" where "get_long bs = sint (le_word bs :: 64 word)"
definition put_ulong :: "ULONG \<Rightarrow> byte list" where "put_ulong w = le_bytes 8 w"
definition get_ulong :: "byte list \<Rightarrow> ULONG" where "get_ulong bs = le_word bs"

text \<open>The \<open>n\<close>-th and following eight-byte cells of an image.\<close>

definition cell :: "nat \<Rightarrow> byte list \<Rightarrow> byte list" where "cell n bs = take 8 (drop (8 * n) bs)"

definition put_msg :: "IOC_MsgDesc_T \<Rightarrow> byte list" where
  "put_msg m = put_ulong (SeqID m) @ put_long (tv_sec (TimeStamp m)) @ put_long (tv_nsec (TimeStamp m))"
definition get_msg :: "byte list \<Rightarrow> IOC_MsgDesc_T" where
  "get_msg bs = \<lparr>SeqID = get_ulong (cell 0 bs),
     TimeStamp = \<lparr>tv_sec = get_long (cell 1 bs), tv_nsec = get_long (cell 2 bs)\<rparr>\<rparr>"

definition sizeof_EvtDesc :: nat where "sizeof_EvtDesc = 40"

definition put_evt :: "IOC_EvtDesc_T \<Rightarrow> byte list" where
  "put_evt e = put_msg (MsgDesc e) @ put_ulong (EvtID e) @ put_ulong (EvtValue e)"
definition get_evt :: "byte list \<Rightarrow> IOC_EvtDesc_T" where
  "get_evt bs = \<lparr>MsgDesc = get_msg bs, EvtID = get_ulong (cell 3 bs), EvtValue = get_ulong (cell 4 bs)\<rparr>"

definition put_ptr :: "byte list option \<Rightarrow> byte list" where
  "put_ptr p = put_ulong (case p of None \<Rightarrow> 0 | Some _ \<Rightarrow> 0x1000)"
definition get_ptr :: "byte list \<Rightarrow> byte list option" where
  "get_ptr bs = (if get_ulong bs = 0 then None else Some [])"

definition put_payload :: "IOC_CmdPayload_T \<Rightarrow> byte list" where
  "put_payload p = put_ptr (cpData p) @ put_ulong (cPtrDataSize p) @ put_ulong (cPtrDataLen p) @
     put_ulong (cEmdDataSize p) @ cEmdData p"
definition get_payload :: "byte list \<Rightarrow> IOC_CmdPayload_T" where
  "get_payload bs = \<lparr>cpData = get_ptr (cell 0 bs), cPtrDataSize = get_ulong (cell 1 bs),
     cPtrDataLen = get_ulong (cell 2 bs), cEmdDataSize = get_ulong (cell 3 bs), cEmdData = take 64 (drop 32 bs)\<rparr>"

primrec cmd_status :: "IOC_CmdStatus_E \<Rightarrow> 32 word" where
  "cmd_status IOC_CMD_STATUS_INVALID = 0"
| "cmd_status IOC_CMD_STATUS_INITIALIZED = 1"
| "cmd_status IOC_CMD_STATUS_PENDING = 2"
| "cmd_status IOC_CMD_STATUS_PROCESSING = 3"
| "cmd_status IOC_CMD_STATUS_SUCCESS = 4"
| "cmd_status IOC_CMD_STATUS_FAILED = 5"
| "cmd_status IOC_CMD_STATUS_TIMEOUT = 6"

text \<open>The C code compares statuses as the numbers they are.\<close>

instantiation IOC_CmdStatus_E :: linorder
begin

definition less_eq_IOC_CmdStatus_E :: "IOC_CmdStatus_E \<Rightarrow> IOC_CmdStatus_E \<Rightarrow> bool" where
  "less_eq_IOC_CmdStatus_E s t \<longleftrightarrow> cmd_status s \<le> cmd_status t"

definition less_IOC_CmdStatus_E :: "IOC_CmdStatus_E \<Rightarrow> IOC_CmdStatus_E \<Rightarrow> bool" where
  "less_IOC_CmdStatus_E s t \<longleftrightarrow> cmd_status s < cmd_status t"

instance
proof
  fix s t :: IOC_CmdStatus_E
  show "s = t" if "s \<le> t" "t \<le> s"
  proof -
    have "cmd_status s = cmd_status t" using that by (simp add: less_eq_IOC_CmdStatus_E_def)
    then show ?thesis by (cases s; cases t) simp_all
  qed
qed (auto simp: less_eq_IOC_CmdStatus_E_def less_IOC_CmdStatus_E_def)

end

lemma status_le [simp]:
  "s \<le> t \<longleftrightarrow> cmd_status s \<le> cmd_status t" "s < t \<longleftrightarrow> cmd_status s < cmd_status t" for s t :: IOC_CmdStatus_E
  by (simp_all add: less_eq_IOC_CmdStatus_E_def less_IOC_CmdStatus_E_def)

text \<open>A 32-bit field outside of the enumeration, which no peer running this code sends, is \<open>None\<close>.\<close>

definition get_status :: "byte list \<Rightarrow> IOC_CmdStatus_E option" where
  "get_status bs = find (\<lambda>s. cmd_status s = le_word bs)
     [IOC_CMD_STATUS_INVALID, IOC_CMD_STATUS_INITIALIZED, IOC_CMD_STATUS_PENDING,
      IOC_CMD_STATUS_PROCESSING, IOC_CMD_STATUS_SUCCESS, IOC_CMD_STATUS_FAILED, IOC_CMD_STATUS_TIMEOUT]"

definition all_results :: "IOC_Result_T list" where
  "all_results = [IOC_RESULT_SUCCESS, IOC_RESULT_FAILURE, IOC_RESULT_POSIX_ENOMEM,
     IOC_RESULT_POSIX_EINVAL, IOC_RESULT_POSIX_EAGAIN, IOC_RESULT_NOT_IMPLEMENTED,
     IOC_RESULT_NOT_SUPPORT, IOC_RESULT_NO_EVENT_CONSUMER, IOC_RESULT_TOO_MANY, IOC_RESULT_CONFLICT,
     IOC_RESULT_NOT_EXIST, IOC_RESULT_TIMEOUT, IOC_RESULT_BUSY, IOC_RESULT_LINK_BROKEN,
     IOC_RESULT_CMD_EXEC_FAILED, IOC_RESULT_NO_CMD_EXECUTOR, IOC_RESULT_BUFFER_FULL,
     IOC_RESULT_BUFFER_TOO_SMALL, IOC_RESULT_DATA_TOO_LARGE, IOC_RESULT_NO_DATA,
     IOC_RESULT_NOT_EXIST_STREAM, IOC_RESULT_ACK_CMD_FAILED, IOC_RESULT_INCOMPATIBLE_USAGE,
     IOC_RESULT_EVTDESC_QUEUE_EMPTY, IOC_RESULT_TOO_LONG_EMPTYING_EVTDESC_QUEUE,
     IOC_RESULT_INVALID_AUTO_LINK_ID, IOC_RESULT_NOT_SUPPORT_MANUAL_ACCEPT, IOC_RESULT_BUG,
     IOC_RESULT_FORBIDDEN]"

definition get_result :: "byte list \<Rightarrow> IOC_Result_T option" where
  "get_result bs = find (\<lambda>r. result_code r = sint (le_word bs :: 32 word)) all_results"

definition sizeof_CmdDesc :: nat where "sizeof_CmdDesc = 248"

definition put_ctx :: "nat option \<Rightarrow> byte list" where
  "put_ctx c = put_ulong (case c of None \<Rightarrow> 0 | Some p \<Rightarrow> of_nat (Suc p))"
definition get_ctx :: "byte list \<Rightarrow> nat option" where
  "get_ctx bs = (if get_ulong bs = 0 then None else Some (unat (get_ulong bs) - 1))"

definition put_cmd :: "IOC_CmdDesc_T \<Rightarrow> byte list" where
  "put_cmd c = put_msg (CmdMsgDesc c) @ put_ulong (CmdID c) @ le_bytes 4 (cmd_status (Status c)) @
     le_bytes 4 (word_of_int (result_code (CmdResult c)) :: 32 word) @ put_payload (InPayload c) @
     put_payload (OutPayload c) @ put_ulong (TimeoutMs c) @ put_ctx (pExecContext c)"

definition get_cmd :: "byte list \<Rightarrow> IOC_CmdDesc_T option" where
  "get_cmd bs = (case (get_status (take 4 (drop 32 bs)), get_result (take 4 (drop 36 bs))) of
     (Some s, Some r) \<Rightarrow> Some \<lparr>CmdMsgDesc = get_msg bs, CmdID = get_ulong (cell 3 bs), Status = s,
       CmdResult = r, InPayload = get_payload (take 96 (drop 40 bs)),
       OutPayload = get_payload (take 96 (drop 136 bs)), TimeoutMs = get_ulong (cell 29 bs),
       pExecContext = get_ctx (cell 30 bs)\<rparr>
   | _ \<Rightarrow> None)"

section \<open>Sockets\<close>

text \<open>
  What the code sees of the kernel.  \<open>so_in\<close>: what the next calls of \<^verbatim>\<open>recv\<close> find, bytes and, between
  or after them, errors or the end of the stream (which stays).  A call of \<^verbatim>\<open>recv\<close> answers at least
  one of the bytes that have arrived and no more than it is asked for; \<open>so_cuts\<close> bounds the number
  further, as the segments of the connection do.  Without anything to find the call waits, for ever or
  until the timeout set by \<^verbatim>\<open>SO_RCVTIMEO\<close> (\<open>so_rcvtimeo\<close>).  A call of \<^verbatim>\<open>send\<close> takes at least one byte;
  \<open>so_tx\<close> says when it takes fewer than all, fails, or waits for ever because the other side reads no
  more.  What is taken appears in order at the socket \<open>so_peer\<close>, if that is a socket of the same process
  that is still open; \<open>so_out\<close> remembers it.
\<close>

datatype errno =
    ECONNRESET | EPIPE | ECONNABORTED | EBADF | ENOTCONN | ETIMEDOUT | EAGAIN | EINTR
  | ECONNREFUSED | ENETUNREACH | EHOSTUNREACH | EOTHER

datatype rx_item = RxByte byte | RxEof | RxErr errno

datatype tx_item = TxUpTo nat | TxErr errno | TxStuck

record Socket_T =
  so_in :: "rx_item list"
  so_cuts :: "nat list"
  so_tx :: "tx_item list"
  so_out :: "byte list"
  so_peer :: "int option"
  so_rcvtimeo :: bool

type_synonym sockets = "int \<Rightarrow> Socket_T option"

text \<open>Up to \<open>n\<close> leading bytes.\<close>

fun leading :: "nat \<Rightarrow> rx_item list \<Rightarrow> byte list \<times> rx_item list" where
  "leading (Suc n) (RxByte b # r) = (let (bs, r') = leading n r in (b # bs, r'))"
| "leading n r = ([], r)"

datatype recv_answer = Received "byte list" | RecvErrno errno

definition sock_recv :: "nat \<Rightarrow> Socket_T \<Rightarrow> (recv_answer \<times> Socket_T) outcome" where
  "sock_recv n s = (case so_in s of
     [] \<Rightarrow> if so_rcvtimeo s then Done (RecvErrno EAGAIN, s) else Block
   | RxErr e # r \<Rightarrow> Done (RecvErrno e, s\<lparr>so_in := r\<rparr>)
   | RxEof # r \<Rightarrow> Done (Received [], s)
   | RxByte b # r \<Rightarrow>
       let k = (case so_cuts s of [] \<Rightarrow> n | c # _ \<Rightarrow> min n (Suc c));
           (bs, r') = leading k (so_in s)
       in Done (Received bs, s\<lparr>so_in := r', so_cuts := tl (so_cuts s)\<rparr>))"

definition transmit :: "int \<Rightarrow> byte list \<Rightarrow> sockets \<Rightarrow> sockets" where
  "transmit fd bs ss = (case ss fd of None \<Rightarrow> ss
   | Some s \<Rightarrow> let ss1 = ss(fd := Some (s\<lparr>so_out := so_out s @ bs\<rparr>))
       in case so_peer s of None \<Rightarrow> ss1
        | Some p \<Rightarrow> ss1(p := map_option (\<lambda>q. q\<lparr>so_in := so_in q @ map RxByte bs\<rparr>) (ss1 p)))"

definition sock_send :: "int \<Rightarrow> byte list \<Rightarrow> sockets \<Rightarrow> ((errno + nat) \<times> sockets) outcome" where
  "sock_send fd data ss = (case ss fd of
     None \<Rightarrow> Done (Inl EBADF, ss)
   | Some s \<Rightarrow> let ss1 = ss(fd := Some (s\<lparr>so_tx := tl (so_tx s)\<rparr>)) in (case so_tx s of
       TxErr e # _ \<Rightarrow> Done (Inl e, ss1)
     | TxStuck # _ \<Rightarrow> Block
     | TxUpTo m # _ \<Rightarrow> let k = min (Suc m) (length data) in Done (Inr k, transmit fd (take k data) ss1)
     | [] \<Rightarrow> Done (Inr (length data), transmit fd data ss1)))"

section \<open>Sending and receiving everything\<close>

definition send_code :: "errno \<Rightarrow> IOC_Result_T" where
  "send_code err =
    (if err = ECONNRESET \<or> err = EPIPE \<or> err = ECONNABORTED \<or> err = EBADF \<or> err = ENOTCONN
     then IOC_RESULT_LINK_BROKEN
     else if err = ETIMEDOUT then IOC_RESULT_TIMEOUT else IOC_RESULT_BUG)"

lemma sock_send_progress:
  "sock_send fd data ss = Done (Inr n, ss') \<Longrightarrow> data \<noteq> [] \<Longrightarrow> 0 < n \<and> n \<le> length data"
  by (auto simp: sock_send_def Let_def split: option.splits list.splits tx_item.splits)

function tcp_sendAll :: "int \<Rightarrow> byte list \<Rightarrow> sockets \<Rightarrow> (IOC_Result_T \<times> sockets) outcome" where
  "tcp_sendAll fd data ss = (if data = [] then Done (IOC_RESULT_SUCCESS, ss)
     else case sock_send fd data ss of
       Done (Inl err, ss') \<Rightarrow> Done (send_code err, ss')
     | Done (Inr Sent, ss') \<Rightarrow> tcp_sendAll fd (drop Sent data) ss'
     | Abort \<Rightarrow> Abort | Block \<Rightarrow> Block)"
  by pat_completeness auto
termination
  by (relation "measure (\<lambda>(fd, data, ss). length data)") (auto dest: sock_send_progress)

declare tcp_sendAll.simps [simp del]

text \<open>How receiving ends: with all the bytes, with the stream at its end, or with an error.\<close>

datatype recv_end = RecvOk "byte list" | RecvClosed | RecvFail errno

definition recv_code :: "recv_end \<Rightarrow> IOC_Result_T" where
  "recv_code r = (case r of
     RecvOk _ \<Rightarrow> IOC_RESULT_SUCCESS
   | RecvClosed \<Rightarrow> IOC_RESULT_LINK_BROKEN
   | RecvFail err \<Rightarrow>
       if err = ECONNRESET \<or> err = ECONNABORTED \<or> err = EPIPE then IOC_RESULT_LINK_BROKEN
       else if err = ETIMEDOUT then IOC_RESULT_TIMEOUT else IOC_RESULT_BUG)"

function tcp_recvLoop :: "nat \<Rightarrow> byte list \<Rightarrow> Socket_T \<Rightarrow> (recv_end \<times> Socket_T) outcome" where
  "tcp_recvLoop n got s = (if n = 0 then Done (RecvOk got, s)
     else case sock_recv n s of
       Done (RecvErrno err, s') \<Rightarrow> Done (RecvFail err, s')
     | Done (Received bs, s') \<Rightarrow>
         if bs = [] then Done (RecvClosed, s') else tcp_recvLoop (n - length bs) (got @ bs) s'
     | Abort \<Rightarrow> Abort | Block \<Rightarrow> Block)"
  by pat_completeness auto
termination by (relation "measure fst") auto

declare tcp_recvLoop.simps [simp del]

definition tcp_recvAll :: "int \<Rightarrow> nat \<Rightarrow> sockets \<Rightarrow> (recv_end \<times> sockets) outcome" where
  "tcp_recvAll fd n ss = (if n = 0 then Done (RecvOk [], ss)
     else case ss fd of
       None \<Rightarrow> Done (RecvFail EBADF, ss)
     | Some s \<Rightarrow> bindO (tcp_recvLoop n [] s) (\<lambda>(r, s'). Done (r, ss(fd := Some s'))))"

section \<open>Receiving: lemmas\<close>

text \<open>What the loop computes, whatever the segments: the bytes that have arrived decide.\<close>

definition recv_ref :: "nat \<Rightarrow> Socket_T \<Rightarrow> (recv_end \<times> rx_item list) outcome" where
  "recv_ref n s = (let (bs, r) = leading n (so_in s) in
     if length bs = n then Done (RecvOk bs, r)
     else case r of
       [] \<Rightarrow> if so_rcvtimeo s then Done (RecvFail EAGAIN, r) else Block
     | RxErr e # r' \<Rightarrow> Done (RecvFail e, r')
     | RxEof # _ \<Rightarrow> Done (RecvClosed, r)
     | RxByte _ # _ \<Rightarrow> Abort)"

lemma leading_nonbyte [simp]: "leading n (RxEof # r) = ([], RxEof # r)" "leading n (RxErr e # r) = ([], RxErr e # r)"
  "leading n [] = ([], [])"
  by (cases n; simp)+

lemma leading_bytes:
  "n \<le> length bs \<Longrightarrow> leading n (map RxByte bs @ r) = (take n bs, map RxByte (drop n bs) @ r)"
proof (induction bs arbitrary: n)
  case (Cons b bs)
  then show ?case by (cases n) auto
qed simp

lemma leading_length: "leading n xs = (bs, r) \<Longrightarrow> length bs \<le> n"
  by (induction n xs arbitrary: bs rule: leading.induct) (auto split: prod.splits)

lemma leading_add:
  "leading k xs = (bs, r) \<Longrightarrow> length bs = k \<Longrightarrow> leading (k + m) xs = (let (cs, r') = leading m r in (bs @ cs, r'))"
proof (induction k xs arbitrary: bs r rule: leading.induct)
  case (1 n b xs)
  then show ?case by (auto split: prod.splits)
qed auto

lemma leading_first: "0 < k \<Longrightarrow> leading k (RxByte b # xs) \<noteq> ([], r)"
  by (cases k) (auto split: prod.splits)

lemma leading_short:
  "leading k xs = (bs, r) \<Longrightarrow> length bs < k \<Longrightarrow> (r = [] \<or> (\<exists>e r'. r = RxErr e # r') \<or> (\<exists>r'. r = RxEof # r'))"
proof (induction k xs arbitrary: bs rule: leading.induct)
  case (1 n b xs)
  then show ?case by (auto split: prod.splits)
qed auto

lemma leading_again:
  "leading k xs = (bs, r) \<Longrightarrow> length bs < k \<Longrightarrow> k \<le> n \<Longrightarrow> leading n xs = (bs, r)"
proof (induction xs arbitrary: bs k n)
  case (Cons x xs)
  show ?case
  proof (cases x)
    case (RxByte b)
    with Cons.prems obtain k' n' where k: "k = Suc k'" "n = Suc n'" by (cases k; cases n) auto
    obtain cs where cs: "bs = b # cs" "leading k' xs = (cs, r)"
      using Cons.prems(1) RxByte k by (auto split: prod.splits)
    have "leading n' xs = (cs, r)" using Cons.IH [OF cs(2), of n'] Cons.prems k cs by simp
    then show ?thesis using k cs RxByte by simp
  qed (use Cons.prems in auto)
qed simp

primrec add_got :: "byte list \<Rightarrow> recv_end \<Rightarrow> recv_end" where
  "add_got got (RecvOk bs) = RecvOk (got @ bs)"
| "add_got got RecvClosed = RecvClosed"
| "add_got got (RecvFail e) = RecvFail e"

lemma add_got_twice: "add_got got (add_got bs r) = add_got (got @ bs) r"
  by (cases r) auto

lemma add_got_Nil [simp]: "add_got [] r = r"
  by (cases r) auto

definition recv_agrees ::
  "byte list \<Rightarrow> Socket_T \<Rightarrow> (recv_end \<times> Socket_T) outcome \<Rightarrow> (recv_end \<times> rx_item list) outcome \<Rightarrow> bool" where
  "recv_agrees got s out ref = (case out of
     Done (r, s') \<Rightarrow> (\<exists>r0 c. ref = Done (r0, so_in s') \<and> r = add_got got r0 \<and> s' = s\<lparr>so_in := so_in s', so_cuts := c\<rparr>)
   | Abort \<Rightarrow> False | Block \<Rightarrow> ref = Block)"

lemma same_socket:
  "\<exists>c. s = s\<lparr>so_cuts := c\<rparr>" "so_in s = q \<Longrightarrow> \<exists>c. s = s\<lparr>so_in := q, so_cuts := c\<rparr>"
  "\<exists>c. s\<lparr>so_in := q\<rparr> = s\<lparr>so_in := q, so_cuts := c\<rparr>"
  by (cases s, force)+

lemma recv_ref_step:
  assumes "leading k (so_in s) = (bs, r)" "k \<le> n" "0 < n" "bs \<noteq> []"
  shows "recv_ref n s = bindO (recv_ref (n - length bs) (s\<lparr>so_in := r, so_cuts := c\<rparr>)) (\<lambda>(e, q). Done (add_got bs e, q))"
proof (cases "length bs = k")
  case True
  then have "leading n (so_in s) = (let (cs, r') = leading (n - k) r in (bs @ cs, r'))"
    using leading_add [OF assms(1) True, of "n - k"] assms(2) by simp
  then show ?thesis using True assms(2)
    by (auto simp: recv_ref_def split: prod.splits list.splits rx_item.splits)
next
  case False
  then have lt: "length bs < k" using leading_length [OF assms(1)] by simp
  from leading_again [OF assms(1) lt assms(2)] leading_short [OF assms(1) lt] show ?thesis using lt assms(2)
    by (auto simp: recv_ref_def split: prod.splits)
qed

lemma recv_loop_ref: "recv_agrees got s (tcp_recvLoop n got s) (recv_ref n s)"
proof (induction n got s rule: tcp_recvLoop.induct)
  case (1 n got s)
  show ?case
  proof (cases "n = 0")
    case True
    then show ?thesis
      by (subst tcp_recvLoop.simps) (auto simp: recv_ref_def recv_agrees_def intro: same_socket)
  next
    case n: False
    show ?thesis
    proof (cases "so_in s")
      case Nil
      then show ?thesis using n
        by (subst tcp_recvLoop.simps) (auto simp: recv_ref_def sock_recv_def recv_agrees_def intro: same_socket)
    next
      case (Cons x xs)
      show ?thesis
      proof (cases x)
        case (RxByte b)
        define k where "k = (case so_cuts s of [] \<Rightarrow> n | c # _ \<Rightarrow> min n (Suc c))"
        have k: "0 < k" "k \<le> n" using n by (auto simp: k_def split: list.splits)
        obtain bs r where l: "leading k (so_in s) = (bs, r)" by fastforce
        have bs: "bs \<noteq> []" using l Cons RxByte leading_first [OF k(1)] by auto
        let ?s = "s\<lparr>so_in := r, so_cuts := tl (so_cuts s)\<rparr>"
        have r: "sock_recv n s = Done (Received bs, ?s)"
          using Cons RxByte l by (simp add: sock_recv_def k_def)
        have step: "tcp_recvLoop n got s = tcp_recvLoop (n - length bs) (got @ bs) ?s"
          using n bs r by (subst tcp_recvLoop.simps) simp
        have "recv_agrees (got @ bs) ?s (tcp_recvLoop (n - length bs) (got @ bs) ?s) (recv_ref (n - length bs) ?s)"
          using 1 n r bs by blast
        moreover have "recv_ref n s = bindO (recv_ref (n - length bs) ?s) (\<lambda>(e, q). Done (add_got bs e, q))"
          using n by (intro recv_ref_step [OF l k(2) _ bs]) simp
        ultimately show ?thesis unfolding step
          by (auto simp: recv_agrees_def add_got_twice split: outcome.splits)
      next
        case RxEof
        then show ?thesis using n Cons
          by (subst tcp_recvLoop.simps) (auto simp: recv_ref_def sock_recv_def recv_agrees_def intro: same_socket)
      next
        case (RxErr e)
        then show ?thesis using n Cons
          by (subst tcp_recvLoop.simps) (auto simp: recv_ref_def sock_recv_def recv_agrees_def intro: same_socket)
      qed
    qed
  qed
qed

lemma leading_split: "leading n xs = (bs, r) \<Longrightarrow> xs = map RxByte bs @ r"
  by (induction n xs arbitrary: bs rule: leading.induct) (auto split: prod.splits)

lemma leading_all: "length bs < n \<Longrightarrow> \<forall>b. r = [] \<or> hd r \<noteq> RxByte b \<Longrightarrow> leading n (map RxByte bs @ r) = (bs, r)"
proof (induction bs arbitrary: n)
  case Nil
  then show ?case by (cases n; cases r; cases "hd r") auto
next
  case (Cons b bs)
  then show ?case by (cases n) auto
qed

text \<open>The loop on a socket: when the bytes are there, when the stream ends first, when an error comes
  first, and when a line with a receive timeout is idle.\<close>

lemma recv_all_done:
  assumes "ss fd = Some s" "0 < n" "recv_ref n s = Done (r, q)"
  shows "\<exists>c. tcp_recvAll fd n ss = Done (r, ss(fd := Some (s\<lparr>so_in := q, so_cuts := c\<rparr>)))"
  using assms recv_loop_ref [of "[]" s n]
  by (auto simp: tcp_recvAll_def recv_agrees_def split: outcome.splits) metis+

lemma recv_all_ok:
  assumes "ss fd = Some s" "0 < n" "so_in s = map RxByte bs @ r" "length bs = n"
  shows "\<exists>c. tcp_recvAll fd n ss = Done (RecvOk bs, ss(fd := Some (s\<lparr>so_in := r, so_cuts := c\<rparr>)))"
  using assms by (intro recv_all_done) (auto simp: recv_ref_def leading_bytes)

lemma recv_all_eof:
  assumes "ss fd = Some s" "so_in s = map RxByte bs @ RxEof # r" "length bs < n"
  shows "\<exists>c. tcp_recvAll fd n ss = Done (RecvClosed, ss(fd := Some (s\<lparr>so_in := RxEof # r, so_cuts := c\<rparr>)))"
  using assms by (intro recv_all_done) (auto simp: recv_ref_def leading_all)

lemma recv_all_err:
  assumes "ss fd = Some s" "so_in s = map RxByte bs @ RxErr e # r" "length bs < n"
  shows "\<exists>c. tcp_recvAll fd n ss = Done (RecvFail e, ss(fd := Some (s\<lparr>so_in := r, so_cuts := c\<rparr>)))"
  using assms by (intro recv_all_done) (auto simp: recv_ref_def leading_all)

lemma recv_all_idle:
  assumes "ss fd = Some s" "so_in s = map RxByte bs" "length bs < n" "so_rcvtimeo s"
  shows "\<exists>c. tcp_recvAll fd n ss = Done (RecvFail EAGAIN, ss(fd := Some (s\<lparr>so_in := [], so_cuts := c\<rparr>)))"
  using assms leading_all [of bs n "[]"] by (intro recv_all_done) (auto simp: recv_ref_def)

lemmas recv_all_cases = recv_all_ok recv_all_eof recv_all_err recv_all_idle

lemma recv_ref_total:
  "recv_ref n s \<noteq> Abort" "recv_ref n s = Block \<longleftrightarrow> \<not> so_rcvtimeo s \<and> (\<exists>bs. so_in s = map RxByte bs \<and> length bs < n)"
proof -
  obtain bs r where l: "leading n (so_in s) = (bs, r)" by fastforce
  note short = leading_short [OF l] and len = leading_length [OF l] and split = leading_split [OF l]
  show "recv_ref n s \<noteq> Abort"
    using l short len by (cases "length bs = n") (auto simp: recv_ref_def)
  show "recv_ref n s = Block \<longleftrightarrow> \<not> so_rcvtimeo s \<and> (\<exists>bs. so_in s = map RxByte bs \<and> length bs < n)"
  proof
    assume "recv_ref n s = Block"
    then show "\<not> so_rcvtimeo s \<and> (\<exists>bs. so_in s = map RxByte bs \<and> length bs < n)"
      using l short len split by (cases "length bs = n") (auto simp: recv_ref_def split: if_splits)
  next
    assume "\<not> so_rcvtimeo s \<and> (\<exists>bs. so_in s = map RxByte bs \<and> length bs < n)"
    then show "recv_ref n s = Block"
      using leading_all [of _ n "[]"] by (auto simp: recv_ref_def)
  qed
qed

section \<open>Sending: lemmas\<close>

lemma transmit_sel:
  "ss fd = Some s \<Longrightarrow> so_peer s \<noteq> Some fd \<Longrightarrow> transmit fd bs ss fd = Some (s\<lparr>so_out := so_out s @ bs\<rparr>)"
  "ss fd = Some s \<Longrightarrow> so_peer s = Some p \<Longrightarrow> p \<noteq> fd \<Longrightarrow>
   transmit fd bs ss p = map_option (\<lambda>q. q\<lparr>so_in := so_in q @ map RxByte bs\<rparr>) (ss p)"
  "ss fd = Some s \<Longrightarrow> x \<noteq> fd \<Longrightarrow> so_peer s \<noteq> Some x \<Longrightarrow> transmit fd bs ss x = ss x"
  by (auto simp: transmit_def Let_def split: option.splits)

lemma transmit_Nil: "ss fd = Some s \<Longrightarrow> so_peer s \<noteq> Some fd \<Longrightarrow> transmit fd [] ss = ss"
  by (auto simp: transmit_def Let_def fun_eq_iff option.map_ident split: option.splits)

lemma transmit_append:
  assumes "ss fd = Some s" "so_peer s \<noteq> Some fd"
  shows "transmit fd b ((transmit fd a ss)(fd := Some (s\<lparr>so_out := so_out s @ a, so_tx := tx\<rparr>))) =
    transmit fd (a @ b) (ss(fd := Some (s\<lparr>so_tx := tx\<rparr>)))"
  using assms by (cases "so_peer s") (auto simp: transmit_def Let_def fun_eq_iff option.map_comp o_def)

definition tx_ok :: "tx_item list \<Rightarrow> bool" where
  "tx_ok tx \<longleftrightarrow> list_all (\<lambda>i. case i of TxUpTo _ \<Rightarrow> True | _ \<Rightarrow> False) tx"

lemma tx_ok_subset: "tx_ok tx \<Longrightarrow> set t \<subseteq> set tx \<Longrightarrow> tx_ok t"
  by (auto simp: tx_ok_def list_all_iff)

lemma send_code_error [simp]: "send_code e \<noteq> IOC_RESULT_SUCCESS"
  by (simp add: send_code_def)

text \<open>What sending did: the first \<open>k\<close> bytes are on their way, and \<open>tx\<close> is still to come.\<close>

definition sent_prefix :: "int \<Rightarrow> Socket_T \<Rightarrow> byte list \<Rightarrow> sockets \<Rightarrow> IOC_Result_T \<Rightarrow> sockets \<Rightarrow> bool" where
  "sent_prefix fd s data ss r ss' \<longleftrightarrow> (\<exists>k tx. k \<le> length data \<and> set tx \<subseteq> set (so_tx s) \<and>
     ss' = transmit fd (take k data) (ss(fd := Some (s\<lparr>so_tx := tx\<rparr>))) \<and>
     (r = IOC_RESULT_SUCCESS \<longleftrightarrow> k = length data) \<and> (tx_ok (so_tx s) \<longrightarrow> r = IOC_RESULT_SUCCESS))"

lemma sent_prefix_step:
  assumes "ss fd = Some s" "so_peer s \<noteq> Some fd" "k \<le> length data" "set t \<subseteq> set (so_tx s)"
    and "sent_prefix fd (s\<lparr>so_tx := t, so_out := so_out s @ take k data\<rparr>) (drop k data)
      (transmit fd (take k data) (ss(fd := Some (s\<lparr>so_tx := t\<rparr>)))) r ss'"
  shows "sent_prefix fd s data ss r ss'"
proof -
  let ?s = "s\<lparr>so_tx := t, so_out := so_out s @ take k data\<rparr>"
  obtain j tx where j: "j \<le> length data - k" "set tx \<subseteq> set t"
    "ss' = transmit fd (take j (drop k data)) ((transmit fd (take k data) (ss(fd := Some (s\<lparr>so_tx := t\<rparr>))))
      (fd := Some (?s\<lparr>so_tx := tx\<rparr>)))"
    "r = IOC_RESULT_SUCCESS \<longleftrightarrow> j = length data - k" "tx_ok (so_tx ?s) \<longrightarrow> r = IOC_RESULT_SUCCESS"
    using assms(5) by (auto simp: sent_prefix_def)
  have "ss' = transmit fd (take (k + j) data) (ss(fd := Some (s\<lparr>so_tx := tx\<rparr>)))"
    using j(3) transmit_append [of "ss(fd := Some (s\<lparr>so_tx := t\<rparr>))" fd "s\<lparr>so_tx := t\<rparr>" "take j (drop k data)" "take k data" tx]
      assms(2) by (simp add: take_add)
  then show ?thesis using j assms(3,4) tx_ok_subset [of "so_tx s" t] unfolding sent_prefix_def
    by (intro exI [of _ "k + j"] exI [of _ tx]) auto
qed

lemma send_all_prefix:
  assumes "ss fd = Some s" "so_peer s \<noteq> Some fd"
  shows "case tcp_sendAll fd data ss of
      Done (r, ss') \<Rightarrow> sent_prefix fd s data ss r ss'
    | Abort \<Rightarrow> False
    | Block \<Rightarrow> TxStuck \<in> set (so_tx s)"
  using assms
proof (induction "length data" arbitrary: data ss s rule: less_induct)
  case less
  note fd = less.prems
  show ?case
  proof (cases "data = []")
    case True
    have "sent_prefix fd s [] ss IOC_RESULT_SUCCESS ss" unfolding sent_prefix_def
      using fd by (intro exI [of _ 0] exI [of _ "so_tx s"]) (simp add: transmit_Nil fun_upd_idem)
    then show ?thesis using True by (subst tcp_sendAll.simps) simp
  next
    case False
    have go: ?thesis if k: "0 < k" "k \<le> length data" and t: "set t \<subseteq> set (so_tx s)" and
      send: "sock_send fd data ss = Done (Inr k, transmit fd (take k data) (ss(fd := Some (s\<lparr>so_tx := t\<rparr>))))" for k t
    proof -
      let ?ss = "transmit fd (take k data) (ss(fd := Some (s\<lparr>so_tx := t\<rparr>)))"
      let ?s = "s\<lparr>so_tx := t, so_out := so_out s @ take k data\<rparr>"
      have s1: "?ss fd = Some ?s" using fd by (simp add: transmit_sel)
      have eq: "tcp_sendAll fd data ss = tcp_sendAll fd (drop k data) ?ss"
        using False send by (subst tcp_sendAll.simps) simp
      have "length (drop k data) < length data" using k by simp
      from less.hyps [of "drop k data" ?ss ?s, OF this s1] fd(2) have "case tcp_sendAll fd (drop k data) ?ss of
          Done (r, ss') \<Rightarrow> sent_prefix fd ?s (drop k data) ?ss r ss' | Abort \<Rightarrow> False
          | Block \<Rightarrow> TxStuck \<in> set (so_tx ?s)"
        by (cases "tcp_sendAll fd (drop k data) ?ss") auto
      then show ?thesis unfolding eq using sent_prefix_step [of ss fd s k data t, OF fd k(2) t] t by (auto split: outcome.splits)
    qed
    show ?thesis
    proof (cases "so_tx s")
      case Nil
      then show ?thesis using False fd by (intro go [of "length data" "[]"]) (auto simp: sock_send_def)
    next
      case (Cons i r)
      show ?thesis
      proof (cases i)
        case (TxUpTo m)
        then show ?thesis using Cons False fd
          by (intro go [of "min (Suc m) (length data)" r]) (auto simp: sock_send_def Let_def)
      next
        case (TxErr e)
        have "sent_prefix fd s data ss (send_code e) (ss(fd := Some (s\<lparr>so_tx := r\<rparr>)))" unfolding sent_prefix_def
          using fd Cons TxErr False
          by (intro exI [of _ 0] exI [of _ r]) (auto simp: transmit_Nil tx_ok_def)
        then show ?thesis using Cons TxErr False fd by (subst tcp_sendAll.simps) (simp add: sock_send_def)
      next
        case TxStuck
        then show ?thesis using Cons False fd by (subst tcp_sendAll.simps) (simp add: sock_send_def)
      qed
    qed
  qed
qed

text \<open>On a healthy socket everything is sent.\<close>

lemma send_all_healthy:
  assumes "ss fd = Some s" "so_peer s \<noteq> Some fd" "tx_ok (so_tx s)"
  shows "\<exists>tx. tx_ok tx \<and>
    tcp_sendAll fd data ss = Done (IOC_RESULT_SUCCESS, transmit fd data (ss(fd := Some (s\<lparr>so_tx := tx\<rparr>))))"
proof -
  have "TxStuck \<notin> set (so_tx s)" using assms(3) by (auto simp: tx_ok_def list_all_iff)
  then obtain r ss' where "tcp_sendAll fd data ss = Done (r, ss')" "sent_prefix fd s data ss r ss'"
    using send_all_prefix [of ss fd s data, OF assms(1,2)] by (auto split: outcome.splits)
  then obtain k tx where "set tx \<subseteq> set (so_tx s)" "r = IOC_RESULT_SUCCESS" "k = length data"
    "ss' = transmit fd (take k data) (ss(fd := Some (s\<lparr>so_tx := tx\<rparr>)))"
    using assms(3) by (auto simp: sent_prefix_def)
  then show ?thesis using \<open>tcp_sendAll fd data ss = Done (r, ss')\<close> tx_ok_subset [OF assms(3)]
    by (intro exI [of _ tx]) simp
qed

section \<open>Fixed-width images: the interface\<close>

text \<open>
  A receiver that knows how many bytes come next peels an image off the stream and decodes it.  What it
  gets is \<open>sent x\<close>: the value itself, or, for a descriptor with pointers, the value without what they
  point to.
\<close>

locale wire_image =
  fixes width :: nat
    and ok :: "'a \<Rightarrow> bool"
    and put :: "'a \<Rightarrow> byte list"
    and get :: "byte list \<Rightarrow> 'b"
    and sent :: "'a \<Rightarrow> 'b"
  assumes width_pos: "0 < width"
    and length_put: "ok x \<Longrightarrow> length (put x) = width"
    and get_put: "ok x \<Longrightarrow> get (put x) = sent x"
begin

lemma recv:
  assumes "ss fd = Some s" "so_in s = map RxByte (put x) @ r" "ok x"
  shows "\<exists>c bs. tcp_recvAll fd width ss = Done (RecvOk bs, ss(fd := Some (s\<lparr>so_in := r, so_cuts := c\<rparr>))) \<and>
    get bs = sent x"
  using recv_all_ok [of ss fd s width "put x" r, OF assms(1) width_pos assms(2) length_put [OF assms(3)]] get_put [OF assms(3)] by blast

lemma recv_after_eof:
  assumes "ss fd = Some s" "so_in s = RxEof # r"
  shows "\<exists>c. tcp_recvAll fd width ss = Done (RecvClosed, ss(fd := Some (s\<lparr>so_in := RxEof # r, so_cuts := c\<rparr>)))"
  using recv_all_eof [of ss fd s "[]"] assms width_pos by simp

end

lemma cell_append:
  "length a = 8 \<Longrightarrow> cell (Suc n) (a @ bs) = cell n bs" "length a = 8 \<Longrightarrow> cell 0 (a @ bs) = a"
  by (simp_all add: cell_def)

lemma length_put [simp]:
  "length (put_ulong w) = 8" "length (put_long i) = 8" "length (put_msg m) = 24" "length (put_ptr p) = 8"
  "length (put_ctx c) = 8" "length (put_evt e) = 40" "length (put_header h) = 8" "length (put_usage u) = 4"
  "length (tcp_header t n) = 8" "length (put_payload pl) = 32 + length (cEmdData pl)"
  by (simp_all add: put_ulong_def put_long_def put_msg_def put_ptr_def put_ctx_def put_evt_def put_header_def
      put_usage_def tcp_header_def put_payload_def)

lemma header_put [simp]: "get_header (put_header h) = h"
  by (cases h) (simp add: get_header_def put_header_def)

lemma header_get [simp]: "get_header (tcp_header t n) = \<lparr>MsgType = msg_type t, DataSize = ucast n\<rparr>"
  by (simp add: tcp_header_def)

lemma ulong_put [simp]: "get_ulong (put_ulong w) = w"
  by (simp add: get_ulong_def put_ulong_def)

definition long_ok :: "int \<Rightarrow> bool" where "long_ok i \<longleftrightarrow> - (2 ^ 63) \<le> i \<and> i < 2 ^ 63"

lemma long_put [simp]: "long_ok i \<Longrightarrow> get_long (put_long i) = i"
  by (simp add: get_long_def put_long_def long_ok_def sint_sbintrunc' signed_take_bit_int_eq_self)

definition msg_ok :: "IOC_MsgDesc_T \<Rightarrow> bool" where
  "msg_ok m \<longleftrightarrow> long_ok (tv_sec (TimeStamp m)) \<and> long_ok (tv_nsec (TimeStamp m))"

lemma msg_put: "msg_ok m \<Longrightarrow> get_msg (put_msg m @ bs) = m"
  by (simp add: msg_ok_def get_msg_def put_msg_def cell_append cell_def numeral_eq_Suc)

definition far_payload :: "IOC_CmdPayload_T \<Rightarrow> IOC_CmdPayload_T" where
  "far_payload p = p\<lparr>cpData := map_option (\<lambda>_. []) (cpData p)\<rparr>"

text \<open>A command descriptor as the other side sees it.\<close>

definition far_cmd :: "IOC_CmdDesc_T \<Rightarrow> IOC_CmdDesc_T" where
  "far_cmd c = c\<lparr>InPayload := far_payload (InPayload c), OutPayload := far_payload (OutPayload c)\<rparr>"

definition cmd_ok :: "IOC_CmdDesc_T \<Rightarrow> bool" where
  "cmd_ok c \<longleftrightarrow> msg_ok (CmdMsgDesc c) \<and> length (cEmdData (InPayload c)) = 64 \<and>
     length (cEmdData (OutPayload c)) = 64 \<and>
     (case pExecContext c of None \<Rightarrow> True | Some p \<Rightarrow> p < 2 ^ 64 - 1)"

lemma status_put: "get_status (le_bytes 4 (cmd_status s)) = Some s"
  by (cases s) (simp_all add: get_status_def)

lemma result_put: "get_result (le_bytes 4 (word_of_int (result_code r) :: 32 word)) = Some r"
proof -
  have "sint (word_of_int (result_code r) :: 32 word) = result_code r" by (cases r) simp_all
  then show ?thesis by (cases r) (simp_all add: get_result_def all_results_def)
qed

lemma ptr_put: "get_ptr (put_ptr p) = map_option (\<lambda>_. []) p"
  by (cases p) (simp_all add: get_ptr_def put_ptr_def)

lemma ctx_put:
  assumes "case c of None \<Rightarrow> True | Some p \<Rightarrow> p < 2 ^ 64 - 1"
  shows "get_ctx (put_ctx c) = c"
proof (cases c)
  case (Some p)
  then have "unat (of_nat (Suc p) :: ULONG) = Suc p" using assms by (simp add: unat_of_nat del: of_nat_Suc)
  moreover from this have "(of_nat (Suc p) :: ULONG) \<noteq> 0" by (metis nat.distinct(1) unat_0)
  ultimately show ?thesis using Some by (simp add: get_ctx_def put_ctx_def del: of_nat_Suc)
qed (simp add: get_ctx_def put_ctx_def)

lemma payload_put:
  assumes "length (cEmdData p) = 64"
  shows "get_payload (put_payload p) = far_payload p"
proof -
  have "put_payload p = put_ptr (cpData p) @ put_ulong (cPtrDataSize p) @ put_ulong (cPtrDataLen p) @
      put_ulong (cEmdDataSize p) @ cEmdData p" by (rule put_payload_def)
  moreover have "drop 32 (put_payload p) = cEmdData p" by (simp add: put_payload_def)
  ultimately show ?thesis using assms
    by (simp add: get_payload_def far_payload_def cell_append numeral_eq_Suc ptr_put)
qed

text \<open>The cells of an image that begin after the first \<open>k\<close>.\<close>

lemma cell_drop: "length a = 8 * k \<Longrightarrow> cell (k + n) (a @ bs) = cell n bs"
  by (simp add: cell_def)

lemma cmd_put:
  assumes "cmd_ok c"
  shows "length (put_cmd c) = 248" "get_cmd (put_cmd c) = Some (far_cmd c)"
proof -
  have e: "length (cEmdData (InPayload c)) = 64" "length (cEmdData (OutPayload c)) = 64"
    and m: "msg_ok (CmdMsgDesc c)" using assms by (simp_all add: cmd_ok_def)
  show "length (put_cmd c) = 248" using e by (simp add: put_cmd_def)
  define a where "a = put_msg (CmdMsgDesc c) @ put_ulong (CmdID c) @ le_bytes 4 (cmd_status (Status c)) @
     le_bytes 4 (word_of_int (result_code (CmdResult c)) :: 32 word) @ put_payload (InPayload c) @ put_payload (OutPayload c)"
  have split: "put_cmd c = a @ put_ulong (TimeoutMs c) @ put_ctx (pExecContext c)" by (simp add: put_cmd_def a_def)
  have a: "length a = 8 * 29" using e by (simp add: a_def)
  have "cell 29 (put_cmd c) = put_ulong (TimeoutMs c)" "cell 30 (put_cmd c) = put_ctx (pExecContext c)"
    using a by (simp_all add: split cell_def)
  moreover have "cell 3 (put_cmd c) = put_ulong (CmdID c)" by (simp add: cell_def put_cmd_def)
  moreover have "take 4 (drop 32 (put_cmd c)) = le_bytes 4 (cmd_status (Status c))"
    "take 4 (drop 36 (put_cmd c)) = le_bytes 4 (word_of_int (result_code (CmdResult c)) :: 32 word)"
    "take 96 (drop 40 (put_cmd c)) = put_payload (InPayload c)"
    "take 96 (drop 136 (put_cmd c)) = put_payload (OutPayload c)"
    using e by (simp_all add: put_cmd_def)
  moreover have "get_msg (put_cmd c) = CmdMsgDesc c" using msg_put [OF m] by (simp add: put_cmd_def)
  ultimately show "get_cmd (put_cmd c) = Some (far_cmd c)"
    using e ctx_put [of "pExecContext c"] assms
    by (simp add: get_cmd_def status_put result_put payload_put far_cmd_def cmd_ok_def)
qed

lemma evt_put: "msg_ok (MsgDesc e) \<Longrightarrow> get_evt (put_evt e) = e"
  by (simp add: get_evt_def put_evt_def msg_put) (simp add: put_msg_def cell_append cell_def numeral_eq_Suc)

interpretation header: wire_image 8 "\<lambda>_. True" put_header get_header id
  by unfold_locales auto

interpretation usage: wire_image 4 "\<lambda>_. True" put_usage get_usage id
  by unfold_locales (auto simp: get_usage_def put_usage_def)

interpretation evt: wire_image sizeof_EvtDesc "\<lambda>e. msg_ok (MsgDesc e)" put_evt get_evt id
  by unfold_locales (auto simp: evt_put sizeof_EvtDesc_def)

interpretation cmd: wire_image sizeof_CmdDesc cmd_ok put_cmd get_cmd "\<lambda>c. Some (far_cmd c)"
  by unfold_locales (auto simp: cmd_put sizeof_CmdDesc_def)

section \<open>Properties\<close>

text \<open>C30: The receive loop ends, however the stream is cut into segments, unless fewer bytes than it
  wants and nothing else have come on a socket without receive timeout.  With enough bytes it answers
  exactly the first \<open>n\<close> and leaves the rest.  When the stream ends first, the link is broken; when an
  error is met first, it answers that error, of which a reset, aborted or broken connection is reported as
  a broken link, a timed out one as a timeout, and any other as an internal error; and an idle line with a
  receive timeout is reported as an internal error too.\<close>

theorem tcp_recv_returns:
  assumes "ss fd = Some s" "0 < n"
  shows "tcp_recvAll fd n ss \<noteq> Abort \<and>
    (tcp_recvAll fd n ss = Block \<longleftrightarrow> \<not> so_rcvtimeo s \<and> (\<exists>bs. so_in s = map RxByte bs \<and> length bs < n)) \<and>
    (\<forall>bs r. so_in s = map RxByte bs @ r \<and> length bs = n \<longrightarrow>
       (\<exists>c. tcp_recvAll fd n ss = Done (RecvOk bs, ss(fd := Some (s\<lparr>so_in := r, so_cuts := c\<rparr>)))) \<and>
       recv_code (RecvOk bs) = IOC_RESULT_SUCCESS) \<and>
    (\<forall>bs r. so_in s = map RxByte bs @ RxEof # r \<and> length bs < n \<longrightarrow>
       (\<exists>c. tcp_recvAll fd n ss = Done (RecvClosed, ss(fd := Some (s\<lparr>so_in := RxEof # r, so_cuts := c\<rparr>)))) \<and>
       recv_code RecvClosed = IOC_RESULT_LINK_BROKEN) \<and>
    (\<forall>bs e r. so_in s = map RxByte bs @ RxErr e # r \<and> length bs < n \<longrightarrow>
       (\<exists>c. tcp_recvAll fd n ss = Done (RecvFail e, ss(fd := Some (s\<lparr>so_in := r, so_cuts := c\<rparr>)))) \<and>
       recv_code (RecvFail e) = (if e \<in> {ECONNRESET, ECONNABORTED, EPIPE} then IOC_RESULT_LINK_BROKEN
         else if e = ETIMEDOUT then IOC_RESULT_TIMEOUT else IOC_RESULT_BUG)) \<and>
    (\<forall>bs. so_in s = map RxByte bs \<and> length bs < n \<and> so_rcvtimeo s \<longrightarrow>
       (\<exists>c. tcp_recvAll fd n ss = Done (RecvFail EAGAIN, ss(fd := Some (s\<lparr>so_in := [], so_cuts := c\<rparr>)))) \<and>
       recv_code (RecvFail EAGAIN) = IOC_RESULT_BUG)"
proof -
  have "tcp_recvAll fd n ss \<noteq> Abort" "tcp_recvAll fd n ss = Block \<longleftrightarrow> recv_ref n s = Block"
    using assms recv_loop_ref [of "[]" s n] recv_ref_total(1) [of n s]
    by (auto simp: tcp_recvAll_def recv_agrees_def split: outcome.splits)
  moreover have "recv_code (RecvOk bs) = IOC_RESULT_SUCCESS" "recv_code RecvClosed = IOC_RESULT_LINK_BROKEN"
    "recv_code (RecvFail e) = (if e \<in> {ECONNRESET, ECONNABORTED, EPIPE} then IOC_RESULT_LINK_BROKEN
         else if e = ETIMEDOUT then IOC_RESULT_TIMEOUT else IOC_RESULT_BUG)" for bs e
    by (simp_all add: recv_code_def)
  ultimately show ?thesis using recv_ref_total(2) [of n s] recv_all_ok [of ss fd s n, OF assms]
      recv_all_eof [of ss fd s, OF assms(1)] recv_all_err [of ss fd s, OF assms(1)] recv_all_idle [of ss fd s, OF assms(1)]
    by simp
qed

text \<open>Two connected sockets, for examples.\<close>

definition sock0 :: Socket_T where
  "sock0 = \<lparr>so_in = [], so_cuts = [], so_tx = [], so_out = [], so_peer = None, so_rcvtimeo = False\<rparr>"

definition pair_sockets :: "tx_item list \<Rightarrow> nat list \<Rightarrow> sockets" where
  "pair_sockets tx cuts = (\<lambda>_. None)(3 := Some (sock0\<lparr>so_tx := tx, so_peer := Some 4\<rparr>),
     4 := Some (sock0\<lparr>so_cuts := cuts, so_peer := Some 3\<rparr>))"

text \<open>A socket on which two bytes and then a reset have come, in segments of one byte.\<close>

definition reset_sockets :: sockets where
  "reset_sockets = (\<lambda>_. None)(4 := Some (sock0\<lparr>so_in := [RxByte 1, RxByte 2, RxErr ECONNRESET], so_cuts := [0, 0]\<rparr>))"

theorem tcp_recv_returns_witness:
  "tcp_recvAll 4 2 (pair_sockets [] []) = Block \<and>
   (\<exists>ss. tcp_recvAll 4 2 reset_sockets = Done (RecvOk [1, 2], ss)) \<and>
   (\<exists>ss. tcp_recvAll 4 3 reset_sockets = Done (RecvFail ECONNRESET, ss)) \<and>
   recv_code (RecvFail ECONNRESET) = IOC_RESULT_LINK_BROKEN"
proof -
  have s: "reset_sockets 4 = Some (sock0\<lparr>so_in := [RxByte 1, RxByte 2, RxErr ECONNRESET], so_cuts := [0, 0]\<rparr>)"
    by (simp add: reset_sockets_def)
  have "tcp_recvAll 4 2 (pair_sockets [] []) = Block"
    using tcp_recv_returns [of "pair_sockets [] []" 4 "sock0\<lparr>so_peer := Some 3\<rparr>" 2] by (simp add: pair_sockets_def sock0_def)
  moreover have "\<exists>ss. tcp_recvAll 4 2 reset_sockets = Done (RecvOk [1, 2], ss)"
    using tcp_recv_returns [where ss = reset_sockets and fd = 4 and n = 2, OF s, THEN conjunct2, THEN conjunct2, THEN conjunct1, rule_format, of "[1, 2]" "[RxErr ECONNRESET]"] by auto
  moreover have "(\<exists>ss. tcp_recvAll 4 3 reset_sockets = Done (RecvFail ECONNRESET, ss)) \<and>
      recv_code (RecvFail ECONNRESET) = IOC_RESULT_LINK_BROKEN"
    using tcp_recv_returns [where ss = reset_sockets and fd = 4 and n = 3, OF s, THEN conjunct2, THEN conjunct2, THEN conjunct2, THEN conjunct2, THEN conjunct1, rule_format,
        of "[1, 2]" ECONNRESET "[]"] by auto
  ultimately show ?thesis by blast
qed

text \<open>The send loop puts a prefix of the data on its way, in order and without gaps, and reports
  success exactly when that is all of it; it never ends the process, and it waits for ever only when
  the other side has stopped reading.\<close>

theorem tcp_send_exact:
  assumes "ss fd = Some s" "so_peer s = Some p" "p \<noteq> fd" "ss p = Some q"
  shows "case tcp_sendAll fd data ss of
      Done (r, ss') \<Rightarrow> (\<exists>k\<le>length data. (r = IOC_RESULT_SUCCESS \<longleftrightarrow> k = length data) \<and>
        map_option so_out (ss' fd) = Some (so_out s @ take k data) \<and>
        ss' p = Some (q\<lparr>so_in := so_in q @ map RxByte (take k data)\<rparr>))
    | Abort \<Rightarrow> False
    | Block \<Rightarrow> TxStuck \<in> set (so_tx s)"
proof -
  have self: "so_peer s \<noteq> Some fd" using assms by simp
  have effect: "map_option so_out (transmit fd d (ss(fd := Some (s\<lparr>so_tx := tx\<rparr>))) fd) = Some (so_out s @ d)"
    "transmit fd d (ss(fd := Some (s\<lparr>so_tx := tx\<rparr>))) p = Some (q\<lparr>so_in := so_in q @ map RxByte d\<rparr>)" for d tx
    using assms by (simp_all add: transmit_sel [where s = "s\<lparr>so_tx := tx\<rparr>"])
  show ?thesis using send_all_prefix [of ss fd s data, OF assms(1) self] effect
    by (auto simp: sent_prefix_def split: outcome.splits)
qed

theorem tcp_send_exact_witness:
  "case tcp_sendAll 3 [1, 2, 3] (pair_sockets [TxUpTo 1, TxErr EPIPE] []) of
      Done (r, ss') \<Rightarrow> (\<exists>k\<le>length [1, 2, 3::byte]. (r = IOC_RESULT_SUCCESS \<longleftrightarrow> k = length [1, 2, 3::byte]) \<and>
        map_option so_out (ss' 3) = Some ([] @ take k [1, 2, 3]) \<and>
        ss' 4 = Some (sock0\<lparr>so_peer := Some 3, so_in := [] @ map RxByte (take k [1, 2, 3])\<rparr>))
    | Abort \<Rightarrow> False | Block \<Rightarrow> False"
  using tcp_send_exact [of "pair_sockets [TxUpTo 1, TxErr EPIPE] []" 3 "sock0\<lparr>so_tx := [TxUpTo 1, TxErr EPIPE], so_peer := Some 4\<rparr>" 4
      "sock0\<lparr>so_peer := Some 3\<rparr>" "[1, 2, 3]"]
  by (simp add: pair_sockets_def sock0_def cong: outcome.case_cong)

text \<open>C31: A command descriptor sent as a header and a memory image, over a connection that may cut the
  stream anywhere, is received as that header and that descriptor, whatever follows it; of the blocks its
  payload pointers name nothing arrives.\<close>

theorem tcp_cmd_image_roundtrip:
  assumes "ss fd = Some s" "so_peer s = Some p" "p \<noteq> fd" "ss p = Some q" "so_in q = []" "tx_ok (so_tx s)" "cmd_ok c"
  shows "\<exists>ss1 ss2 ss3 hd bs q'.
    tcp_sendAll fd (tcp_header TCP_MSG_COMMAND (of_nat sizeof_CmdDesc) @ put_cmd c @ tail) ss = Done (IOC_RESULT_SUCCESS, ss1) \<and>
    tcp_recvAll p 8 ss1 = Done (RecvOk hd, ss2) \<and>
    get_header hd = \<lparr>MsgType = msg_type TCP_MSG_COMMAND, DataSize = 248\<rparr> \<and>
    tcp_recvAll p sizeof_CmdDesc ss2 = Done (RecvOk bs, ss3) \<and> get_cmd bs = Some (far_cmd c) \<and>
    ss3 p = Some q' \<and> so_in q' = map RxByte tail"
proof -
  let ?h = "\<lparr>MsgType = msg_type TCP_MSG_COMMAND, DataSize = 248\<rparr>"
  let ?d = "tcp_header TCP_MSG_COMMAND (of_nat sizeof_CmdDesc) @ put_cmd c @ tail"
  have h: "tcp_header TCP_MSG_COMMAND (of_nat sizeof_CmdDesc) = put_header ?h"
    by (simp add: tcp_header_def sizeof_CmdDesc_def)
  have self: "so_peer s \<noteq> Some fd" using assms by simp
  obtain tx where send: "tcp_sendAll fd ?d ss = Done (IOC_RESULT_SUCCESS, transmit fd ?d (ss(fd := Some (s\<lparr>so_tx := tx\<rparr>))))"
    using send_all_healthy [of ss fd s ?d, OF assms(1) self assms(6)] by blast
  let ?ss = "transmit fd ?d (ss(fd := Some (s\<lparr>so_tx := tx\<rparr>)))"
  let ?q = "q\<lparr>so_in := map RxByte ?d\<rparr>"
  have q: "?ss p = Some ?q" using assms by (simp add: transmit_sel [where s = "s\<lparr>so_tx := tx\<rparr>"])
  have "so_in ?q = map RxByte (put_header ?h) @ map RxByte (put_cmd c @ tail)" using h by simp
  from header.recv [of ?ss p ?q, OF q this TrueI] obtain k1 hd where
    1: "tcp_recvAll p 8 ?ss = Done (RecvOk hd, ?ss(p := Some (?q\<lparr>so_in := map RxByte (put_cmd c @ tail), so_cuts := k1\<rparr>)))"
      "get_header hd = ?h" by auto
  let ?q2 = "?q\<lparr>so_in := map RxByte (put_cmd c @ tail), so_cuts := k1\<rparr>"
  have "(?ss(p := Some ?q2)) p = Some ?q2" "so_in ?q2 = map RxByte (put_cmd c) @ map RxByte tail" by simp_all
  from cmd.recv [of "?ss(p := Some ?q2)" p ?q2, OF this assms(7)] send 1 show ?thesis by fastforce
qed

theorem tcp_cmd_image_roundtrip_witness:
  "\<exists>ss1. tcp_sendAll 3 (tcp_header TCP_MSG_COMMAND (of_nat sizeof_CmdDesc) @ put_cmd zero_cmd @ [])
      (pair_sockets [TxUpTo 5] [0, 2]) = Done (IOC_RESULT_SUCCESS, ss1)"
  using tcp_cmd_image_roundtrip [of "pair_sockets [TxUpTo 5] [0, 2]" 3 "sock0\<lparr>so_tx := [TxUpTo 5], so_peer := Some 4\<rparr>" 4
      "sock0\<lparr>so_cuts := [0, 2], so_peer := Some 3\<rparr>" zero_cmd "[]"]
  by (auto simp: pair_sockets_def sock0_def tx_ok_def cmd_ok_def zero_cmd_def zero_payload_def msg_ok_def zero_msg_def long_ok_def)

end
