(* ===== verification/TcpLink.thy ===== *)
theory TcpLink
  imports FifoLink TcpWire
begin

text \<open>
  \<^verbatim>\<open>src/Source/_IOC_SrvProtoTCP.c\<close>, part one: the objects of the TCP protocol, going online and
  offline, connecting, accepting and closing.  The state of the protocol extends that of the FIFO
  protocol, since the library runs both side by side.  The protocol's mutex is held only for a few
  assignments at a time and never across a call that waits or runs user code, so that every piece of
  code between two waits is atomic here.
\<close>

section \<open>Objects\<close>

text \<open>\<open>SocketFd\<close> is \<open>-1\<close> once the link is closed.  The thread identifier and the condition variables
  carry no data.\<close>

record TcpLinkObject_T =
  tOwnerLinkObj :: nat
  SocketFd :: int
  tSubEvtArgs :: IOC_SubEvtArgs_T
  tCmdUsageArgs :: "nat option \<times> nat"
  tDatUsageArgs :: IOC_DatUsageArgs_T
  CmdResponseReady :: bool
  CmdResponse :: IOC_CmdDesc_T
  RecvError :: IOC_Result_T
  IncomingCmdQueue :: "IOC_CmdDesc_T list"
  IncomingCmdHead :: nat
  IncomingCmdTail :: nat
  IncomingCmdCount :: nat
  RecvThreadRunning :: bool
  PeerHasSubscription :: bool
  tPollingBuffer :: PollingBuffer_T

record TcpServiceObject_T =
  tSrvObj :: nat
  ListenSocketFd :: int
  tPort :: "16 word"

text \<open>A listening socket of the process: its port and the accepted ends of the connections that nobody
  has fetched yet.\<close>

record Listener_T =
  li_port :: "16 word"
  li_pending :: "int list"

text \<open>\<open>recv_threads\<close>: the TCP links whose receiver thread is in its loop.  \<open>tcp_log\<close> is where a callback
  may note its invocation: callback, private data, link and bytes.\<close>

record tcp_state = fifo_state +
  TcpLinks :: "nat \<Rightarrow> TcpLinkObject_T option"
  TcpSrvs :: "nat \<Rightarrow> TcpServiceObject_T option"
  next_tcp :: nat
  Socks :: sockets
  Listeners :: "(int \<times> Listener_T) list"
  next_fd :: int
  recv_threads :: "nat list"
  tcp_log :: "(nat \<times> nat \<times> ULONG \<times> byte list) list"

type_synonym 'x tcp_world = "'x tcp_state_scheme ioc_world"

section \<open>Following and changing pointers\<close>

definition tderef :: "nat \<Rightarrow> 'x tcp_world \<Rightarrow> (TcpLinkObject_T \<Rightarrow> 'b outcome) \<Rightarrow> 'b outcome" where
  "tderef f w k = (case TcpLinks (proto w) f of None \<Rightarrow> Abort | Some l \<Rightarrow> k l)"

definition setTcp ::
  "nat \<Rightarrow> (TcpLinkObject_T \<Rightarrow> TcpLinkObject_T) \<Rightarrow> 'x tcp_world \<Rightarrow> 'x tcp_world" where
  "setTcp f g w = w\<lparr>proto := (proto w)\<lparr>TcpLinks :=
     (TcpLinks (proto w))(f := map_option g (TcpLinks (proto w) f))\<rparr>\<rparr>"

definition setSocks :: "sockets \<Rightarrow> 'x tcp_world \<Rightarrow> 'x tcp_world" where
  "setSocks ss w = w\<lparr>proto := (proto w)\<lparr>Socks := ss\<rparr>\<rparr>"

definition setListeners :: "(int \<times> Listener_T) list \<Rightarrow> 'x tcp_world \<Rightarrow> 'x tcp_world" where
  "setListeners ls w = w\<lparr>proto := (proto w)\<lparr>Listeners := ls\<rparr>\<rparr>"

definition free_tcp_link :: "nat \<Rightarrow> 'x tcp_world \<Rightarrow> 'x tcp_world" where
  "free_tcp_link f w = w\<lparr>proto := (proto w)\<lparr>TcpLinks := (TcpLinks (proto w))(f := None)\<rparr>\<rparr>"

definition sendW :: "int \<Rightarrow> byte list \<Rightarrow> 'x tcp_world \<Rightarrow> (IOC_Result_T \<times> 'x tcp_world) outcome" where
  "sendW fd bs w = bindO (tcp_sendAll fd bs (Socks (proto w))) (\<lambda>(r, ss). Done (r, setSocks ss w))"

definition recvW :: "int \<Rightarrow> nat \<Rightarrow> 'x tcp_world \<Rightarrow> (recv_end \<times> 'x tcp_world) outcome" where
  "recvW fd n w = bindO (tcp_recvAll fd n (Socks (proto w))) (\<lambda>(r, ss). Done (r, setSocks ss w))"

section \<open>Sockets that come and go\<close>

text \<open>\<^verbatim>\<open>close\<close>: the other end finds the end of the stream after what has been sent.\<close>

definition close_fd :: "int \<Rightarrow> sockets \<Rightarrow> sockets" where
  "close_fd fd ss = (case ss fd of None \<Rightarrow> ss
   | Some s \<Rightarrow> let ss1 = ss(fd := None) in (case so_peer s of
       None \<Rightarrow> ss1
     | Some p \<Rightarrow> ss1(p := map_option (\<lambda>q. q\<lparr>so_in := so_in q @ [RxEof]\<rparr>) (ss1 p))))"

definition closeW :: "int \<Rightarrow> 'x tcp_world \<Rightarrow> 'x tcp_world" where
  "closeW fd w = setSocks (close_fd fd (Socks (proto w))) w"

text \<open>Closing a listening socket resets the connections nobody has fetched.\<close>

definition reset_fd :: "int \<Rightarrow> sockets \<Rightarrow> sockets" where
  "reset_fd fd ss = (case ss fd of None \<Rightarrow> ss
   | Some s \<Rightarrow> let ss1 = ss(fd := None) in (case so_peer s of
       None \<Rightarrow> ss1
     | Some p \<Rightarrow> ss1(p := map_option (\<lambda>q. q\<lparr>so_in := so_in q @ [RxErr ECONNRESET]\<rparr>) (ss1 p))))"

definition close_listener :: "int \<Rightarrow> 'x tcp_world \<Rightarrow> 'x tcp_world" where
  "close_listener fd w = (case map_of (Listeners (proto w)) fd of
     None \<Rightarrow> w
   | Some l \<Rightarrow> setListeners (filter (\<lambda>(k, _). k \<noteq> fd) (Listeners (proto w)))
       (setSocks (fold reset_fd (li_pending l) (Socks (proto w))) w))"

text \<open>The service that listens on a port of this machine.  Port 0 stands for one the kernel chooses, to
  which nobody can connect by that number.\<close>

definition listening :: "16 word \<Rightarrow> 'x tcp_world \<Rightarrow> int option" where
  "listening port w = (if port = 0 then None
     else map_option fst (find (\<lambda>(_, l). li_port l = port) (Listeners (proto w))))"

text \<open>\<^verbatim>\<open>connect\<close> to the listening socket \<open>lfd\<close>: a pair of sockets, whose other end waits to be fetched by
  \<^verbatim>\<open>accept\<close>.  \<open>fd\<close> is the descriptor of the caller; \<open>net\<close> is how the connection will cut and fail.\<close>

record net_script =
  ns_tx :: "tx_item list"
  ns_cuts :: "nat list"
  ns_peer_tx :: "tx_item list"
  ns_peer_cuts :: "nat list"

definition connect_fd :: "net_script \<Rightarrow> bool \<Rightarrow> int \<Rightarrow> int \<Rightarrow> 'x tcp_world \<Rightarrow> 'x tcp_world" where
  "connect_fd net rcvtimeo fd lfd w = (let p = next_fd (proto w);
       c = \<lparr>so_in = [], so_cuts = ns_cuts net, so_tx = ns_tx net, so_out = [], so_peer = Some p, so_rcvtimeo = rcvtimeo\<rparr>;
       s = \<lparr>so_in = [], so_cuts = ns_peer_cuts net, so_tx = ns_peer_tx net, so_out = [], so_peer = Some fd, so_rcvtimeo = False\<rparr>;
       w1 = setSocks ((Socks (proto w))(fd := Some c, p := Some s)) w;
       w2 = setListeners (map (\<lambda>(k, l). (k, if k = lfd then l\<lparr>li_pending := li_pending l @ [p]\<rparr> else l))
              (Listeners (proto w1))) w1
     in w2\<lparr>proto := (proto w2)\<lparr>next_fd := p + 1\<rparr>\<rparr>)"

section \<open>What the environment supplies\<close>

text \<open>Answers of the C library and the kernel, and what user code does: callbacks determine how they
  change the world, including by calls into the library.\<close>

type_synonym 'x tcp_evt_callback = "nat \<Rightarrow> nat \<Rightarrow> IOC_EvtDesc_T \<Rightarrow> 'x tcp_world \<Rightarrow> 'x tcp_world outcome"
type_synonym 'x tcp_dat_callback =
  "nat \<Rightarrow> nat \<Rightarrow> ULONG \<Rightarrow> IOC_DatDesc_T \<Rightarrow> 'x tcp_world \<Rightarrow> 'x tcp_world outcome"
type_synonym 'x tcp_cmd_callback =
  "nat \<Rightarrow> nat \<Rightarrow> ULONG \<Rightarrow> IOC_CmdDesc_T \<Rightarrow> 'x tcp_world \<Rightarrow> (IOC_Result_T \<times> IOC_CmdDesc_T \<times> 'x tcp_world) outcome"

text \<open>\<open>te_errno\<close> is a value of \<^verbatim>\<open>errno\<close> that an earlier call has left behind.  \<open>te_malloc n\<close>: a block of
  \<open>n\<close> bytes can be allocated.  The last fields are the turns of the other threads while a call waits.\<close>

record 'x tcp_env =
  te_mem :: bool
  te_poll :: "byte list option"
  te_socket :: bool
  te_bind :: bool
  te_listen :: bool
  te_rcvtimeo :: bool
  te_sndtimeo :: bool
  te_connect :: "errno option"
  te_net :: net_script
  te_errno :: errno
  te_select :: bool
  te_accept :: "errno option"
  te_thread :: bool
  te_malloc :: "nat \<Rightarrow> bool"
  te_evt :: "'x tcp_evt_callback"
  te_dat :: "'x tcp_dat_callback"
  te_cmd :: "'x tcp_cmd_callback"
  te_others :: "'x tcp_world \<Rightarrow> 'x tcp_world outcome"
  te_exec :: "(bool \<times> ('x tcp_world \<Rightarrow> 'x tcp_world outcome)) list"
  te_waitcmd :: "(bool \<times> ('x tcp_world \<Rightarrow> 'x tcp_world outcome)) list"
  te_recv :: "(bool \<times> ('x tcp_world \<Rightarrow> 'x tcp_world outcome)) list"

section \<open>Services\<close>

definition onlineService_ofProtoTCP ::
  "'x tcp_env \<Rightarrow> nat \<Rightarrow> 'x tcp_world \<Rightarrow> (IOC_Result_T \<times> 'x tcp_world) outcome" where
  "onlineService_ofProtoTCP env i w =
    (if \<not> te_mem env then Done (IOC_RESULT_POSIX_ENOMEM, w)
     else derefSrv i w (\<lambda>s.
       let port = Port (SrvURI s) in
       if \<not> te_socket env then Done (IOC_RESULT_BUG, w)
       else if \<not> te_bind env \<or> listening port w \<noteq> None then Done (IOC_RESULT_BUG, w)
       else if \<not> te_listen env then Done (IOC_RESULT_BUG, w)
       else let fd = next_fd (proto w); t = next_tcp (proto w);
            w1 = setListeners (Listeners (proto w) @ [(fd, \<lparr>li_port = port, li_pending = []\<rparr>)]) w;
            w2 = w1\<lparr>proto := (proto w1)\<lparr>next_fd := fd + 1, next_tcp := t + 1,
                   TcpSrvs := (TcpSrvs (proto w1))(t := Some \<lparr>tSrvObj = i, ListenSocketFd = fd, tPort = port\<rparr>)\<rparr>\<rparr>
       in Done (IOC_RESULT_SUCCESS, setSrv i (\<lambda>s. s\<lparr>SrvProtoPriv := Some t\<rparr>) w2)))"

definition offlineService_ofProtoTCP ::
  "nat \<Rightarrow> 'x tcp_world \<Rightarrow> (IOC_Result_T \<times> 'x tcp_world) outcome" where
  "offlineService_ofProtoTCP i w = derefSrv i w (\<lambda>s. case SrvProtoPriv s of
     None \<Rightarrow> Done (IOC_RESULT_SUCCESS, w)
   | Some t \<Rightarrow> (case TcpSrvs (proto w) t of
       None \<Rightarrow> Abort
     | Some ts \<Rightarrow>
         let w1 = (if ListenSocketFd ts \<ge> 0 then close_listener (ListenSocketFd ts) w else w);
             w2 = w1\<lparr>proto := (proto w1)\<lparr>TcpSrvs := (TcpSrvs (proto w1))(t := None)\<rparr>\<rparr>
         in Done (IOC_RESULT_SUCCESS, setSrv i (\<lambda>s. s\<lparr>SrvProtoPriv := None\<rparr>) w2)))"

section \<open>New links\<close>

definition fresh_tcp_link :: "nat \<Rightarrow> PollingBuffer_T \<Rightarrow> TcpLinkObject_T" where
  "fresh_tcp_link owner pb = \<lparr>tOwnerLinkObj = owner, SocketFd = 0, tSubEvtArgs = no_sub, tCmdUsageArgs = (None, 0),
     tDatUsageArgs = \<lparr>duCbRecvDat_F = None, duCbPrivData = 0\<rparr>, CmdResponseReady = False, CmdResponse = zero_cmd,
     RecvError = IOC_RESULT_SUCCESS, IncomingCmdQueue = replicate 16 zero_cmd, IncomingCmdHead = 0,
     IncomingCmdTail = 0, IncomingCmdCount = 0, RecvThreadRunning = False, PeerHasSubscription = False,
     tPollingBuffer = pb\<rparr>"

definition new_tcp_link :: "'x tcp_env \<Rightarrow> nat \<Rightarrow> IOC_Result_T + TcpLinkObject_T" where
  "new_tcp_link env owner = (if \<not> te_mem env then Inl IOC_RESULT_POSIX_ENOMEM
     else let (r, pb) = tcp_initPollingBuffer (te_poll env) zero_pbuf
       in if r \<noteq> IOC_RESULT_SUCCESS then Inl IOC_RESULT_POSIX_ENOMEM else Inr (fresh_tcp_link owner pb))"

text \<open>The link object gets the socket and is stored in the library's link.\<close>

definition attach_tcp_link :: "TcpLinkObject_T \<Rightarrow> int \<Rightarrow> nat \<Rightarrow> 'x tcp_world \<Rightarrow> nat \<times> 'x tcp_world" where
  "attach_tcp_link l fd link w = (let f = next_tcp (proto w);
       w1 = w\<lparr>proto := (proto w)\<lparr>TcpLinks := (TcpLinks (proto w))(f := Some (l\<lparr>SocketFd := fd\<rparr>)), next_tcp := f + 1\<rparr>\<rparr>
     in (f, setLink link (\<lambda>l. l\<lparr>pProtoPriv := Some f\<rparr>) w1))"

text \<open>The failure paths close the socket and free the object, but leave its address in the library's
  link.\<close>

definition drop_tcp_link :: "nat \<Rightarrow> int \<Rightarrow> 'x tcp_world \<Rightarrow> 'x tcp_world" where
  "drop_tcp_link f fd w = free_tcp_link f (closeW fd w)"

definition set_dat_usage :: "IOC_DatUsageArgs_T option \<Rightarrow> TcpLinkObject_T \<Rightarrow> TcpLinkObject_T" where
  "set_dat_usage d l = (let d' = (case d of None \<Rightarrow> \<lparr>duCbRecvDat_F = None, duCbPrivData = 0\<rparr> | Some d \<Rightarrow> d);
       l1 = l\<lparr>tDatUsageArgs := d'\<rparr>
     in if duCbRecvDat_F d' = None then l1\<lparr>tPollingBuffer := (tPollingBuffer l1)\<lparr>IsPollingMode := True\<rparr>\<rparr> else l1)"

definition start_recv_thread ::
  "'x tcp_env \<Rightarrow> nat \<Rightarrow> int \<Rightarrow> 'x tcp_world \<Rightarrow> (IOC_Result_T \<times> 'x tcp_world) outcome" where
  "start_recv_thread env f fd w = (let w1 = setTcp f (\<lambda>l. l\<lparr>RecvThreadRunning := True\<rparr>) w in
     if \<not> te_thread env then Done (IOC_RESULT_BUG, drop_tcp_link f fd w1)
     else Done (IOC_RESULT_SUCCESS, w1\<lparr>proto := (proto w1)\<lparr>recv_threads := recv_threads (proto w1) @ [f]\<rparr>\<rparr>))"

section \<open>Connecting\<close>

definition connect_code :: "errno \<Rightarrow> IOC_Result_T" where
  "connect_code err = (if err = ECONNREFUSED then IOC_RESULT_NOT_EXIST_LINK
     else if err = ETIMEDOUT then IOC_RESULT_TIMEOUT else IOC_RESULT_LINK_BROKEN)"

text \<open>\<^verbatim>\<open>pOption && pOption->IDs == IOC_OPTID_TIMEOUT\<close>: the timeout must be the only option.\<close>

definition only_timeout :: "IOC_Options_T option \<Rightarrow> bool" where
  "only_timeout opt = (case opt of None \<Rightarrow> False | Some op \<Rightarrow> IDs op = IOC_OPTID_TIMEOUT)"

text \<open>Up to the wait for the server's answer: a result, or the new link object and its socket.\<close>

definition tcp_connect_begin ::
  "'x tcp_env \<Rightarrow> nat \<Rightarrow> IOC_ConnArgs_T \<Rightarrow> IOC_Options_T option \<Rightarrow> 'x tcp_world \<Rightarrow>
   ((IOC_Result_T \<times> 'x tcp_world) + (nat \<times> int \<times> 'x tcp_world)) outcome" where
  "tcp_connect_begin env link args opt w = deref link w (\<lambda>lk. case new_tcp_link env link of
     Inl r \<Rightarrow> Done (Inl (r, w))
   | Inr l \<Rightarrow>
      if \<not> te_socket env then Done (Inl (IOC_RESULT_BUG, w))
      else let fd = next_fd (proto w); w1 = w\<lparr>proto := (proto w)\<lparr>next_fd := fd + 1\<rparr>\<rparr>;
               rcvtimeo = (only_timeout opt \<and> TimeoutUS (the opt) \<noteq> 0)
      in if only_timeout opt \<and> \<not> te_rcvtimeo env then Done (Inl (IOC_RESULT_BUG, w1))
      else if only_timeout opt \<and> \<not> te_sndtimeo env then Done (Inl (IOC_RESULT_BUG, w1))
      else case (te_connect env, listening (Port (ConnSrvURI args)) w1) of
        (Some e, _) \<Rightarrow> Done (Inl (connect_code e, w1))
      | (None, None) \<Rightarrow> Done (Inl (connect_code ECONNREFUSED, w1))
      | (None, Some lfd) \<Rightarrow>
          (let (f, w2) = attach_tcp_link l fd link (connect_fd (te_net env) rcvtimeo fd lfd w1)
           in bindO (sendW fd (tcp_header TCP_MSG_USAGE_NEGOTIATION 4) w2) (\<lambda>(r, w3).
             if r \<noteq> IOC_RESULT_SUCCESS then Done (Inl (IOC_RESULT_BUG, drop_tcp_link f fd w3))
             else bindO (sendW fd (put_usage (Usage lk)) w3) (\<lambda>(r, w4).
               if r \<noteq> IOC_RESULT_SUCCESS then Done (Inl (IOC_RESULT_BUG, drop_tcp_link f fd w4))
               else Done (Inr (f, fd, w4))))))"

text \<open>After the wait.  Executor arguments are copied out of the union of usage arguments whole, so that
  data arguments, which are shorter, are read beyond their end.\<close>

definition connect_usage :: "IOC_ConnArgs_T \<Rightarrow> LinkObject_T \<Rightarrow> TcpLinkObject_T \<Rightarrow> TcpLinkObject_T outcome" where
  "connect_usage args lk l =
    bindO (case ConnUsageArgs args of
        None \<Rightarrow> Done l
      | Some u \<Rightarrow> if \<not> has_usage (Usage lk) IOC_LinkUsageCmdExecutor then Done l
          else (case as_cmd_ids u of None \<Rightarrow> Abort | Some _ \<Rightarrow> Done (l\<lparr>tCmdUsageArgs := as_callback u\<rparr>)))
      (\<lambda>l1. Done (if has_usage (Usage lk) IOC_LinkUsageDatReceiver
        then set_dat_usage (map_option as_pDat (ConnUsageArgs args)) l1 else l1))"

definition tcp_connect_end ::
  "'x tcp_env \<Rightarrow> nat \<Rightarrow> int \<Rightarrow> nat \<Rightarrow> IOC_ConnArgs_T \<Rightarrow> 'x tcp_world \<Rightarrow> (IOC_Result_T \<times> 'x tcp_world) outcome" where
  "tcp_connect_end env f fd link args w = bindO (recvW fd 4 w) (\<lambda>(r, w1).
     let gone = drop_tcp_link f fd w1;
         failed = (\<lambda>err. if err = EAGAIN then Done (IOC_RESULT_TIMEOUT, gone) else Done (IOC_RESULT_BUG, gone))
     in case r of
       RecvFail err \<Rightarrow> failed err
     | RecvClosed \<Rightarrow> failed (te_errno env)
     | RecvOk bs \<Rightarrow>
         if get_usage bs = IOC_LinkUsageUndefined then Done (IOC_RESULT_INCOMPATIBLE_USAGE, gone)
         else tderef f w1 (\<lambda>l. deref link w1 (\<lambda>lk. bindO (connect_usage args lk l) (\<lambda>l1.
           start_recv_thread env f fd (setTcp f (\<lambda>_. l1) w1)))))"

definition connectService_ofProtoTCP ::
  "'x tcp_env \<Rightarrow> nat \<Rightarrow> IOC_ConnArgs_T \<Rightarrow> IOC_Options_T option \<Rightarrow> 'x tcp_world \<Rightarrow>
   (IOC_Result_T \<times> 'x tcp_world) outcome" where
  "connectService_ofProtoTCP env link args opt w = bindO (tcp_connect_begin env link args opt w) (\<lambda>r. case r of
     Inl (res, w1) \<Rightarrow> Done (res, w1)
   | Inr (f, fd, w1) \<Rightarrow> bindO (te_others env w1) (tcp_connect_end env f fd link args))"

section \<open>Accepting\<close>

text \<open>Waiting for a connection: \<^verbatim>\<open>select\<close> when the timeout is the only option, then \<^verbatim>\<open>accept\<close>.\<close>

definition accept_fd ::
  "'x tcp_env \<Rightarrow> IOC_Options_T option \<Rightarrow> int \<Rightarrow> 'x tcp_world \<Rightarrow> (IOC_Result_T + (int \<times> 'x tcp_world)) outcome" where
  "accept_fd env opt lfd w =
    (let pend = (case map_of (Listeners (proto w)) lfd of None \<Rightarrow> [] | Some l \<Rightarrow> li_pending l) in
     if only_timeout opt \<and> \<not> te_select env then Done (Inl IOC_RESULT_BUG)
     else if only_timeout opt \<and> pend = [] then Done (Inl IOC_RESULT_TIMEOUT)
     else if te_accept env \<noteq> None then Done (Inl IOC_RESULT_TIMEOUT)
     else case pend of
       [] \<Rightarrow> Block
     | p # ps \<Rightarrow> Done (Inr (p, setListeners (map (\<lambda>(k, l). (k, if k = lfd then l\<lparr>li_pending := ps\<rparr> else l))
         (Listeners (proto w))) w)))"

text \<open>With the connection: receive the client's usage, answer with the negotiated one.\<close>

definition tcp_accept_negotiate ::
  "'x tcp_env \<Rightarrow> ServiceObject_T \<Rightarrow> nat \<Rightarrow> int \<Rightarrow> nat \<Rightarrow> 'x tcp_world \<Rightarrow> (IOC_Result_T \<times> 'x tcp_world) outcome" where
  "tcp_accept_negotiate env s f fd link w =
    bindO (recvW fd 8 w) (\<lambda>(r, w1). case r of
      RecvOk h \<Rightarrow>
        if MsgType (get_header h) \<noteq> msg_type TCP_MSG_USAGE_NEGOTIATION
        then Done (IOC_RESULT_BUG, drop_tcp_link f fd w1)
        else bindO (recvW fd 4 w1) (\<lambda>(r, w2). case r of
          RecvOk u \<Rightarrow>
            (let role = negotiateLinkRole (UsageCapabilites s) (get_usage u) in
             if role = IOC_LinkUsageUndefined then
               bindO (sendW fd (put_usage IOC_LinkUsageUndefined) w2) (\<lambda>(_, w3).
                 Done (IOC_RESULT_INVALID_PARAM, drop_tcp_link f fd w3))
             else bindO (sendW fd (put_usage role) w2) (\<lambda>(r, w3).
               if r \<noteq> IOC_RESULT_SUCCESS then Done (IOC_RESULT_BUG, drop_tcp_link f fd w3)
               else start_recv_thread env f fd (setTcp f (\<lambda>l.
                 let l1 = (case SrvCmd s of None \<Rightarrow> l | Some c \<Rightarrow> l\<lparr>tCmdUsageArgs := (cuCbExecCmd_F c, cuCbPrivData c)\<rparr>)
                 in if has_usage (UsageCapabilites s) IOC_LinkUsageDatReceiver then set_dat_usage (SrvDat s) l1 else l1)
                   (setLink link (\<lambda>k. k\<lparr>Usage := role\<rparr>) w3))))
        | _ \<Rightarrow> Done (IOC_RESULT_BUG, drop_tcp_link f fd w2))
    | _ \<Rightarrow> Done (IOC_RESULT_BUG, drop_tcp_link f fd w1))"

definition acceptClient_ofProtoTCP ::
  "'x tcp_env \<Rightarrow> nat \<Rightarrow> nat \<Rightarrow> IOC_Options_T option \<Rightarrow> 'x tcp_world \<Rightarrow> (IOC_Result_T \<times> 'x tcp_world) outcome" where
  "acceptClient_ofProtoTCP env srv link opt w = derefSrv srv w (\<lambda>s. deref link w (\<lambda>_.
     case new_tcp_link env link of
       Inl r \<Rightarrow> Done (r, w)
     | Inr l \<Rightarrow> (case SrvProtoPriv s of None \<Rightarrow> Abort
       | Some t \<Rightarrow> bindO (te_others env w) (\<lambda>w1. case TcpSrvs (proto w1) t of None \<Rightarrow> Abort
         | Some ts \<Rightarrow> bindO (accept_fd env opt (ListenSocketFd ts) w1) (\<lambda>a. case a of
             Inl r \<Rightarrow> Done (r, w1)
           | Inr (fd, w2) \<Rightarrow> (let (f, w3) = attach_tcp_link l fd link w2
               in derefSrv srv w3 (\<lambda>s1. tcp_accept_negotiate env s1 f fd link w3)))))))"

section \<open>Closing\<close>

text \<open>Shutting the socket down wakes the receiver thread, which leaves its loop before the object goes.\<close>

definition closeLink_ofProtoTCP :: "nat \<Rightarrow> 'x tcp_world \<Rightarrow> (IOC_Result_T \<times> 'x tcp_world) outcome" where
  "closeLink_ofProtoTCP link w = deref link w (\<lambda>lk. case pProtoPriv lk of
     None \<Rightarrow> Done (IOC_RESULT_SUCCESS, w)
   | Some f \<Rightarrow> tderef f w (\<lambda>l.
       let w1 = (if RecvThreadRunning l then
             let w0 = (if SocketFd l \<ge> 0 then closeW (SocketFd l) w else w)
             in w0\<lparr>proto := (proto w0)\<lparr>recv_threads := filter (\<lambda>g. g \<noteq> f) (recv_threads (proto w0))\<rparr>\<rparr>
           else w)
       in Done (IOC_RESULT_SUCCESS, setLink link (\<lambda>k. k\<lparr>pProtoPriv := None\<rparr>) (free_tcp_link f w1))))"

section \<open>What the accessors change\<close>

lemma tcp_sel [simp]:
  "TcpLinks (proto (setTcp f g w)) = (TcpLinks (proto w))(f := map_option g (TcpLinks (proto w) f))"
  "Socks (proto (setTcp f g w)) = Socks (proto w)" "Listeners (proto (setTcp f g w)) = Listeners (proto w)"
  "recv_threads (proto (setTcp f g w)) = recv_threads (proto w)" "TcpSrvs (proto (setTcp f g w)) = TcpSrvs (proto w)"
  "LinkHeap (setTcp f g w) = LinkHeap w" "SrvTbl (setTcp f g w) = SrvTbl w" "LinkTbl (setTcp f g w) = LinkTbl w"
  "next_fd (proto (setTcp f g w)) = next_fd (proto w)" "next_tcp (proto (setTcp f g w)) = next_tcp (proto w)"
  "tcp_log (proto (setTcp f g w)) = tcp_log (proto w)"
  by (simp_all add: setTcp_def)

lemma socks_sel [simp]:
  "TcpLinks (proto (setSocks ss w)) = TcpLinks (proto w)"
  "Socks (proto (setSocks ss w)) = ss" "Listeners (proto (setSocks ss w)) = Listeners (proto w)"
  "recv_threads (proto (setSocks ss w)) = recv_threads (proto w)" "TcpSrvs (proto (setSocks ss w)) = TcpSrvs (proto w)"
  "LinkHeap (setSocks ss w) = LinkHeap w" "SrvTbl (setSocks ss w) = SrvTbl w" "LinkTbl (setSocks ss w) = LinkTbl w"
  "next_fd (proto (setSocks ss w)) = next_fd (proto w)" "next_tcp (proto (setSocks ss w)) = next_tcp (proto w)"
  "tcp_log (proto (setSocks ss w)) = tcp_log (proto w)"
  "setSocks ss (setSocks ss' w) = setSocks ss w" "setSocks (Socks (proto w)) w = w"
  by (simp_all add: setSocks_def)

lemma setSocks_setTcp: "setSocks ss (setTcp f g w) = setTcp f g (setSocks ss w)"
  by (simp add: setSocks_def setTcp_def)

lemma tderef_Done [outcome_simps]: "tderef f w k = Done y \<longleftrightarrow> (\<exists>l. TcpLinks (proto w) f = Some l \<and> k l = Done y)"
  by (simp add: tderef_def split: option.split)

lemma tderef_Some [simp]: "TcpLinks (proto w) f = Some l \<Longrightarrow> tderef f w k = k l"
  by (simp add: tderef_def)

section \<open>Connected sockets\<close>

text \<open>\<open>conn ss a b\<close>: what is sent on \<open>a\<close> arrives at \<open>b\<close>, and sending does not fail.  \<open>inbox ss b\<close>: what has
  arrived at \<open>b\<close> and has not been read.  \<open>same_socks\<close>: the sockets and connections are still those.\<close>

definition inbox :: "sockets \<Rightarrow> int \<Rightarrow> rx_item list" where
  "inbox ss b = (case ss b of None \<Rightarrow> [] | Some s \<Rightarrow> so_in s)"

definition conn :: "sockets \<Rightarrow> int \<Rightarrow> int \<Rightarrow> bool" where
  "conn ss a b \<longleftrightarrow> a \<noteq> b \<and> ss b \<noteq> None \<and> (case ss a of None \<Rightarrow> False
     | Some s \<Rightarrow> so_peer s = Some b \<and> tx_ok (so_tx s))"

definition same_end :: "Socket_T option \<Rightarrow> Socket_T option \<Rightarrow> bool" where
  "same_end x y \<longleftrightarrow> (case (x, y) of
     (None, None) \<Rightarrow> True
   | (Some s, Some t) \<Rightarrow> so_peer t = so_peer s \<and> so_rcvtimeo t = so_rcvtimeo s \<and> (tx_ok (so_tx s) \<longrightarrow> tx_ok (so_tx t))
   | _ \<Rightarrow> False)"

definition same_socks :: "sockets \<Rightarrow> sockets \<Rightarrow> bool" where
  "same_socks ss ss' \<longleftrightarrow> (\<forall>x. same_end (ss x) (ss' x))"

lemma same_end_trans: "same_end x y \<Longrightarrow> same_end y z \<Longrightarrow> same_end x z"
  by (cases x; cases y; cases z) (auto simp: same_end_def)

lemma same_socks_refl [simp]: "same_socks ss ss"
  by (auto simp: same_socks_def same_end_def split: option.split)

lemma same_socks_trans: "same_socks a b \<Longrightarrow> same_socks b c \<Longrightarrow> same_socks a c"
  unfolding same_socks_def by (blast intro: same_end_trans)

lemma same_socks_dom: "same_socks ss ss' \<Longrightarrow> ss' x = None \<longleftrightarrow> ss x = None"
  unfolding same_socks_def by (drule spec [of _ x]) (auto simp: same_end_def split: option.splits)

lemma same_socks_conn:
  assumes "same_socks ss ss'" "conn ss a b"
  shows "conn ss' a b"
proof -
  have "same_end (ss a) (ss' a)" using assms(1) by (simp add: same_socks_def)
  then show ?thesis using same_socks_dom [OF assms(1), of b] assms(2)
    by (cases "ss a"; cases "ss' a") (auto simp: conn_def same_end_def)
qed

text \<open>\<open>gave ss b bs ss'\<close>: \<open>bs\<close> has arrived at \<open>b\<close>; \<open>took ss b r ss'\<close>: \<open>b\<close> has been read down to \<open>r\<close>.\<close>

definition gave :: "sockets \<Rightarrow> int \<Rightarrow> byte list \<Rightarrow> sockets \<Rightarrow> bool" where
  "gave ss b bs ss' \<longleftrightarrow> same_socks ss ss' \<and> (\<forall>x. inbox ss' x = (if x = b then inbox ss b @ map RxByte bs else inbox ss x))"

definition took :: "sockets \<Rightarrow> int \<Rightarrow> rx_item list \<Rightarrow> sockets \<Rightarrow> bool" where
  "took ss b r ss' \<longleftrightarrow> same_socks ss ss' \<and> (\<forall>x. inbox ss' x = (if x = b then r else inbox ss x))"

lemma gave_trans: "gave ss b x ss1 \<Longrightarrow> gave ss1 b y ss2 \<Longrightarrow> gave ss b (x @ y) ss2"
  by (auto simp: gave_def intro: same_socks_trans)

lemma took_trans: "took ss b r ss1 \<Longrightarrow> took ss1 b r' ss2 \<Longrightarrow> took ss b r' ss2"
  by (auto simp: took_def intro: same_socks_trans)

lemma gave_conn: "gave ss b bs ss' \<Longrightarrow> conn ss x y \<Longrightarrow> conn ss' x y"
  by (auto simp: gave_def intro: same_socks_conn)

lemma took_conn: "took ss b r ss' \<Longrightarrow> conn ss x y \<Longrightarrow> conn ss' x y"
  by (auto simp: took_def intro: same_socks_conn)

lemma gave_inbox: "gave ss b bs ss' \<Longrightarrow> inbox ss' b = inbox ss b @ map RxByte bs"
  "gave ss b bs ss' \<Longrightarrow> x \<noteq> b \<Longrightarrow> inbox ss' x = inbox ss x"
  by (simp_all add: gave_def)

lemma took_inbox: "took ss b r ss' \<Longrightarrow> inbox ss' b = r"
  "took ss b r ss' \<Longrightarrow> x \<noteq> b \<Longrightarrow> inbox ss' x = inbox ss x"
  by (simp_all add: took_def)

lemma sendW_conn:
  assumes "conn (Socks (proto w)) a b"
  obtains ss where "sendW a bs w = Done (IOC_RESULT_SUCCESS, setSocks ss w)" "gave (Socks (proto w)) b bs ss"
proof -
  let ?ss = "Socks (proto w)"
  obtain s q where s: "?ss a = Some s" "so_peer s = Some b" "tx_ok (so_tx s)" "?ss b = Some q" "a \<noteq> b"
    using assms by (auto simp: conn_def split: option.splits)
  then obtain tx where tx: "tx_ok tx"
    "tcp_sendAll a bs ?ss = Done (IOC_RESULT_SUCCESS, transmit a bs (?ss(a := Some (s\<lparr>so_tx := tx\<rparr>))))"
    using send_all_healthy [of ?ss a s bs] by auto
  let ?t = "transmit a bs (?ss(a := Some (s\<lparr>so_tx := tx\<rparr>)))"
  have eq: "?t = ?ss(a := Some (s\<lparr>so_tx := tx, so_out := so_out s @ bs\<rparr>), b := Some (q\<lparr>so_in := so_in q @ map RxByte bs\<rparr>))"
    using s by (auto simp: transmit_def Let_def)
  have "gave ?ss b bs ?t" unfolding eq gave_def same_socks_def using s tx
    by (auto simp: same_end_def inbox_def split: option.split)
  then show ?thesis using that tx by (simp add: sendW_def)
qed

lemma recvW_ok:
  assumes "Socks (proto w) b \<noteq> None" "inbox (Socks (proto w)) b = map RxByte bs @ r" "length bs = n" "0 < n"
  obtains ss where "recvW b n w = Done (RecvOk bs, setSocks ss w)" "took (Socks (proto w)) b r ss"
proof -
  let ?ss = "Socks (proto w)"
  obtain s where s: "?ss b = Some s" using assms by auto
  then obtain c where c: "tcp_recvAll b n ?ss = Done (RecvOk bs, ?ss(b := Some (s\<lparr>so_in := r, so_cuts := c\<rparr>)))"
    using recv_all_ok [of ?ss b s n bs r] assms by (auto simp: inbox_def)
  have "took ?ss b r (?ss(b := Some (s\<lparr>so_in := r, so_cuts := c\<rparr>)))" unfolding took_def same_socks_def using s
    by (auto simp: same_end_def inbox_def split: option.split)
  then show ?thesis using that c by (simp add: recvW_def)
qed

text \<open>A header is received before its payload.\<close>

lemma recvW_header:
  assumes "Socks (proto w) b \<noteq> None" "inbox (Socks (proto w)) b = map RxByte (tcp_header t n @ bs) @ r"
  obtains ss where "recvW b 8 w = Done (RecvOk (tcp_header t n), setSocks ss w)"
    "took (Socks (proto w)) b (map RxByte bs @ r) ss"
  using recvW_ok [OF assms(1), of "tcp_header t n" "map RxByte bs @ r" 8] assms(2) by auto

text \<open>Errors and ends of the stream.\<close>

lemma recvW_end:
  assumes "Socks (proto w) b = Some s" "0 < n" "recv_ref n s = Done (e, q)"
  obtains ss where "recvW b n w = Done (e, setSocks ss w)" "took (Socks (proto w)) b q ss"
proof -
  let ?ss = "Socks (proto w)"
  obtain c where c: "tcp_recvAll b n ?ss = Done (e, ?ss(b := Some (s\<lparr>so_in := q, so_cuts := c\<rparr>)))"
    using recv_all_done [of ?ss b s n e q] assms by auto
  have "took ?ss b q (?ss(b := Some (s\<lparr>so_in := q, so_cuts := c\<rparr>)))" unfolding took_def same_socks_def using assms(1)
    by (auto simp: same_end_def inbox_def split: option.split)
  then show ?thesis using that c by (simp add: recvW_def)
qed

end
