(* ===== verification/TcpThread.thy ===== *)
theory TcpThread
  imports TcpLink
begin

text \<open>
  \<^verbatim>\<open>src/Source/_IOC_SrvProtoTCP.c\<close>, part two: the background thread of a link, \<^verbatim>\<open>__TCP_recvThread\<close>.  Each
  turn of its loop receives one message and deals with it; a turn is atomic, since the thread is the
  only one that reads its socket and what it does in between is to wait for more bytes or to run user
  code.  The answer of a handler is whether the loop goes on.
\<close>

section \<open>The queue of incoming commands\<close>

definition tcp_cmd_put :: "IOC_CmdDesc_T \<Rightarrow> TcpLinkObject_T \<Rightarrow> bool \<times> TcpLinkObject_T" where
  "tcp_cmd_put c l = (if IncomingCmdCount l < 16
     then (True, l\<lparr>IncomingCmdQueue := (IncomingCmdQueue l)[IncomingCmdTail l := c],
       IncomingCmdTail := (IncomingCmdTail l + 1) mod 16, IncomingCmdCount := IncomingCmdCount l + 1\<rparr>)
     else (False, l))"

text \<open>Taking the first one, when there is one.\<close>

definition tcp_cmd_pop :: "TcpLinkObject_T \<Rightarrow> IOC_CmdDesc_T \<times> TcpLinkObject_T" where
  "tcp_cmd_pop l = (IncomingCmdQueue l ! IncomingCmdHead l,
     l\<lparr>IncomingCmdHead := (IncomingCmdHead l + 1) mod 16, IncomingCmdCount := IncomingCmdCount l - 1\<rparr>)"

section \<open>Events and data\<close>

text \<open>An error is stored for the callers that wait; the command caller is also woken.\<close>

definition recv_failed :: "nat \<Rightarrow> IOC_Result_T \<Rightarrow> 'x tcp_world \<Rightarrow> 'x tcp_world" where
  "recv_failed f r w = setTcp f (\<lambda>l. l\<lparr>RecvError := r, CmdResponseReady := True\<rparr>) w"

text \<open>The number of subscribed identifiers is read into an \<^verbatim>\<open>int\<close>, the counter of the comparing loop is one
  too, and an identifier beyond the copied ones is read outside of the copy.\<close>

definition EvtNum_int :: "IOC_SubEvtArgs_T \<Rightarrow> int" where
  "EvtNum_int a = sint (ucast (EvtNum a) :: 32 word)"

definition recv_event :: "'x tcp_env \<Rightarrow> nat \<Rightarrow> int \<Rightarrow> 'x tcp_world \<Rightarrow> (bool \<times> 'x tcp_world) outcome" where
  "recv_event env f fd w = bindO (recvW fd sizeof_EvtDesc w) (\<lambda>(r, w1). case r of
     RecvOk bs \<Rightarrow> tderef f w1 (\<lambda>l. let e = get_evt bs; a = tSubEvtArgs l in
       case CbProcEvt_F a of
         None \<Rightarrow> Done (True, w1)
       | Some F \<Rightarrow> (case first_index (\<lambda>i. EvtID e = i) (take (nat (EvtNum_int a)) (pEvtIDs a)) of
           None \<Rightarrow> if length (pEvtIDs a) < nat (EvtNum_int a) then Abort else Done (True, w1)
         | Some _ \<Rightarrow> bindO (te_evt env F (pCbPrivData a) e w1) (\<lambda>w2. Done (True, w2))))
   | _ \<Rightarrow> Done (False, recv_failed f (recv_code r) w1))"

text \<open>The result of the polling buffer is ignored, and without callback and polling mode the bytes are
  dropped.\<close>

definition recv_data :: "'x tcp_env \<Rightarrow> nat \<Rightarrow> int \<Rightarrow> nat \<Rightarrow> 'x tcp_world \<Rightarrow> (bool \<times> 'x tcp_world) outcome" where
  "recv_data env f fd n w =
    (if \<not> te_malloc env n then Done (False, setTcp f (\<lambda>l. l\<lparr>RecvError := IOC_RESULT_POSIX_ENOMEM\<rparr>) w)
     else bindO (recvW fd n w) (\<lambda>(r, w1). case r of
       RecvOk bs \<Rightarrow> tderef f w1 (\<lambda>l. case duCbRecvDat_F (tDatUsageArgs l) of
         Some F \<Rightarrow> deref (tOwnerLinkObj l) w1 (\<lambda>lk.
           bindO (te_dat env F (duCbPrivData (tDatUsageArgs l)) (ID lk)
               (IOC_initDatDesc\<lparr>pData := Some bs, PtrDataSize := of_nat n, PtrDataLen := of_nat n\<rparr>) w1)
             (\<lambda>w2. Done (True, w2)))
       | None \<Rightarrow> if IsPollingMode (tPollingBuffer l)
           then bindO (tcp_writeDataToPollingBuffer (Some bs) (tPollingBuffer l)) (\<lambda>(_, pb).
             Done (True, setTcp f (\<lambda>l. l\<lparr>tPollingBuffer := pb\<rparr>) w1))
           else Done (True, w1))
     | _ \<Rightarrow> Done (False, setTcp f (\<lambda>l. l\<lparr>RecvError := recv_code r\<rparr>) w1)))"

section \<open>Commands\<close>

text \<open>
  The input payload of a request, when its length says that there is one: a data message of exactly
  that length.  Any failure leaves the descriptor with the pointer of the other process, and bytes
  that have not been read in the stream.
\<close>

definition recv_in_payload ::
  "'x tcp_env \<Rightarrow> int \<Rightarrow> IOC_CmdDesc_T \<Rightarrow> 'x tcp_world \<Rightarrow> (IOC_CmdDesc_T \<times> 'x tcp_world) outcome" where
  "recv_in_payload env fd c w = (if cPtrDataLen (InPayload c) > 0 then
       bindO (recvW fd 8 w) (\<lambda>(r, w1). case r of
         RecvOk bs \<Rightarrow> (let h = get_header bs; n = DataSize h in
           if MsgType h = msg_type TCP_MSG_DATA \<and> ucast n = cPtrDataLen (InPayload c) \<and> te_malloc env (unat (n + 1))
           then bindO (recvW fd (unat n) w1) (\<lambda>(r, w2). case r of
               RecvOk bs \<Rightarrow> Done (c\<lparr>InPayload := (InPayload c)\<lparr>cpData := Some bs\<rparr>\<rparr>, w2)
             | _ \<Rightarrow> Done (c, w2))
           else Done (c, w1))
       | _ \<Rightarrow> Done (c, w1))
     else Done (c, w))"

text \<open>The output payload that follows a response: only data behind a pointer is sent.  A block shorter
  than its length is read beyond its end.\<close>

definition send_out_payload :: "int \<Rightarrow> IOC_CmdDesc_T \<Rightarrow> 'x tcp_world \<Rightarrow> 'x tcp_world outcome" where
  "send_out_payload fd c w =
    (case IOC_CmdDesc_getOutData (Some c) of
       None \<Rightarrow> Done w
     | Some blk \<Rightarrow> let n = IOC_CmdDesc_getOutDataLen (Some c) in
         if n > 0 \<and> cPtrDataLen (OutPayload c) > 0
         then bindO (sendW fd (tcp_header TCP_MSG_DATA n) w) (\<lambda>(_, w1).
           if length blk < unat n then Abort
           else bindO (sendW fd (take (unat n) blk) w1) (\<lambda>(_, w2). Done w2))
         else Done w)"

definition send_response :: "nat \<Rightarrow> IOC_CmdDesc_T \<Rightarrow> 'x tcp_world \<Rightarrow> 'x tcp_world outcome" where
  "send_response f c w = tderef f w (\<lambda>l.
     bindO (sendW (SocketFd l) (tcp_header TCP_MSG_COMMAND (of_nat sizeof_CmdDesc)) w) (\<lambda>(_, w1).
     bindO (sendW (SocketFd l) (put_cmd c) w1) (\<lambda>(_, w2).
     send_out_payload (SocketFd l) c w2)))"

definition recv_request ::
  "'x tcp_env \<Rightarrow> nat \<Rightarrow> int \<Rightarrow> IOC_CmdDesc_T \<Rightarrow> 'x tcp_world \<Rightarrow> (bool \<times> 'x tcp_world) outcome" where
  "recv_request env f fd c w = bindO (recv_in_payload env fd c w) (\<lambda>(c1, w1). tderef f w1 (\<lambda>l.
     case fst (tCmdUsageArgs l) of
       Some F \<Rightarrow> deref (tOwnerLinkObj l) w1 (\<lambda>lk.
         bindO (te_cmd env F (snd (tCmdUsageArgs l)) (ID lk) (c1\<lparr>Status := IOC_CMD_STATUS_PROCESSING\<rparr>) w1) (\<lambda>(r, c2, w2).
         let c3 = c2\<lparr>Status := (if r = IOC_RESULT_SUCCESS then IOC_CMD_STATUS_SUCCESS else IOC_CMD_STATUS_FAILED),
                     CmdResult := r\<rparr>
         in bindO (send_response f c3 w2) (\<lambda>w3. Done (True, w3))))
     | None \<Rightarrow> Done (True, setTcp f (\<lambda>l. snd (tcp_cmd_put c1 l)) w1)))"

text \<open>A response is kept whatever command it answers.\<close>

definition recv_out_payload :: "'x tcp_env \<Rightarrow> nat \<Rightarrow> int \<Rightarrow> IOC_CmdDesc_T \<Rightarrow> 'x tcp_world \<Rightarrow> 'x tcp_world outcome" where
  "recv_out_payload env f fd c w = (if cPtrDataLen (OutPayload c) > 0 then
       bindO (recvW fd 8 w) (\<lambda>(r, w1). case r of
         RecvOk bs \<Rightarrow> (let h = get_header bs; n = unat (DataSize h) in
           if MsgType h = msg_type TCP_MSG_DATA \<and> n > 0 \<and> te_malloc env n
           then bindO (recvW fd n w1) (\<lambda>(r, w2). case r of
               RecvOk bs \<Rightarrow> Done (setTcp f (\<lambda>l. l\<lparr>CmdResponse :=
                 the (snd (IOC_CmdDesc_setOutPayload (te_malloc env (n + 1)) (Some (CmdResponse l)) (Some bs) (of_nat n)))\<rparr>) w2)
             | _ \<Rightarrow> Done w2)
           else Done w1)
       | _ \<Rightarrow> Done w1)
     else Done w)"

definition recv_response ::
  "'x tcp_env \<Rightarrow> nat \<Rightarrow> int \<Rightarrow> IOC_CmdDesc_T \<Rightarrow> 'x tcp_world \<Rightarrow> (bool \<times> 'x tcp_world) outcome" where
  "recv_response env f fd c w =
     bindO (recv_out_payload env f fd c (setTcp f (\<lambda>l. l\<lparr>CmdResponse := c\<rparr>) w)) (\<lambda>w1.
       Done (True, setTcp f (\<lambda>l. l\<lparr>CmdResponseReady := True\<rparr>) w1))"

text \<open>\<^verbatim>\<open>Status <= IOC_CMD_STATUS_PROCESSING\<close> tells requests from responses.\<close>

definition is_request :: "IOC_CmdDesc_T \<Rightarrow> bool" where
  "is_request c \<longleftrightarrow> Status c \<le> IOC_CMD_STATUS_PROCESSING"

definition recv_command :: "'x tcp_env \<Rightarrow> nat \<Rightarrow> int \<Rightarrow> 'x tcp_world \<Rightarrow> (bool \<times> 'x tcp_world) outcome" where
  "recv_command env f fd w = bindO (recvW fd sizeof_CmdDesc w) (\<lambda>(r, w1). case r of
     RecvOk bs \<Rightarrow> (case get_cmd bs of None \<Rightarrow> Abort
       | Some c \<Rightarrow> if is_request c then recv_request env f fd c w1 else recv_response env f fd c w1)
   | _ \<Rightarrow> Done (False, w1))"

section \<open>The loop\<close>

text \<open>One message.  A message of another type or size leaves its payload in the stream.\<close>

definition recv_message :: "'x tcp_env \<Rightarrow> nat \<Rightarrow> 'x tcp_world \<Rightarrow> (bool \<times> 'x tcp_world) outcome" where
  "recv_message env f w = tderef f w (\<lambda>l. let fd = SocketFd l in
     if \<not> RecvThreadRunning l then Done (False, w)
     else bindO (recvW fd 8 w) (\<lambda>(r, w1). case r of
       RecvOk bs \<Rightarrow> (let h = get_header bs in
         if MsgType h = msg_type TCP_MSG_EVENT \<and> unat (DataSize h) = sizeof_EvtDesc then recv_event env f fd w1
         else if MsgType h = msg_type TCP_MSG_SUBSCRIBE
           then Done (True, setTcp f (\<lambda>l. l\<lparr>PeerHasSubscription := True\<rparr>) w1)
         else if MsgType h = msg_type TCP_MSG_UNSUBSCRIBE
           then Done (True, setTcp f (\<lambda>l. l\<lparr>PeerHasSubscription := False\<rparr>) w1)
         else if MsgType h = msg_type TCP_MSG_DATA \<and> DataSize h > 0 then recv_data env f fd (unat (DataSize h)) w1
         else if MsgType h = msg_type TCP_MSG_COMMAND \<and> unat (DataSize h) = sizeof_CmdDesc
           then recv_command env f fd w1
         else Done (True, w1))
     | _ \<Rightarrow> Done (False, recv_failed f (recv_code r) w1)))"

text \<open>One turn of the thread of link \<open>f\<close>, if it still runs.\<close>

definition recv_turn :: "'x tcp_env \<Rightarrow> nat \<Rightarrow> 'x tcp_world \<Rightarrow> 'x tcp_world outcome" where
  "recv_turn env f w = (if f \<notin> set (recv_threads (proto w)) then Done w
     else bindO (recv_message env f w) (\<lambda>(go, w1). Done (if go then w1
       else w1\<lparr>proto := (proto w1)\<lparr>recv_threads := filter (\<lambda>g. g \<noteq> f) (recv_threads (proto w1))\<rparr>\<rparr>)))"

fun recv_turns :: "'x tcp_env \<Rightarrow> nat list \<Rightarrow> 'x tcp_world \<Rightarrow> 'x tcp_world outcome" where
  "recv_turns env [] w = Done w"
| "recv_turns env (f # fs) w = bindO (recv_turn env f w) (recv_turns env fs)"

section \<open>The queue of incoming commands is a bounded queue\<close>

definition tcp_cmdq_ok :: "TcpLinkObject_T \<Rightarrow> bool" where
  "tcp_cmdq_ok l \<longleftrightarrow> length (IncomingCmdQueue l) = 16 \<and> IncomingCmdHead l < 16 \<and> IncomingCmdCount l \<le> 16 \<and>
     IncomingCmdTail l = (IncomingCmdHead l + IncomingCmdCount l) mod 16"

definition tcp_cmdq :: "TcpLinkObject_T \<Rightarrow> IOC_CmdDesc_T list" where
  "tcp_cmdq l = ring_contents (IncomingCmdQueue l) (IncomingCmdHead l) (IncomingCmdCount l)"

lemma tcp_cmd_put_spec:
  assumes "tcp_cmdq_ok l" "IncomingCmdCount l < 16"
  shows "\<exists>l'. tcp_cmd_put c l = (True, l') \<and> tcp_cmdq_ok l' \<and> tcp_cmdq l' = tcp_cmdq l @ [c]"
  using assms ring_contents_snoc [of "IncomingCmdCount l" "IncomingCmdQueue l" "IncomingCmdHead l" c]
  by (auto simp: tcp_cmd_put_def tcp_cmdq_ok_def tcp_cmdq_def mod_Suc_eq)

lemma tcp_cmd_pop_spec:
  assumes "tcp_cmdq_ok l" "tcp_cmdq l = c # cs"
  shows "\<exists>l'. tcp_cmd_pop l = (c, l') \<and> tcp_cmdq_ok l' \<and> tcp_cmdq l' = cs"
proof -
  obtain n where n: "IncomingCmdCount l = Suc n" using assms(2) by (cases "IncomingCmdCount l") (auto simp: tcp_cmdq_def)
  have h: "length (IncomingCmdQueue l) = 16" "IncomingCmdHead l < 16" using assms(1) by (simp_all add: tcp_cmdq_ok_def)
  have r: "tcp_cmdq l = IncomingCmdQueue l ! IncomingCmdHead l # ring_contents (IncomingCmdQueue l) (Suc (IncomingCmdHead l)) n"
    using h by (simp add: tcp_cmdq_def n ring_contents_Suc)
  have "ring_contents (IncomingCmdQueue l) (Suc (IncomingCmdHead l) mod 16) n = cs"
    using r assms(2) h ring_contents_mod [of "IncomingCmdQueue l" "Suc (IncomingCmdHead l)" n] by simp
  then show ?thesis using assms r n
    by (auto simp: tcp_cmd_pop_def tcp_cmdq_ok_def tcp_cmdq_def mod_Suc_eq mod_add_left_eq)
qed

lemma length_tcp_cmdq [simp]: "length (tcp_cmdq l) = IncomingCmdCount l"
  by (simp add: tcp_cmdq_def)

definition tcp_deq :: "TcpLinkObject_T \<Rightarrow> (IOC_CmdDesc_T option \<times> TcpLinkObject_T) outcome" where
  "tcp_deq l = Done (if IncomingCmdCount l = 0 then (None, l) else (Some (fst (tcp_cmd_pop l)), snd (tcp_cmd_pop l)))"

interpretation tcp_cmdq: bounded_queue "\<lambda>_. tcp_cmdq_ok" tcp_cmdq 16 "\<lambda>c l. Done (tcp_cmd_put c l)" tcp_deq
proof (unfold_locales, goal_cases)
  case (2 k q x)
  then show ?case using tcp_cmd_put_spec [of q x] by auto
next
  case (4 k q)
  then show ?case using 4(2) length_tcp_cmdq [of q] by (simp add: tcp_deq_def del: length_tcp_cmdq)
next
  case (5 k q x xs)
  then show ?case using tcp_cmd_pop_spec [OF 5] 5(2) length_tcp_cmdq [of q]
    by (auto simp: tcp_deq_def simp del: length_tcp_cmdq)
qed (auto simp: tcp_cmdq_ok_def tcp_cmd_put_def)

end
