(* ===== verification/TcpCalls.thy ===== *)
theory TcpCalls
  imports TcpThread ConetApi
begin

text \<open>
  \<^verbatim>\<open>src/Source/_IOC_SrvProtoTCP.c\<close>, part three: what the calls of an application do on a TCP link, and
  the method table of the protocol.
\<close>

section \<open>Events\<close>

definition with_tcp :: "nat \<Rightarrow> 'x tcp_world \<Rightarrow> (nat \<Rightarrow> TcpLinkObject_T \<Rightarrow> 'b outcome) \<Rightarrow> 'b outcome" where
  "with_tcp link w k = deref link w (\<lambda>lk. case pProtoPriv lk of
     None \<Rightarrow> Abort | Some f \<Rightarrow> tderef f w (k f))"

text \<open>The size of the copy, in bytes, is a product that may wrap around.  \<^verbatim>\<open>malloc\<close> for it is not checked: when it
  fails the copy goes to a null pointer.  A list of identifiers that is shorter than announced is read beyond
  its end.\<close>

definition subEvt_ofProtoTCP ::
  "'x tcp_env \<Rightarrow> nat \<Rightarrow> IOC_SubEvtArgs_T \<Rightarrow> 'x tcp_world \<Rightarrow> (IOC_Result_T \<times> 'x tcp_world) outcome" where
  "subEvt_ofProtoTCP env link a w = with_tcp link w (\<lambda>f l.
     let size = EvtNum a * 8; n = unat size div 8
     in if \<not> te_malloc env (unat size) \<and> size > 0 then Abort
     else if length (pEvtIDs a) < n then Abort
     else sendW (SocketFd l) (tcp_header TCP_MSG_SUBSCRIBE 0)
       (setTcp f (\<lambda>l. l\<lparr>tSubEvtArgs := a\<lparr>pEvtIDs := take n (pEvtIDs a)\<rparr>\<rparr>) w))"

definition unsubEvt_ofProtoTCP ::
  "nat \<Rightarrow> IOC_SubEvtArgs_T \<Rightarrow> 'x tcp_world \<Rightarrow> (IOC_Result_T \<times> 'x tcp_world) outcome" where
  "unsubEvt_ofProtoTCP link a w = with_tcp link w (\<lambda>f l.
     if CbProcEvt_F (tSubEvtArgs l) = CbProcEvt_F a \<and> pCbPrivData (tSubEvtArgs l) = pCbPrivData a
     then sendW (SocketFd l) (tcp_header TCP_MSG_UNSUBSCRIBE 0) (setTcp f (\<lambda>l. l\<lparr>tSubEvtArgs := no_sub\<rparr>) w)
     else Done (IOC_RESULT_NOT_EXIST, w))"

text \<open>Two pieces of a message, the second only after the first has been sent.\<close>

definition send_two :: "int \<Rightarrow> byte list \<Rightarrow> byte list \<Rightarrow> 'x tcp_world \<Rightarrow> (IOC_Result_T \<times> 'x tcp_world) outcome" where
  "send_two fd a b w = bindO (sendW fd a w) (\<lambda>(r, w1).
     if r \<noteq> IOC_RESULT_SUCCESS then Done (r, w1) else sendW fd b w1)"

definition postEvt_ofProtoTCP ::
  "nat \<Rightarrow> IOC_EvtDesc_T \<Rightarrow> 'x tcp_world \<Rightarrow> (IOC_Result_T \<times> 'x tcp_world) outcome" where
  "postEvt_ofProtoTCP link e w = with_tcp link w (\<lambda>f l.
     if \<not> PeerHasSubscription l then Done (IOC_RESULT_NO_EVENT_CONSUMER, w)
     else send_two (SocketFd l) (tcp_header TCP_MSG_EVENT (of_nat sizeof_EvtDesc)) (put_evt e) w)"

section \<open>Executing commands\<close>

text \<open>The time to wait for the answer, in milliseconds; zero waits for ever.\<close>

definition roundTripTimeoutMs :: "IOC_Options_T option \<Rightarrow> IOC_CmdDesc_T \<Rightarrow> ULONG" where
  "roundTripTimeoutMs opt d =
    (let default = (if TimeoutMs d > 0 then TimeoutMs d + 1000 else 10000) in case opt of
       None \<Rightarrow> default
     | Some op \<Rightarrow> if IDs op AND IOC_OPTID_TIMEOUT \<noteq> 0 then TimeoutUS op div 1000 else default)"

text \<open>Sending the request.  A payload block shorter than its length is read beyond its end.\<close>

definition send_request :: "int \<Rightarrow> IOC_CmdDesc_T \<Rightarrow> 'x tcp_world \<Rightarrow> (IOC_Result_T \<times> 'x tcp_world) outcome" where
  "send_request fd d w =
    bindO (send_two fd (tcp_header TCP_MSG_COMMAND (of_nat sizeof_CmdDesc)) (put_cmd d) w) (\<lambda>(r, w1).
      if r \<noteq> IOC_RESULT_SUCCESS then Done (r, w1)
      else case cpData (InPayload d) of
        None \<Rightarrow> Done (IOC_RESULT_SUCCESS, w1)
      | Some blk \<Rightarrow> let n = cPtrDataLen (InPayload d) in
          if n = 0 then Done (IOC_RESULT_SUCCESS, w1)
          else bindO (sendW fd (tcp_header TCP_MSG_DATA n) w1) (\<lambda>(r, w2).
            if r \<noteq> IOC_RESULT_SUCCESS then Done (r, w2)
            else if length blk < unat n then Abort
            else sendW fd (take (unat n) blk) w2))"

text \<open>Each element of \<open>turns\<close> is what the other threads do until the waiting thread runs again, and
  whether the wait then reports that the time is up; when the list ends nobody wakes it any more.\<close>

fun response_wait ::
  "nat \<Rightarrow> bool \<Rightarrow> (bool \<times> ('x tcp_world \<Rightarrow> 'x tcp_world outcome)) list \<Rightarrow> 'x tcp_world \<Rightarrow>
   (bool \<times> 'x tcp_world) outcome" where
  "response_wait f timed turns w = tderef f w (\<lambda>l.
     if CmdResponseReady l then Done (False, w)
     else case turns of [] \<Rightarrow> Block
       | (expired, others) # ts \<Rightarrow> bindO (others w) (\<lambda>w1.
           if timed \<and> expired then Done (True, w1) else response_wait f timed ts w1))"

declare response_wait.simps [simp del]

definition execCmd_ofProtoTCP ::
  "'x tcp_env \<Rightarrow> nat \<Rightarrow> IOC_CmdDesc_T \<Rightarrow> IOC_Options_T option \<Rightarrow> 'x tcp_world \<Rightarrow>
   (IOC_Result_T \<times> IOC_CmdDesc_T \<times> 'x tcp_world) outcome" where
  "execCmd_ofProtoTCP env link d opt w = with_tcp link w (\<lambda>f l.
     if SocketFd l < 0 then Done (IOC_RESULT_NOT_EXIST_LINK, d, w)
     else let w1 = setTcp f (\<lambda>l. l\<lparr>CmdResponseReady := False, RecvError := IOC_RESULT_SUCCESS\<rparr>) w;
              d1 = d\<lparr>Status := IOC_CMD_STATUS_PENDING\<rparr>
       in bindO (send_request (SocketFd l) d1 w1) (\<lambda>(r, w2).
         if r \<noteq> IOC_RESULT_SUCCESS then Done (r, d1, w2)
         else bindO (response_wait f (roundTripTimeoutMs opt d1 > 0) (te_exec env) w2) (\<lambda>(expired, w3).
           if expired then Done (IOC_RESULT_TIMEOUT, d1\<lparr>Status := IOC_CMD_STATUS_TIMEOUT\<rparr>, w3)
           else tderef f w3 (\<lambda>l3.
             if RecvError l3 \<noteq> IOC_RESULT_SUCCESS
             then Done (RecvError l3, d1\<lparr>Status := IOC_CMD_STATUS_FAILED\<rparr>, w3)
             else let d2 = d1\<lparr>Status := Status (CmdResponse l3), CmdResult := CmdResult (CmdResponse l3)\<rparr>;
                      n = IOC_CmdDesc_getOutDataLen (Some (CmdResponse l3))
               in (case IOC_CmdDesc_getOutData (Some (CmdResponse l3)) of
                 None \<Rightarrow> Done (IOC_RESULT_SUCCESS, d2, w3)
               | Some blk \<Rightarrow> if n = 0 then Done (IOC_RESULT_SUCCESS, d2, w3)
                   else if length blk < unat n then Abort
                   else Done (IOC_RESULT_SUCCESS,
                     the (snd (IOC_CmdDesc_setOutPayload (te_malloc env (unat (n + 1))) (Some d2) (Some blk) n)), w3))))))"

section \<open>Waiting for commands and acknowledging them\<close>

text \<open>In milliseconds; zero, also for less than one millisecond, waits for ever.\<close>

definition waitCmd_timeoutMs :: "IOC_Options_T option \<Rightarrow> ULONG" where
  "waitCmd_timeoutMs opt = (case opt of None \<Rightarrow> 0
     | Some op \<Rightarrow> if IDs op AND IOC_OPTID_TIMEOUT \<noteq> 0 then TimeoutUS op div 1000 else 0)"

fun command_wait ::
  "nat \<Rightarrow> bool \<Rightarrow> (bool \<times> ('x tcp_world \<Rightarrow> 'x tcp_world outcome)) list \<Rightarrow> 'x tcp_world \<Rightarrow>
   (bool \<times> 'x tcp_world) outcome" where
  "command_wait f timed turns w = tderef f w (\<lambda>l.
     if IncomingCmdCount l \<noteq> 0 then Done (False, w)
     else case turns of [] \<Rightarrow> Block
       | (expired, others) # ts \<Rightarrow> bindO (others w) (\<lambda>w1.
           if timed \<and> expired then Done (True, w1) else command_wait f timed ts w1))"

declare command_wait.simps [simp del]

definition waitCmd_ofProtoTCP ::
  "'x tcp_env \<Rightarrow> nat \<Rightarrow> IOC_Options_T option \<Rightarrow> 'x tcp_world \<Rightarrow>
   (IOC_Result_T \<times> IOC_CmdDesc_T option \<times> 'x tcp_world) outcome" where
  "waitCmd_ofProtoTCP env link opt w = with_tcp link w (\<lambda>f _.
     bindO (command_wait f (waitCmd_timeoutMs opt > 0) (te_waitcmd env) w) (\<lambda>(expired, w1).
       if expired then Done (IOC_RESULT_TIMEOUT, None, w1)
       else tderef f w1 (\<lambda>l. Done (IOC_RESULT_SUCCESS, Some (fst (tcp_cmd_pop l)),
         setTcp f (\<lambda>l. snd (tcp_cmd_pop l)) w1))))"

text \<open>The descriptor of the caller is changed too.  A pointer to a block without bytes is one that came
  over the wire and was never replaced: freeing it is undefined.\<close>

definition ackCmd_ofProtoTCP ::
  "nat \<Rightarrow> IOC_CmdDesc_T \<Rightarrow> 'x tcp_world \<Rightarrow> (IOC_Result_T \<times> IOC_CmdDesc_T \<times> 'x tcp_world) outcome" where
  "ackCmd_ofProtoTCP link d w = with_tcp link w (\<lambda>f l.
     let d1 = (if is_request d
           then d\<lparr>Status := (if CmdResult d = IOC_RESULT_SUCCESS then IOC_CMD_STATUS_SUCCESS else IOC_CMD_STATUS_FAILED)\<rparr>
           else d)
     in bindO (send_two (SocketFd l) (tcp_header TCP_MSG_COMMAND (of_nat sizeof_CmdDesc)) (put_cmd d1) w) (\<lambda>(r, w1).
       if r \<noteq> IOC_RESULT_SUCCESS then Done (r, d1, w1)
       else bindO (send_out_payload (SocketFd l) d1 w1) (\<lambda>w2.
         case cpData (InPayload d1) of
           None \<Rightarrow> Done (IOC_RESULT_SUCCESS, d1, w2)
         | Some blk \<Rightarrow> if blk = [] then Abort
             else Done (IOC_RESULT_SUCCESS, d1\<lparr>InPayload := (InPayload d1)\<lparr>cpData := None\<rparr>\<rparr>, w2))))"

section \<open>Data\<close>

definition sendData_ofProtoTCP ::
  "nat \<Rightarrow> IOC_DatDesc_T \<Rightarrow> 'x tcp_world \<Rightarrow> (IOC_Result_T \<times> 'x tcp_world) outcome" where
  "sendData_ofProtoTCP link d w = deref link w (\<lambda>lk. case pProtoPriv lk of
     None \<Rightarrow> Done (IOC_RESULT_NOT_EXIST_LINK, w)
   | Some f \<Rightarrow> (let (r, blk, n) = IOC_getDatPayload (Some d) in
       if r \<noteq> IOC_RESULT_SUCCESS then Done (r, w)
       else case blk of
         None \<Rightarrow> Done (IOC_RESULT_INVALID_PARAM, w)
       | Some bs \<Rightarrow> if n = 0 then Done (IOC_RESULT_INVALID_PARAM, w)
           else tderef f w (\<lambda>l. bindO (sendW (SocketFd l) (tcp_header TCP_MSG_DATA n) w) (\<lambda>(r, w1).
             if r \<noteq> IOC_RESULT_SUCCESS then Done (r, w1)
             else if length bs < unat n then Abort
             else sendW (SocketFd l) (take (unat n) bs) w1))))"

text \<open>The wait inside the reading function, which lets the receiver thread run: until there is data or an
  error, or the time is up.\<close>

fun data_wait ::
  "nat \<Rightarrow> int \<Rightarrow> (bool \<times> ('x tcp_world \<Rightarrow> 'x tcp_world outcome)) list \<Rightarrow> 'x tcp_world \<Rightarrow>
   (bool \<times> 'x tcp_world) outcome" where
  "data_wait f t turns w = tderef f w (\<lambda>l.
     if AvailableData (tPollingBuffer l) \<noteq> 0 \<or> RecvError l \<noteq> IOC_RESULT_SUCCESS \<or> t = 0 then Done (False, w)
     else case turns of [] \<Rightarrow> Block
       | (expired, others) # ts \<Rightarrow> bindO (others w) (\<lambda>w1.
           if t > 0 \<and> expired then Done (True, w1) else data_wait f t ts w1))"

declare data_wait.simps [simp del]

text \<open>The timeout is converted to a signed number, so that the infinite one is negative.  A receiver
  without a block reports an invalid parameter; what is read is copied into the block.  After the wait
  the reading function finds data or an error at once.\<close>

definition recvData_ofProtoTCP ::
  "'x tcp_env \<Rightarrow> nat \<Rightarrow> IOC_DatDesc_T \<Rightarrow> IOC_Options_T option \<Rightarrow> 'x tcp_world \<Rightarrow>
   (IOC_Result_T \<times> IOC_DatDesc_T \<times> 'x tcp_world) outcome" where
  "recvData_ofProtoTCP env link d opt w = deref link w (\<lambda>lk. case pProtoPriv lk of
     None \<Rightarrow> Done (IOC_RESULT_NOT_EXIST_LINK, d, w)
   | Some f \<Rightarrow> tderef f w (\<lambda>l.
       if RecvError l \<noteq> IOC_RESULT_SUCCESS then Done (RecvError l, d, w)
       else if \<not> IsPollingMode (tPollingBuffer l) then Done (IOC_RESULT_NOT_SUPPORT, d, w)
       else let t = (case opt of None \<Rightarrow> - 1
              | Some op \<Rightarrow> if IDs op AND IOC_OPTID_TIMEOUT \<noteq> 0 then sint (TimeoutUS op) else - 1)
         in (case pData d of
           None \<Rightarrow> Done (IOC_RESULT_INVALID_PARAM, d, w)
         | Some blk \<Rightarrow> bindO (data_wait f t (te_recv env) w) (\<lambda>(expired, w1).
             if expired then Done (IOC_RESULT_TIMEOUT, d, w1)
             else tderef f w1 (\<lambda>l1.
               bindO (tcp_readDataFromPollingBuffer (unat (PtrDataSize d)) t [] []
                   (tPollingBuffer l1, RecvError l1)) (\<lambda>(r, out, pb, err).
                 let w2 = setTcp f (\<lambda>l. l\<lparr>tPollingBuffer := pb\<rparr>) w1 in
                 if r = IOC_RESULT_SUCCESS then
                   if length blk < length out then Abort
                   else Done (r, d\<lparr>pData := Some (blit 0 out blk), PtrDataSize := of_nat (length out),
                               PtrDataLen := of_nat (length out)\<rparr>, w2)
                 else if r = IOC_RESULT_NO_DATA then Done (r, d\<lparr>PtrDataSize := 0\<rparr>, w2)
                 else Done (r, d, w2)))))))"

section \<open>The method table\<close>

text \<open>\<^verbatim>\<open>OpPullEvt_F\<close> is a null pointer.\<close>

definition gIOC_SrvProtoTCPMethods :: "'x tcp_env \<Rightarrow> 'x tcp_state_scheme SrvProtoMethods" where
  "gIOC_SrvProtoTCPMethods env = \<lparr>mProtocol = ''tcp'',
     OpOnlineService = onlineService_ofProtoTCP env,
     OpOfflineService = offlineService_ofProtoTCP,
     OpConnectService = connectService_ofProtoTCP env,
     OpAcceptClient = acceptClient_ofProtoTCP env,
     OpCloseLink = closeLink_ofProtoTCP,
     OpSubEvt = Some (subEvt_ofProtoTCP env),
     OpUnsubEvt = Some unsubEvt_ofProtoTCP,
     OpPostEvt = Some (\<lambda>link e opt. postEvt_ofProtoTCP link e),
     OpPullEvt = None,
     OpSendData = Some (\<lambda>link d opt. sendData_ofProtoTCP link d),
     OpRecvData = Some (recvData_ofProtoTCP env),
     OpExecCmd = Some (execCmd_ofProtoTCP env),
     OpWaitCmd = Some (waitCmd_ofProtoTCP env),
     OpAckCmd = Some (\<lambda>link d opt w. bindO (ackCmd_ofProtoTCP link d w) (\<lambda>(r, _, w1). Done (r, w1)))\<rparr>"

end
