(* ===== verification/TcpInvariant.thy ===== *)
theory TcpInvariant
  imports TcpCalls
begin

text \<open>
  Well-formed TCP links, and that nothing the protocol does makes one ill-formed: neither a call, nor a
  turn of a receiver thread on whatever bytes arrive.
\<close>

section \<open>Well-formed links\<close>

definition cmd_wf :: "IOC_CmdDesc_T \<Rightarrow> bool" where
  "cmd_wf c \<longleftrightarrow> length (cEmdData (InPayload c)) = 64 \<and> length (cEmdData (OutPayload c)) = 64"

definition tcp_link_ok :: "TcpLinkObject_T \<Rightarrow> bool" where
  "tcp_link_ok l \<longleftrightarrow> tcp_cmdq_ok l \<and> (\<forall>c\<in>set (IncomingCmdQueue l). cmd_wf c) \<and> cmd_wf (CmdResponse l) \<and>
     pb_inv (tPollingBuffer l)"

text \<open>All links are well formed, and addresses are not used again.\<close>

definition tcp_ok :: "'x tcp_world \<Rightarrow> bool" where
  "tcp_ok w \<longleftrightarrow> (\<forall>f l. TcpLinks (proto w) f = Some l \<longrightarrow> tcp_link_ok l \<and> f < next_tcp (proto w))"

lemma tcp_okD: "tcp_ok w \<Longrightarrow> TcpLinks (proto w) f = Some l \<Longrightarrow> tcp_link_ok l"
  by (simp add: tcp_ok_def)

text \<open>User code and other threads that leave links well formed.\<close>

definition turns_ok :: "(bool \<times> ('x tcp_world \<Rightarrow> 'x tcp_world outcome)) list \<Rightarrow> bool" where
  "turns_ok ts \<longleftrightarrow> (\<forall>(e, o')\<in>set ts. \<forall>w. tcp_ok w \<longrightarrow> ensures (o' w) tcp_ok)"

definition tcp_env_ok :: "'x tcp_env \<Rightarrow> bool" where
  "tcp_env_ok env \<longleftrightarrow>
     (\<forall>block. te_poll env = Some block \<longrightarrow> length block = POLLING_BUFFER_SIZE) \<and>
     (\<forall>F p e w. tcp_ok w \<longrightarrow> ensures (te_evt env F p e w) tcp_ok) \<and>
     (\<forall>F p i d w. tcp_ok w \<longrightarrow> ensures (te_dat env F p i d w) tcp_ok) \<and>
     (\<forall>F p i c w. tcp_ok w \<and> cmd_wf c \<longrightarrow> ensures (te_cmd env F p i c w) (\<lambda>(r, c', w'). cmd_wf c' \<and> tcp_ok w')) \<and>
     (\<forall>w. tcp_ok w \<longrightarrow> ensures (te_others env w) tcp_ok) \<and>
     turns_ok (te_exec env) \<and> turns_ok (te_waitcmd env) \<and> turns_ok (te_recv env)"

lemma tcp_env_okD:
  assumes "tcp_env_ok env" "tcp_ok w"
  shows "ensures (te_evt env F p e w) tcp_ok" "ensures (te_dat env F p i d w) tcp_ok"
    "cmd_wf c \<Longrightarrow> ensures (te_cmd env F p i c w) (\<lambda>(r, c', w'). cmd_wf c' \<and> tcp_ok w')"
    "ensures (te_others env w) tcp_ok"
  using assms by (simp_all add: tcp_env_ok_def)

section \<open>Elementary steps\<close>

lemma ensures_deref [simp]: "ensures (deref a w k) P \<longleftrightarrow> (\<forall>l. LinkHeap w a = Some l \<longrightarrow> ensures (k l) P)"
  by (simp add: deref_def split: option.split)

lemma ensures_derefSrv [simp]: "ensures (derefSrv i w k) P \<longleftrightarrow> (\<forall>s. SrvTbl w ! i = Some s \<longrightarrow> ensures (k s) P)"
  by (simp add: derefSrv_def split: option.split)

lemma ensures_tderef [simp]:
  "ensures (tderef f w k) P \<longleftrightarrow> (\<forall>l. TcpLinks (proto w) f = Some l \<longrightarrow> ensures (k l) P)"
  by (simp add: tderef_def split: option.split)

lemma tcp_ok_keep [simp]:
  "tcp_ok (setSocks ss w) \<longleftrightarrow> tcp_ok w" "tcp_ok (setListeners ls w) \<longleftrightarrow> tcp_ok w"
  "tcp_ok (setLink a h w) \<longleftrightarrow> tcp_ok w" "tcp_ok (setSrv i g w) \<longleftrightarrow> tcp_ok w" "tcp_ok (closeW fd w) \<longleftrightarrow> tcp_ok w"
  "tcp_ok (w\<lparr>proto := (proto w)\<lparr>recv_threads := ts\<rparr>\<rparr>) \<longleftrightarrow> tcp_ok w"
  "tcp_ok (w\<lparr>proto := (proto w)\<lparr>next_fd := n\<rparr>\<rparr>) \<longleftrightarrow> tcp_ok w"
  "tcp_ok (w\<lparr>proto := (proto w)\<lparr>TcpSrvs := srvs\<rparr>\<rparr>) \<longleftrightarrow> tcp_ok w"
  by (simp_all add: tcp_ok_def setSocks_def setListeners_def setSrv_def closeW_def)

lemma tcp_ok_close_listener [simp]: "tcp_ok (close_listener fd w) \<longleftrightarrow> tcp_ok w"
  by (simp add: close_listener_def split: option.split)

lemma tcp_ok_free [simp]: "tcp_ok w \<Longrightarrow> tcp_ok (free_tcp_link f w)"
  by (auto simp: tcp_ok_def free_tcp_link_def)

lemma tcp_ok_drop [simp]: "tcp_ok w \<Longrightarrow> tcp_ok (drop_tcp_link f fd w)"
  by (simp add: drop_tcp_link_def)

lemma tcp_ok_setTcp:
  "tcp_ok w \<Longrightarrow> (\<And>l. TcpLinks (proto w) f = Some l \<Longrightarrow> tcp_link_ok l \<Longrightarrow> tcp_link_ok (g l)) \<Longrightarrow> tcp_ok (setTcp f g w)"
  by (auto simp: tcp_ok_def)

lemma sendW_keeps: "tcp_ok w \<Longrightarrow> ensures (sendW fd bs w) (\<lambda>(r, w'). tcp_ok w' \<and> TcpLinks (proto w') = TcpLinks (proto w))"
  by (auto simp: sendW_def ensures_def outcome_simps)

lemma sendW_ok: "tcp_ok w \<Longrightarrow> ensures (sendW fd bs w) (\<lambda>(r, w'). tcp_ok w')"
  by (rule ensures_call [OF sendW_keeps]) auto

lemma recv_length: "tcp_recvAll fd n ss = Done (RecvOk bs, ss') \<Longrightarrow> length bs = n"
proof -
  assume r: "tcp_recvAll fd n ss = Done (RecvOk bs, ss')"
  have "length bs = n" if "tcp_recvLoop n [] s = Done (RecvOk bs, s')" for s s'
    using recv_loop_ref [of "[]" s n] that
    by (auto simp: recv_agrees_def recv_ref_def split: prod.splits if_splits list.splits rx_item.splits)
  then show ?thesis using r
    by (auto simp: tcp_recvAll_def outcome_simps split: if_splits option.splits)
qed

lemma recvW_keeps:
  "tcp_ok w \<Longrightarrow> ensures (recvW fd n w) (\<lambda>(r, w'). tcp_ok w' \<and> TcpLinks (proto w') = TcpLinks (proto w) \<and>
     (\<forall>bs. r = RecvOk bs \<longrightarrow> length bs = n))"
  by (auto simp: recvW_def ensures_def outcome_simps dest: recv_length)

lemma get_cmd_wf:
  assumes "get_cmd bs = Some c" "length bs = sizeof_CmdDesc"
  shows "cmd_wf c"
  using assms
  by (auto simp: get_cmd_def cmd_wf_def get_payload_def sizeof_CmdDesc_def split: option.splits)

lemma cmd_wf_simps [simp]:
  "cmd_wf (c\<lparr>Status := s\<rparr>) \<longleftrightarrow> cmd_wf c" "cmd_wf (c\<lparr>CmdResult := r\<rparr>) \<longleftrightarrow> cmd_wf c"
  "cmd_wf (c\<lparr>InPayload := (InPayload c)\<lparr>cpData := p\<rparr>\<rparr>) \<longleftrightarrow> cmd_wf c" "cmd_wf zero_cmd"
  by (simp_all add: cmd_wf_def zero_cmd_def zero_payload_def)

lemma setOutPayload_wf:
  assumes "cmd_wf c"
  shows "cmd_wf (the (snd (IOC_CmdDesc_setOutPayload m (Some c) d n)))"
proof -
  obtain r p where p: "setPayload m (OutPayload c) d n = (r, p)" by fastforce
  have "unat n \<le> 64" if "n \<le> 64" using that by (simp add: word_le_nat_alt)
  then have "length (cEmdData p) = 64" using p assms
    by (auto simp: setPayload_def Let_def cmd_wf_def split: if_splits option.splits)
  then show ?thesis using p assms by (simp add: IOC_CmdDesc_setOutPayload_def cmd_wf_def)
qed

lemma tcp_link_ok_simps [simp]:
  "tcp_link_ok (l\<lparr>RecvError := r\<rparr>) \<longleftrightarrow> tcp_link_ok l" "tcp_link_ok (l\<lparr>CmdResponseReady := b\<rparr>) \<longleftrightarrow> tcp_link_ok l"
  "tcp_link_ok (l\<lparr>PeerHasSubscription := b\<rparr>) \<longleftrightarrow> tcp_link_ok l" "tcp_link_ok (l\<lparr>tSubEvtArgs := a\<rparr>) \<longleftrightarrow> tcp_link_ok l"
  "tcp_link_ok (l\<lparr>RecvThreadRunning := b\<rparr>) \<longleftrightarrow> tcp_link_ok l" "tcp_link_ok (l\<lparr>tCmdUsageArgs := u\<rparr>) \<longleftrightarrow> tcp_link_ok l"
  "tcp_link_ok (l\<lparr>tDatUsageArgs := v\<rparr>) \<longleftrightarrow> tcp_link_ok l" "tcp_link_ok (l\<lparr>SocketFd := fd\<rparr>) \<longleftrightarrow> tcp_link_ok l"
  "tcp_link_ok (l\<lparr>CmdResponseReady := b, RecvError := r\<rparr>) \<longleftrightarrow> tcp_link_ok l"
  "tcp_link_ok (l\<lparr>RecvError := r, CmdResponseReady := b\<rparr>) \<longleftrightarrow> tcp_link_ok l"
  by (simp_all add: tcp_link_ok_def tcp_cmdq_ok_def)

lemma tcp_link_ok_response: "tcp_link_ok l \<Longrightarrow> cmd_wf c \<Longrightarrow> tcp_link_ok (l\<lparr>CmdResponse := c\<rparr>)"
  by (simp add: tcp_link_ok_def tcp_cmdq_ok_def)

lemma tcp_link_ok_pbuf: "tcp_link_ok l \<Longrightarrow> pb_inv b \<Longrightarrow> tcp_link_ok (l\<lparr>tPollingBuffer := b\<rparr>)"
  by (simp add: tcp_link_ok_def tcp_cmdq_ok_def)

lemma tcp_link_ok_put:
  assumes "tcp_link_ok l" "cmd_wf c"
  shows "tcp_link_ok (snd (tcp_cmd_put c l))"
proof (cases "IncomingCmdCount l < 16")
  case True
  then obtain l' where l: "tcp_cmd_put c l = (True, l')" "tcp_cmdq_ok l'"
    using tcp_cmd_put_spec [of l c] assms(1) unfolding tcp_link_ok_def by blast
  have "set (IncomingCmdQueue l') \<subseteq> insert c (set (IncomingCmdQueue l))" "CmdResponse l' = CmdResponse l"
    "tPollingBuffer l' = tPollingBuffer l"
    using l(1) True by (auto simp: tcp_cmd_put_def dest: set_update_subset_insert [THEN subsetD])
  then show ?thesis using assms l by (auto simp: tcp_link_ok_def)
qed (use assms in \<open>simp add: tcp_cmd_put_def\<close>)

lemma tcp_link_ok_pop:
  assumes "tcp_link_ok l" "IncomingCmdCount l \<noteq> 0"
  shows "tcp_link_ok (snd (tcp_cmd_pop l))"
proof -
  obtain c cs where "tcp_cmdq l = c # cs" using assms(2) length_tcp_cmdq [of l] by (cases "tcp_cmdq l") auto
  then have "tcp_cmdq_ok (snd (tcp_cmd_pop l))" using tcp_cmd_pop_spec [of l] assms(1) by (auto simp: tcp_link_ok_def)
  then show ?thesis using assms(1) by (simp add: tcp_link_ok_def) (simp add: tcp_cmd_pop_def)
qed

section \<open>The receiver thread\<close>

text \<open>The postcondition of a message handler.\<close>

abbreviation turn_keeps :: "(bool \<times> 'x tcp_world) outcome \<Rightarrow> bool" where
  "turn_keeps m \<equiv> ensures m (\<lambda>(go, w'). tcp_ok w')"

lemma recv_failed_ok [simp]: "tcp_ok w \<Longrightarrow> tcp_ok (recv_failed f r w)"
  by (simp add: recv_failed_def tcp_ok_setTcp)

lemma recv_event_ok: "tcp_env_ok env \<Longrightarrow> tcp_ok w \<Longrightarrow> turn_keeps (recv_event env f fd w)"
  unfolding recv_event_def
  by (rule ensures_bind [OF recvW_keeps])
    (auto simp: Let_def split: recv_end.splits option.splits intro!: ensures_bind [OF tcp_env_okD(1)])

lemma recv_poll_ok:
  assumes "tcp_ok w" "TcpLinks (proto w) f = Some l" "bs \<noteq> []"
  shows "ensures (tcp_writeDataToPollingBuffer (Some bs) (tPollingBuffer l)) (\<lambda>(r, pb). pb_inv pb)"
  using tcp_write_spec [of "tPollingBuffer l" bs] tcp_okD [OF assms(1,2)] assms(3)
  by (auto simp: ensures_def tcp_link_ok_def)

lemma recv_data_ok:
  "tcp_env_ok env \<Longrightarrow> tcp_ok w \<Longrightarrow> 0 < n \<Longrightarrow> turn_keeps (recv_data env f fd n w)"
  unfolding recv_data_def
  by (auto simp: tcp_ok_setTcp tcp_link_ok_pbuf split: recv_end.splits option.splits
      intro!: ensures_bind [OF recvW_keeps] ensures_bind [OF tcp_env_okD(2)] ensures_bind [OF recv_poll_ok] tcp_ok_setTcp)

lemma recv_in_payload_ok:
  "tcp_ok w \<Longrightarrow> cmd_wf c \<Longrightarrow> ensures (recv_in_payload env fd c w) (\<lambda>(c', w'). cmd_wf c' \<and> tcp_ok w')"
  unfolding recv_in_payload_def
  by (auto simp: Let_def split: recv_end.splits intro!: ensures_bind [OF recvW_keeps])

lemma send_out_payload_ok: "tcp_ok w \<Longrightarrow> ensures (send_out_payload fd c w) tcp_ok"
  unfolding send_out_payload_def
  by (auto simp: Let_def split: option.splits intro!: ensures_bind [OF sendW_keeps])

lemma send_response_ok: "tcp_ok w \<Longrightarrow> ensures (send_response f c w) tcp_ok"
  unfolding send_response_def
  by (auto intro!: ensures_bind [OF sendW_keeps] send_out_payload_ok)

lemma recv_request_ok:
  "tcp_env_ok env \<Longrightarrow> tcp_ok w \<Longrightarrow> cmd_wf c \<Longrightarrow> turn_keeps (recv_request env f fd c w)"
  unfolding recv_request_def
  by (auto simp: Let_def split: option.splits intro!: ensures_bind [OF recv_in_payload_ok]
      ensures_bind [OF tcp_env_okD(3)] ensures_bind [OF send_response_ok] tcp_ok_setTcp tcp_link_ok_put)

lemma recv_out_payload_ok: "tcp_ok w \<Longrightarrow> ensures (recv_out_payload env f fd c w) tcp_ok"
  unfolding recv_out_payload_def
  by (auto simp: Let_def split: recv_end.splits intro!: ensures_bind [OF recvW_keeps] tcp_ok_setTcp
      tcp_link_ok_response setOutPayload_wf) (simp_all add: tcp_link_ok_def)

lemma recv_response_ok: "tcp_ok w \<Longrightarrow> cmd_wf c \<Longrightarrow> turn_keeps (recv_response env f fd c w)"
  unfolding recv_response_def
  by (auto intro!: ensures_bind [OF recv_out_payload_ok] tcp_ok_setTcp tcp_link_ok_response)

lemma recv_command_ok:
  assumes "tcp_env_ok env" "tcp_ok w"
  shows "turn_keeps (recv_command env f fd w)"
  unfolding recv_command_def
  by (auto split: recv_end.splits option.splits intro!: ensures_bind [OF recvW_keeps [OF assms(2)]]
      recv_request_ok [OF assms(1)] recv_response_ok) (erule (1) get_cmd_wf)+

lemma recv_message_ok: "tcp_env_ok env \<Longrightarrow> tcp_ok w \<Longrightarrow> turn_keeps (recv_message env f w)"
  unfolding recv_message_def
  by (auto simp: Let_def unat_gt_0 word_gt_0 split: recv_end.splits intro!: ensures_bind [OF recvW_keeps] recv_event_ok recv_data_ok
      recv_command_ok tcp_ok_setTcp)

lemma recv_turn_ok: "tcp_env_ok env \<Longrightarrow> tcp_ok w \<Longrightarrow> ensures (recv_turn env f w) tcp_ok"
  unfolding recv_turn_def by (auto intro!: ensures_bind [OF recv_message_ok])

section \<open>The calls\<close>

lemma ensures_with_tcp [simp]:
  "ensures (with_tcp link w k) P \<longleftrightarrow> (\<forall>lk f l. LinkHeap w link = Some lk \<and> pProtoPriv lk = Some f \<and>
     TcpLinks (proto w) f = Some l \<longrightarrow> ensures (k f l) P)"
  by (auto simp: with_tcp_def split: option.splits)

lemma send_two_ok: "tcp_ok w \<Longrightarrow> ensures (send_two fd a b w) (\<lambda>(r, w'). tcp_ok w')"
  unfolding send_two_def
  by (auto intro!: ensures_bind [OF sendW_keeps] intro: sendW_ok)

lemma send_request_ok: "tcp_ok w \<Longrightarrow> ensures (send_request fd d w) (\<lambda>(r, w'). tcp_ok w')"
  unfolding send_request_def
  by (auto simp: Let_def split: option.splits intro!: ensures_bind [OF send_two_ok] ensures_bind [OF sendW_keeps]
      sendW_ok)

lemma turns_okD: "turns_ok ((e, o') # ts) \<Longrightarrow> tcp_ok w \<Longrightarrow> ensures (o' w) tcp_ok" "turns_ok (t # ts) \<Longrightarrow> turns_ok ts"
  by (auto simp: turns_ok_def)

lemma response_wait_ok:
  "turns_ok ts \<Longrightarrow> tcp_ok w \<Longrightarrow> ensures (response_wait f timed ts w) (\<lambda>(e, w'). tcp_ok w')"
proof (induction ts arbitrary: w)
  case Nil
  then show ?case by (subst response_wait.simps) simp
next
  case (Cons t ts)
  then show ?case by (subst response_wait.simps)
      (auto dest: turns_okD(2) split: prod.splits intro!: ensures_bind [OF turns_okD(1)])
qed

lemma command_wait_ok:
  "turns_ok ts \<Longrightarrow> tcp_ok w \<Longrightarrow> ensures (command_wait f timed ts w) (\<lambda>(e, w'). tcp_ok w' \<and>
     (\<forall>l. \<not> e \<and> TcpLinks (proto w') f = Some l \<longrightarrow> IncomingCmdCount l \<noteq> 0))"
proof (induction ts arbitrary: w)
  case Nil
  then show ?case by (subst command_wait.simps) simp
next
  case (Cons t ts)
  then show ?case by (subst command_wait.simps)
      (auto dest: turns_okD(2) split: prod.splits intro!: ensures_bind [OF turns_okD(1)])
qed

lemma data_wait_ok:
  "turns_ok ts \<Longrightarrow> tcp_ok w \<Longrightarrow> ensures (data_wait f t ts w) (\<lambda>(e, w'). tcp_ok w')"
proof (induction ts arbitrary: w)
  case Nil
  then show ?case by (subst data_wait.simps) simp
next
  case (Cons t ts)
  then show ?case by (subst data_wait.simps)
      (auto dest: turns_okD(2) split: prod.splits intro!: ensures_bind [OF turns_okD(1)])
qed

lemma read_ok:
  assumes "pb_inv pb"
  shows "ensures (tcp_readDataFromPollingBuffer n t [] [] (pb, err)) (\<lambda>(r, out, pb', err'). pb_inv pb')"
proof -
  obtain b' where "tcp_copyOut n pb = Done (take n (pb_bytes pb), b')" "pb_inv b'"
    using tcp_copyOut_spec [OF assms] by blast
  then show ?thesis using assms by (simp add: tcp_readDataFromPollingBuffer_def Let_def)
qed

lemma tcp_env_ok_turns: "tcp_env_ok env \<Longrightarrow> turns_ok (te_exec env)" "tcp_env_ok env \<Longrightarrow> turns_ok (te_waitcmd env)"
  "tcp_env_ok env \<Longrightarrow> turns_ok (te_recv env)"
  by (simp_all add: tcp_env_ok_def)

lemma execCmd_ok:
  "tcp_env_ok env \<Longrightarrow> tcp_ok w \<Longrightarrow> ensures (execCmd_ofProtoTCP env link d opt w) (\<lambda>(r, d', w'). tcp_ok w')"
  unfolding execCmd_ofProtoTCP_def
  by (auto simp: Let_def split: option.splits intro!: ensures_bind [OF send_request_ok]
      ensures_bind [OF response_wait_ok [OF tcp_env_ok_turns(1)]] tcp_ok_setTcp)

lemma waitCmd_ok:
  "tcp_env_ok env \<Longrightarrow> tcp_ok w \<Longrightarrow> ensures (waitCmd_ofProtoTCP env link opt w) (\<lambda>(r, c, w'). tcp_ok w')"
  unfolding waitCmd_ofProtoTCP_def
  by (auto intro!: ensures_bind [OF command_wait_ok [OF tcp_env_ok_turns(2)]] tcp_ok_setTcp tcp_link_ok_pop)

lemma ackCmd_ok: "tcp_ok w \<Longrightarrow> ensures (ackCmd_ofProtoTCP link d w) (\<lambda>(r, d', w'). tcp_ok w')"
  unfolding ackCmd_ofProtoTCP_def Let_def
  by (auto split: option.splits intro!: ensures_bind [OF send_two_ok] ensures_bind [OF send_out_payload_ok])

lemma sendData_ok: "tcp_ok w \<Longrightarrow> ensures (sendData_ofProtoTCP link d w) (\<lambda>(r, w'). tcp_ok w')"
  unfolding sendData_ofProtoTCP_def
  by (auto split: option.splits prod.splits intro!: ensures_bind [OF sendW_keeps] sendW_ok)

lemma recvData_ok:
  assumes "tcp_env_ok env" "tcp_ok w"
  shows "ensures (recvData_ofProtoTCP env link d opt w) (\<lambda>(r, d', w'). tcp_ok w')"
proof -
  have buf: "pb_inv (tPollingBuffer l)" if "tcp_ok w1" "TcpLinks (proto w1) f = Some l" for w1 :: "'a tcp_world" and f l
    using tcp_okD [OF that] by (simp add: tcp_link_ok_def)
  show ?thesis unfolding recvData_ofProtoTCP_def Let_def using assms(2)
    by (auto split: option.splits intro!: ensures_bind [OF data_wait_ok [OF tcp_env_ok_turns(3) [OF assms(1)]]]
        ensures_bind [OF read_ok [OF buf]] tcp_ok_setTcp tcp_link_ok_pbuf)
qed

lemma subEvt_ok: "tcp_ok w \<Longrightarrow> ensures (subEvt_ofProtoTCP env link a w) (\<lambda>(r, w'). tcp_ok w')"
  unfolding subEvt_ofProtoTCP_def by (auto simp: Let_def intro!: sendW_ok tcp_ok_setTcp)

lemma unsubEvt_ok: "tcp_ok w \<Longrightarrow> ensures (unsubEvt_ofProtoTCP link a w) (\<lambda>(r, w'). tcp_ok w')"
  unfolding unsubEvt_ofProtoTCP_def by (auto intro!: sendW_ok tcp_ok_setTcp)

lemma postEvt_ok: "tcp_ok w \<Longrightarrow> ensures (postEvt_ofProtoTCP link e w) (\<lambda>(r, w'). tcp_ok w')"
  unfolding postEvt_ofProtoTCP_def by (auto intro!: send_two_ok)

section \<open>Connecting, accepting, closing\<close>

lemma new_link_ok: "tcp_env_ok env \<Longrightarrow> new_tcp_link env owner = Inr l \<Longrightarrow> tcp_link_ok l"
  by (auto simp: new_tcp_link_def tcp_initPollingBuffer_def fresh_tcp_link_def tcp_link_ok_def tcp_cmdq_ok_def
      tcp_env_ok_def pb_inv_def POLLING_BUFFER_SIZE_def split: if_splits option.splits)

lemma attach_ok: "tcp_ok w \<Longrightarrow> tcp_link_ok l \<Longrightarrow> attach_tcp_link l fd link w = (f, w') \<Longrightarrow> tcp_ok w'"
  by (auto simp: attach_tcp_link_def Let_def) (auto simp: tcp_ok_def less_Suc_eq)

lemma connect_fd_ok [simp]: "tcp_ok (connect_fd net b fd lfd w) \<longleftrightarrow> tcp_ok w"
  by (simp add: connect_fd_def Let_def)

lemma set_dat_usage_ok [simp]: "tcp_link_ok (set_dat_usage d l) \<longleftrightarrow> tcp_link_ok l"
  by (simp add: set_dat_usage_def Let_def) (simp add: tcp_link_ok_def tcp_cmdq_ok_def pb_inv_def)

lemma start_ok: "tcp_ok w \<Longrightarrow> ensures (start_recv_thread env f fd w) (\<lambda>(r, w'). tcp_ok w')"
  by (auto simp: start_recv_thread_def Let_def tcp_ok_setTcp)

lemma connect_begin_ok:
  assumes "tcp_env_ok env" "tcp_ok w"
  shows "ensures (tcp_connect_begin env link args opt w) (\<lambda>r. case r of
     Inl (res, w') \<Rightarrow> tcp_ok w' | Inr (f, fd, w') \<Rightarrow> tcp_ok w')"
  unfolding tcp_connect_begin_def Let_def using assms(2)
  by (auto split: sum.splits option.splits prod.splits intro!: ensures_bind [OF sendW_keeps]
      dest!: new_link_ok [OF assms(1)] dest: attach_ok [rotated 2])

lemma connect_usage_ok: "tcp_link_ok l \<Longrightarrow> ensures (connect_usage args lk l) tcp_link_ok"
  unfolding connect_usage_def
  by (rule ensures_bind [of _ tcp_link_ok]) (auto split: option.splits)

lemma connect_end_ok: "tcp_ok w \<Longrightarrow> ensures (tcp_connect_end env f fd link args w) (\<lambda>(r, w'). tcp_ok w')"
  unfolding tcp_connect_end_def Let_def
  by (auto split: recv_end.splits intro!: ensures_bind [OF recvW_keeps] ensures_bind [OF connect_usage_ok]
      start_ok tcp_ok_setTcp dest: tcp_okD)

lemma connect_ok:
  assumes "tcp_env_ok env" "tcp_ok w"
  shows "ensures (connectService_ofProtoTCP env link args opt w) (\<lambda>(r, w'). tcp_ok w')"
  unfolding connectService_ofProtoTCP_def
  by (auto split: sum.splits intro!: ensures_bind [OF connect_begin_ok [OF assms]]
      ensures_bind [OF tcp_env_okD(4) [OF assms(1)]] connect_end_ok)

lemma accept_fd_ok: "tcp_ok w \<Longrightarrow> ensures (accept_fd env opt lfd w) (\<lambda>r. case r of
     Inl res \<Rightarrow> True | Inr (fd, w') \<Rightarrow> tcp_ok w')"
  by (auto simp: accept_fd_def Let_def split: list.splits)

lemma accept_negotiate_ok: "tcp_ok w \<Longrightarrow> ensures (tcp_accept_negotiate env s f fd link w) (\<lambda>(r, w'). tcp_ok w')"
  unfolding tcp_accept_negotiate_def Let_def
  by (auto split: recv_end.splits option.splits intro!: ensures_bind [OF recvW_keeps] ensures_bind [OF sendW_keeps]
      start_ok tcp_ok_setTcp)

lemma accept_ok:
  assumes "tcp_env_ok env" "tcp_ok w"
  shows "ensures (acceptClient_ofProtoTCP env srv link opt w) (\<lambda>(r, w'). tcp_ok w')"
  unfolding acceptClient_ofProtoTCP_def using assms(2)
  by (auto split: sum.splits option.splits prod.splits intro!: ensures_bind [OF tcp_env_okD(4) [OF assms(1)]]
      ensures_bind [OF accept_fd_ok] accept_negotiate_ok dest!: new_link_ok [OF assms(1)]) (erule (2) attach_ok)

lemma close_ok: "tcp_ok w \<Longrightarrow> ensures (closeLink_ofProtoTCP link w) (\<lambda>(r, w'). tcp_ok w')"
  by (auto simp: closeLink_ofProtoTCP_def Let_def split: option.splits)

lemma online_ok: "tcp_ok w \<Longrightarrow> ensures (onlineService_ofProtoTCP env i w) (\<lambda>(r, w'). tcp_ok w')"
  by (auto simp: onlineService_ofProtoTCP_def Let_def) (simp add: tcp_ok_def setListeners_def less_SucI)

lemma offline_ok: "tcp_ok w \<Longrightarrow> ensures (offlineService_ofProtoTCP i w) (\<lambda>(r, w'). tcp_ok w')"
  by (auto simp: offlineService_ofProtoTCP_def Let_def split: option.splits)

section \<open>Everything the protocol does\<close>

text \<open>
  What runs inside of a call or of a turn: the callbacks of the user and, while a call waits, the other
  threads.  They may do whatever \<open>R\<close> allows.  Of the types of C there remains that an executed descriptor
  still has its embedded arrays of 64 bytes and that an allocated block has the size asked for.
\<close>

definition turns_by :: "('w \<Rightarrow> 'w \<Rightarrow> bool) \<Rightarrow> (bool \<times> ('w \<Rightarrow> 'w outcome)) list \<Rightarrow> bool" where
  "turns_by R ts \<longleftrightarrow> (\<forall>(e, turn)\<in>set ts. \<forall>w w'. turn w = Done w' \<longrightarrow> R w w')"

definition env_by :: "('x tcp_world \<Rightarrow> 'x tcp_world \<Rightarrow> bool) \<Rightarrow> 'x tcp_env \<Rightarrow> bool" where
  "env_by R env \<longleftrightarrow>
     (\<forall>block. te_poll env = Some block \<longrightarrow> length block = POLLING_BUFFER_SIZE) \<and>
     (\<forall>F p e w w'. te_evt env F p e w = Done w' \<longrightarrow> R w w') \<and>
     (\<forall>F p i d w w'. te_dat env F p i d w = Done w' \<longrightarrow> R w w') \<and>
     (\<forall>F p i c w r c' w'. te_cmd env F p i c w = Done (r, c', w') \<longrightarrow> R w w' \<and> (cmd_wf c \<longrightarrow> cmd_wf c')) \<and>
     (\<forall>w w'. te_others env w = Done w' \<longrightarrow> R w w') \<and>
     turns_by R (te_exec env) \<and> turns_by R (te_waitcmd env) \<and> turns_by R (te_recv env)"

lemma turns_by_mono: "(\<And>w w'. R w w' \<longrightarrow> S w w') \<Longrightarrow> turns_by R ts \<longrightarrow> turns_by S ts"
  by (fastforce simp: turns_by_def)

lemma env_by_mono [mono]:
  assumes "\<And>w w'. R w w' \<longrightarrow> S w w'"
  shows "env_by R env \<longrightarrow> env_by S env"
proof
  have turns: "turns_by R ts \<Longrightarrow> turns_by S ts" for ts using turns_by_mono [of R S ts] assms by simp
  have step: "\<forall>w w'. R w w' \<longrightarrow> S w w'" using assms by simp
  assume "env_by R env"
  then show "env_by S env" unfolding env_by_def by (elim conjE, intro conjI; use step turns in meson)
qed

lemma env_by_ok:
  assumes "env_by R env" "\<And>w w'. R w w' \<Longrightarrow> tcp_ok w \<Longrightarrow> tcp_ok w'"
  shows "tcp_env_ok env"
proof -
  have "turns_ok ts" if "turns_by R ts" for ts
    using that assms(2) by (fastforce simp: turns_by_def turns_ok_def ensures_def)
  moreover have step: "\<forall>w w'. R w w' \<longrightarrow> tcp_ok w \<longrightarrow> tcp_ok w'" using assms(2) by blast
  ultimately show ?thesis using assms(1) unfolding env_by_def tcp_env_ok_def ensures_def
    by (elim conjE, intro conjI; use step in \<open>simp; metis?\<close>)
qed

text \<open>
  Calls, turns of receiver threads, and bytes or errors that arrive on the sockets, in any order; and what the
  rest of the process does to its own state (the service layer, the FIFO protocol, the applications).  The
  callbacks and the other threads that run inside of a call or a turn themselves only take such steps, any
  number of them.
\<close>

inductive tcp_step :: "'x tcp_world \<Rightarrow> 'x tcp_world \<Rightarrow> bool" where
  Arrive: "tcp_step w (setSocks ss w)"
| Elsewhere: "TcpLinks (proto w') = TcpLinks (proto w) \<Longrightarrow> next_tcp (proto w') = next_tcp (proto w) \<Longrightarrow> tcp_step w w'"
| Turn: "env_by tcp_step\<^sup>*\<^sup>* env \<Longrightarrow> recv_turn env f w = Done w' \<Longrightarrow> tcp_step w w'"
| Online: "onlineService_ofProtoTCP env i w = Done (r, w') \<Longrightarrow> tcp_step w w'"
| Offline: "offlineService_ofProtoTCP i w = Done (r, w') \<Longrightarrow> tcp_step w w'"
| Connect: "env_by tcp_step\<^sup>*\<^sup>* env \<Longrightarrow> connectService_ofProtoTCP env link args opt w = Done (r, w') \<Longrightarrow> tcp_step w w'"
| Accept: "env_by tcp_step\<^sup>*\<^sup>* env \<Longrightarrow> acceptClient_ofProtoTCP env srv link opt w = Done (r, w') \<Longrightarrow> tcp_step w w'"
| Close: "closeLink_ofProtoTCP link w = Done (r, w') \<Longrightarrow> tcp_step w w'"
| SubEvt: "subEvt_ofProtoTCP env link a w = Done (r, w') \<Longrightarrow> tcp_step w w'"
| UnsubEvt: "unsubEvt_ofProtoTCP link a w = Done (r, w') \<Longrightarrow> tcp_step w w'"
| PostEvt: "postEvt_ofProtoTCP link e w = Done (r, w') \<Longrightarrow> tcp_step w w'"
| ExecCmd: "env_by tcp_step\<^sup>*\<^sup>* env \<Longrightarrow> execCmd_ofProtoTCP env link d opt w = Done (r, d', w') \<Longrightarrow> tcp_step w w'"
| WaitCmd: "env_by tcp_step\<^sup>*\<^sup>* env \<Longrightarrow> waitCmd_ofProtoTCP env link opt w = Done (r, c, w') \<Longrightarrow> tcp_step w w'"
| AckCmd: "ackCmd_ofProtoTCP link d w = Done (r, d', w') \<Longrightarrow> tcp_step w w'"
| SendData: "sendData_ofProtoTCP link dd w = Done (r, w') \<Longrightarrow> tcp_step w w'"
| RecvData: "env_by tcp_step\<^sup>*\<^sup>* env \<Longrightarrow> recvData_ofProtoTCP env link dd opt w = Done (r, dd', w') \<Longrightarrow> tcp_step w w'"

lemmas tcp_calls_ok = recv_turn_ok online_ok offline_ok connect_ok accept_ok close_ok subEvt_ok unsubEvt_ok postEvt_ok
  execCmd_ok waitCmd_ok ackCmd_ok sendData_ok recvData_ok

text \<open>The environment of a step takes steps that keep the links well formed, by induction.\<close>

lemma env_steps_ok:
  assumes "env_by (\<lambda>w w'. tcp_step w w' \<and> (tcp_ok w \<longrightarrow> tcp_ok w'))\<^sup>*\<^sup>* env"
  shows "tcp_env_ok env"
proof (rule env_by_ok [OF assms])
  fix w w' assume "(\<lambda>w w'. tcp_step w w' \<and> (tcp_ok w \<longrightarrow> tcp_ok w'))\<^sup>*\<^sup>* w w'" "tcp_ok w"
  then show "tcp_ok w'" by (induction rule: rtranclp_induct) auto
qed

lemma tcp_step_ok: "tcp_step w w' \<Longrightarrow> tcp_ok w \<Longrightarrow> tcp_ok w'"
proof (induction rule: tcp_step.induct)
  case (Elsewhere w' w)
  then show ?case by (simp add: tcp_ok_def)
qed (auto dest!: env_steps_ok dest: tcp_calls_ok [THEN ensuresD])

section \<open>Properties\<close>

text \<open>C32: Whatever sequence of calls, receiver turns and arriving bytes a process goes through, with callbacks and
  other threads that take such steps themselves while a call or a turn is under way, every TCP link stays well
  formed: its command queue holds at most 16 commands in an array of 16 with head and
  tail in step, its polling buffer satisfies the ring invariant, and every command it stores has embedded
  payloads of exactly 64 bytes.\<close>

theorem tcp_links_well_formed:
  assumes "tcp_step\<^sup>*\<^sup>* w w'" "tcp_ok w" "TcpLinks (proto w') f = Some l"
  shows "IncomingCmdCount l \<le> 16 \<and> length (IncomingCmdQueue l) = 16 \<and> IncomingCmdHead l < 16 \<and>
    IncomingCmdTail l = (IncomingCmdHead l + IncomingCmdCount l) mod 16 \<and> pb_inv (tPollingBuffer l) \<and>
    (\<forall>c\<in>set (tcp_cmdq l). cmd_wf c) \<and> cmd_wf (CmdResponse l)"
proof -
  have "tcp_ok w'" using assms(1,2) by (induction rule: rtranclp_induct) (auto intro: tcp_step_ok)
  then have ok: "tcp_link_ok l" using assms(3) by (rule tcp_okD)
  have "set (tcp_cmdq l) \<subseteq> set (IncomingCmdQueue l)" using ok
    by (auto simp: tcp_cmdq_def ring_contents_def tcp_link_ok_def tcp_cmdq_ok_def)
  then show ?thesis using ok by (auto simp: tcp_link_ok_def tcp_cmdq_ok_def)
qed

definition tcp_init :: tcp_state where
  "tcp_init = fifo_state.extend fifo_init \<lparr>TcpLinks = (\<lambda>_. None), TcpSrvs = (\<lambda>_. None), next_tcp = 0, Socks = (\<lambda>_. None),
     Listeners = [], next_fd = 3, recv_threads = [], tcp_log = []\<rparr>"

end
