(* ===== verification/TcpTraffic.thy ===== *)
theory TcpTraffic
  imports TcpInvariant
begin

text \<open>
  What arrives when something is sent over a TCP link: the calls of the sender and the turns of the
  receiver's thread together.  Pairs of connected links, subscriptions and events.
\<close>

section \<open>One turn on one message\<close>

text \<open>The thread of link \<open>f\<close> runs on the open socket \<open>fd\<close>.\<close>

definition receiving :: "'x tcp_world \<Rightarrow> nat \<Rightarrow> TcpLinkObject_T \<Rightarrow> bool" where
  "receiving w f l \<longleftrightarrow> TcpLinks (proto w) f = Some l \<and> f \<in> set (recv_threads (proto w)) \<and> RecvThreadRunning l \<and>
     Socks (proto w) (SocketFd l) \<noteq> None"

abbreviation arrived :: "'x tcp_world \<Rightarrow> TcpLinkObject_T \<Rightarrow> rx_item list" where
  "arrived w l \<equiv> inbox (Socks (proto w)) (SocketFd l)"

lemma receivingD:
  "receiving w f l \<Longrightarrow> TcpLinks (proto w) f = Some l" "receiving w f l \<Longrightarrow> RecvThreadRunning l"
  "receiving w f l \<Longrightarrow> Socks (proto w) (SocketFd l) \<noteq> None" "receiving w f l \<Longrightarrow> f \<in> set (recv_threads (proto w))"
  by (simp_all add: receiving_def)

lemma recv_message_header:
  assumes "receiving w f l" "arrived w l = map RxByte (tcp_header t n @ bs) @ r"
  obtains ss where "took (Socks (proto w)) (SocketFd l) (map RxByte bs @ r) ss"
    "recv_message env f w = (let w1 = setSocks ss w; m = unat (ucast n :: 32 word) in
       if t = TCP_MSG_EVENT \<and> m = sizeof_EvtDesc then recv_event env f (SocketFd l) w1
       else if t = TCP_MSG_SUBSCRIBE then Done (True, setTcp f (\<lambda>l. l\<lparr>PeerHasSubscription := True\<rparr>) w1)
       else if t = TCP_MSG_UNSUBSCRIBE then Done (True, setTcp f (\<lambda>l. l\<lparr>PeerHasSubscription := False\<rparr>) w1)
       else if t = TCP_MSG_DATA \<and> m > 0 then recv_data env f (SocketFd l) m w1
       else if t = TCP_MSG_COMMAND \<and> m = sizeof_CmdDesc then recv_command env f (SocketFd l) w1
       else Done (True, w1))"
proof -
  note d = receivingD [OF assms(1)]
  from recvW_header [OF d(3) assms(2)] obtain ss where
    ss: "recvW (SocketFd l) 8 w = Done (RecvOk (tcp_header t n), setSocks ss w)"
      "took (Socks (proto w)) (SocketFd l) (map RxByte bs @ r) ss" by blast
  then show ?thesis using d that [OF ss(2)]
    by (simp add: recv_message_def unat_gt_0 word_gt_0 Let_def del: msg_type.simps)
qed

lemma recv_turn_goes_on:
  "receiving w f l \<Longrightarrow> recv_message env f w = Done (True, w') \<Longrightarrow> recv_turn env f w = Done w'"
  by (simp add: recv_turn_def receiving_def)

lemma recv_turn_ends:
  "receiving w f l \<Longrightarrow> recv_message env f w = Done (False, w') \<Longrightarrow>
   recv_turn env f w = Done (w'\<lparr>proto := (proto w')\<lparr>recv_threads := filter (\<lambda>g. g \<noteq> f) (recv_threads (proto w'))\<rparr>\<rparr>)"
  by (simp add: recv_turn_def receiving_def)

lemma took_receiving: "receiving w f l \<Longrightarrow> took (Socks (proto w)) b r ss \<Longrightarrow> receiving (setSocks ss w) f l"
  using same_socks_dom [of "Socks (proto w)" ss] by (auto simp: receiving_def took_def)

lemma gave_receiving: "receiving w f l \<Longrightarrow> gave (Socks (proto w)) b bs ss \<Longrightarrow> receiving (setSocks ss w) f l"
  using same_socks_dom [of "Socks (proto w)" ss] by (auto simp: receiving_def gave_def)

section \<open>Events\<close>

lemma turn_subscribe:
  assumes "receiving w f l" "arrived w l = map RxByte (tcp_header TCP_MSG_SUBSCRIBE n) @ r"
  obtains ss where "took (Socks (proto w)) (SocketFd l) r ss"
    "recv_turn env f w = Done (setTcp f (\<lambda>l. l\<lparr>PeerHasSubscription := True\<rparr>) (setSocks ss w))"
  using recv_message_header [OF assms(1), of TCP_MSG_SUBSCRIBE n "[]" r env] assms(2)
    recv_turn_goes_on [OF assms(1), of env] by (auto simp: Let_def)

lemma turn_unsubscribe:
  assumes "receiving w f l" "arrived w l = map RxByte (tcp_header TCP_MSG_UNSUBSCRIBE n) @ r"
  obtains ss where "took (Socks (proto w)) (SocketFd l) r ss"
    "recv_turn env f w = Done (setTcp f (\<lambda>l. l\<lparr>PeerHasSubscription := False\<rparr>) (setSocks ss w))"
  using recv_message_header [OF assms(1), of TCP_MSG_UNSUBSCRIBE n "[]" r env] assms(2)
    recv_turn_goes_on [OF assms(1), of env] by (auto simp: Let_def)

definition evt_frame :: "IOC_EvtDesc_T \<Rightarrow> byte list" where
  "evt_frame e = tcp_header TCP_MSG_EVENT (of_nat sizeof_EvtDesc) @ put_evt e"

text \<open>What an event does at the receiver.\<close>

definition deliver_evt :: "'x tcp_env \<Rightarrow> IOC_SubEvtArgs_T \<Rightarrow> IOC_EvtDesc_T \<Rightarrow> 'x tcp_world \<Rightarrow> 'x tcp_world outcome" where
  "deliver_evt env a e w = (case CbProcEvt_F a of
     Some F \<Rightarrow> if EvtID e \<in> set (take (nat (EvtNum_int a)) (pEvtIDs a)) then te_evt env F (pCbPrivData a) e w
       else if length (pEvtIDs a) < nat (EvtNum_int a) then Abort else Done w
   | None \<Rightarrow> Done w)"

lemma case_first_index:
  "(case first_index ((=) x) xs of None \<Rightarrow> a | Some _ \<Rightarrow> b) = (if x \<in> set xs then b else a)"
proof (cases "x \<in> set xs")
  case True
  then obtain i where "first_index ((=) x) xs = Some i" by (cases "first_index ((=) x) xs") auto
  then show ?thesis using True by simp
next
  case False
  then have none: "first_index ((=) x) xs = None" by auto
  show ?thesis unfolding none using False by simp
qed

lemma turn_event:
  assumes "receiving w f l" "arrived w l = map RxByte (evt_frame e) @ r" "msg_ok (MsgDesc e)"
  obtains ss where "took (Socks (proto w)) (SocketFd l) r ss"
    "recv_turn env f w = deliver_evt env (tSubEvtArgs l) e (setSocks ss w)"
proof -
  obtain ss where ss: "took (Socks (proto w)) (SocketFd l) (map RxByte (put_evt e) @ r) ss"
    "recv_message env f w = recv_event env f (SocketFd l) (setSocks ss w)"
    using recv_message_header [OF assms(1), of TCP_MSG_EVENT "of_nat sizeof_EvtDesc" "put_evt e" r env] assms(2)
    by (auto simp: evt_frame_def Let_def sizeof_EvtDesc_def)
  note r1 = took_receiving [OF assms(1) ss(1)]
  have "inbox (Socks (proto (setSocks ss w))) (SocketFd l) = map RxByte (put_evt e) @ r" using took_inbox [OF ss(1)] by simp
  from recvW_ok [OF receivingD(3) [OF r1] this, of sizeof_EvtDesc] obtain ss' where
    ss': "recvW (SocketFd l) sizeof_EvtDesc (setSocks ss w) = Done (RecvOk (put_evt e), setSocks ss' w)" "took ss (SocketFd l) r ss'"
    by (auto simp: sizeof_EvtDesc_def)
  have t: "took (Socks (proto w)) (SocketFd l) r ss'" using took_trans [OF ss(1) ss'(2)] .
  have l: "TcpLinks (proto w) f = Some l" using receivingD [OF assms(1)] by simp
  have m: "recv_message env f w = bindO (deliver_evt env (tSubEvtArgs l) e (setSocks ss' w)) (\<lambda>w2. Done (True, w2))"
    using l ss' ss(2) evt_put [OF assms(3)]
    by (simp add: recv_event_def deliver_evt_def Let_def case_first_index split: option.split)
  have "recv_turn env f w = deliver_evt env (tSubEvtArgs l) e (setSocks ss' w)"
    using m receivingD(4) [OF assms(1)] by (cases "deliver_evt env (tSubEvtArgs l) e (setSocks ss' w)") (simp_all add: recv_turn_def)
  then show ?thesis using that t by blast
qed

section \<open>A pair of connected links\<close>

text \<open>Link \<open>a\<close> of the library with end \<open>f\<close> in state \<open>lf\<close>, and link \<open>b\<close> with end \<open>g\<close> in state \<open>lg\<close>, connected in
  both directions, with both receiver threads running.\<close>

definition end_of :: "'x tcp_world \<Rightarrow> nat \<Rightarrow> nat \<Rightarrow> bool" where
  "end_of w a f \<longleftrightarrow> (case LinkHeap w a of None \<Rightarrow> False | Some lk \<Rightarrow> pProtoPriv lk = Some f)"

definition tcp_pair ::
  "'x tcp_world \<Rightarrow> nat \<Rightarrow> nat \<Rightarrow> TcpLinkObject_T \<Rightarrow> nat \<Rightarrow> nat \<Rightarrow> TcpLinkObject_T \<Rightarrow> bool" where
  "tcp_pair w a f lf b g lg \<longleftrightarrow> end_of w a f \<and> end_of w b g \<and> f \<noteq> g \<and> receiving w f lf \<and> receiving w g lg \<and>
     conn (Socks (proto w)) (SocketFd lf) (SocketFd lg) \<and> conn (Socks (proto w)) (SocketFd lg) (SocketFd lf)"

lemma tcp_pairD:
  assumes "tcp_pair w a f lf b g lg"
  shows "end_of w a f" "end_of w b g" "f \<noteq> g" "receiving w f lf" "receiving w g lg"
    "conn (Socks (proto w)) (SocketFd lf) (SocketFd lg)" "conn (Socks (proto w)) (SocketFd lg) (SocketFd lf)"
    "SocketFd lf \<noteq> SocketFd lg" "TcpLinks (proto w) f = Some lf" "TcpLinks (proto w) g = Some lg"
  using assms by (auto simp: tcp_pair_def conn_def receiving_def)

lemma tcp_pair_sym: "tcp_pair w a f lf b g lg \<Longrightarrow> tcp_pair w b g lg a f lf"
  by (auto simp: tcp_pair_def)

lemma tcp_pair_socks:
  assumes "tcp_pair w a f lf b g lg" "same_socks (Socks (proto w)) ss"
  shows "tcp_pair (setSocks ss w) a f lf b g lg"
  using assms same_socks_dom [OF assms(2)] same_socks_conn [OF assms(2)]
  by (auto simp: tcp_pair_def receiving_def end_of_def)

lemma tcp_pair_gave: "tcp_pair w a f lf b g lg \<Longrightarrow> gave (Socks (proto w)) x bs ss \<Longrightarrow> tcp_pair (setSocks ss w) a f lf b g lg"
  by (rule tcp_pair_socks) (simp_all add: gave_def)

lemma tcp_pair_took: "tcp_pair w a f lf b g lg \<Longrightarrow> took (Socks (proto w)) x r ss \<Longrightarrow> tcp_pair (setSocks ss w) a f lf b g lg"
  by (rule tcp_pair_socks) (simp_all add: took_def)

lemma tcp_pair_setTcp:
  assumes "tcp_pair w a f lf b g lg" "SocketFd (h lf) = SocketFd lf" "RecvThreadRunning (h lf) = RecvThreadRunning lf"
  shows "tcp_pair (setTcp f h w) a f (h lf) b g lg"
  using assms by (auto simp: tcp_pair_def receiving_def end_of_def)

lemma tcp_pair_setTcp2:
  assumes "tcp_pair w a f lf b g lg" "SocketFd (h lg) = SocketFd lg" "RecvThreadRunning (h lg) = RecvThreadRunning lg"
  shows "tcp_pair (setTcp g h w) a f lf b g (h lg)"
  using assms by (auto simp: tcp_pair_def receiving_def end_of_def)

lemma with_tcp_end: "end_of w a f \<Longrightarrow> TcpLinks (proto w) f = Some l \<Longrightarrow> with_tcp a w k = k f l"
  by (auto simp: with_tcp_def end_of_def deref_def split: option.splits)

lemma end_of_keep [simp]: "end_of (setTcp f h w) a g \<longleftrightarrow> end_of w a g" "end_of (setSocks ss w) a g \<longleftrightarrow> end_of w a g"
  by (simp_all add: end_of_def)

lemma send_two_conn:
  assumes "conn (Socks (proto w)) a b"
  obtains ss where "send_two a x y w = Done (IOC_RESULT_SUCCESS, setSocks ss w)" "gave (Socks (proto w)) b (x @ y) ss"
proof -
  obtain s1 where 1: "sendW a x w = Done (IOC_RESULT_SUCCESS, setSocks s1 w)" "gave (Socks (proto w)) b x s1"
    using sendW_conn [OF assms, of x] by blast
  have "conn (Socks (proto (setSocks s1 w))) a b" using gave_conn [OF 1(2) assms] by simp
  then obtain s2 where 2: "sendW a y (setSocks s1 w) = Done (IOC_RESULT_SUCCESS, setSocks s2 w)" "gave s1 b y s2"
    using sendW_conn [of "setSocks s1 w" a b y] by auto
  then show ?thesis using that [of s2] 1 gave_trans [OF 1(2) 2(2)] by (simp add: send_two_def)
qed

section \<open>Subscribing and posting\<close>

lemma post_pair:
  assumes "tcp_pair w a f lf b g lg" "PeerHasSubscription lf"
  obtains ss where "postEvt_ofProtoTCP a e w = Done (IOC_RESULT_SUCCESS, setSocks ss w)"
    "gave (Socks (proto w)) (SocketFd lg) (evt_frame e) ss"
  using send_two_conn [OF tcp_pairD(6) [OF assms(1)], of "tcp_header TCP_MSG_EVENT (of_nat sizeof_EvtDesc)" "put_evt e"]
    assms(2)
  by (auto simp: postEvt_ofProtoTCP_def evt_frame_def with_tcp_end [OF tcp_pairD(1,9) [OF assms(1)]])

lemma post_no_consumer:
  "tcp_pair w a f lf b g lg \<Longrightarrow> \<not> PeerHasSubscription lf \<Longrightarrow>
   postEvt_ofProtoTCP a e w = Done (IOC_RESULT_NO_EVENT_CONSUMER, w)"
  by (simp add: postEvt_ofProtoTCP_def with_tcp_end [OF tcp_pairD(1,9)])

abbreviation sub_copy :: "IOC_SubEvtArgs_T \<Rightarrow> IOC_SubEvtArgs_T" where
  "sub_copy s \<equiv> s\<lparr>pEvtIDs := take (unat (EvtNum s)) (pEvtIDs s)\<rparr>"

text \<open>Arguments that announce no more identifiers than there are, in a number that an \<^verbatim>\<open>int\<close> holds.\<close>

definition sub_args_ok :: "IOC_SubEvtArgs_T \<Rightarrow> bool" where
  "sub_args_ok s \<longleftrightarrow> unat (EvtNum s) \<le> length (pEvtIDs s) \<and> unat (EvtNum s) < 2 ^ 31"

lemma uint_bounds:
  "unat (x :: 'a::len word) < n \<Longrightarrow> uint x < int n" "n \<le> unat x \<Longrightarrow> int n \<le> uint x"
  by (metis of_nat_less_iff of_nat_le_iff of_nat_unat)+

lemma sub_args_okD:
  assumes "sub_args_ok s"
  shows "nat (EvtNum_int s) = unat (EvtNum s)" "unat (EvtNum s * 8) div 8 = unat (EvtNum s)"
    "unat (EvtNum s) \<le> length (pEvtIDs s)"
proof -
  have s: "unat (EvtNum s) \<le> length (pEvtIDs s)" "unat (EvtNum s) < 2 ^ 31" using assms by (simp_all add: sub_args_ok_def)
  have "- (2 ^ 31 :: int) \<le> 0" by simp
  also have "0 \<le> uint (EvtNum s)" by (rule uint_ge_0)
  finally have b: "uint (EvtNum s) < 2 ^ 31" "- (2 ^ 31) \<le> uint (EvtNum s)" using uint_bounds(1) [OF s(2)] by simp_all
  have "EvtNum_int s = signed_take_bit 31 (take_bit 32 (uint (EvtNum s)))"
    by (simp add: EvtNum_int_def sint_uint unsigned_ucast_eq)
  also have "\<dots> = signed_take_bit 31 (uint (EvtNum s))" using b(1) by (simp add: take_bit_int_eq_self)
  also have "\<dots> = uint (EvtNum s)" using b by (intro signed_take_bit_int_eq_self)
  finally show "nat (EvtNum_int s) = unat (EvtNum s)" by simp
  have "unat (EvtNum s) * 8 < 2 ^ 64" using s(2) by simp
  then have "unat (EvtNum s * 8) = unat (EvtNum s) * 8" using unat_mult_lem [of "EvtNum s" 8] by simp
  then show "unat (EvtNum s * 8) div 8 = unat (EvtNum s)" by simp
  show "unat (EvtNum s) \<le> length (pEvtIDs s)" by (rule s(1))
qed

text \<open>When the number does not fit, no event is compared with the subscribed ones at all.\<close>

lemma EvtNum_int_negative:
  assumes "2 ^ 31 \<le> unat (EvtNum s)" "unat (EvtNum s) < 2 ^ 32"
  shows "nat (EvtNum_int s) = 0"
proof -
  have b: "2 ^ 31 \<le> uint (EvtNum s)" "uint (EvtNum s) < 2 ^ 32" using uint_bounds(2) [OF assms(1)] uint_bounds(1) [OF assms(2)] by simp_all
  have "EvtNum_int s = signed_take_bit 31 (uint (EvtNum s))"
    using b by (simp add: EvtNum_int_def sint_uint unsigned_ucast_eq take_bit_int_eq_self)
  moreover have "bit (uint (EvtNum s)) 31" using b by (simp add: bit_iff_odd div_pos_geq)
  ultimately have "EvtNum_int s < 0" by simp
  then show ?thesis by simp
qed

lemma subscribe_pair:
  assumes "tcp_pair w a f lf b g lg" "te_malloc env (unat (EvtNum s * 8))" "sub_args_ok s"
  obtains ss where "subEvt_ofProtoTCP env b s w =
      Done (IOC_RESULT_SUCCESS, setSocks ss (setTcp g (\<lambda>l. l\<lparr>tSubEvtArgs := sub_copy s\<rparr>) w))"
    "gave (Socks (proto w)) (SocketFd lf) (tcp_header TCP_MSG_SUBSCRIBE 0) ss"
  using sendW_conn [of "setTcp g (\<lambda>l. l\<lparr>tSubEvtArgs := sub_copy s\<rparr>) w" "SocketFd lg" "SocketFd lf" "tcp_header TCP_MSG_SUBSCRIBE 0"]
    tcp_pairD(7) [OF assms(1)] assms(2) sub_args_okD(2,3) [OF assms(3)]
  by (auto simp: subEvt_ofProtoTCP_def Let_def with_tcp_end [OF tcp_pairD(2,10) [OF assms(1)]])

text \<open>A subscription that the producer's thread has noticed.\<close>

lemma subscribed_pair:
  assumes "tcp_pair w a f lf b g lg" "te_malloc env (unat (EvtNum s * 8))" "sub_args_ok s" "arrived w lf = []"
  obtains w1 w2 lf' lg' where "subEvt_ofProtoTCP env b s w = Done (IOC_RESULT_SUCCESS, w1)" "recv_turn env f w1 = Done w2"
    "tcp_pair w1 a f lf b g lg'" "tcp_pair w2 a f lf' b g lg'" "PeerHasSubscription lf'" "tSubEvtArgs lg' = sub_copy s" "arrived w2 lf' = []"
    "arrived w2 lg' = arrived w lg" "SocketFd lf' = SocketFd lf" "SocketFd lg' = SocketFd lg"
proof -
  let ?h = "\<lambda>l. l\<lparr>tSubEvtArgs := sub_copy s\<rparr>" and ?p = "\<lambda>l. l\<lparr>PeerHasSubscription := True\<rparr>"
  note d = tcp_pairD [OF assms(1)]
  from subscribe_pair [OF assms(1-3)] obtain ss where
    ss: "subEvt_ofProtoTCP env b s w = Done (IOC_RESULT_SUCCESS, setSocks ss (setTcp g ?h w))"
      "gave (Socks (proto w)) (SocketFd lf) (tcp_header TCP_MSG_SUBSCRIBE 0) ss" by blast
  have p1: "tcp_pair (setSocks ss (setTcp g ?h w)) a f lf b g (?h lg)"
    using tcp_pair_gave [OF tcp_pair_setTcp2 [OF assms(1)]] ss(2) by simp
  have "arrived (setSocks ss (setTcp g ?h w)) lf = map RxByte (tcp_header TCP_MSG_SUBSCRIBE 0) @ []"
    using gave_inbox(1) [OF ss(2)] assms(4) by simp
  from turn_subscribe [OF tcp_pairD(4) [OF p1] this, of env] obtain s2 where
    s2: "took ss (SocketFd lf) [] s2"
      "recv_turn env f (setSocks ss (setTcp g ?h w)) = Done (setTcp f ?p (setSocks s2 (setTcp g ?h w)))" by auto
  let ?w2 = "setTcp f ?p (setSocks s2 (setTcp g ?h w))"
  have "tcp_pair (setSocks s2 (setSocks ss (setTcp g ?h w))) a f lf b g (?h lg)"
    using tcp_pair_took [OF p1] s2(1) by simp
  then have p2: "tcp_pair ?w2 a f (?p lf) b g (?h lg)" by (intro tcp_pair_setTcp) simp_all
  have "arrived ?w2 (?p lf) = []" "arrived ?w2 (?h lg) = arrived w lg"
    using took_inbox [OF s2(1)] gave_inbox(2) [OF ss(2)] d(8) by auto
  then show ?thesis using that [OF ss(1) s2(2) p1 p2] by simp
qed

section \<open>Examples\<close>

text \<open>An environment in which everything is available, callbacks note that they have run, and a command
  answers its input.\<close>

definition note_call :: "nat \<Rightarrow> nat \<Rightarrow> ULONG \<Rightarrow> byte list \<Rightarrow> tcp_state ioc_world \<Rightarrow> tcp_state ioc_world" where
  "note_call F p i bs w = w\<lparr>proto := (proto w)\<lparr>tcp_log := tcp_log (proto w) @ [(F, p, i, bs)]\<rparr>\<rparr>"

definition sample_tcp_env :: "unit tcp_env" where
  "sample_tcp_env = \<lparr>te_mem = True, te_poll = Some (replicate POLLING_BUFFER_SIZE 0), te_socket = True, te_bind = True,
     te_listen = True, te_rcvtimeo = True, te_sndtimeo = True, te_connect = None,
     te_net = \<lparr>ns_tx = [TxUpTo 3], ns_cuts = [1], ns_peer_tx = [], ns_peer_cuts = [4]\<rparr>, te_errno = EINTR, te_select = True,
     te_accept = None, te_thread = True, te_malloc = (\<lambda>_. True),
     te_evt = (\<lambda>F p e w. Done (note_call F p (EvtID e) [] w)),
     te_dat = (\<lambda>F p i d w. Done (note_call F p i (the (pData d)) w)),
     te_cmd = (\<lambda>F p i c w. Done (IOC_RESULT_SUCCESS,
        the (snd (IOC_CmdDesc_setOutPayload True (Some c) (IOC_CmdDesc_getInData (Some c)) (IOC_CmdDesc_getInDataLen (Some c)))),
        note_call F p (CmdID c) [] w)),
     te_others = Done, te_exec = [], te_waitcmd = [], te_recv = []\<rparr>"

text \<open>Two links of one process, connected with each other.\<close>

definition example_end :: "int \<Rightarrow> nat \<Rightarrow> TcpLinkObject_T" where
  "example_end fd owner = (fresh_tcp_link owner fresh_PollingBuffer)\<lparr>SocketFd := fd, RecvThreadRunning := True\<rparr>"

definition pair_world :: "(TcpLinkObject_T \<Rightarrow> TcpLinkObject_T) \<Rightarrow> tcp_state ioc_world" where
  "pair_world h = (init_world (tcp_init\<lparr>TcpLinks := (\<lambda>_. None)(0 := Some (example_end 3 0), 1 := Some (h (example_end 4 1))),
       next_tcp := 2, Socks := pair_sockets [TxUpTo 2] [0, 5], recv_threads := [0, 1]\<rparr>))
     \<lparr>LinkHeap := (\<lambda>_. None)(0 := Some ((new_link 0)\<lparr>pProtoPriv := Some 0\<rparr>), 1 := Some ((new_link 1)\<lparr>pProtoPriv := Some 1\<rparr>))\<rparr>"

lemma pair_world_pair:
  assumes "SocketFd (h (example_end 4 1)) = 4" "RecvThreadRunning (h (example_end 4 1))"
  shows "tcp_pair (pair_world h) 0 0 (example_end 3 0) 1 1 (h (example_end 4 1))"
    "arrived (pair_world h) (example_end 3 0) = []" "arrived (pair_world h) (h (example_end 4 1)) = []"
proof -
  have fd: "SocketFd (example_end 3 0) = 3" "RecvThreadRunning (example_end 3 0)" by (simp_all add: example_end_def)
  have w: "Socks (proto (pair_world h)) = pair_sockets [TxUpTo 2] [0, 5]" "recv_threads (proto (pair_world h)) = [0, 1]"
    "TcpLinks (proto (pair_world h)) = (\<lambda>_. None)(0 := Some (example_end 3 0), 1 := Some (h (example_end 4 1)))"
    "LinkHeap (pair_world h) = (\<lambda>_. None)(0 := Some ((new_link 0)\<lparr>pProtoPriv := Some 0\<rparr>), 1 := Some ((new_link 1)\<lparr>pProtoPriv := Some 1\<rparr>))"
    by (simp_all add: pair_world_def init_world_def)
  show "tcp_pair (pair_world h) 0 0 (example_end 3 0) 1 1 (h (example_end 4 1))" using assms fd
    by (simp add: tcp_pair_def end_of_def receiving_def conn_def w pair_sockets_def sock0_def tx_ok_def)
  show "arrived (pair_world h) (example_end 3 0) = []" "arrived (pair_world h) (h (example_end 4 1)) = []"
    using assms fd by (simp_all add: w inbox_def pair_sockets_def sock0_def)
qed

section \<open>Properties\<close>

text \<open>C33: Events over TCP.  A subscription, of fewer than \<open>2 ^ 31\<close> identifiers that are all there, takes effect at
  the producer when its receiver thread has read the message: until then a post still finds no consumer.  After
  that a post succeeds, and the turn of the consumer's thread that reads it runs the callback exactly once when
  the event is among the subscribed ones, and does nothing else.\<close>

theorem tcp_event_delivery:
  assumes "tcp_pair w a f lf b g lg" "te_malloc env (unat (EvtNum s * 8))" "sub_args_ok s"
    "arrived w lf = []" "arrived w lg = []" "msg_ok (MsgDesc e)"
  shows "\<exists>w1 w2 w3 w4 lf' lg'. subEvt_ofProtoTCP env b s w = Done (IOC_RESULT_SUCCESS, w1) \<and>
    (\<not> PeerHasSubscription lf \<longrightarrow> postEvt_ofProtoTCP a e w1 = Done (IOC_RESULT_NO_EVENT_CONSUMER, w1)) \<and>
    recv_turn env f w1 = Done w2 \<and> postEvt_ofProtoTCP a e w2 = Done (IOC_RESULT_SUCCESS, w3) \<and>
    recv_turn env g w3 = (case CbProcEvt_F s of
        None \<Rightarrow> Done w4
      | Some F \<Rightarrow> if EvtID e \<in> set (take (unat (EvtNum s)) (pEvtIDs s)) then te_evt env F (pCbPrivData s) e w4 else Done w4) \<and>
    tcp_pair w4 a f lf' b g lg' \<and> arrived w4 lf' = [] \<and> arrived w4 lg' = []"
proof -
  from subscribed_pair [OF assms(1-4)] obtain w1 w2 lf' lg' where
    1: "subEvt_ofProtoTCP env b s w = Done (IOC_RESULT_SUCCESS, w1)" "recv_turn env f w1 = Done w2"
      "tcp_pair w1 a f lf b g lg'" "tcp_pair w2 a f lf' b g lg'" "PeerHasSubscription lf'" "tSubEvtArgs lg' = sub_copy s"
      "arrived w2 lf' = []" "arrived w2 lg' = arrived w lg" by metis
  from post_pair [OF 1(4,5), of e] obtain ss where
    2: "postEvt_ofProtoTCP a e w2 = Done (IOC_RESULT_SUCCESS, setSocks ss w2)"
      "gave (Socks (proto w2)) (SocketFd lg') (evt_frame e) ss" by blast
  have p: "tcp_pair (setSocks ss w2) a f lf' b g lg'" using tcp_pair_gave [OF 1(4) 2(2)] .
  have "arrived (setSocks ss w2) lg' = map RxByte (evt_frame e) @ []" using gave_inbox(1) [OF 2(2)] 1(8) assms(5) by simp
  from turn_event [OF tcp_pairD(5) [OF p] this assms(6), of env] obtain s4 where
    4: "took ss (SocketFd lg') [] s4" "recv_turn env g (setSocks ss w2) = deliver_evt env (sub_copy s) e (setSocks s4 w2)"
    using 1(6) by auto
  have "tcp_pair (setSocks s4 w2) a f lf' b g lg'" using tcp_pair_took [OF p, of _ _ s4] 4(1) by simp
  moreover have "arrived (setSocks s4 w2) lf' = []" "arrived (setSocks s4 w2) lg' = []"
    using took_inbox [OF 4(1)] gave_inbox(2) [OF 2(2)] 1(7) tcp_pairD(8) [OF 1(4)] by auto
  moreover have "recv_turn env g (setSocks ss w2) = (case CbProcEvt_F s of None \<Rightarrow> Done (setSocks s4 w2)
      | Some F \<Rightarrow> if EvtID e \<in> set (take (unat (EvtNum s)) (pEvtIDs s))
          then te_evt env F (pCbPrivData s) e (setSocks s4 w2) else Done (setSocks s4 w2))"
    using 4(2) sub_args_okD(1,3) [OF assms(3)] by (simp add: deliver_evt_def EvtNum_int_def split: option.split)
  moreover note 1(1,2) 2(1) post_no_consumer [OF 1(3), of e]
  ultimately show ?thesis by blast
qed

theorem tcp_event_delivery_witness:
  "\<exists>w1 w2 w3 w4. subEvt_ofProtoTCP sample_tcp_env 1 \<lparr>CbProcEvt_F = Some 7, pCbPrivData = 9, EvtNum = 2, pEvtIDs = [5, 6]\<rparr>
      (pair_world id) = Done (IOC_RESULT_SUCCESS, w1) \<and> recv_turn sample_tcp_env 0 w1 = Done w2 \<and>
    postEvt_ofProtoTCP 0 (zero_evt\<lparr>EvtID := 6\<rparr>) w2 = Done (IOC_RESULT_SUCCESS, w3) \<and>
    recv_turn sample_tcp_env 1 w3 = Done (note_call 7 9 6 [] w4)"
proof -
  have "take (unat (2::ULONG)) [5, 6::ULONG] = [5, 6]" by simp
  then show ?thesis
    using tcp_event_delivery [OF pair_world_pair(1) [of id], of sample_tcp_env "\<lparr>CbProcEvt_F = Some 7, pCbPrivData = 9, EvtNum = 2, pEvtIDs = [5, 6]\<rparr>"
        "zero_evt\<lparr>EvtID := 6\<rparr>"] pair_world_pair(2,3) [of id]
    by (auto simp: example_end_def sample_tcp_env_def sub_args_ok_def msg_ok_def zero_evt_def zero_msg_def long_ok_def)
qed

end
