(* ===== verification/TcpData.thy ===== *)
theory TcpData
  imports TcpTraffic
begin

text \<open>
  Blocks of data over a TCP link to a receiver that polls: what \<^verbatim>\<open>IOC_sendDAT\<close> puts on the wire, what the
  receiver's thread puts into the polling buffer and what \<^verbatim>\<open>IOC_recvDAT\<close> finds there.
\<close>

section \<open>Data to a polling receiver\<close>

definition data_frame :: "byte list \<Rightarrow> byte list" where
  "data_frame d = tcp_header TCP_MSG_DATA (of_nat (length d)) @ d"

definition polling_end :: "TcpLinkObject_T \<Rightarrow> bool" where
  "polling_end l \<longleftrightarrow> duCbRecvDat_F (tDatUsageArgs l) = None \<and> IsPollingMode (tPollingBuffer l) \<and> pb_inv (tPollingBuffer l) \<and>
     RecvError l = IOC_RESULT_SUCCESS"

lemma size_32:
  assumes "n < 2 ^ 32"
  shows "unat (ucast (of_nat n :: ULONG) :: 32 word) = n" "unat (of_nat n :: ULONG) = n"
proof -
  show u: "unat (of_nat n :: ULONG) = n" using assms by (simp add: unat_of_nat)
  show "unat (ucast (of_nat n :: ULONG) :: 32 word) = n"
    using assms u by (simp add: unsigned_ucast_eq take_bit_nat_eq_self)
qed

lemma write_keeps_mode:
  "tcp_writeDataToPollingBuffer d b = Done (r, b') \<Longrightarrow> IsPollingMode b' = IsPollingMode b"
  by (auto simp: tcp_writeDataToPollingBuffer_def Let_def split: option.splits if_splits)

lemma turn_data:
  assumes "receiving w f l" "arrived w l = map RxByte (data_frame d) @ r" "d \<noteq> []" "length d < 2 ^ 32"
    "te_malloc env (length d)" "polling_end l"
  obtains ss pb where "took (Socks (proto w)) (SocketFd l) r ss"
    "recv_turn env f w = Done (setTcp f (\<lambda>l. l\<lparr>tPollingBuffer := pb\<rparr>) (setSocks ss w))"
    "polling_end (l\<lparr>tPollingBuffer := pb\<rparr>)"
    "pb_bytes pb = pb_bytes (tPollingBuffer l) @
       (if length (pb_bytes (tPollingBuffer l)) + length d \<le> POLLING_BUFFER_SIZE then d else [])"
proof -
  let ?b = "tPollingBuffer l"
  have n: "unat (ucast (of_nat (length d) :: ULONG) :: 32 word) = length d" using assms(4) by (rule size_32)
  obtain ss where ss: "took (Socks (proto w)) (SocketFd l) (map RxByte d @ r) ss"
    "recv_message env f w = recv_data env f (SocketFd l) (length d) (setSocks ss w)"
    using recv_message_header [OF assms(1), of TCP_MSG_DATA "of_nat (length d)" d r env] assms(2,3)
    by (auto simp: data_frame_def Let_def n)
  note r1 = took_receiving [OF assms(1) ss(1)]
  have "inbox (Socks (proto (setSocks ss w))) (SocketFd l) = map RxByte d @ r" using took_inbox [OF ss(1)] by simp
  from recvW_ok [OF receivingD(3) [OF r1] this refl] assms(3) obtain s2 where
    s2: "recvW (SocketFd l) (length d) (setSocks ss w) = Done (RecvOk d, setSocks s2 w)" "took ss (SocketFd l) r s2"
    by auto
  obtain res pb where pb: "tcp_writeDataToPollingBuffer (Some d) ?b = Done (res, pb)" "pb_inv pb"
    "pb_bytes pb = pb_bytes ?b @ (if length (pb_bytes ?b) + length d \<le> POLLING_BUFFER_SIZE then d else [])"
    using tcp_write_spec [of ?b d] assms(3,6) by (auto simp: polling_end_def pb_inv_def)
  have "recv_message env f w = Done (True, setTcp f (\<lambda>l. l\<lparr>tPollingBuffer := pb\<rparr>) (setSocks s2 w))"
    using ss(2) s2(1) pb(1) assms(5,6) receivingD [OF assms(1)] by (simp add: recv_data_def polling_end_def)
  from recv_turn_goes_on [OF assms(1) this] show ?thesis
    using that [OF took_trans [OF ss(1) s2(2)]] pb write_keeps_mode [OF pb(1)] assms(6) by (simp add: polling_end_def)
qed

text \<open>A descriptor for a block of bytes, with its size and length.\<close>

definition tcp_dat :: "byte list \<Rightarrow> IOC_DatDesc_T" where
  "tcp_dat bs = IOC_initDatDesc\<lparr>pData := Some bs, PtrDataSize := of_nat (length bs), PtrDataLen := of_nat (length bs)\<rparr>"

lemma send_conn:
  assumes "end_of w a f" "TcpLinks (proto w) f = Some lf" "conn (Socks (proto w)) (SocketFd lf) q" "d \<noteq> []" "length d < 2 ^ 32"
  obtains ss where "sendData_ofProtoTCP a (tcp_dat d) w = Done (IOC_RESULT_SUCCESS, setSocks ss w)"
    "gave (Socks (proto w)) q (data_frame d) ss"
proof -
  obtain lk where lk: "LinkHeap w a = Some lk" "pProtoPriv lk = Some f"
    using assms(1) by (auto simp: end_of_def split: option.splits)
  have n: "unat (of_nat (length d) :: ULONG) = length d" using size_32(2) [OF assms(5)] .
  then have nz: "(of_nat (length d) :: ULONG) \<noteq> 0" "(of_nat (length d) :: ULONG) > 0"
    using assms(4) by (metis length_0_conv unat_0, metis length_0_conv unat_0 word_gt_0)
  have "sendData_ofProtoTCP a (tcp_dat d) w = send_two (SocketFd lf) (tcp_header TCP_MSG_DATA (of_nat (length d))) d w"
    using lk nz assms(2)
    by (simp add: sendData_ofProtoTCP_def deref_def IOC_getDatPayload_def tcp_dat_def IOC_initDatDesc_def send_two_def n cong: if_cong)
  then show ?thesis
    using send_two_conn [OF assms(3), of "tcp_header TCP_MSG_DATA (of_nat (length d))" d] that
    by (auto simp: data_frame_def)
qed

lemmas send_pair = send_conn [OF tcp_pairD(1,9,6)]

section \<open>Polling\<close>

definition poll_options :: "IOC_Options_T option" where
  "poll_options = Some \<lparr>IDs = IOC_OPTID_TIMEOUT, TimeoutUS = IOC_TIMEOUT_NONBLOCK\<rparr>"

text \<open>A descriptor with room for \<open>n\<close> bytes.\<close>

definition room :: "nat \<Rightarrow> IOC_DatDesc_T" where
  "room n = IOC_initDatDesc\<lparr>pData := Some (replicate n 0), PtrDataSize := of_nat n\<rparr>"

text \<open>The bytes a descriptor has received.\<close>

definition got_bytes :: "IOC_DatDesc_T \<Rightarrow> byte list" where
  "got_bytes d = take (unat (PtrDataSize d)) (the (pData d))"

lemma copyOut_keeps_mode: "tcp_copyOut n b = Done (out, b') \<Longrightarrow> IsPollingMode b' = IsPollingMode b"
  by (auto simp: tcp_copyOut_def Let_def split: option.splits if_splits)

lemma read_pair:
  assumes "tcp_pair w a f lf b g lg" "polling_end lg" "n < 2 ^ 32"
  obtains pb d where "recvData_ofProtoTCP env b (room n) poll_options w =
      Done (if pb_bytes (tPollingBuffer lg) = [] then IOC_RESULT_NO_DATA else IOC_RESULT_SUCCESS, d,
        setTcp g (\<lambda>l. l\<lparr>tPollingBuffer := pb\<rparr>) w)"
    "polling_end (lg\<lparr>tPollingBuffer := pb\<rparr>)" "pb_bytes pb = drop n (pb_bytes (tPollingBuffer lg))"
    "got_bytes d = take n (pb_bytes (tPollingBuffer lg))"
proof -
  let ?b = "tPollingBuffer lg"
  obtain lk where lk: "LinkHeap w b = Some lk" "pProtoPriv lk = Some g"
    using tcp_pairD(2) [OF assms(1)] by (auto simp: end_of_def split: option.splits)
  have l: "TcpLinks (proto w) g = Some lg" using tcp_pairD [OF assms(1)] by simp
  have pe: "RecvError lg = IOC_RESULT_SUCCESS" "IsPollingMode ?b" "pb_inv ?b" "duCbRecvDat_F (tDatUsageArgs lg) = None"
    using assms(2) by (simp_all add: polling_end_def)
  have n: "unat (of_nat n :: ULONG) = n" using size_32(2) [OF assms(3)] .
  have wait: "data_wait g 0 (te_recv env) w = Done (False, w)" by (subst data_wait.simps) (simp add: l)
  show ?thesis
  proof (cases "AvailableData ?b = 0")
    case True
    have same: "setTcp g (\<lambda>l. l\<lparr>tPollingBuffer := ?b\<rparr>) w = w"
      by (simp add: setTcp_def l fun_upd_idem)
    have "recvData_ofProtoTCP env b (room n) poll_options w =
        Done (IOC_RESULT_NO_DATA, (room n)\<lparr>PtrDataSize := 0\<rparr>, setTcp g (\<lambda>l. l\<lparr>tPollingBuffer := ?b\<rparr>) w)"
      using lk l pe wait True
      by (simp add: recvData_ofProtoTCP_def deref_def poll_options_def IOC_OPTID_TIMEOUT_def room_def
          tcp_readDataFromPollingBuffer_def n)
    then show ?thesis using that [of "(room n)\<lparr>PtrDataSize := 0\<rparr>" ?b] assms(2) pb_bytes_empty [OF True]
      by (simp add: polling_end_def got_bytes_def)
  next
    case False
    from tcp_copyOut_spec [OF pe(3), of n] obtain pb where pb: "tcp_copyOut n ?b = Done (take n (pb_bytes ?b), pb)"
      "pb_inv pb" "pb_bytes pb = drop n (pb_bytes ?b)" by blast
    let ?out = "take n (pb_bytes ?b)"
    have ne: "pb_bytes ?b \<noteq> []" using False length_pb_bytes [of ?b] by (auto simp del: length_pb_bytes)
    have le: "length ?out \<le> n" by simp
    let ?d = "(room n)\<lparr>pData := Some (blit 0 ?out (replicate n 0)), PtrDataSize := of_nat (length ?out),
      PtrDataLen := of_nat (length ?out)\<rparr>"
    have r: "recvData_ofProtoTCP env b (room n) poll_options w =
        Done (IOC_RESULT_SUCCESS, ?d, setTcp g (\<lambda>l. l\<lparr>tPollingBuffer := pb\<rparr>) w)"
      using lk l pe wait False pb(1) le
      by (simp add: recvData_ofProtoTCP_def deref_def poll_options_def IOC_OPTID_TIMEOUT_def room_def
          tcp_readDataFromPollingBuffer_def n del: length_take)
    have "unat (of_nat (length ?out) :: ULONG) = length ?out" using size_32(2) [of "length ?out"] le assms(3) by linarith
    moreover have "take (length ?out) (pb_bytes ?b) = ?out" by (simp add: min_def flip: length_pb_bytes)
    ultimately have "got_bytes ?d = ?out" using le by (simp add: got_bytes_def blit_def min_absorb1 del: length_take)
    then show ?thesis using that [of ?d pb] r pb ne pe copyOut_keeps_mode [OF pb(1)] by (simp add: polling_end_def)
  qed
qed
section \<open>The channel from a sender to a polling receiver\<close>

text \<open>What an application and the receiver's thread do: sending on link \<open>a\<close>, a turn of the thread of the
  end \<open>g\<close> (which sleeps while nothing has arrived) and polling on link \<open>b\<close>.\<close>

datatype tcp_op = SendOp "byte list" | TurnOp | ReadOp nat

datatype tcp_answer = SentWith IOC_Result_T | ReadAs IOC_Result_T "byte list"

definition wake :: "'x tcp_env \<Rightarrow> nat \<Rightarrow> 'x tcp_world \<Rightarrow> 'x tcp_world outcome" where
  "wake env g w = tderef g w (\<lambda>l. if arrived w l = [] then Done w else recv_turn env g w)"

fun tcp_run ::
  "'x tcp_env \<Rightarrow> nat \<Rightarrow> nat \<Rightarrow> nat \<Rightarrow> tcp_op list \<Rightarrow> 'x tcp_world \<Rightarrow> (tcp_answer list \<times> 'x tcp_world) outcome" where
  "tcp_run env a b g [] w = Done ([], w)"
| "tcp_run env a b g (SendOp d # ops) w = bindO (sendData_ofProtoTCP a (tcp_dat d) w) (\<lambda>(r, w1).
     bindO (tcp_run env a b g ops w1) (\<lambda>(as, w2). Done (SentWith r # as, w2)))"
| "tcp_run env a b g (TurnOp # ops) w = bindO (wake env g w) (tcp_run env a b g ops)"
| "tcp_run env a b g (ReadOp n # ops) w = bindO (recvData_ofProtoTCP env b (room n) poll_options w) (\<lambda>(r, d, w1).
     bindO (tcp_run env a b g ops w1) (\<lambda>(as, w2). Done (ReadAs r (got_bytes d) # as, w2)))"

text \<open>The abstract channel: the blocks in transit and the bytes that wait to be read.  A send always
  succeeds; a block that does not fit into the buffer when it comes out of the wire is gone.\<close>

fun chan_run :: "tcp_op list \<Rightarrow> byte list list \<times> byte list \<Rightarrow> tcp_answer list \<times> byte list list \<times> byte list" where
  "chan_run [] s = ([], s)"
| "chan_run (SendOp d # ops) (fl, buf) = (let (as, s) = chan_run ops (fl @ [d], buf) in (SentWith IOC_RESULT_SUCCESS # as, s))"
| "chan_run (TurnOp # ops) ([], buf) = chan_run ops ([], buf)"
| "chan_run (TurnOp # ops) (d # fl, buf) =
     chan_run ops (fl, if length buf + length d \<le> POLLING_BUFFER_SIZE then buf @ d else buf)"
| "chan_run (ReadOp n # ops) (fl, buf) = (let (as, s) = chan_run ops (fl, drop n buf) in
     (ReadAs (if buf = [] then IOC_RESULT_NO_DATA else IOC_RESULT_SUCCESS) (take n buf) # as, s))"

fun op_ok :: "tcp_op \<Rightarrow> bool" where
  "op_ok (SendOp d) \<longleftrightarrow> d \<noteq> [] \<and> length d < 2 ^ 32"
| "op_ok TurnOp \<longleftrightarrow> True"
| "op_ok (ReadOp n) \<longleftrightarrow> n < 2 ^ 32"

definition chan_rel ::
  "'x tcp_world \<Rightarrow> nat \<Rightarrow> nat \<Rightarrow> nat \<Rightarrow> nat \<Rightarrow> byte list list \<times> byte list \<Rightarrow> bool" where
  "chan_rel w a f b g s \<longleftrightarrow> (\<exists>lf lg. tcp_pair w a f lf b g lg \<and> polling_end lg \<and>
     arrived w lg = map RxByte (concat (map data_frame (fst s))) \<and> pb_bytes (tPollingBuffer lg) = snd s \<and>
     (\<forall>d\<in>set (fst s). op_ok (SendOp d)))"

lemma chan_send:
  assumes "chan_rel w a f b g (fl, buf)" "op_ok (SendOp d)"
  obtains w' where "sendData_ofProtoTCP a (tcp_dat d) w = Done (IOC_RESULT_SUCCESS, w')"
    "chan_rel w' a f b g (fl @ [d], buf)"
proof -
  obtain lf lg where r: "tcp_pair w a f lf b g lg" "polling_end lg" "arrived w lg = map RxByte (concat (map data_frame fl))"
    "pb_bytes (tPollingBuffer lg) = buf" "\<forall>d\<in>set fl. op_ok (SendOp d)" using assms(1) by (auto simp: chan_rel_def)
  from send_pair [OF r(1,1,1), of d] assms(2) obtain ss where
    ss: "sendData_ofProtoTCP a (tcp_dat d) w = Done (IOC_RESULT_SUCCESS, setSocks ss w)"
      "gave (Socks (proto w)) (SocketFd lg) (data_frame d) ss" by auto
  have "chan_rel (setSocks ss w) a f b g (fl @ [d], buf)"
    unfolding chan_rel_def using tcp_pair_gave [OF r(1) ss(2)] gave_inbox(1) [OF ss(2)] r assms(2)
    by (intro exI [of _ lf] exI [of _ lg]) auto
  then show ?thesis using that ss(1) by blast
qed

lemma chan_wake:
  assumes "chan_rel w a f b g (fl, buf)" "\<forall>n. te_malloc env n"
  obtains w' where "wake env g w = Done w'" "chan_rel w' a f b g (case fl of [] \<Rightarrow> (fl, buf)
    | d # fl' \<Rightarrow> (fl', if length buf + length d \<le> POLLING_BUFFER_SIZE then buf @ d else buf))"
proof -
  obtain lf lg where r: "tcp_pair w a f lf b g lg" "polling_end lg" "arrived w lg = map RxByte (concat (map data_frame fl))"
    "pb_bytes (tPollingBuffer lg) = buf" "\<forall>d\<in>set fl. op_ok (SendOp d)" using assms(1) by (auto simp: chan_rel_def)
  note d = tcp_pairD [OF r(1)]
  show ?thesis
  proof (cases fl)
    case Nil
    then have "wake env g w = Done w" using d(10) r(3) by (simp add: wake_def)
    then show ?thesis using that [of w] assms(1) Nil by simp
  next
    case (Cons x fl')
    have x: "x \<noteq> []" "length x < 2 ^ 32" using r(5) Cons by auto
    have arr: "arrived w lg = map RxByte (data_frame x) @ map RxByte (concat (map data_frame fl'))" using r(3) Cons by simp
    from turn_data [OF d(5) arr x _ r(2), of env] assms(2) obtain ss pb where
      t: "took (Socks (proto w)) (SocketFd lg) (map RxByte (concat (map data_frame fl'))) ss"
        "recv_turn env g w = Done (setTcp g (\<lambda>l. l\<lparr>tPollingBuffer := pb\<rparr>) (setSocks ss w))"
        "polling_end (lg\<lparr>tPollingBuffer := pb\<rparr>)"
        "pb_bytes pb = buf @ (if length buf + length x \<le> POLLING_BUFFER_SIZE then x else [])"
      using r(4) by (auto simp del: length_pb_bytes)
    let ?w = "setTcp g (\<lambda>l. l\<lparr>tPollingBuffer := pb\<rparr>) (setSocks ss w)"
    have "arrived w lg \<noteq> []" using x arr by (simp add: data_frame_def)
    then have w: "wake env g w = Done ?w" using t(2) d(10) by (simp add: wake_def)
    have "tcp_pair ?w a f lf b g (lg\<lparr>tPollingBuffer := pb\<rparr>)"
      using tcp_pair_setTcp2 [OF tcp_pair_took [OF r(1) t(1)], of "\<lambda>l. l\<lparr>tPollingBuffer := pb\<rparr>"] by simp
    moreover have "arrived ?w (lg\<lparr>tPollingBuffer := pb\<rparr>) = map RxByte (concat (map data_frame fl'))"
      using took_inbox(1) [OF t(1)] by simp
    ultimately have "chan_rel ?w a f b g (fl', if length buf + length x \<le> POLLING_BUFFER_SIZE then buf @ x else buf)"
      unfolding chan_rel_def using t(3,4) r(5) Cons
      by (intro exI [of _ lf] exI [of _ "lg\<lparr>tPollingBuffer := pb\<rparr>"]) auto
    then show ?thesis using that w Cons by simp
  qed
qed

lemma chan_read:
  assumes "chan_rel w a f b g (fl, buf)" "n < 2 ^ 32"
  obtains w' d where "recvData_ofProtoTCP env b (room n) poll_options w =
      Done (if buf = [] then IOC_RESULT_NO_DATA else IOC_RESULT_SUCCESS, d, w')"
    "got_bytes d = take n buf" "chan_rel w' a f b g (fl, drop n buf)"
proof -
  obtain lf lg where r: "tcp_pair w a f lf b g lg" "polling_end lg" "arrived w lg = map RxByte (concat (map data_frame fl))"
    "pb_bytes (tPollingBuffer lg) = buf" "\<forall>d\<in>set fl. op_ok (SendOp d)" using assms(1) by (auto simp: chan_rel_def)
  from read_pair [OF r(1,2) assms(2), of env] obtain pb d where
    p: "recvData_ofProtoTCP env b (room n) poll_options w = Done (if buf = [] then IOC_RESULT_NO_DATA else IOC_RESULT_SUCCESS, d,
        setTcp g (\<lambda>l. l\<lparr>tPollingBuffer := pb\<rparr>) w)"
      "polling_end (lg\<lparr>tPollingBuffer := pb\<rparr>)" "pb_bytes pb = drop n buf" "got_bytes d = take n buf"
    unfolding r(4) by blast
  let ?w = "setTcp g (\<lambda>l. l\<lparr>tPollingBuffer := pb\<rparr>) w"
  have "tcp_pair ?w a f lf b g (lg\<lparr>tPollingBuffer := pb\<rparr>)"
    using tcp_pair_setTcp2 [OF r(1), of "\<lambda>l. l\<lparr>tPollingBuffer := pb\<rparr>"] by simp
  then have "chan_rel ?w a f b g (fl, drop n buf)" unfolding chan_rel_def using p(2,3) r(3,5)
    by (intro exI [of _ lf] exI [of _ "lg\<lparr>tPollingBuffer := pb\<rparr>"]) auto
  then show ?thesis using that p(1,4) by blast
qed

lemma tcp_run_chan:
  assumes "chan_rel w a f b g s" "\<forall>n. te_malloc env n" "list_all op_ok ops"
  shows "\<exists>w'. tcp_run env a b g ops w = Done (fst (chan_run ops s), w') \<and> chan_rel w' a f b g (snd (chan_run ops s))"
  using assms(1,3)
proof (induction ops s arbitrary: w rule: chan_run.induct)
  case (2 d ops fl buf)
  from chan_send [OF 2(2), of d] 2(3) obtain w1 where
    1: "sendData_ofProtoTCP a (tcp_dat d) w = Done (IOC_RESULT_SUCCESS, w1)" "chan_rel w1 a f b g (fl @ [d], buf)" by auto
  from 2(1) [OF 1(2)] 2(3) 1(1) show ?case by (auto simp: case_prod_beta)
next
  case (3 ops buf)
  from chan_wake [OF 3(2) assms(2)] obtain w1 where "wake env g w = Done w1" "chan_rel w1 a f b g ([], buf)" by auto
  with 3(1) [of w1] 3(3) show ?case by simp
next
  case (4 ops d fl buf)
  from chan_wake [OF 4(2) assms(2)] obtain w1 where "wake env g w = Done w1"
    "chan_rel w1 a f b g (fl, if length buf + length d \<le> POLLING_BUFFER_SIZE then buf @ d else buf)" by auto
  with 4(1) [of w1] 4(3) show ?case by simp
next
  case (5 n ops fl buf)
  have "n < 2 ^ 32" using 5(3) by simp
  from chan_read [OF 5(2) this, of env] obtain w1 d where
    1: "recvData_ofProtoTCP env b (room n) poll_options w =
      Done (if buf = [] then IOC_RESULT_NO_DATA else IOC_RESULT_SUCCESS, d, w1)"
    "got_bytes d = take n buf" "chan_rel w1 a f b g (fl, drop n buf)" by blast
  from 5(1) [OF 1(3)] 5(3) 1(1,2) show ?case by (auto simp: case_prod_beta)
qed auto

section \<open>The channel loses nothing while the buffer has room\<close>

fun sent_bytes :: "tcp_op list \<Rightarrow> byte list" where
  "sent_bytes [] = []"
| "sent_bytes (SendOp d # ops) = d @ sent_bytes ops"
| "sent_bytes (TurnOp # ops) = sent_bytes ops"
| "sent_bytes (ReadOp n # ops) = sent_bytes ops"

fun read_bytes :: "tcp_answer list \<Rightarrow> byte list" where
  "read_bytes [] = []"
| "read_bytes (SentWith r # as) = read_bytes as"
| "read_bytes (ReadAs r bs # as) = bs @ read_bytes as"

lemma chan_run_lossless:
  assumes "length buf + length (concat fl) + length (sent_bytes ops) \<le> POLLING_BUFFER_SIZE"
  shows "case chan_run ops (fl, buf) of (as, fl', buf') \<Rightarrow>
    read_bytes as @ buf' @ concat fl' = buf @ concat fl @ sent_bytes ops"
  using assms
proof (induction ops "(fl, buf)" arbitrary: fl buf rule: chan_run.induct)
  case (2 d ops fl buf)
  then show ?case by (simp add: case_prod_beta)
next
  case (5 n ops fl buf)
  then have "case chan_run ops (fl, drop n buf) of (as, fl', buf') \<Rightarrow>
    read_bytes as @ buf' @ concat fl' = drop n buf @ concat fl @ sent_bytes ops" by simp
  then show ?case by (simp add: case_prod_beta)
qed simp_all

section \<open>Properties\<close>

text \<open>C4: Data over TCP to a polling receiver.  Whatever sends, turns of the receiver's thread and
  non-blocking reads follow each other on a pair of connected links, the answers are those of an abstract
  channel with blocks in transit and a buffer; and as long as all that is sent fits into 64 KB, the bytes
  read, those buffered and those in transit are together exactly the bytes sent, in order.\<close>

theorem tcp_data_channel:
  assumes "tcp_pair w a f lf b g lg" "polling_end lg" "arrived w lg = []" "pb_bytes (tPollingBuffer lg) = []"
    "\<forall>n. te_malloc env n" "list_all op_ok ops"
  shows "\<exists>as fl buf w'. chan_run ops ([], []) = (as, fl, buf) \<and> tcp_run env a b g ops w = Done (as, w') \<and>
    chan_rel w' a f b g (fl, buf) \<and>
    (length (sent_bytes ops) \<le> POLLING_BUFFER_SIZE \<longrightarrow> sent_bytes ops = read_bytes as @ buf @ concat fl)"
proof -
  have "chan_rel w a f b g ([], [])" using assms(1-4) by (auto simp: chan_rel_def)
  from tcp_run_chan [OF this assms(5,6)] show ?thesis
    using chan_run_lossless [of "[]" "[]" ops] by (cases "chan_run ops ([], [])") simp
qed

lemma example_polling: "polling_end (set_dat_usage None (example_end 4 1))"
  "arrived (pair_world (set_dat_usage None)) (set_dat_usage None (example_end 4 1)) = []"
  "tcp_pair (pair_world (set_dat_usage None)) 0 0 (example_end 3 0) 1 1 (set_dat_usage None (example_end 4 1))"
  "pb_bytes (tPollingBuffer (set_dat_usage None (example_end 4 1))) = []"
proof -
  have e: "SocketFd (set_dat_usage None (example_end 4 1)) = 4" "RecvThreadRunning (set_dat_usage None (example_end 4 1))"
    by (simp_all add: set_dat_usage_def example_end_def)
  show "arrived (pair_world (set_dat_usage None)) (set_dat_usage None (example_end 4 1)) = []"
    "tcp_pair (pair_world (set_dat_usage None)) 0 0 (example_end 3 0) 1 1 (set_dat_usage None (example_end 4 1))"
    using pair_world_pair [of "set_dat_usage None", OF e] by simp_all
  show "polling_end (set_dat_usage None (example_end 4 1))" "pb_bytes (tPollingBuffer (set_dat_usage None (example_end 4 1))) = []"
    by (simp_all add: polling_end_def set_dat_usage_def example_end_def fresh_tcp_link_def fresh_PollingBuffer_def
        pb_inv_def pb_bytes_def POLLING_BUFFER_SIZE_def)
qed

theorem tcp_data_channel_witness:
  "\<exists>w'. tcp_run sample_tcp_env 0 1 1 [SendOp [1, 2, 3], ReadOp 5, TurnOp, SendOp [4], ReadOp 2, TurnOp, ReadOp 9]
      (pair_world (set_dat_usage None)) = Done ([SentWith IOC_RESULT_SUCCESS, ReadAs IOC_RESULT_NO_DATA [],
        SentWith IOC_RESULT_SUCCESS, ReadAs IOC_RESULT_SUCCESS [1, 2], ReadAs IOC_RESULT_SUCCESS [3, 4]], w')"
proof -
  let ?ops = "[SendOp [1, 2, 3], ReadOp 5, TurnOp, SendOp [4], ReadOp 2, TurnOp, ReadOp 9]"
  have "fst (chan_run ?ops ([], [])) = [SentWith IOC_RESULT_SUCCESS, ReadAs IOC_RESULT_NO_DATA [],
        SentWith IOC_RESULT_SUCCESS, ReadAs IOC_RESULT_SUCCESS [1, 2], ReadAs IOC_RESULT_SUCCESS [3, 4]]"
    by (simp add: POLLING_BUFFER_SIZE_def)
  moreover have "\<forall>n. te_malloc sample_tcp_env n" by (simp add: sample_tcp_env_def)
  ultimately show ?thesis using tcp_data_channel [OF example_polling(3,1,2,4), of sample_tcp_env ?ops]
    by (auto simp del: chan_run.simps tcp_run.simps)
qed

text \<open>C34: Over TCP a successful send does not mean that the data will be received: the receiver's thread
  ignores that its buffer is full.  Two blocks that fit only one by one are both accepted, but after the
  turns of the thread only the first can be read and nothing is left in transit.\<close>

theorem tcp_send_success_may_lose:
  assumes "tcp_pair w a f lf b g lg" "polling_end lg" "arrived w lg = []" "pb_bytes (tPollingBuffer lg) = []"
    "\<forall>n. te_malloc env n" "d \<noteq> []" "e \<noteq> []" "length d \<le> POLLING_BUFFER_SIZE" "length e \<le> POLLING_BUFFER_SIZE"
    "POLLING_BUFFER_SIZE < length d + length e"
  shows "\<exists>w'. tcp_run env a b g [SendOp d, SendOp e, TurnOp, TurnOp, ReadOp (2 * POLLING_BUFFER_SIZE)] w =
      Done ([SentWith IOC_RESULT_SUCCESS, SentWith IOC_RESULT_SUCCESS, ReadAs IOC_RESULT_SUCCESS d], w') \<and>
    chan_rel w' a f b g ([], [])"
proof -
  have "chan_rel w a f b g ([], [])" using assms(1-4) by (auto simp: chan_rel_def)
  moreover have "list_all op_ok [SendOp d, SendOp e, TurnOp, TurnOp, ReadOp (2 * POLLING_BUFFER_SIZE)]"
    using assms(6-9) by (simp add: POLLING_BUFFER_SIZE_def)
  ultimately show ?thesis using tcp_run_chan [OF _ assms(5), of w a f b g "([], [])"] assms(6-10) by fastforce
qed

theorem tcp_send_success_may_lose_witness:
  "\<exists>w'. tcp_run sample_tcp_env 0 1 1
      [SendOp (replicate 40000 1), SendOp (replicate 40000 2), TurnOp, TurnOp, ReadOp (2 * POLLING_BUFFER_SIZE)]
      (pair_world (set_dat_usage None)) =
    Done ([SentWith IOC_RESULT_SUCCESS, SentWith IOC_RESULT_SUCCESS, ReadAs IOC_RESULT_SUCCESS (replicate 40000 1)], w')"
proof -
  define d e where "d = replicate 40000 (1::byte)" and "e = replicate 40000 (2::byte)"
  then have n: "length d = 40000" "length e = 40000" by (simp_all only: length_replicate)
  then have "d \<noteq> []" "e \<noteq> []" by auto
  moreover have "\<forall>n. te_malloc sample_tcp_env n" by (simp add: sample_tcp_env_def)
  ultimately show ?thesis unfolding d_def [symmetric] e_def [symmetric]
    using tcp_send_success_may_lose [OF example_polling(3,1,2,4), of sample_tcp_env d e] n
    by (auto simp: POLLING_BUFFER_SIZE_def simp del: tcp_run.simps)
qed

end
