(* ===== verification/TcpFaults.thy ===== *)
theory TcpFaults
  imports TcpData
begin

text \<open>
  What happens to a TCP link when its peer closes and when nothing arrives on a socket with a receive
  timeout.
\<close>

section \<open>The end of a receiver thread\<close>

abbreviation broken_end :: "IOC_Result_T \<Rightarrow> TcpLinkObject_T \<Rightarrow> TcpLinkObject_T" where
  "broken_end r l \<equiv> l\<lparr>RecvError := r, CmdResponseReady := True\<rparr>"

text \<open>A header that cannot be received ends the thread and leaves its error in the link.\<close>

lemma turn_fails:
  assumes "receiving w f l" "Socks (proto w) (SocketFd l) = Some s" "recv_ref 8 s = Done (e, q)" "recv_code e \<noteq> IOC_RESULT_SUCCESS"
  obtains w' where "recv_turn env f w = Done w'" "TcpLinks (proto w') f = Some (broken_end (recv_code e) l)"
    "f \<notin> set (recv_threads (proto w'))" "LinkHeap w' = LinkHeap w" "took (Socks (proto w)) (SocketFd l) q (Socks (proto w'))"
    "\<And>g. g \<noteq> f \<Longrightarrow> TcpLinks (proto w') g = TcpLinks (proto w) g"
proof -
  from recvW_end [OF assms(2) _ assms(3)] obtain ss where
    1: "recvW (SocketFd l) 8 w = Done (e, setSocks ss w)" "took (Socks (proto w)) (SocketFd l) q ss" by auto
  have "recv_message env f w = Done (False, recv_failed f (recv_code e) (setSocks ss w))"
    using 1(1) receivingD(1,2) [OF assms(1)] assms(4) by (cases e) (simp_all add: recv_message_def recv_code_def)
  from that [OF recv_turn_ends [OF assms(1) this]] show ?thesis
    using receivingD(1) [OF assms(1)] 1(2) by (simp add: recv_failed_def)
qed

lemma recv_broken:
  assumes "end_of w b g" "TcpLinks (proto w) g = Some l" "RecvError l \<noteq> IOC_RESULT_SUCCESS"
  shows "recvData_ofProtoTCP env b d opt w = Done (RecvError l, d, w)"
  using assms by (auto simp: recvData_ofProtoTCP_def end_of_def deref_def split: option.splits)

lemma turn_gone: "f \<notin> set (recv_threads (proto w)) \<Longrightarrow> recv_turn env f w = Done w"
  by (simp add: recv_turn_def)

section \<open>Closing\<close>

lemma close_pair:
  assumes "tcp_pair w a f lf b g lg" "0 \<le> SocketFd lf"
  obtains w1 where "closeLink_ofProtoTCP a w = Done (IOC_RESULT_SUCCESS, w1)" "TcpLinks (proto w1) = (TcpLinks (proto w))(f := None)"
    "f \<notin> set (recv_threads (proto w1))" "LinkHeap w1 = (LinkHeap w)(a := map_option (\<lambda>k. k\<lparr>pProtoPriv := None\<rparr>) (LinkHeap w a))"
    "receiving w1 g lg" "arrived w1 lg = arrived w lg @ [RxEof]" "end_of w1 b g"
proof -
  note d = tcp_pairD [OF assms(1)]
  obtain lk where lk: "LinkHeap w a = Some lk" "pProtoPriv lk = Some f" using d(1) by (auto simp: end_of_def split: option.splits)
  have ab: "a \<noteq> b" using d(1-3) by (auto simp: end_of_def split: option.splits)
  let ?w1 = "setLink a (\<lambda>k. k\<lparr>pProtoPriv := None\<rparr>) (free_tcp_link f (let w0 = closeW (SocketFd lf) w in
    w0\<lparr>proto := (proto w0)\<lparr>recv_threads := filter (\<lambda>g. g \<noteq> f) (recv_threads (proto w0))\<rparr>\<rparr>))"
  have c: "closeLink_ofProtoTCP a w = Done (IOC_RESULT_SUCCESS, ?w1)"
    using lk d(9) receivingD(2) [OF d(4)] assms(2) by (simp add: closeLink_ofProtoTCP_def deref_def Let_def)
  have s: "close_fd (SocketFd lf) (Socks (proto w)) (SocketFd lg) \<noteq> None"
    "inbox (close_fd (SocketFd lf) (Socks (proto w))) (SocketFd lg) = arrived w lg @ [RxEof]"
    using d(6) by (auto simp: close_fd_def conn_def inbox_def Let_def split: option.splits)
  have sel: "TcpLinks (proto ?w1) = (TcpLinks (proto w))(f := None)" "f \<notin> set (recv_threads (proto ?w1))"
    "LinkHeap ?w1 = (LinkHeap w)(a := map_option (\<lambda>k. k\<lparr>pProtoPriv := None\<rparr>) (LinkHeap w a))"
    "Socks (proto ?w1) = close_fd (SocketFd lf) (Socks (proto w))" "set (recv_threads (proto ?w1)) = set (recv_threads (proto w)) - {f}"
    by (auto simp: Let_def free_tcp_link_def closeW_def setLink_def setSocks_def)
  have "receiving ?w1 g lg" "end_of ?w1 b g" using sel s(1) d(2,3,5) ab by (auto simp: receiving_def end_of_def)
  then show ?thesis using that [OF c sel(1-3)] sel(4) s(2) by simp
qed

text \<open>The peer's thread, on its next turn, records that the link is broken and ends; what has been buffered stays,
  but receiving reports the broken link.\<close>

lemma peer_sees_end:
  assumes "receiving w g lg" "arrived w lg = [RxEof]" "end_of w b g"
  obtains w2 l2 where "recv_turn env g w = Done w2" "g \<notin> set (recv_threads (proto w2))" "TcpLinks (proto w2) g = Some l2"
    "RecvError l2 = IOC_RESULT_LINK_BROKEN" "pb_bytes (tPollingBuffer l2) = pb_bytes (tPollingBuffer lg)"
    "\<forall>d opt. recvData_ofProtoTCP env b d opt w2 = Done (IOC_RESULT_LINK_BROKEN, d, w2)"
proof -
  obtain s where s: "Socks (proto w) (SocketFd lg) = Some s" "so_in s = [RxEof]"
    using assms(2) by (auto simp: inbox_def split: option.splits)
  then have "recv_ref 8 s = Done (RecvClosed, [RxEof])" by (simp add: recv_ref_def)
  from turn_fails [OF assms(1) s(1) this, of env] obtain w2 where
    2: "recv_turn env g w = Done w2" "TcpLinks (proto w2) g = Some (broken_end IOC_RESULT_LINK_BROKEN lg)"
      "g \<notin> set (recv_threads (proto w2))" "LinkHeap w2 = LinkHeap w" by (auto simp: recv_code_def)
  have "end_of w2 b g" using assms(3) 2(4) by (simp add: end_of_def)
  from recv_broken [OF this 2(2), of env] show ?thesis using that [OF 2(1,3,2)] by simp
qed

section \<open>Life after the receiver thread\<close>

text \<open>What goes on on a link: its peer sends, its own application sends or receives, and its receiver's thread has
  its turn.\<close>

datatype link_op = PeerSends "byte list" | OwnSends "byte list" | OwnTurn | Receives IOC_DatDesc_T "IOC_Options_T option"

fun link_run ::
  "'x tcp_env \<Rightarrow> nat \<Rightarrow> nat \<Rightarrow> nat \<Rightarrow> link_op list \<Rightarrow> 'x tcp_world \<Rightarrow> (IOC_Result_T list \<times> 'x tcp_world) outcome" where
  "link_run env a b g [] w = Done ([], w)"
| "link_run env a b g (PeerSends x # ops) w = bindO (sendData_ofProtoTCP a (tcp_dat x) w) (\<lambda>(r, w1).
     bindO (link_run env a b g ops w1) (\<lambda>(rs, w2). Done (r # rs, w2)))"
| "link_run env a b g (OwnSends x # ops) w = bindO (sendData_ofProtoTCP b (tcp_dat x) w) (\<lambda>(r, w1).
     bindO (link_run env a b g ops w1) (\<lambda>(rs, w2). Done (r # rs, w2)))"
| "link_run env a b g (OwnTurn # ops) w = bindO (recv_turn env g w) (link_run env a b g ops)"
| "link_run env a b g (Receives d opt # ops) w = bindO (recvData_ofProtoTCP env b d opt w) (\<lambda>(r, d', w1).
     bindO (link_run env a b g ops w1) (\<lambda>(rs, w2). Done (r # rs, w2)))"

fun link_op_ok :: "link_op \<Rightarrow> bool" where
  "link_op_ok (PeerSends x) \<longleftrightarrow> x \<noteq> [] \<and> length x < 2 ^ 32"
| "link_op_ok (OwnSends x) \<longleftrightarrow> x \<noteq> [] \<and> length x < 2 ^ 32"
| "link_op_ok _ \<longleftrightarrow> True"

text \<open>The results when every send succeeds and every receive reports \<open>e\<close>, and what the peer has put on the wire.\<close>

fun deaf_answers :: "IOC_Result_T \<Rightarrow> link_op list \<Rightarrow> IOC_Result_T list" where
  "deaf_answers e [] = []"
| "deaf_answers e (OwnTurn # ops) = deaf_answers e ops"
| "deaf_answers e (Receives d opt # ops) = e # deaf_answers e ops"
| "deaf_answers e (_ # ops) = IOC_RESULT_SUCCESS # deaf_answers e ops"

fun peer_frames :: "link_op list \<Rightarrow> byte list" where
  "peer_frames [] = []"
| "peer_frames (PeerSends x # ops) = data_frame x @ peer_frames ops"
| "peer_frames (_ # ops) = peer_frames ops"

text \<open>A link whose receiver thread has ended with an error, and its peer.\<close>

definition deaf :: "'x tcp_world \<Rightarrow> nat \<Rightarrow> nat \<Rightarrow> TcpLinkObject_T \<Rightarrow> nat \<Rightarrow> nat \<Rightarrow> TcpLinkObject_T \<Rightarrow> bool" where
  "deaf w a f lf b g lg \<longleftrightarrow> end_of w a f \<and> end_of w b g \<and> TcpLinks (proto w) f = Some lf \<and> TcpLinks (proto w) g = Some lg \<and>
     conn (Socks (proto w)) (SocketFd lf) (SocketFd lg) \<and> conn (Socks (proto w)) (SocketFd lg) (SocketFd lf) \<and>
     g \<notin> set (recv_threads (proto w)) \<and> RecvError lg \<noteq> IOC_RESULT_SUCCESS"

lemma deaf_gave: "deaf w a f lf b g lg \<Longrightarrow> gave (Socks (proto w)) x bs ss \<Longrightarrow> deaf (setSocks ss w) a f lf b g lg"
  by (auto simp: deaf_def end_of_def intro: gave_conn)

lemma deaf_run:
  assumes "deaf w a f lf b g lg" "list_all link_op_ok ops"
  shows "\<exists>w'. link_run env a b g ops w = Done (deaf_answers (RecvError lg) ops, w') \<and> deaf w' a f lf b g lg \<and>
    arrived w' lg = arrived w lg @ map RxByte (peer_frames ops)"
  using assms
proof (induction ops arbitrary: w)
  case (Cons x ops)
  note d = Cons.prems(1) [unfolded deaf_def]
  have ne: "SocketFd lf \<noteq> SocketFd lg" using d by (simp add: conn_def)
  show ?case
  proof (cases x)
    case (PeerSends y)
    then obtain ss where 1: "sendData_ofProtoTCP a (tcp_dat y) w = Done (IOC_RESULT_SUCCESS, setSocks ss w)"
      "gave (Socks (proto w)) (SocketFd lg) (data_frame y) ss"
      using send_conn [of w a f lf "SocketFd lg" y] d Cons.prems(2) by auto
    from Cons.IH [OF deaf_gave [OF Cons.prems(1) 1(2)]] Cons.prems(2) show ?thesis
      using 1(1) gave_inbox(1) [OF 1(2)] PeerSends by auto
  next
    case (OwnSends y)
    then obtain ss where 1: "sendData_ofProtoTCP b (tcp_dat y) w = Done (IOC_RESULT_SUCCESS, setSocks ss w)"
      "gave (Socks (proto w)) (SocketFd lf) (data_frame y) ss"
      using send_conn [of w b g lg "SocketFd lf" y] d Cons.prems(2) by auto
    from Cons.IH [OF deaf_gave [OF Cons.prems(1) 1(2)]] Cons.prems(2) show ?thesis
      using 1(1) gave_inbox(2) [OF 1(2)] OwnSends ne by auto
  next
    case OwnTurn
    then show ?thesis using Cons turn_gone [of g w env] d by simp
  next
    case (Receives y opt)
    from Cons.IH [OF Cons.prems(1)] Cons.prems(2) Receives recv_broken [of w b g lg env y opt] d show ?thesis by auto
  qed
qed simp

section \<open>Properties\<close>

text \<open>C36: A link connected with a timeout keeps it as the receive timeout of its socket.  When nothing arrives
  for that long, the receiver's thread takes the expiry for an internal error and ends.  From then on, as long as
  no command is executed on the link (which clears the error, but does not start the thread again), in any sequence
  of sends on both sides, turns and receives, every receive reports a bug and every send succeeds, and what the
  peer sends stays on the wire, read by nobody.\<close>

theorem tcp_idle_timeout_ends_receiver:
  assumes "tcp_pair w a f lf b g lg" "arrived w lg = []" "Socks (proto w) (SocketFd lg) = Some s" "so_rcvtimeo s"
  shows "\<exists>w1. recv_turn env g w = Done w1 \<and> g \<notin> set (recv_threads (proto w1)) \<and>
    (\<forall>env' ops. list_all link_op_ok ops \<longrightarrow> (\<exists>w2. link_run env' a b g ops w1 = Done (deaf_answers IOC_RESULT_BUG ops, w2) \<and>
      arrived w2 lg = map RxByte (peer_frames ops)))"
proof -
  note p = tcp_pairD [OF assms(1)]
  have "so_in s = []" using assms(2,3) by (simp add: inbox_def)
  then have q: "recv_ref 8 s = Done (RecvFail EAGAIN, [])" using assms(4) by (simp add: recv_ref_def)
  from turn_fails [OF p(5) assms(3) q, of env] obtain w1 where
    1: "recv_turn env g w = Done w1" "TcpLinks (proto w1) g = Some (broken_end IOC_RESULT_BUG lg)"
      "g \<notin> set (recv_threads (proto w1))" "LinkHeap w1 = LinkHeap w" "took (Socks (proto w)) (SocketFd lg) [] (Socks (proto w1))"
      "TcpLinks (proto w1) f = TcpLinks (proto w) f" using p(3) by (auto simp: recv_code_def)
  have "deaf w1 a f lf b g (broken_end IOC_RESULT_BUG lg)" unfolding deaf_def
    using 1 p(1,2,6,7,9) took_conn [OF 1(5)] by (simp add: end_of_def)
  moreover have "arrived w1 (broken_end IOC_RESULT_BUG lg) = []" using took_inbox(1) [OF 1(5)] by simp
  ultimately show ?thesis using deaf_run [of w1 a f lf b g "broken_end IOC_RESULT_BUG lg"] 1(1,3) by fastforce
qed

definition slow_socket :: Socket_T where
  "slow_socket = sock0\<lparr>so_peer := Some 3, so_rcvtimeo := True\<rparr>"

definition idle_world :: "tcp_state ioc_world" where
  "idle_world = setSocks ((\<lambda>_. None)(3 := Some (sock0\<lparr>so_peer := Some 4\<rparr>), 4 := Some slow_socket)) (pair_world id)"

lemma idle_pair: "tcp_pair idle_world 0 0 (example_end 3 0) 1 1 (example_end 4 1)"
  by (simp add: idle_world_def tcp_pair_def end_of_def receiving_def conn_def pair_world_def init_world_def example_end_def
      slow_socket_def sock0_def tx_ok_def)

theorem tcp_idle_timeout_ends_receiver_witness:
  "\<exists>w1 w2. recv_turn sample_tcp_env 1 idle_world = Done w1 \<and>
    link_run sample_tcp_env 0 1 1 [PeerSends [1, 2], OwnTurn, Receives (room 2) None, PeerSends [3], OwnSends [4], Receives (room 1) poll_options] w1 =
      Done ([IOC_RESULT_SUCCESS, IOC_RESULT_BUG, IOC_RESULT_SUCCESS, IOC_RESULT_SUCCESS, IOC_RESULT_BUG], w2) \<and>
    arrived w2 (example_end 4 1) = map RxByte (data_frame [1, 2] @ data_frame [3])"
proof -
  let ?ops = "[PeerSends [1, 2], OwnTurn, Receives (room 2) None, PeerSends [3], OwnSends [4], Receives (room 1) poll_options]"
  have w: "arrived idle_world (example_end 4 1) = []" "Socks (proto idle_world) (SocketFd (example_end 4 1)) = Some slow_socket"
    "so_rcvtimeo slow_socket" by (simp_all add: idle_world_def example_end_def slow_socket_def inbox_def sock0_def)
  have "list_all link_op_ok ?ops" by simp
  with tcp_idle_timeout_ends_receiver [OF idle_pair w, of sample_tcp_env] obtain w1 w2 where
    "recv_turn sample_tcp_env 1 idle_world = Done w1" "link_run sample_tcp_env 0 1 1 ?ops w1 = Done (deaf_answers IOC_RESULT_BUG ?ops, w2)"
    "arrived w2 (example_end 4 1) = map RxByte (peer_frames ?ops)" by blast
  then show ?thesis by (intro exI [of _ w1] exI [of _ w2]) simp
qed

end
