(* ===== verification/TcpCommand.thy ===== *)
theory TcpCommand
  imports TcpData
begin

text \<open>
  Commands over TCP: what a request and a response look like on the wire, what the turns of the two
  receiver threads make of them, and what the caller of \<^verbatim>\<open>IOC_execCMD\<close> gets back.
\<close>

section \<open>Payloads\<close>

text \<open>A payload as \<^verbatim>\<open>IOC_CmdDesc_setInPayload\<close> and \<^verbatim>\<open>IOC_CmdDesc_setOutPayload\<close> leave it, embedded or behind a
  pointer, and its bytes.\<close>

definition payload_wf :: "IOC_CmdPayload_T \<Rightarrow> bool" where
  "payload_wf p \<longleftrightarrow> length (cEmdData p) = 64 \<and> (case cpData p of
     None \<Rightarrow> cPtrDataLen p = 0 \<and> unat (cEmdDataSize p) \<le> 64
   | Some blk \<Rightarrow> cEmdDataSize p = 0 \<and> 0 < unat (cPtrDataLen p) \<and> unat (cPtrDataLen p) \<le> length blk \<and>
       unat (cPtrDataLen p) < 2 ^ 32 - 1)"

definition payload_bytes :: "IOC_CmdPayload_T \<Rightarrow> byte list" where
  "payload_bytes p = (case payload_data p of None \<Rightarrow> [] | Some blk \<Rightarrow> take (unat (payload_len p)) blk)"

text \<open>The message that follows a descriptor, when there is one.\<close>

definition payload_frame :: "IOC_CmdPayload_T \<Rightarrow> byte list" where
  "payload_frame p = (if cpData p = None then [] else data_frame (payload_bytes p))"

definition cmd_frame :: "IOC_CmdDesc_T \<Rightarrow> IOC_CmdPayload_T \<Rightarrow> byte list" where
  "cmd_frame c p = tcp_header TCP_MSG_COMMAND (of_nat sizeof_CmdDesc) @ put_cmd c @ payload_frame p"

text \<open>The payload at the receiver, in a block of exactly its length.\<close>

definition near_payload :: "IOC_CmdPayload_T \<Rightarrow> IOC_CmdPayload_T" where
  "near_payload p = p\<lparr>cpData := map_option (\<lambda>_. payload_bytes p) (cpData p)\<rparr>"

lemma payload_embedded:
  "payload_wf p \<Longrightarrow> cpData p = None \<Longrightarrow> cPtrDataLen p = 0 \<and> unat (cEmdDataSize p) \<le> 64 \<and>
     payload_bytes p = take (unat (cEmdDataSize p)) (cEmdData p)"
  by (auto simp: payload_wf_def payload_bytes_def payload_data_def payload_len_def word_gt_0)

lemma payload_pointer:
  assumes "payload_wf p" "cpData p = Some blk"
  shows "cEmdDataSize p = 0" "length (payload_bytes p) = unat (cPtrDataLen p)" "0 < cPtrDataLen p"
    "payload_bytes p = take (unat (cPtrDataLen p)) blk" "payload_bytes p \<noteq> []" "unat (cPtrDataLen p) \<le> length blk"
    "length (payload_bytes p) < 2 ^ 32 - 1" "of_nat (length (payload_bytes p)) = cPtrDataLen p"
proof -
  have p: "cEmdDataSize p = 0" "0 < unat (cPtrDataLen p)" "unat (cPtrDataLen p) \<le> length blk" "unat (cPtrDataLen p) < 2 ^ 32 - 1"
    using assms by (auto simp: payload_wf_def)
  have g: "0 < cPtrDataLen p" using p(2) by (simp add: word_less_nat_alt)
  have b: "payload_bytes p = take (unat (cPtrDataLen p)) blk"
    using p(1) assms(2) g by (simp add: payload_bytes_def payload_data_def payload_len_def)
  have l: "length (payload_bytes p) = unat (cPtrDataLen p)" using b p(3) by simp
  show "cEmdDataSize p = 0" "length (payload_bytes p) = unat (cPtrDataLen p)" "0 < cPtrDataLen p"
    "payload_bytes p = take (unat (cPtrDataLen p)) blk" "unat (cPtrDataLen p) \<le> length blk" using p g b l by simp_all
  show "payload_bytes p \<noteq> []" using l p(2) by auto
  show "length (payload_bytes p) < 2 ^ 32 - 1" using l p(4) by simp
  show "of_nat (length (payload_bytes p)) = cPtrDataLen p" using l by simp
qed

lemma set_payload_bytes:
  assumes "length (cEmdData p) = 64" "unat n \<le> length blk" "0 < unat n" "unat n < 2 ^ 32 - 1" "setPayload True p (Some blk) n = (r, q)"
  shows "r = IOC_RESULT_SUCCESS" "payload_wf q" "payload_bytes q = take (unat n) blk"
proof -
  have u: "unat (n + 1) = unat n + 1" using unat_Suc_word [of n 0] assms(4) by simp
  have 64: "n \<le> 64 \<longleftrightarrow> unat n \<le> 64" by (simp add: word_le_nat_alt)
  have "0 < n" using assms(3) by (simp add: word_less_nat_alt)
  then show "r = IOC_RESULT_SUCCESS" "payload_wf q" "payload_bytes q = take (unat n) blk"
    using assms u 64 take_blit [of "take (unat n) blk" "cEmdData p"]
    by (auto simp: setPayload_def Let_def payload_wf_def payload_bytes_def payload_data_def payload_len_def split: if_splits)
qed

section \<open>Messages on the wire\<close>

lemma conn_setSocks:
  "conn (Socks (proto w)) a b \<Longrightarrow> gave (Socks (proto w)) b bs ss \<Longrightarrow> conn (Socks (proto (setSocks ss w))) a b"
  by (simp add: gave_conn)

lemma took_open: "took ss b r ss' \<Longrightarrow> ss x \<noteq> None \<Longrightarrow> ss' x \<noteq> None"
  unfolding took_def by (metis same_socks_dom)

lemma send_payload_conn:
  assumes "conn (Socks (proto w)) a b" "payload_wf p" "cpData p = Some blk"
  obtains ss where "bindO (sendW a (tcp_header TCP_MSG_DATA (cPtrDataLen p)) w) (\<lambda>(r, w2).
      if r \<noteq> IOC_RESULT_SUCCESS then Done (r, w2)
      else if length blk < unat (cPtrDataLen p) then Abort else sendW a (take (unat (cPtrDataLen p)) blk) w2) =
      Done (IOC_RESULT_SUCCESS, setSocks ss w)" "gave (Socks (proto w)) b (payload_frame p) ss"
proof -
  note p = payload_pointer [OF assms(2,3)]
  from sendW_conn [OF assms(1), of "tcp_header TCP_MSG_DATA (cPtrDataLen p)"] obtain s1 where
    1: "sendW a (tcp_header TCP_MSG_DATA (cPtrDataLen p)) w = Done (IOC_RESULT_SUCCESS, setSocks s1 w)"
      "gave (Socks (proto w)) b (tcp_header TCP_MSG_DATA (cPtrDataLen p)) s1" by blast
  from sendW_conn [OF conn_setSocks [OF assms(1) 1(2)], of "payload_bytes p"] obtain s2 where
    2: "sendW a (payload_bytes p) (setSocks s1 w) = Done (IOC_RESULT_SUCCESS, setSocks s2 w)" "gave s1 b (payload_bytes p) s2"
    by auto
  have "gave (Socks (proto w)) b (payload_frame p) s2"
    using gave_trans [OF 1(2) 2(2)] assms(3) p(8) by (simp add: payload_frame_def data_frame_def)
  then show ?thesis using that 1(1) 2(1) p(4,6) by simp
qed

lemma send_desc_conn:
  assumes "conn (Socks (proto w)) a b"
  obtains ss where "send_two a (tcp_header TCP_MSG_COMMAND (of_nat sizeof_CmdDesc)) (put_cmd c) w =
      Done (IOC_RESULT_SUCCESS, setSocks ss w)"
    "gave (Socks (proto w)) b (tcp_header TCP_MSG_COMMAND (of_nat sizeof_CmdDesc) @ put_cmd c) ss"
  using send_two_conn [OF assms, of "tcp_header TCP_MSG_COMMAND (of_nat sizeof_CmdDesc)" "put_cmd c"] by blast

lemma send_request_conn:
  assumes "conn (Socks (proto w)) a b" "payload_wf (InPayload d)"
  obtains ss where "send_request a d w = Done (IOC_RESULT_SUCCESS, setSocks ss w)"
    "gave (Socks (proto w)) b (cmd_frame d (InPayload d)) ss"
proof -
  from send_desc_conn [OF assms(1), of d] obtain s1 where
    1: "send_two a (tcp_header TCP_MSG_COMMAND (of_nat sizeof_CmdDesc)) (put_cmd d) w = Done (IOC_RESULT_SUCCESS, setSocks s1 w)"
      "gave (Socks (proto w)) b (tcp_header TCP_MSG_COMMAND (of_nat sizeof_CmdDesc) @ put_cmd d) s1" by blast
  show ?thesis
  proof (cases "cpData (InPayload d)")
    case None
    then show ?thesis using that [of s1] 1 by (simp add: send_request_def cmd_frame_def payload_frame_def)
  next
    case (Some blk)
    from send_payload_conn [OF conn_setSocks [OF assms(1) 1(2)] assms(2) Some] obtain s2 where
      2: "bindO (sendW a (tcp_header TCP_MSG_DATA (cPtrDataLen (InPayload d))) (setSocks s1 w)) (\<lambda>(r, w2).
        if r \<noteq> IOC_RESULT_SUCCESS then Done (r, w2)
        else if length blk < unat (cPtrDataLen (InPayload d)) then Abort
        else sendW a (take (unat (cPtrDataLen (InPayload d))) blk) w2) = Done (IOC_RESULT_SUCCESS, setSocks s2 w)"
      "gave s1 b (payload_frame (InPayload d)) s2" by auto
    have "cPtrDataLen (InPayload d) \<noteq> 0" using payload_pointer(3) [OF assms(2) Some] by simp
    then have "send_request a d w = Done (IOC_RESULT_SUCCESS, setSocks s2 w)"
      using 1(1) 2(1) Some by (simp add: send_request_def)
    then show ?thesis using that gave_trans [OF 1(2) 2(2)] by (simp add: cmd_frame_def)
  qed
qed

lemma send_out_conn:
  assumes "conn (Socks (proto w)) a b" "payload_wf (OutPayload c)"
  obtains ss where "send_out_payload a c w = Done (setSocks ss w)" "gave (Socks (proto w)) b (payload_frame (OutPayload c)) ss"
proof (cases "cpData (OutPayload c)")
  case None
  have "gave (Socks (proto w)) b [] (Socks (proto w))" by (simp add: gave_def)
  then show ?thesis using that [of "Socks (proto w)"] None payload_embedded [OF assms(2) None]
    by (auto simp: send_out_payload_def IOC_CmdDesc_getOutData_def payload_data_def payload_frame_def)
next
  case (Some blk)
  note p = payload_pointer [OF assms(2) Some]
  from sendW_conn [OF assms(1), of "tcp_header TCP_MSG_DATA (cPtrDataLen (OutPayload c))"] obtain s1 where
    1: "sendW a (tcp_header TCP_MSG_DATA (cPtrDataLen (OutPayload c))) w = Done (IOC_RESULT_SUCCESS, setSocks s1 w)"
      "gave (Socks (proto w)) b (tcp_header TCP_MSG_DATA (cPtrDataLen (OutPayload c))) s1" by blast
  from sendW_conn [OF conn_setSocks [OF assms(1) 1(2)], of "payload_bytes (OutPayload c)"] obtain s2 where
    2: "sendW a (payload_bytes (OutPayload c)) (setSocks s1 w) = Done (IOC_RESULT_SUCCESS, setSocks s2 w)"
      "gave s1 b (payload_bytes (OutPayload c)) s2" by auto
  have "gave (Socks (proto w)) b (payload_frame (OutPayload c)) s2"
    using gave_trans [OF 1(2) 2(2)] Some p(8) by (simp add: payload_frame_def data_frame_def)
  then show ?thesis using that [of s2] 1(1) 2(1) p Some
    by (simp add: send_out_payload_def IOC_CmdDesc_getOutData_def IOC_CmdDesc_getOutDataLen_def payload_data_def payload_len_def Let_def)
qed

lemma send_response_conn:
  assumes "conn (Socks (proto w)) (SocketFd l) b" "payload_wf (OutPayload c)" "TcpLinks (proto w) g = Some l"
  obtains ss where "send_response g c w = Done (setSocks ss w)" "gave (Socks (proto w)) b (cmd_frame c (OutPayload c)) ss"
proof -
  from sendW_conn [OF assms(1), of "tcp_header TCP_MSG_COMMAND (of_nat sizeof_CmdDesc)"] obtain s1 where
    1: "sendW (SocketFd l) (tcp_header TCP_MSG_COMMAND (of_nat sizeof_CmdDesc)) w = Done (IOC_RESULT_SUCCESS, setSocks s1 w)"
      "gave (Socks (proto w)) b (tcp_header TCP_MSG_COMMAND (of_nat sizeof_CmdDesc)) s1" by blast
  note c1 = conn_setSocks [OF assms(1) 1(2)]
  from sendW_conn [OF c1, of "put_cmd c"] obtain s2 where
    2: "sendW (SocketFd l) (put_cmd c) (setSocks s1 w) = Done (IOC_RESULT_SUCCESS, setSocks s2 w)" "gave s1 b (put_cmd c) s2"
    by auto
  have "conn (Socks (proto (setSocks s2 w))) (SocketFd l) b" using gave_conn [OF 2(2)] c1 by simp
  from send_out_conn [OF this assms(2)] obtain s3 where
    3: "send_out_payload (SocketFd l) c (setSocks s2 w) = Done (setSocks s3 w)" "gave s2 b (payload_frame (OutPayload c)) s3" by auto
  have "gave (Socks (proto w)) b (cmd_frame c (OutPayload c)) s3"
    using gave_trans [OF gave_trans [OF 1(2) 2(2)] 3(2)] by (simp add: cmd_frame_def)
  then show ?thesis using that 1(1) 2(1) 3(1) assms(3) by (simp add: send_response_def)
qed

section \<open>Descriptors and payloads that arrive\<close>

lemma recv_command_desc:
  assumes "receiving w f l" "arrived w l = map RxByte (cmd_frame c p) @ r" "cmd_ok c"
  obtains ss where "took (Socks (proto w)) (SocketFd l) (map RxByte (payload_frame p) @ r) ss"
    "recv_message env f w = (if is_request c then recv_request env f (SocketFd l) (far_cmd c) (setSocks ss w)
       else recv_response env f (SocketFd l) (far_cmd c) (setSocks ss w))"
proof -
  obtain ss where ss: "took (Socks (proto w)) (SocketFd l) (map RxByte (put_cmd c @ payload_frame p) @ r) ss"
    "recv_message env f w = recv_command env f (SocketFd l) (setSocks ss w)"
    using recv_message_header [OF assms(1), of TCP_MSG_COMMAND "of_nat sizeof_CmdDesc" "put_cmd c @ payload_frame p" r env] assms(2)
    by (auto simp: cmd_frame_def Let_def sizeof_CmdDesc_def)
  note r1 = took_receiving [OF assms(1) ss(1)]
  have "inbox (Socks (proto (setSocks ss w))) (SocketFd l) = map RxByte (put_cmd c) @ (map RxByte (payload_frame p) @ r)"
    using took_inbox(1) [OF ss(1)] by simp
  from recvW_ok [OF receivingD(3) [OF r1] this, of sizeof_CmdDesc] cmd_put(1) [OF assms(3)] obtain s2 where
    s2: "recvW (SocketFd l) sizeof_CmdDesc (setSocks ss w) = Done (RecvOk (put_cmd c), setSocks s2 w)"
      "took ss (SocketFd l) (map RxByte (payload_frame p) @ r) s2" by (auto simp: sizeof_CmdDesc_def)
  have "is_request (far_cmd c) = is_request c" by (simp add: is_request_def far_cmd_def)
  then show ?thesis using that [OF took_trans [OF ss(1) s2(2)]] ss(2) s2(1) cmd_put(2) [OF assms(3)]
    by (simp add: recv_command_def)
qed

lemma recv_payload_frame:
  assumes "payload_wf p" "cpData p = Some blk" "Socks (proto w) fd \<noteq> None"
    "inbox (Socks (proto w)) fd = map RxByte (payload_frame p) @ r"
  obtains s1 s2 where "recvW fd 8 w = Done (RecvOk (tcp_header TCP_MSG_DATA (cPtrDataLen p)), setSocks s1 w)"
    "recvW fd (unat (cPtrDataLen p)) (setSocks s1 w) = Done (RecvOk (payload_bytes p), setSocks s2 w)"
    "took (Socks (proto w)) fd r s2" "unat (ucast (cPtrDataLen p) :: 32 word) = unat (cPtrDataLen p)"
    "ucast (ucast (cPtrDataLen p) :: 32 word) = cPtrDataLen p"
proof -
  note p = payload_pointer [OF assms(1,2)]
  have lt: "unat (cPtrDataLen p) < 2 ^ 32" using p(2,7) by simp
  have u: "unat (ucast (cPtrDataLen p) :: 32 word) = unat (cPtrDataLen p)"
    using size_32(1) [OF lt] by simp
  then have uu: "ucast (ucast (cPtrDataLen p) :: 32 word) = cPtrDataLen p"
    using lt by (simp add: word_unat_eq_iff unsigned_ucast_eq unsigned_take_bit_eq take_bit_nat_eq_self)
  have "inbox (Socks (proto w)) fd = map RxByte (tcp_header TCP_MSG_DATA (cPtrDataLen p) @ payload_bytes p) @ r"
    using assms(4) assms(2) p(8) by (simp add: payload_frame_def data_frame_def)
  from recvW_header [OF assms(3) this] obtain s1 where
    1: "recvW fd 8 w = Done (RecvOk (tcp_header TCP_MSG_DATA (cPtrDataLen p)), setSocks s1 w)"
      "took (Socks (proto w)) fd (map RxByte (payload_bytes p) @ r) s1" by blast
  have "Socks (proto (setSocks s1 w)) fd \<noteq> None" using took_open [OF 1(2) assms(3)] by simp
  from recvW_ok [OF this, of "payload_bytes p" r "unat (cPtrDataLen p)"] took_inbox(1) [OF 1(2)] p(2,3) obtain s2 where
    2: "recvW fd (unat (cPtrDataLen p)) (setSocks s1 w) = Done (RecvOk (payload_bytes p), setSocks s2 w)" "took s1 fd r s2"
    by (auto simp: word_less_nat_alt)
  show ?thesis using that [OF 1(1) 2(1) took_trans [OF 1(2) 2(2)] u uu] .
qed

lemma recv_in_payload_frame:
  assumes "payload_wf p" "Socks (proto w) fd \<noteq> None" "inbox (Socks (proto w)) fd = map RxByte (payload_frame p) @ r"
    "InPayload c = far_payload p" "\<forall>n. te_malloc env n"
  obtains ss where "recv_in_payload env fd c w = Done (c\<lparr>InPayload := near_payload p\<rparr>, setSocks ss w)"
    "took (Socks (proto w)) fd r ss"
proof (cases "cpData p")
  case None
  have "c\<lparr>InPayload := p\<rparr> = c" using assms(4) None by (simp add: far_payload_def)
  moreover have "took (Socks (proto w)) fd r (Socks (proto w))" using assms(3) None by (simp add: took_def payload_frame_def)
  ultimately show ?thesis using that [of "Socks (proto w)"] None payload_embedded [OF assms(1) None] assms(4)
    by (simp add: recv_in_payload_def near_payload_def far_payload_def)
next
  case (Some blk)
  from recv_payload_frame [OF assms(1) Some assms(2,3)] obtain s1 s2 where
    r: "recvW fd 8 w = Done (RecvOk (tcp_header TCP_MSG_DATA (cPtrDataLen p)), setSocks s1 w)"
      "recvW fd (unat (cPtrDataLen p)) (setSocks s1 w) = Done (RecvOk (payload_bytes p), setSocks s2 w)"
      "took (Socks (proto w)) fd r s2" "unat (ucast (cPtrDataLen p) :: 32 word) = unat (cPtrDataLen p)"
      "ucast (ucast (cPtrDataLen p) :: 32 word) = cPtrDataLen p" by blast
  have "recv_in_payload env fd c w = Done (c\<lparr>InPayload := near_payload p\<rparr>, setSocks s2 w)"
    using r(1,2,4,5) payload_pointer(3) [OF assms(1) Some] Some assms(4,5)
    by (simp add: recv_in_payload_def far_payload_def near_payload_def)
  then show ?thesis using that r(3) by blast
qed

text \<open>What the response leaves at the caller's link.\<close>

lemma recv_out_payload_frame:
  assumes "payload_wf p" "receiving w f l" "arrived w l = map RxByte (payload_frame p) @ r"
    "OutPayload c = far_payload p" "CmdResponse l = c" "\<forall>n. te_malloc env n"
  obtains ss q where "recv_out_payload env f (SocketFd l) c w = Done (setTcp f (\<lambda>l. l\<lparr>CmdResponse := c\<lparr>OutPayload := q\<rparr>\<rparr>) (setSocks ss w))"
    "took (Socks (proto w)) (SocketFd l) r ss" "payload_wf q" "payload_bytes q = payload_bytes p"
proof (cases "cpData p")
  case None
  have same: "c\<lparr>OutPayload := p\<rparr> = c" using assms(4) None by (simp add: far_payload_def)
  have "setTcp f (\<lambda>l. l\<lparr>CmdResponse := c\<lparr>OutPayload := p\<rparr>\<rparr>) w = w" unfolding same
    using receivingD(1) [OF assms(2)] assms(5) by (simp add: setTcp_def fun_upd_idem)
  moreover have "took (Socks (proto w)) (SocketFd l) r (Socks (proto w))"
    using assms(3) None by (simp add: took_def payload_frame_def)
  ultimately show ?thesis using that [of p "Socks (proto w)"] payload_embedded [OF assms(1) None] assms(1,4)
    by (simp add: recv_out_payload_def far_payload_def)
next
  case (Some blk)
  note p = payload_pointer [OF assms(1) Some]
  from recv_payload_frame [OF assms(1) Some receivingD(3) [OF assms(2)] assms(3)] obtain s1 s2 where
    r: "recvW (SocketFd l) 8 w = Done (RecvOk (tcp_header TCP_MSG_DATA (cPtrDataLen p)), setSocks s1 w)"
      "recvW (SocketFd l) (unat (cPtrDataLen p)) (setSocks s1 w) = Done (RecvOk (payload_bytes p), setSocks s2 w)"
      "took (Socks (proto w)) (SocketFd l) r s2" "unat (ucast (cPtrDataLen p) :: 32 word) = unat (cPtrDataLen p)" by blast
  obtain res q where q: "setPayload True (OutPayload c) (Some (payload_bytes p)) (cPtrDataLen p) = (res, q)" by fastforce
  have "length (cEmdData (OutPayload c)) = 64" using assms(1,4) by (simp add: payload_wf_def far_payload_def)
  from set_payload_bytes [OF this _ _ _ q] p have q2: "payload_wf q" "payload_bytes q = payload_bytes p"
    by (simp_all add: word_less_nat_alt)
  have "recv_out_payload env f (SocketFd l) c w = Done (setTcp f (\<lambda>l. l\<lparr>CmdResponse := c\<lparr>OutPayload := q\<rparr>\<rparr>) (setSocks s2 w))"
    using r(1,2,4) p(3) assms(4,5,6) q Some receivingD(1) [OF assms(2)]
    by (simp add: recv_out_payload_def far_payload_def Let_def word_less_nat_alt IOC_CmdDesc_setOutPayload_def setTcp_def)
  then show ?thesis using that r(3) q2 by blast
qed

section \<open>Turns of the receiver threads\<close>

text \<open>The descriptor of a request as the other side sees it.\<close>

definition seen_cmd :: "IOC_CmdDesc_T \<Rightarrow> IOC_CmdDesc_T" where
  "seen_cmd c = (far_cmd c)\<lparr>InPayload := near_payload (InPayload c)\<rparr>"

text \<open>The descriptor with the result of its execution.\<close>

definition executed_cmd :: "IOC_Result_T \<Rightarrow> IOC_CmdDesc_T \<Rightarrow> IOC_CmdDesc_T" where
  "executed_cmd r c = c\<lparr>Status := (if r = IOC_RESULT_SUCCESS then IOC_CMD_STATUS_SUCCESS else IOC_CMD_STATUS_FAILED),
     CmdResult := r\<rparr>"

lemma recv_turn_bind:
  "receiving w f l \<Longrightarrow> recv_message env f w = bindO m (\<lambda>w1. Done (True, w1)) \<Longrightarrow> recv_turn env f w = m"
  by (cases m) (simp_all add: recv_turn_def receiving_def)

lemma turn_request_head:
  assumes "receiving w g l" "arrived w l = map RxByte (cmd_frame c (InPayload c)) @ r" "cmd_ok c" "is_request c"
    "payload_wf (InPayload c)" "\<forall>n. te_malloc env n"
  obtains ss where "took (Socks (proto w)) (SocketFd l) r ss"
    "recv_message env g w = (case fst (tCmdUsageArgs l) of
       Some F \<Rightarrow> deref (tOwnerLinkObj l) w (\<lambda>lk.
         bindO (te_cmd env F (snd (tCmdUsageArgs l)) (ID lk) ((seen_cmd c)\<lparr>Status := IOC_CMD_STATUS_PROCESSING\<rparr>) (setSocks ss w))
           (\<lambda>(r, c2, w2). bindO (send_response g (executed_cmd r c2) w2) (\<lambda>w3. Done (True, w3))))
     | None \<Rightarrow> Done (True, setTcp g (\<lambda>l. snd (tcp_cmd_put (seen_cmd c) l)) (setSocks ss w)))"
proof -
  from recv_command_desc [OF assms(1,2,3), of env] assms(4) obtain s1 where
    1: "took (Socks (proto w)) (SocketFd l) (map RxByte (payload_frame (InPayload c)) @ r) s1"
      "recv_message env g w = recv_request env g (SocketFd l) (far_cmd c) (setSocks s1 w)" by auto
  note r1 = took_receiving [OF assms(1) 1(1)]
  have "inbox (Socks (proto (setSocks s1 w))) (SocketFd l) = map RxByte (payload_frame (InPayload c)) @ r"
    using took_inbox(1) [OF 1(1)] by simp
  from recv_in_payload_frame [OF assms(5) receivingD(3) [OF r1] this _ assms(6), of "far_cmd c"] obtain s2 where
    2: "recv_in_payload env (SocketFd l) (far_cmd c) (setSocks s1 w) = Done (seen_cmd c, setSocks s2 w)"
      "took s1 (SocketFd l) r s2" by (auto simp: far_cmd_def seen_cmd_def)
  have "deref x (setSocks s2 w) k = deref x w k" for x and k :: "LinkObject_T \<Rightarrow> (bool \<times> 'a tcp_world) outcome"
    by (simp add: deref_def)
  then show ?thesis using that [OF took_trans [OF 1(1) 2(2)]] 1(2) 2(1) receivingD(1) [OF assms(1)]
    by (simp add: recv_request_def executed_cmd_def Let_def split: option.split)
qed

lemma turn_request_callback:
  assumes "receiving w g l" "arrived w l = map RxByte (cmd_frame c (InPayload c)) @ r" "cmd_ok c" "is_request c"
    "payload_wf (InPayload c)" "\<forall>n. te_malloc env n" "tCmdUsageArgs l = (Some F, p)" "LinkHeap w (tOwnerLinkObj l) = Some lk"
  obtains ss where "took (Socks (proto w)) (SocketFd l) r ss"
    "recv_turn env g w = bindO (te_cmd env F p (ID lk) ((seen_cmd c)\<lparr>Status := IOC_CMD_STATUS_PROCESSING\<rparr>) (setSocks ss w))
       (\<lambda>(r, c2, w2). send_response g (executed_cmd r c2) w2)"
proof -
  from turn_request_head [OF assms(1-6)] obtain ss where
    ss: "took (Socks (proto w)) (SocketFd l) r ss"
    "recv_message env g w = bindO (te_cmd env F p (ID lk) ((seen_cmd c)\<lparr>Status := IOC_CMD_STATUS_PROCESSING\<rparr>) (setSocks ss w))
       (\<lambda>(r, c2, w2). bindO (send_response g (executed_cmd r c2) w2) (\<lambda>w3. Done (True, w3)))"
    using assms(7,8) by (auto simp: deref_def)
  then show ?thesis using that recv_turn_bind [OF assms(1)] by (simp add: bindO_assoc case_prod_unfold)
qed

lemma turn_request_queued:
  assumes "receiving w g l" "arrived w l = map RxByte (cmd_frame c (InPayload c)) @ r" "cmd_ok c" "is_request c"
    "payload_wf (InPayload c)" "\<forall>n. te_malloc env n" "fst (tCmdUsageArgs l) = None"
  obtains ss where "took (Socks (proto w)) (SocketFd l) r ss"
    "recv_turn env g w = Done (setTcp g (\<lambda>l. snd (tcp_cmd_put (seen_cmd c) l)) (setSocks ss w))"
proof -
  from turn_request_head [OF assms(1-6)] obtain ss where "took (Socks (proto w)) (SocketFd l) r ss"
    "recv_message env g w = Done (True, setTcp g (\<lambda>l. snd (tcp_cmd_put (seen_cmd c) l)) (setSocks ss w))"
    using assms(7) by auto
  then show ?thesis using that recv_turn_goes_on [OF assms(1)] by blast
qed

lemma turn_response:
  assumes "receiving w f l" "arrived w l = map RxByte (cmd_frame c (OutPayload c)) @ r" "cmd_ok c" "\<not> is_request c"
    "payload_wf (OutPayload c)" "\<forall>n. te_malloc env n"
  obtains ss q where "took (Socks (proto w)) (SocketFd l) r ss"
    "recv_turn env f w = Done (setTcp f (\<lambda>l. l\<lparr>CmdResponse := (far_cmd c)\<lparr>OutPayload := q\<rparr>, CmdResponseReady := True\<rparr>) (setSocks ss w))"
    "payload_wf q" "payload_bytes q = payload_bytes (OutPayload c)"
proof -
  from recv_command_desc [OF assms(1,2,3), of env] assms(4) obtain s1 where
    1: "took (Socks (proto w)) (SocketFd l) (map RxByte (payload_frame (OutPayload c)) @ r) s1"
      "recv_message env f w = recv_response env f (SocketFd l) (far_cmd c) (setSocks s1 w)" by auto
  let ?h = "\<lambda>l. l\<lparr>CmdResponse := far_cmd c\<rparr>" and ?w = "setTcp f (\<lambda>l. l\<lparr>CmdResponse := far_cmd c\<rparr>) (setSocks s1 w)"
  have r1: "receiving ?w f (?h l)" using took_receiving [OF assms(1) 1(1)] by (simp add: receiving_def)
  have "arrived ?w (?h l) = map RxByte (payload_frame (OutPayload c)) @ r" using took_inbox(1) [OF 1(1)] by simp
  moreover have "OutPayload (far_cmd c) = far_payload (OutPayload c)" "CmdResponse (?h l) = far_cmd c" by (simp_all add: far_cmd_def)
  moreover have "SocketFd (?h l) = SocketFd l" "Socks (proto ?w) = s1" by simp_all
  ultimately obtain s2 q where
    2: "recv_out_payload env f (SocketFd l) (far_cmd c) ?w =
        Done (setTcp f (\<lambda>l. l\<lparr>CmdResponse := (far_cmd c)\<lparr>OutPayload := q\<rparr>\<rparr>) (setSocks s2 ?w))"
      "took s1 (SocketFd l) r s2" "payload_wf q" "payload_bytes q = payload_bytes (OutPayload c)"
    using recv_out_payload_frame [OF assms(5) r1 _ _ _ assms(6)] by metis
  have "recv_message env f w =
      Done (True, setTcp f (\<lambda>l. l\<lparr>CmdResponse := (far_cmd c)\<lparr>OutPayload := q\<rparr>, CmdResponseReady := True\<rparr>) (setSocks s2 w))"
    using 1(2) 2(1) receivingD(1) [OF assms(1)] by (simp add: recv_response_def setTcp_def setSocks_def)
  from that [OF took_trans [OF 1(1) 2(2)] recv_turn_goes_on [OF assms(1) this] 2(3,4)] show ?thesis .
qed

section \<open>The caller\<close>

lemma payload_cases:
  assumes "payload_wf q"
  obtains (none) "payload_data q = None" "payload_bytes q = []"
  | (some) blk where "payload_data q = Some blk" "0 < unat (payload_len q)" "unat (payload_len q) \<le> length blk"
      "unat (payload_len q) < 2 ^ 32 - 1" "payload_bytes q = take (unat (payload_len q)) blk" "payload_bytes q \<noteq> []"
proof (cases "cpData q")
  case None
  note e = payload_embedded [OF assms None]
  show ?thesis
  proof (cases "cEmdDataSize q = 0")
    case True
    then show ?thesis using none e None by (simp add: payload_data_def)
  next
    case False
    then have "0 < cEmdDataSize q" "0 < unat (cEmdDataSize q)" by (simp_all add: word_gt_0 unat_gt_0)
    moreover have l: "length (cEmdData q) = 64" using assms by (simp add: payload_wf_def)
    moreover have "cEmdData q \<noteq> []" using l by auto
    ultimately show ?thesis using some [of "cEmdData q"] e by (auto simp: payload_data_def payload_len_def)
  qed
next
  case (Some blk)
  note p = payload_pointer [OF assms Some]
  have "0 < unat (cPtrDataLen q)" using p(3) by (simp add: word_less_nat_alt)
  then show ?thesis using some [of blk] p Some by (simp add: payload_data_def payload_len_def)
qed

definition exec_cleared :: "nat \<Rightarrow> 'x tcp_world \<Rightarrow> 'x tcp_world" where
  "exec_cleared f w = setTcp f (\<lambda>l. l\<lparr>CmdResponseReady := False, RecvError := IOC_RESULT_SUCCESS\<rparr>) w"

abbreviation cleared_end :: "TcpLinkObject_T \<Rightarrow> TcpLinkObject_T" where
  "cleared_end l \<equiv> l\<lparr>CmdResponseReady := False, RecvError := IOC_RESULT_SUCCESS\<rparr>"

abbreviation pending_cmd :: "IOC_CmdDesc_T \<Rightarrow> IOC_CmdDesc_T" where
  "pending_cmd d \<equiv> d\<lparr>Status := IOC_CMD_STATUS_PENDING\<rparr>"

lemma cleared_pair:
  assumes "tcp_pair w a f lf b g lg"
  shows "tcp_pair (exec_cleared f w) a f (cleared_end lf) b g lg"
  unfolding exec_cleared_def by (rule tcp_pair_setTcp [OF assms]) simp_all

text \<open>What the descriptor of the caller becomes when the response is \<open>c\<close>.\<close>

definition answered :: "IOC_CmdDesc_T \<Rightarrow> IOC_CmdDesc_T \<Rightarrow> byte list \<Rightarrow> IOC_CmdDesc_T \<Rightarrow> bool" where
  "answered d c out d' \<longleftrightarrow> Status d' = Status c \<and> CmdResult d' = CmdResult c \<and> CmdID d' = CmdID d \<and> InPayload d' = InPayload d \<and>
     payload_bytes (OutPayload d') = (if out = [] then payload_bytes (OutPayload d) else out)"

text \<open>The call sends the request and then waits for one turn of the other threads, which brings a response.\<close>

lemma exec_pair:
  assumes "tcp_pair w a f lf b g lg" "0 \<le> SocketFd lf" "payload_wf (InPayload d)" "payload_wf (OutPayload d)"
    "te_exec env = [(False, turn)]" "\<forall>n. te_malloc env n"
  obtains ss where "gave (Socks (proto w)) (SocketFd lg) (cmd_frame (pending_cmd d) (InPayload d)) ss"
    "tcp_pair (setSocks ss (exec_cleared f w)) a f (cleared_end lf) b g lg"
    "\<And>w3 l3 q. turn (setSocks ss (exec_cleared f w)) = Done w3 \<Longrightarrow> TcpLinks (proto w3) f = Some l3 \<Longrightarrow>
      CmdResponseReady l3 \<Longrightarrow> RecvError l3 = IOC_RESULT_SUCCESS \<Longrightarrow> OutPayload (CmdResponse l3) = q \<Longrightarrow> payload_wf q \<Longrightarrow>
      \<exists>d'. execCmd_ofProtoTCP env a d opt w = Done (IOC_RESULT_SUCCESS, d', w3) \<and>
        answered d (CmdResponse l3) (payload_bytes q) d'"
proof -
  note p1 = cleared_pair [OF assms(1)]
  from send_request_conn [OF tcp_pairD(6) [OF p1], of "pending_cmd d"] assms(3) obtain ss where
    ss: "send_request (SocketFd lf) (pending_cmd d) (exec_cleared f w) = Done (IOC_RESULT_SUCCESS, setSocks ss (exec_cleared f w))"
      "gave (Socks (proto w)) (SocketFd lg) (cmd_frame (pending_cmd d) (InPayload d)) ss"
    by (auto simp: exec_cleared_def)
  have g: "gave (Socks (proto (exec_cleared f w))) (SocketFd lg) (cmd_frame (pending_cmd d) (InPayload d)) ss"
    using ss(2) by (simp add: exec_cleared_def)
  have p2: "tcp_pair (setSocks ss (exec_cleared f w)) a f (cleared_end lf) b g lg" using tcp_pair_gave [OF p1 g] .
  have "\<exists>d'. execCmd_ofProtoTCP env a d opt w = Done (IOC_RESULT_SUCCESS, d', w3) \<and> answered d (CmdResponse l3) (payload_bytes q) d'"
    if t: "turn (setSocks ss (exec_cleared f w)) = Done w3" "TcpLinks (proto w3) f = Some l3" "CmdResponseReady l3"
      "RecvError l3 = IOC_RESULT_SUCCESS" "OutPayload (CmdResponse l3) = q" "payload_wf q" for w3 l3 q
  proof -
    let ?d2 = "(pending_cmd d)\<lparr>Status := Status (CmdResponse l3), CmdResult := CmdResult (CmdResponse l3)\<rparr>"
    have wait: "response_wait f timed (te_exec env) (setSocks ss (exec_cleared f w)) = Done (False, w3)" for timed
      using tcp_pairD(9) [OF p2] t(1,2,3) assms(5) by (subst response_wait.simps, simp, subst response_wait.simps, simp)
    have e: "execCmd_ofProtoTCP env a d opt w =
       (case payload_data q of None \<Rightarrow> Done (IOC_RESULT_SUCCESS, ?d2, w3)
        | Some blk \<Rightarrow> if payload_len q = 0 then Done (IOC_RESULT_SUCCESS, ?d2, w3)
            else if length blk < unat (payload_len q) then Abort
            else Done (IOC_RESULT_SUCCESS, the (snd (IOC_CmdDesc_setOutPayload True (Some ?d2) (Some blk) (payload_len q))), w3))"
      using assms(2,6) ss(1) wait t(2,4,5)
      by (simp add: execCmd_ofProtoTCP_def with_tcp_end [OF tcp_pairD(1,9) [OF assms(1)]] flip: exec_cleared_def)
        (simp add: IOC_CmdDesc_getOutData_def IOC_CmdDesc_getOutDataLen_def Let_def assms(6) cong: if_cong option.case_cong)
    show ?thesis using t(6)
    proof (cases rule: payload_cases)
      case none
      then show ?thesis using e by (simp add: answered_def)
    next
      case (some blk)
      obtain r o' where s: "setPayload True (OutPayload d) (Some blk) (payload_len q) = (r, o')" by fastforce
      have "length (cEmdData (OutPayload d)) = 64" using assms(4) by (simp add: payload_wf_def)
      note b = set_payload_bytes [OF this some(3,2,4) s]
      have "payload_len q \<noteq> 0" using some(2) by auto
      then show ?thesis using e some s b by (simp add: answered_def IOC_CmdDesc_setOutPayload_def)
    qed
  qed
  with ss(2) p2 show ?thesis using that by blast
qed

section \<open>An executor with a callback\<close>

text \<open>User code that leaves the TCP links, sockets and threads alone.\<close>

definition quiet :: "('x tcp_world \<Rightarrow> 'x tcp_world) \<Rightarrow> bool" where
  "quiet h \<longleftrightarrow> (\<forall>w. Socks (proto (h w)) = Socks (proto w) \<and> TcpLinks (proto (h w)) = TcpLinks (proto w) \<and>
     recv_threads (proto (h w)) = recv_threads (proto w) \<and> LinkHeap (h w) = LinkHeap w)"

lemma quietD [simp]:
  assumes "quiet h"
  shows "Socks (proto (h w)) = Socks (proto w)" "TcpLinks (proto (h w)) = TcpLinks (proto w)" "LinkHeap (h w) = LinkHeap w"
    "tcp_pair (h w) a f lf b g lg \<longleftrightarrow> tcp_pair w a f lf b g lg"
  using assms by (simp_all add: quiet_def tcp_pair_def end_of_def receiving_def)

text \<open>The link \<open>l\<close> runs commands by a callback with the result \<open>r\<close>, the effect \<open>ex\<close> on the descriptor and \<open>h\<close>
  on the world.\<close>

definition executor ::
  "'x tcp_env \<Rightarrow> 'x tcp_world \<Rightarrow> TcpLinkObject_T \<Rightarrow> (IOC_CmdDesc_T \<Rightarrow> IOC_Result_T) \<Rightarrow> (IOC_CmdDesc_T \<Rightarrow> IOC_CmdDesc_T) \<Rightarrow>
   (IOC_CmdDesc_T \<Rightarrow> 'x tcp_world \<Rightarrow> 'x tcp_world) \<Rightarrow> bool" where
  "executor te w l r ex h \<longleftrightarrow> (\<forall>c. quiet (h c)) \<and> (\<exists>F p lk. tCmdUsageArgs l = (Some F, p) \<and> LinkHeap w (tOwnerLinkObj l) = Some lk \<and>
     (\<forall>c w. te_cmd te F p (ID lk) c w = Done (r c, ex c, h c w)))"

lemma executor_keep:
  "LinkHeap w' = LinkHeap w \<Longrightarrow> executor te w' l r ex h \<longleftrightarrow> executor te w l r ex h"
  by (simp add: executor_def)

text \<open>What the callback is given for the descriptor \<open>d\<close>.\<close>

definition request_of :: "IOC_CmdDesc_T \<Rightarrow> IOC_CmdDesc_T" where
  "request_of d = (seen_cmd (pending_cmd d))\<lparr>Status := IOC_CMD_STATUS_PROCESSING\<rparr>"

lemma request_of_sel:
  assumes "payload_wf (InPayload d)"
  shows "CmdID (request_of d) = CmdID d" "payload_bytes (InPayload (request_of d)) = payload_bytes (InPayload d)"
proof -
  show "CmdID (request_of d) = CmdID d" by (simp add: request_of_def seen_cmd_def far_cmd_def)
  have "payload_bytes (near_payload p) = payload_bytes p" if "payload_wf p" for p
  proof (cases "cpData p")
    case None
    then have "near_payload p = p" by (simp add: near_payload_def)
    then show ?thesis by simp
  next
    case (Some blk)
    note q = payload_pointer [OF that Some]
    have "payload_data (near_payload p) = Some (payload_bytes p)" "payload_len (near_payload p) = cPtrDataLen p"
      using q(1,3) Some by (simp_all add: near_payload_def payload_data_def payload_len_def)
    then have "payload_bytes (near_payload p) = take (unat (cPtrDataLen p)) (payload_bytes p)"
      unfolding payload_bytes_def [of "near_payload p"] by simp
    then show ?thesis using q(2) by simp
  qed
  then show "payload_bytes (InPayload (request_of d)) = payload_bytes (InPayload d)"
    using assms by (simp add: request_of_def seen_cmd_def)
qed

lemma executed_not_request: "\<not> is_request (executed_cmd r c)" "cmd_ok (executed_cmd r c) \<longleftrightarrow> cmd_ok c"
  "OutPayload (executed_cmd r c) = OutPayload c"
  by (simp_all add: is_request_def executed_cmd_def cmd_ok_def)

abbreviation response_frame :: "IOC_CmdDesc_T \<Rightarrow> byte list" where
  "response_frame c \<equiv> cmd_frame c (OutPayload c)"

abbreviation request_frame :: "IOC_CmdDesc_T \<Rightarrow> byte list" where
  "request_frame d \<equiv> cmd_frame (pending_cmd d) (InPayload d)"

definition answer_of ::
  "(IOC_CmdDesc_T \<Rightarrow> IOC_Result_T) \<Rightarrow> (IOC_CmdDesc_T \<Rightarrow> IOC_CmdDesc_T) \<Rightarrow> IOC_CmdDesc_T \<Rightarrow> IOC_CmdDesc_T" where
  "answer_of r ex d = executed_cmd (r (request_of d)) (ex (request_of d))"

lemma executor_turn:
  assumes "tcp_pair w a f lf b g lg" "arrived w lg = map RxByte (request_frame d) @ r0" "cmd_ok d" "payload_wf (InPayload d)"
    "executor te w lg r ex h" "\<forall>n. te_malloc te n" "payload_wf (OutPayload (ex (request_of d)))"
  obtains w' where "recv_turn te g w = Done w'" "tcp_pair w' a f lf b g lg"
    "arrived w' lf = arrived w lf @ map RxByte (response_frame (answer_of r ex d))" "arrived w' lg = r0"
    "LinkHeap w' = LinkHeap w"
proof -
  obtain F p lk where e: "tCmdUsageArgs lg = (Some F, p)" "LinkHeap w (tOwnerLinkObj lg) = Some lk"
    "\<And>c w. te_cmd te F p (ID lk) c w = Done (r c, ex c, h c w)" "quiet (h (request_of d))" using assms(5) by (auto simp: executor_def)
  have p: "cmd_ok (pending_cmd d)" "is_request (pending_cmd d)" using assms(3) by (simp_all add: cmd_ok_def is_request_def)
  let ?c = "answer_of r ex d"
  from turn_request_callback [OF tcp_pairD(5) [OF assms(1)] _ p _ assms(6) e(1,2), of r0] assms(2,4) obtain ss where
    1: "took (Socks (proto w)) (SocketFd lg) r0 ss" "recv_turn te g w = send_response g ?c (h (request_of d) (setSocks ss w))"
    by (auto simp: e(3) request_of_def answer_of_def)
  have p1: "tcp_pair (setSocks ss w) a f lf b g lg" using tcp_pair_took [OF assms(1) 1(1)] .
  have "conn (Socks (proto (h (request_of d) (setSocks ss w)))) (SocketFd lg) (SocketFd lf)" using tcp_pairD(7) [OF p1] e(4) by simp
  moreover have "TcpLinks (proto (h (request_of d) (setSocks ss w))) g = Some lg" using tcp_pairD(10) [OF p1] e(4) by simp
  moreover have "payload_wf (OutPayload ?c)" using assms(7) by (simp add: executed_not_request answer_of_def)
  ultimately obtain s2 where
    2: "send_response g ?c (h (request_of d) (setSocks ss w)) = Done (setSocks s2 (h (request_of d) (setSocks ss w)))" "gave ss (SocketFd lf) (response_frame ?c) s2"
    using send_response_conn [of "h (request_of d) (setSocks ss w)" lg "SocketFd lf" ?c g] e(4) by auto
  have "tcp_pair (setSocks s2 (h (request_of d) (setSocks ss w))) a f lf b g lg"
    using tcp_pair_gave [of "h (request_of d) (setSocks ss w)" a f lf b g lg "SocketFd lf" "response_frame ?c" s2] p1 e(4) 2(2) by simp
  moreover have "SocketFd lf \<noteq> SocketFd lg" using tcp_pairD(8) [OF assms(1)] .
  ultimately show ?thesis using that [of "setSocks s2 (h (request_of d) (setSocks ss w))"] 1 2 e(4) gave_inbox [OF 2(2)] took_inbox [OF 1(1)] by simp
qed

lemma response_turn:
  assumes "tcp_pair w a f lf b g lg" "arrived w lf = map RxByte (response_frame c) @ r0" "cmd_ok c" "\<not> is_request c"
    "payload_wf (OutPayload c)" "\<forall>n. te_malloc te n"
  obtains w' lf' where "recv_turn te f w = Done w'" "tcp_pair w' a f lf' b g lg" "arrived w' lf' = r0" "arrived w' lg = arrived w lg"
    "CmdResponseReady lf'" "RecvError lf' = RecvError lf" "Status (CmdResponse lf') = Status c" "CmdResult (CmdResponse lf') = CmdResult c"
    "payload_wf (OutPayload (CmdResponse lf'))" "payload_bytes (OutPayload (CmdResponse lf')) = payload_bytes (OutPayload c)"
proof -
  from turn_response [OF tcp_pairD(4) [OF assms(1)] assms(2-6)] obtain ss q where
    1: "took (Socks (proto w)) (SocketFd lf) r0 ss"
      "recv_turn te f w = Done (setTcp f (\<lambda>l. l\<lparr>CmdResponse := (far_cmd c)\<lparr>OutPayload := q\<rparr>, CmdResponseReady := True\<rparr>) (setSocks ss w))"
      "payload_wf q" "payload_bytes q = payload_bytes (OutPayload c)" by blast
  let ?h = "\<lambda>l. l\<lparr>CmdResponse := (far_cmd c)\<lparr>OutPayload := q\<rparr>, CmdResponseReady := True\<rparr>"
  have "tcp_pair (setTcp f ?h (setSocks ss w)) a f (?h lf) b g lg"
    by (intro tcp_pair_setTcp tcp_pair_took [OF assms(1) 1(1)]) simp_all
  from that [OF 1(2) this] show ?thesis using 1 took_inbox [OF 1(1)] tcp_pairD(8) [OF assms(1)] by (simp add: far_cmd_def)
qed

lemma exec_timeout:
  assumes "tcp_pair w a f lf b g lg" "0 \<le> SocketFd lf" "payload_wf (InPayload d)" "te_exec env = [(True, Done)]"
    "0 < roundTripTimeoutMs opt (pending_cmd d)" "\<not> CmdResponseReady (cleared_end lf)"
  obtains ss where "gave (Socks (proto w)) (SocketFd lg) (request_frame d) ss"
    "tcp_pair (setSocks ss (exec_cleared f w)) a f (cleared_end lf) b g lg"
    "execCmd_ofProtoTCP env a d opt w = Done (IOC_RESULT_TIMEOUT, d\<lparr>Status := IOC_CMD_STATUS_TIMEOUT\<rparr>, setSocks ss (exec_cleared f w))"
proof -
  note p1 = cleared_pair [OF assms(1)]
  from send_request_conn [OF tcp_pairD(6) [OF p1], of "pending_cmd d"] assms(3) obtain ss where
    ss: "send_request (SocketFd lf) (pending_cmd d) (exec_cleared f w) = Done (IOC_RESULT_SUCCESS, setSocks ss (exec_cleared f w))"
      "gave (Socks (proto w)) (SocketFd lg) (request_frame d) ss"
    by (auto simp: exec_cleared_def)
  have p2: "tcp_pair (setSocks ss (exec_cleared f w)) a f (cleared_end lf) b g lg"
    using tcp_pair_gave [OF p1, of "SocketFd lg" "request_frame d" ss] ss(2) by (simp add: exec_cleared_def)
  have "response_wait f True (te_exec env) (setSocks ss (exec_cleared f w)) = Done (True, setSocks ss (exec_cleared f w))"
    using tcp_pairD(9) [OF p2] assms(4) by (subst response_wait.simps) simp
  then have "execCmd_ofProtoTCP env a d opt w =
      Done (IOC_RESULT_TIMEOUT, d\<lparr>Status := IOC_CMD_STATUS_TIMEOUT\<rparr>, setSocks ss (exec_cleared f w))"
    using assms(2,5) ss(1)
    by (simp add: execCmd_ofProtoTCP_def with_tcp_end [OF tcp_pairD(1,9) [OF assms(1)]] flip: exec_cleared_def)
  then show ?thesis using that ss(2) p2 by blast
qed

section \<open>Properties\<close>

text \<open>C3: A command over TCP to an executor with a callback.  The request is run exactly by the turn of the
  executor's thread; the callback gets the identifier and the bytes of the caller's input payload, and the
  call returns success with the callback's result, the status that goes with it and the bytes of the output
  payload.  Nothing is left on the wire.\<close>

theorem tcp_cmd_callback_roundtrip:
  assumes "tcp_pair w a f lf b g lg" "arrived w lf = []" "arrived w lg = []" "0 \<le> SocketFd lf"
    "cmd_ok d" "payload_wf (InPayload d)" "payload_wf (OutPayload d)" "executor te w lg r ex h"
    "cmd_ok (ex (request_of d))" "payload_wf (OutPayload (ex (request_of d)))" "\<forall>n. te_malloc te n" "\<forall>n. te_malloc env n"
    "te_exec env = [(False, \<lambda>w. bindO (recv_turn te g w) (recv_turn te f))]"
  shows "\<exists>d' w' lf'. execCmd_ofProtoTCP env a d opt w = Done (IOC_RESULT_SUCCESS, d', w') \<and>
    answered d (answer_of r ex d) (payload_bytes (OutPayload (ex (request_of d)))) d' \<and>
    CmdID (request_of d) = CmdID d \<and> payload_bytes (InPayload (request_of d)) = payload_bytes (InPayload d) \<and>
    tcp_pair w' a f lf' b g lg \<and> arrived w' lf' = [] \<and> arrived w' lg = []"
proof -
  from exec_pair [OF assms(1,4,6,7,13,12)] obtain ss where
    1: "gave (Socks (proto w)) (SocketFd lg) (request_frame d) ss"
      "tcp_pair (setSocks ss (exec_cleared f w)) a f (cleared_end lf) b g lg" and
    exec: "\<And>w3 l3 q. bindO (recv_turn te g (setSocks ss (exec_cleared f w))) (recv_turn te f) = Done w3 \<Longrightarrow>
      TcpLinks (proto w3) f = Some l3 \<Longrightarrow> CmdResponseReady l3 \<Longrightarrow> RecvError l3 = IOC_RESULT_SUCCESS \<Longrightarrow>
      OutPayload (CmdResponse l3) = q \<Longrightarrow> payload_wf q \<Longrightarrow>
      \<exists>d'. execCmd_ofProtoTCP env a d opt w = Done (IOC_RESULT_SUCCESS, d', w3) \<and> answered d (CmdResponse l3) (payload_bytes q) d'"
    by metis
  let ?w1 = "setSocks ss (exec_cleared f w)" and ?c = "answer_of r ex d"
  have heap: "LinkHeap ?w1 = LinkHeap w" by (simp add: exec_cleared_def)
  have in1: "arrived ?w1 lg = map RxByte (request_frame d) @ []" "arrived ?w1 (cleared_end lf) = []"
    using gave_inbox [OF 1(1)] assms(2,3) tcp_pairD(8) [OF assms(1)] by simp_all
  from executor_turn [OF 1(2) in1(1) assms(5,6) executor_keep [OF heap, THEN iffD2, OF assms(8)] assms(11,10)] obtain w2 where
    2: "recv_turn te g ?w1 = Done w2" "tcp_pair w2 a f (cleared_end lf) b g lg"
      "arrived w2 (cleared_end lf) = map RxByte (response_frame ?c) @ []" "arrived w2 lg = []"
    using in1(2) by auto
  have c: "cmd_ok ?c" "\<not> is_request ?c" "payload_wf (OutPayload ?c)" "OutPayload ?c = OutPayload (ex (request_of d))"
    using assms(9,10) by (simp_all add: answer_of_def executed_not_request)
  from response_turn [OF 2(2,3) c(1-3) assms(11)] obtain w3 lf' where
    3: "recv_turn te f w2 = Done w3" "tcp_pair w3 a f lf' b g lg" "arrived w3 lf' = []" "arrived w3 lg = arrived w2 lg"
      "CmdResponseReady lf'" "RecvError lf' = IOC_RESULT_SUCCESS" "Status (CmdResponse lf') = Status ?c"
      "CmdResult (CmdResponse lf') = CmdResult ?c" "payload_wf (OutPayload (CmdResponse lf'))"
      "payload_bytes (OutPayload (CmdResponse lf')) = payload_bytes (OutPayload (ex (request_of d)))" using c(4) by auto
  have "bindO (recv_turn te g ?w1) (recv_turn te f) = Done w3" using 2(1) 3(1) by simp
  from exec [OF this tcp_pairD(9) [OF 3(2)] 3(5,6) refl 3(9)] show ?thesis
    using 3 2(4) request_of_sel [OF assms(6)] by (auto simp: answered_def)
qed

text \<open>C35: A response that comes late is taken for the answer to the next command.  When a call times out and the
  executor answers only afterwards, the next call returns success with the result and the output of the first
  command, while its own request has not even been read.\<close>

theorem tcp_late_response:
  assumes "tcp_pair w a f lf b g lg" "arrived w lf = []" "arrived w lg = []" "0 \<le> SocketFd lf"
    "cmd_ok d" "payload_wf (InPayload d)" "payload_wf (InPayload e)" "payload_wf (OutPayload e)"
    "executor te w lg r ex h" "cmd_ok (ex (request_of d))" "payload_wf (OutPayload (ex (request_of d)))"
    "\<forall>n. te_malloc te n" "\<forall>n. te_malloc env' n" "te_exec env = [(True, Done)]" "0 < roundTripTimeoutMs opt (pending_cmd d)"
    "te_exec env' = [(False, recv_turn te f)]"
  shows "\<exists>w1 w2 w3 e' lf'. execCmd_ofProtoTCP env a d opt w = Done (IOC_RESULT_TIMEOUT, d\<lparr>Status := IOC_CMD_STATUS_TIMEOUT\<rparr>, w1) \<and>
    recv_turn te g w1 = Done w2 \<and> execCmd_ofProtoTCP env' a e opt' w2 = Done (IOC_RESULT_SUCCESS, e', w3) \<and>
    answered e (answer_of r ex d) (payload_bytes (OutPayload (ex (request_of d)))) e' \<and>
    tcp_pair w3 a f lf' b g lg \<and> arrived w3 lg = map RxByte (request_frame e)"
proof -
  from exec_timeout [OF assms(1,4,6,14,15)] obtain ss where
    1: "gave (Socks (proto w)) (SocketFd lg) (request_frame d) ss"
      "tcp_pair (setSocks ss (exec_cleared f w)) a f (cleared_end lf) b g lg"
      "execCmd_ofProtoTCP env a d opt w =
        Done (IOC_RESULT_TIMEOUT, d\<lparr>Status := IOC_CMD_STATUS_TIMEOUT\<rparr>, setSocks ss (exec_cleared f w))" by auto
  let ?w1 = "setSocks ss (exec_cleared f w)" and ?c = "answer_of r ex d"
  have heap: "LinkHeap ?w1 = LinkHeap w" by (simp add: exec_cleared_def)
  have in1: "arrived ?w1 lg = map RxByte (request_frame d) @ []" "arrived ?w1 (cleared_end lf) = []"
    using gave_inbox [OF 1(1)] assms(2,3) tcp_pairD(8) [OF assms(1)] by simp_all
  from executor_turn [OF 1(2) in1(1) assms(5,6) executor_keep [OF heap, THEN iffD2, OF assms(9)] assms(12,11)] obtain w2 where
    2: "recv_turn te g ?w1 = Done w2" "tcp_pair w2 a f (cleared_end lf) b g lg"
      "arrived w2 (cleared_end lf) = map RxByte (response_frame ?c)" "arrived w2 lg = []"
    using in1(2) by auto
  have "0 \<le> SocketFd (cleared_end lf)" using assms(4) by simp
  from exec_pair [OF 2(2) this assms(7,8,16,13)] obtain s2 where
    3: "gave (Socks (proto w2)) (SocketFd lg) (request_frame e) s2"
      "tcp_pair (setSocks s2 (exec_cleared f w2)) a f (cleared_end lf) b g lg" and
    exec: "\<And>w3 l3 q. recv_turn te f (setSocks s2 (exec_cleared f w2)) = Done w3 \<Longrightarrow>
      TcpLinks (proto w3) f = Some l3 \<Longrightarrow> CmdResponseReady l3 \<Longrightarrow> RecvError l3 = IOC_RESULT_SUCCESS \<Longrightarrow>
      OutPayload (CmdResponse l3) = q \<Longrightarrow> payload_wf q \<Longrightarrow>
      \<exists>d'. execCmd_ofProtoTCP env' a e opt' w2 = Done (IOC_RESULT_SUCCESS, d', w3) \<and> answered e (CmdResponse l3) (payload_bytes q) d'"
    by (auto simp del: fun_upd_apply)
  let ?w3 = "setSocks s2 (exec_cleared f w2)"
  have in3: "arrived ?w3 (cleared_end lf) = map RxByte (response_frame ?c) @ []" "arrived ?w3 lg = map RxByte (request_frame e)"
    using gave_inbox [OF 3(1)] 2(3,4) tcp_pairD(8) [OF assms(1)] by simp_all
  have c: "cmd_ok ?c" "\<not> is_request ?c" "payload_wf (OutPayload ?c)" "OutPayload ?c = OutPayload (ex (request_of d))"
    using assms(10,11) by (simp_all add: answer_of_def executed_not_request)
  from response_turn [OF 3(2) in3(1) c(1-3) assms(12)] obtain w4 lf' where
    4: "recv_turn te f ?w3 = Done w4" "tcp_pair w4 a f lf' b g lg" "arrived w4 lf' = []" "arrived w4 lg = map RxByte (request_frame e)"
      "CmdResponseReady lf'" "RecvError lf' = IOC_RESULT_SUCCESS" "Status (CmdResponse lf') = Status ?c"
      "CmdResult (CmdResponse lf') = CmdResult ?c" "payload_wf (OutPayload (CmdResponse lf'))"
      "payload_bytes (OutPayload (CmdResponse lf')) = payload_bytes (OutPayload (ex (request_of d)))" using c(4) in3(2) by auto
  from exec [OF 4(1) tcp_pairD(9) [OF 4(2)] 4(5,6) refl 4(9)] obtain e' where
    "execCmd_ofProtoTCP env' a e opt' w2 = Done (IOC_RESULT_SUCCESS, e', w4)"
    "answered e ?c (payload_bytes (OutPayload (ex (request_of d)))) e'" using 4(7,8,10) by (auto simp: answered_def)
  then show ?thesis using 1(3) 2(1) 4(2,4) by blast
qed

section \<open>Witnesses\<close>

text \<open>An executor that answers with its input, and a command with three bytes of input.\<close>

definition executing :: "TcpLinkObject_T \<Rightarrow> TcpLinkObject_T" where
  "executing l = l\<lparr>tCmdUsageArgs := (Some 7, 9)\<rparr>"

definition echo :: "IOC_CmdDesc_T \<Rightarrow> IOC_CmdDesc_T" where
  "echo c = the (snd (IOC_CmdDesc_setOutPayload True (Some c) (IOC_CmdDesc_getInData (Some c)) (IOC_CmdDesc_getInDataLen (Some c))))"

definition echo_cmd :: "ULONG \<Rightarrow> IOC_CmdDesc_T" where
  "echo_cmd i = zero_cmd\<lparr>CmdID := i, InPayload := zero_payload\<lparr>cEmdDataSize := 3, cEmdData := [1, 2, 3] @ replicate 61 0\<rparr>\<rparr>"

lemma echo_cmd_ok: "cmd_ok (echo_cmd i)" "payload_wf (InPayload (echo_cmd i))" "payload_wf (OutPayload (echo_cmd i))"
  by (simp_all add: echo_cmd_def zero_cmd_def zero_payload_def cmd_ok_def payload_wf_def msg_ok_def zero_msg_def long_ok_def)

lemma echo_ok: "cmd_ok (echo (request_of (echo_cmd i)))" "payload_wf (OutPayload (echo (request_of (echo_cmd i))))"
  "payload_bytes (OutPayload (echo (request_of (echo_cmd i)))) = [1, 2, 3]"
proof -
  have "InPayload (request_of (echo_cmd i)) = InPayload (echo_cmd i)" "OutPayload (request_of (echo_cmd i)) = zero_payload"
    "CmdMsgDesc (request_of (echo_cmd i)) = zero_msg" "pExecContext (request_of (echo_cmd i)) = None"
    by (simp_all add: request_of_def seen_cmd_def far_cmd_def near_payload_def far_payload_def echo_cmd_def zero_cmd_def zero_payload_def)
  then show "cmd_ok (echo (request_of (echo_cmd i)))" "payload_wf (OutPayload (echo (request_of (echo_cmd i))))"
    "payload_bytes (OutPayload (echo (request_of (echo_cmd i)))) = [1, 2, 3]"
    by (simp_all add: echo_def IOC_CmdDesc_setOutPayload_def IOC_CmdDesc_getInData_def IOC_CmdDesc_getInDataLen_def setPayload_def
        payload_data_def payload_len_def payload_bytes_def payload_wf_def cmd_ok_def echo_cmd_def zero_cmd_def zero_payload_def
        blit_def msg_ok_def zero_msg_def long_ok_def Let_def)
qed

lemma echo_executor:
  "executor sample_tcp_env (pair_world executing) (executing (example_end 4 1)) (\<lambda>_. IOC_RESULT_SUCCESS) echo (\<lambda>c. note_call 7 9 (CmdID c) [])"
  by (simp add: executor_def quiet_def note_call_def sample_tcp_env_def echo_def executing_def example_end_def fresh_tcp_link_def
      pair_world_def)

lemma executing_pair:
  "tcp_pair (pair_world executing) 0 0 (example_end 3 0) 1 1 (executing (example_end 4 1))"
  "arrived (pair_world executing) (example_end 3 0) = []" "arrived (pair_world executing) (executing (example_end 4 1)) = []"
  using pair_world_pair [of executing] by (simp_all add: executing_def example_end_def)

theorem tcp_cmd_callback_roundtrip_witness:
  "\<exists>d' w'. execCmd_ofProtoTCP (sample_tcp_env\<lparr>te_exec := [(False, \<lambda>w. bindO (recv_turn sample_tcp_env 1 w) (recv_turn sample_tcp_env 0))]\<rparr>)
      0 (echo_cmd 5) None (pair_world executing) = Done (IOC_RESULT_SUCCESS, d', w') \<and>
    Status d' = IOC_CMD_STATUS_SUCCESS \<and> payload_bytes (OutPayload d') = [1, 2, 3]"
proof -
  let ?env = "sample_tcp_env\<lparr>te_exec := [(False, \<lambda>w. bindO (recv_turn sample_tcp_env 1 w) (recv_turn sample_tcp_env 0))]\<rparr>"
  have m: "0 \<le> SocketFd (example_end 3 0)" "\<forall>n. te_malloc sample_tcp_env n" "\<forall>n. te_malloc ?env n"
    by (simp_all add: example_end_def sample_tcp_env_def)
  from tcp_cmd_callback_roundtrip [where opt = None and d = "echo_cmd 5", OF executing_pair m(1) echo_cmd_ok echo_executor echo_ok(1,2) m(2,3)]
  show ?thesis by (auto simp: answered_def answer_of_def executed_cmd_def echo_ok(3))
qed

theorem tcp_late_response_witness:
  "\<exists>w1 w2 w3 e'. execCmd_ofProtoTCP (sample_tcp_env\<lparr>te_exec := [(True, Done)]\<rparr>) 0 (echo_cmd 5) None (pair_world executing) =
      Done (IOC_RESULT_TIMEOUT, (echo_cmd 5)\<lparr>Status := IOC_CMD_STATUS_TIMEOUT\<rparr>, w1) \<and>
    recv_turn sample_tcp_env 1 w1 = Done w2 \<and>
    execCmd_ofProtoTCP (sample_tcp_env\<lparr>te_exec := [(False, recv_turn sample_tcp_env 0)]\<rparr>) 0 (echo_cmd 6) None w2 =
      Done (IOC_RESULT_SUCCESS, e', w3) \<and> payload_bytes (OutPayload e') = [1, 2, 3]"
proof -
  let ?env = "sample_tcp_env\<lparr>te_exec := [(True, Done)]\<rparr>" and ?env' = "sample_tcp_env\<lparr>te_exec := [(False, recv_turn sample_tcp_env 0)]\<rparr>"
  have m: "0 \<le> SocketFd (example_end 3 0)" "\<forall>n. te_malloc sample_tcp_env n" "\<forall>n. te_malloc ?env' n"
    "te_exec ?env = [(True, Done)]" "0 < roundTripTimeoutMs None (pending_cmd (echo_cmd 5))"
    by (simp_all add: example_end_def sample_tcp_env_def roundTripTimeoutMs_def echo_cmd_def zero_cmd_def)
  from tcp_late_response [where opt = None and opt' = None and d = "echo_cmd 5" and e = "echo_cmd 6", OF executing_pair m(1) echo_cmd_ok(1,2) echo_cmd_ok(2,3) echo_executor echo_ok(1,2) m(2-5)]
  show ?thesis by (auto simp: answered_def echo_ok(3))
qed

end
