(* ===== verification/TcpNegotiate.thy ===== *)
theory TcpNegotiate
  imports TcpCommand FifoHandshake
begin

text \<open>
  Connecting and accepting over TCP: the two ends of the usage negotiation composed, and what becomes of
  the link objects when it fails.
\<close>

section \<open>The client's half\<close>

text \<open>Memory, sockets and threads are available and the connection does not fail by itself.\<close>

definition env_works :: "'x tcp_env \<Rightarrow> bool" where
  "env_works env \<longleftrightarrow> te_mem env \<and> (\<exists>blk. te_poll env = Some blk) \<and> te_socket env \<and> te_rcvtimeo env \<and> te_sndtimeo env \<and>
     te_connect env = None \<and> te_select env \<and> te_accept env = None \<and> te_thread env \<and>
     tx_ok (ns_tx (te_net env)) \<and> tx_ok (ns_peer_tx (te_net env))"

lemma env_worksD:
  assumes "env_works env"
  shows "te_mem env" "te_socket env" "te_rcvtimeo env" "te_sndtimeo env" "te_connect env = None" "te_select env"
    "te_accept env = None" "te_thread env" "tx_ok (ns_tx (te_net env))" "tx_ok (ns_peer_tx (te_net env))"
  using assms by (simp_all add: env_works_def)

lemma new_link_works:
  assumes "env_works env"
  obtains pb where "new_tcp_link env owner = Inr (fresh_tcp_link owner pb)"
proof -
  obtain blk where "te_poll env = Some blk" "te_mem env" using assms by (auto simp: env_works_def)
  then show ?thesis using that by (simp add: new_tcp_link_def tcp_initPollingBuffer_def)
qed

lemma map_of_key_update:
  "map_of (map (\<lambda>(k, l). (k, if k = a then g l else l)) xs) b = (if b = a then map_option g (map_of xs a) else map_of xs b)"
  by (induction xs) auto

lemma setLink_tcp_sel [simp]:
  "proto (setLink a h w) = proto w" "LinkHeap (setLink a h w) = (LinkHeap w)(a := map_option h (LinkHeap w a))"
  "SrvTbl (setLink a h w) = SrvTbl w"
  by (simp_all add: setLink_def)

text \<open>Steps that change the protocol's state, and of the library's own tables at most the link \<open>a\<close>.\<close>

definition link_step :: "nat \<Rightarrow> (LinkObject_T \<Rightarrow> LinkObject_T) \<Rightarrow> 'p ioc_world \<Rightarrow> 'p ioc_world \<Rightarrow> bool" where
  "link_step a h w w' \<longleftrightarrow> w'\<lparr>proto := proto w\<rparr> = setLink a h w"

definition proto_step :: "'p ioc_world \<Rightarrow> 'p ioc_world \<Rightarrow> bool" where
  "proto_step w w' \<longleftrightarrow> w'\<lparr>proto := proto w\<rparr> = w"

abbreviation attached :: "nat \<Rightarrow> LinkObject_T \<Rightarrow> LinkObject_T" where
  "attached f l \<equiv> l\<lparr>pProtoPriv := Some f\<rparr>"

lemma setLink_proto_swap: "(setLink a h x)\<lparr>proto := p\<rparr> = setLink a h (x\<lparr>proto := p\<rparr>)"
  by (simp add: setLink_def)

lemma steps_proto [simp]:
  "link_step a h w (setSocks ss x) \<longleftrightarrow> link_step a h w x" "link_step a h w (setTcp f g x) \<longleftrightarrow> link_step a h w x"
  "link_step a h w (x\<lparr>proto := p\<rparr>) \<longleftrightarrow> link_step a h w x" "proto_step w (x\<lparr>proto := p\<rparr>) \<longleftrightarrow> proto_step w x"
  "proto_step w (setSocks ss x) \<longleftrightarrow> proto_step w x" "proto_step w (setListeners ls x) \<longleftrightarrow> proto_step w x"
  "proto_step w (setTcp f g x) \<longleftrightarrow> proto_step w x" "proto_step w w"
  by (simp_all add: link_step_def proto_step_def setSocks_def setTcp_def setListeners_def)

lemma link_step_setLink: "proto_step w x \<Longrightarrow> link_step a h w (setLink a h x)"
  by (simp add: link_step_def proto_step_def setLink_proto_swap)

lemma attach_step:
  assumes "attach_tcp_link l fd a x = (f, w')" "proto_step w x"
  shows "link_step a (attached f) w w'"
  using assms by (auto simp: attach_tcp_link_def Let_def intro!: link_step_setLink)

lemma link_step_trans: "link_step a g w x \<Longrightarrow> link_step a h x y \<Longrightarrow> link_step a (\<lambda>l. h (g l)) w y"
proof -
  assume "link_step a g w x" "link_step a h x y"
  then have "(y\<lparr>proto := proto x\<rparr>)\<lparr>proto := proto w\<rparr> = setLink a h (setLink a g w)"
    unfolding link_step_def by (simp add: setLink_proto_swap)
  then show ?thesis by (simp add: link_step_def setLink_def option.map_comp comp_def)
qed

lemma link_stepD:
  assumes "link_step a h w w'"
  shows "LinkTbl w' = LinkTbl w" "LinkHeap w' = (LinkHeap w)(a := map_option h (LinkHeap w a))" "SrvTbl w' = SrvTbl w"
    "next_addr w' = next_addr w" "FailNextAllocCount w' = FailNextAllocCount w" "w' = (setLink a h w)\<lparr>proto := proto w'\<rparr>"
proof -
  have e: "w'\<lparr>proto := proto w\<rparr> = setLink a h w" using assms by (simp add: link_step_def)
  from arg_cong [OF e, of LinkTbl] arg_cong [OF e, of LinkHeap] arg_cong [OF e, of SrvTbl] arg_cong [OF e, of next_addr]
    arg_cong [OF e, of FailNextAllocCount] arg_cong [OF e, of "\<lambda>x. x\<lparr>proto := proto w'\<rparr>"]
  show "LinkTbl w' = LinkTbl w" "LinkHeap w' = (LinkHeap w)(a := map_option h (LinkHeap w a))" "SrvTbl w' = SrvTbl w"
    "next_addr w' = next_addr w" "FailNextAllocCount w' = FailNextAllocCount w" "w' = (setLink a h w)\<lparr>proto := proto w'\<rparr>"
    by (simp_all add: setLink_def)
qed

lemma proto_stepD:
  assumes "proto_step w w'"
  shows "LinkTbl w' = LinkTbl w" "LinkHeap w' = LinkHeap w" "SrvTbl w' = SrvTbl w"
proof -
  have e: "w'\<lparr>proto := proto w\<rparr> = w" using assms by (simp add: proto_step_def)
  from arg_cong [OF e, of LinkTbl] arg_cong [OF e, of LinkHeap] arg_cong [OF e, of SrvTbl]
  show "LinkTbl w' = LinkTbl w" "LinkHeap w' = LinkHeap w" "SrvTbl w' = SrvTbl w" by simp_all
qed

abbreviation usage_frame :: "usage \<Rightarrow> byte list" where
  "usage_frame u \<equiv> tcp_header TCP_MSG_USAGE_NEGOTIATION 4 @ put_usage u"

lemma connect_begin_works:
  assumes "env_works env" "LinkHeap w c = Some lk" "listening (Port (ConnSrvURI args)) w = Some lfd"
    "map_of (Listeners (proto w)) lfd = Some L"
  obtains f fd p pb w1 where "tcp_connect_begin env c args opt w = Done (Inr (f, fd, w1))" "f = next_tcp (proto w)"
    "fd \<noteq> p" "TcpLinks (proto w1) = (TcpLinks (proto w))(f := Some ((fresh_tcp_link c pb)\<lparr>SocketFd := fd\<rparr>))"
    "next_tcp (proto w1) = f + 1" "LinkHeap w1 = (LinkHeap w)(c := Some (lk\<lparr>pProtoPriv := Some f\<rparr>))" "SrvTbl w1 = SrvTbl w"
    "TcpSrvs (proto w1) = TcpSrvs (proto w)" "map_of (Listeners (proto w1)) lfd = Some (L\<lparr>li_pending := li_pending L @ [p]\<rparr>)"
    "recv_threads (proto w1) = recv_threads (proto w)"
    "conn (Socks (proto w1)) fd p" "conn (Socks (proto w1)) p fd" "inbox (Socks (proto w1)) fd = []"
    "inbox (Socks (proto w1)) p = map RxByte (usage_frame (Usage lk))"
    "link_step c (attached f) w w1"
proof -
  note e = env_worksD [OF assms(1)]
  obtain pb where pb: "new_tcp_link env c = Inr (fresh_tcp_link c pb)" using new_link_works [OF assms(1)] .
  let ?fd = "next_fd (proto w)" and ?f = "next_tcp (proto w)" and ?p = "next_fd (proto w) + 1"
  let ?rcv = "only_timeout opt \<and> TimeoutUS (the opt) \<noteq> 0"
  obtain w2 where w2: "attach_tcp_link (fresh_tcp_link c pb) ?fd c
      (connect_fd (te_net env) ?rcv ?fd lfd (w\<lparr>proto := (proto w)\<lparr>next_fd := ?fd + 1\<rparr>\<rparr>)) = (?f, w2)"
    by (simp add: attach_tcp_link_def connect_fd_def setListeners_def Let_def)
  have s: "TcpLinks (proto w2) = (TcpLinks (proto w))(?f := Some ((fresh_tcp_link c pb)\<lparr>SocketFd := ?fd\<rparr>))"
    "next_tcp (proto w2) = ?f + 1" "LinkHeap w2 = (LinkHeap w)(c := Some (lk\<lparr>pProtoPriv := Some ?f\<rparr>))" "SrvTbl w2 = SrvTbl w"
    "TcpSrvs (proto w2) = TcpSrvs (proto w)" "map_of (Listeners (proto w2)) lfd = Some (L\<lparr>li_pending := li_pending L @ [?p]\<rparr>)"
    "recv_threads (proto w2) = recv_threads (proto w)" "conn (Socks (proto w2)) ?fd ?p" "conn (Socks (proto w2)) ?p ?fd"
    "inbox (Socks (proto w2)) ?fd = []" "inbox (Socks (proto w2)) ?p = []"
    using w2 assms(2,4) e(9,10)
    by (auto simp: attach_tcp_link_def connect_fd_def setListeners_def Let_def map_of_key_update conn_def inbox_def setSocks_def)
  have step: "link_step c (attached ?f) w w2"
    by (rule attach_step [OF w2]) (simp add: connect_fd_def Let_def)
  from sendW_conn [OF s(8), of "tcp_header TCP_MSG_USAGE_NEGOTIATION 4"] obtain s3 where
    3: "sendW ?fd (tcp_header TCP_MSG_USAGE_NEGOTIATION 4) w2 = Done (IOC_RESULT_SUCCESS, setSocks s3 w2)"
      "gave (Socks (proto w2)) ?p (tcp_header TCP_MSG_USAGE_NEGOTIATION 4) s3" by blast
  have "conn (Socks (proto (setSocks s3 w2))) ?fd ?p" using gave_conn [OF 3(2) s(8)] by simp
  from sendW_conn [OF this, of "put_usage (Usage lk)"] obtain s4 where
    4: "sendW ?fd (put_usage (Usage lk)) (setSocks s3 w2) = Done (IOC_RESULT_SUCCESS, setSocks s4 w2)" "gave s3 ?p (put_usage (Usage lk)) s4"
    by auto
  note g = gave_trans [OF 3(2) 4(2)]
  have "listening (Port (ConnSrvURI args)) (w\<lparr>proto := (proto w)\<lparr>next_fd := ?fd + 1\<rparr>\<rparr>) = listening (Port (ConnSrvURI args)) w"
    by (simp add: listening_def)
  then have "tcp_connect_begin env c args opt w = Done (Inr (?f, ?fd, setSocks s4 w2))"
    using pb e(2-5) assms(2,3) w2 3(1) 4(1) by (simp add: tcp_connect_begin_def deref_def Let_def)
  from that [OF this, of ?p pb] show ?thesis using s step gave_conn [OF g] gave_inbox [OF g] by simp
qed

section \<open>The server's half\<close>

lemma usage_put: "get_usage (put_usage u) = u"
  by (simp add: get_usage_def put_usage_def)

lemma accept_fd_works:
  assumes "env_works env" "map_of (Listeners (proto w)) lfd = Some L" "li_pending L = p # ps"
  obtains w1 where "accept_fd env opt lfd w = Done (Inr (p, w1))" "TcpLinks (proto w1) = TcpLinks (proto w)" "Socks (proto w1) = Socks (proto w)"
    "LinkHeap w1 = LinkHeap w" "SrvTbl w1 = SrvTbl w" "next_tcp (proto w1) = next_tcp (proto w)" "recv_threads (proto w1) = recv_threads (proto w)"
    "proto_step w w1"
  using env_worksD(6,7) [OF assms(1)] assms(2,3) that by (simp add: accept_fd_def Let_def setListeners_def)

lemma recv_usage:
  assumes "Socks (proto w) p \<noteq> None" "inbox (Socks (proto w)) p = map RxByte (usage_frame u)"
  obtains s1 s2 where "recvW p 8 w = Done (RecvOk (tcp_header TCP_MSG_USAGE_NEGOTIATION 4), setSocks s1 w)"
    "recvW p 4 (setSocks s1 w) = Done (RecvOk (put_usage u), setSocks s2 w)" "took (Socks (proto w)) p [] s2"
proof -
  have "inbox (Socks (proto w)) p = map RxByte (usage_frame u) @ []" using assms(2) by simp
  from recvW_header [OF assms(1) this] obtain s1 where
    1: "recvW p 8 w = Done (RecvOk (tcp_header TCP_MSG_USAGE_NEGOTIATION 4), setSocks s1 w)"
      "took (Socks (proto w)) p (map RxByte (put_usage u)) s1" by auto
  have "Socks (proto (setSocks s1 w)) p \<noteq> None" using took_open [OF 1(2) assms(1)] by simp
  from recvW_ok [OF this, of "put_usage u" "[]" 4] took_inbox(1) [OF 1(2)] obtain s2 where
    2: "recvW p 4 (setSocks s1 w) = Done (RecvOk (put_usage u), setSocks s2 w)" "took s1 p [] s2"
    by (auto simp: put_usage_def)
  from that [OF 1(1) 2(1) took_trans [OF 1(2) 2(2)]] show ?thesis .
qed

text \<open>What the server stores in the link object of an accepted client.\<close>

definition accepted_end :: "ServiceObject_T \<Rightarrow> TcpLinkObject_T \<Rightarrow> TcpLinkObject_T" where
  "accepted_end s l = (let l1 = (case SrvCmd s of None \<Rightarrow> l | Some c \<Rightarrow> l\<lparr>tCmdUsageArgs := (cuCbExecCmd_F c, cuCbPrivData c)\<rparr>)
     in if has_usage (UsageCapabilites s) IOC_LinkUsageDatReceiver then set_dat_usage (SrvDat s) l1 else l1)"

lemma set_dat_usage_sel [simp]:
  "SocketFd (set_dat_usage d l) = SocketFd l" "RecvThreadRunning (set_dat_usage d l) = RecvThreadRunning l"
  "tCmdUsageArgs (set_dat_usage d l) = tCmdUsageArgs l" "RecvError (set_dat_usage d l) = RecvError l"
  by (simp_all add: set_dat_usage_def Let_def)

lemma accepted_end_sel [simp]: "SocketFd (accepted_end s l) = SocketFd l" "RecvThreadRunning (accepted_end s l) = RecvThreadRunning l"
  by (simp_all add: accepted_end_def Let_def split: option.split)

lemma accept_negotiates:
  assumes "env_works env" "TcpLinks (proto w) g = Some l" "LinkHeap w s = Some lk" "conn (Socks (proto w)) p fd"
    "Socks (proto w) p \<noteq> None" "inbox (Socks (proto w)) p = map RxByte (usage_frame u)"
    "negotiateLinkRole (UsageCapabilites sv) u \<noteq> IOC_LinkUsageUndefined"
  obtains w3 where "tcp_accept_negotiate env sv g p s w = Done (IOC_RESULT_SUCCESS, w3)"
    "same_socks (Socks (proto w)) (Socks (proto w3))" "inbox (Socks (proto w3)) p = []"
    "inbox (Socks (proto w3)) fd = inbox (Socks (proto w)) fd @ map RxByte (put_usage (negotiateLinkRole (UsageCapabilites sv) u))"
    "TcpLinks (proto w3) = (TcpLinks (proto w))(g := Some ((accepted_end sv l)\<lparr>RecvThreadRunning := True\<rparr>))"
    "LinkHeap w3 = (LinkHeap w)(s := Some (lk\<lparr>Usage := negotiateLinkRole (UsageCapabilites sv) u\<rparr>))"
    "recv_threads (proto w3) = recv_threads (proto w) @ [g]" "link_step s (\<lambda>k. k\<lparr>Usage := negotiateLinkRole (UsageCapabilites sv) u\<rparr>) w w3"
proof -
  let ?u = "negotiateLinkRole (UsageCapabilites sv) u"
  from recv_usage [OF assms(5,6)] obtain s1 s2 where
    1: "recvW p 8 w = Done (RecvOk (tcp_header TCP_MSG_USAGE_NEGOTIATION 4), setSocks s1 w)"
      "recvW p 4 (setSocks s1 w) = Done (RecvOk (put_usage u), setSocks s2 w)" "took (Socks (proto w)) p [] s2" .
  have "conn (Socks (proto (setSocks s2 w))) p fd" using took_conn [OF 1(3) assms(4)] by simp
  from sendW_conn [OF this, of "put_usage ?u"] obtain s3 where
    2: "sendW p (put_usage ?u) (setSocks s2 w) = Done (IOC_RESULT_SUCCESS, setSocks s3 w)" "gave s2 fd (put_usage ?u) s3" by auto
  have ne: "fd \<noteq> p" using assms(4) by (simp add: conn_def)
  have socks: "same_socks (Socks (proto w)) s3" "inbox s3 p = []"
      "inbox s3 fd = inbox (Socks (proto w)) fd @ map RxByte (put_usage ?u)"
    using 1(3) 2(2) ne took_inbox [OF 1(3)] gave_inbox [OF 2(2)] by (auto simp: took_def gave_def intro: same_socks_trans)
  have "tcp_accept_negotiate env sv g p s w = start_recv_thread env g p
      (setTcp g (accepted_end sv) (setLink s (\<lambda>k. k\<lparr>Usage := ?u\<rparr>) (setSocks s3 w)))"
    using 1(1,2) 2(1) assms(7) unfolding accepted_end_def [abs_def]
    by (simp add: tcp_accept_negotiate_def usage_put del: msg_type.simps)
  moreover have "link_step s h w (setLink s h (setSocks s3 w))" for h by (rule link_step_setLink) simp
  ultimately show ?thesis using that socks assms(2,3) env_worksD(8) [OF assms(1)] by (simp add: start_recv_thread_def Let_def)
qed

lemma accept_refuses:
  assumes "conn (Socks (proto w)) p fd" "Socks (proto w) p \<noteq> None" "inbox (Socks (proto w)) p = map RxByte (usage_frame u)"
    "negotiateLinkRole (UsageCapabilites sv) u = IOC_LinkUsageUndefined"
  obtains ss where "tcp_accept_negotiate env sv g p s w = Done (IOC_RESULT_INVALID_PARAM, free_tcp_link g (setSocks ss w))"
    "ss fd \<noteq> None" "inbox ss fd = inbox (Socks (proto w)) fd @ map RxByte (put_usage IOC_LinkUsageUndefined) @ [RxEof]"
proof -
  from recv_usage [OF assms(2,3)] obtain s1 s2 where
    1: "recvW p 8 w = Done (RecvOk (tcp_header TCP_MSG_USAGE_NEGOTIATION 4), setSocks s1 w)"
      "recvW p 4 (setSocks s1 w) = Done (RecvOk (put_usage u), setSocks s2 w)" "took (Socks (proto w)) p [] s2" .
  have c2: "conn (Socks (proto (setSocks s2 w))) p fd" using took_conn [OF 1(3) assms(1)] by simp
  from sendW_conn [OF this, of "put_usage IOC_LinkUsageUndefined"] obtain s3 where
    2: "sendW p (put_usage IOC_LinkUsageUndefined) (setSocks s2 w) = Done (IOC_RESULT_SUCCESS, setSocks s3 w)"
      "gave s2 fd (put_usage IOC_LinkUsageUndefined) s3" by auto
  have c3: "conn s3 p fd" using gave_conn [OF 2(2)] c2 by simp
  have i: "inbox s3 fd = inbox (Socks (proto w)) fd @ map RxByte (put_usage IOC_LinkUsageUndefined)"
    using gave_inbox(1) [OF 2(2)] took_inbox(2) [OF 1(3)] assms(1) by (simp add: conn_def)
  have "close_fd p s3 fd \<noteq> None" "inbox (close_fd p s3) fd = inbox s3 fd @ [RxEof]"
    using c3 by (auto simp: close_fd_def conn_def inbox_def Let_def split: option.splits)
  moreover have "tcp_accept_negotiate env sv g p s w = Done (IOC_RESULT_INVALID_PARAM, free_tcp_link g (setSocks (close_fd p s3) w))"
    using 1(1,2) 2(1) assms(4)
    by (simp add: tcp_accept_negotiate_def usage_put drop_tcp_link_def closeW_def del: msg_type.simps)
  ultimately show ?thesis using that i by simp
qed

section \<open>The client's second half\<close>

text \<open>The arguments fit: an executor's are those of an executor.\<close>

definition args_fit :: "IOC_ConnArgs_T \<Rightarrow> usage \<Rightarrow> bool" where
  "args_fit args u \<longleftrightarrow> (has_usage u IOC_LinkUsageCmdExecutor \<longrightarrow>
     (case ConnUsageArgs args of None \<Rightarrow> True | Some ua \<Rightarrow> as_cmd_ids ua \<noteq> None))"

lemma connect_usage_fits:
  assumes "args_fit args (Usage lk)"
  obtains l1 where "connect_usage args lk l = Done l1" "SocketFd l1 = SocketFd l"
proof -
  have "\<exists>l1. connect_usage args lk l = Done l1 \<and> SocketFd l1 = SocketFd l" using assms
    by (auto simp: connect_usage_def args_fit_def split: option.splits)
  then show ?thesis using that by blast
qed

lemma connect_end_works:
  assumes "env_works env" "TcpLinks (proto w) f = Some l" "LinkHeap w c = Some lk" "Socks (proto w) fd \<noteq> None"
    "inbox (Socks (proto w)) fd = map RxByte (put_usage u)" "u \<noteq> IOC_LinkUsageUndefined" "args_fit args (Usage lk)"
  obtains l1 w3 where "tcp_connect_end env f fd c args w = Done (IOC_RESULT_SUCCESS, w3)" "SocketFd l1 = SocketFd l"
    "took (Socks (proto w)) fd [] (Socks (proto w3))"
    "TcpLinks (proto w3) = (TcpLinks (proto w))(f := Some (l1\<lparr>RecvThreadRunning := True\<rparr>))" "LinkHeap w3 = LinkHeap w"
    "recv_threads (proto w3) = recv_threads (proto w) @ [f]" "proto_step w w3"
proof -
  from recvW_ok [OF assms(4), of "put_usage u" "[]" 4] assms(5) obtain ss where
    1: "recvW fd 4 w = Done (RecvOk (put_usage u), setSocks ss w)" "took (Socks (proto w)) fd [] ss" by (auto simp: put_usage_def)
  obtain l1 where 2: "connect_usage args lk l = Done l1" "SocketFd l1 = SocketFd l" using connect_usage_fits [OF assms(7)] .
  from that [OF _ 2(2)] show ?thesis using 1 2(1) assms(2,3,6) env_worksD(8) [OF assms(1)]
    by (simp add: tcp_connect_end_def usage_put deref_def start_recv_thread_def Let_def)
qed

lemma connect_end_refused:
  assumes "Socks (proto w) fd \<noteq> None" "inbox (Socks (proto w)) fd = map RxByte (put_usage IOC_LinkUsageUndefined) @ r"
  obtains ss where "tcp_connect_end env f fd c args w = Done (IOC_RESULT_INCOMPATIBLE_USAGE, free_tcp_link f (setSocks ss w))"
proof -
  from recvW_ok [OF assms(1,2), of 4] obtain ss where
    "recvW fd 4 w = Done (RecvOk (put_usage IOC_LinkUsageUndefined), setSocks ss w)" by (auto simp: put_usage_def)
  then show ?thesis using that [of "close_fd fd ss"]
    by (simp add: tcp_connect_end_def usage_put drop_tcp_link_def closeW_def Let_def)
qed

section \<open>The two halves together\<close>

text \<open>What the client does before and after its wait does not depend on what the others do while it waits.\<close>

lemma tcp_connect_others [simp]:
  "tcp_connect_begin (env\<lparr>te_others := turn\<rparr>) = tcp_connect_begin env"
  "tcp_connect_end (env\<lparr>te_others := turn\<rparr>) = tcp_connect_end env"
proof -
  have e: "te_mem (env\<lparr>te_others := turn\<rparr>) = te_mem env" "te_poll (env\<lparr>te_others := turn\<rparr>) = te_poll env"
    "te_socket (env\<lparr>te_others := turn\<rparr>) = te_socket env" "te_rcvtimeo (env\<lparr>te_others := turn\<rparr>) = te_rcvtimeo env"
    "te_sndtimeo (env\<lparr>te_others := turn\<rparr>) = te_sndtimeo env" "te_connect (env\<lparr>te_others := turn\<rparr>) = te_connect env"
    "te_net (env\<lparr>te_others := turn\<rparr>) = te_net env" "te_errno (env\<lparr>te_others := turn\<rparr>) = te_errno env"
    "te_thread (env\<lparr>te_others := turn\<rparr>) = te_thread env" by simp_all
  show "tcp_connect_begin (env\<lparr>te_others := turn\<rparr>) = tcp_connect_begin env"
    unfolding fun_eq_iff tcp_connect_begin_def new_tcp_link_def e by (rule allI refl)+
  show "tcp_connect_end (env\<lparr>te_others := turn\<rparr>) = tcp_connect_end env"
    unfolding fun_eq_iff tcp_connect_end_def start_recv_thread_def e by (rule allI refl)+
qed

lemma accept_begins:
  assumes "env_works env" "te_others env = Done" "SrvTbl w ! i = Some sv" "SrvProtoPriv sv = Some t"
    "TcpSrvs (proto w) t = Some ts" "LinkHeap w s = Some lk" "map_of (Listeners (proto w)) (ListenSocketFd ts) = Some L"
    "li_pending L = p # ps"
  obtains g pb w1 where "acceptClient_ofProtoTCP env i s opt w = tcp_accept_negotiate env sv g p s w1"
    "g = next_tcp (proto w)" "TcpLinks (proto w1) = (TcpLinks (proto w))(g := Some ((fresh_tcp_link s pb)\<lparr>SocketFd := p\<rparr>))"
    "LinkHeap w1 = (LinkHeap w)(s := Some (lk\<lparr>pProtoPriv := Some g\<rparr>))" "Socks (proto w1) = Socks (proto w)"
    "recv_threads (proto w1) = recv_threads (proto w)" "link_step s (attached g) w w1"
proof -
  obtain pb where pb: "new_tcp_link env s = Inr (fresh_tcp_link s pb)" using new_link_works [OF assms(1)] .
  from accept_fd_works [OF assms(1,7,8), of opt] obtain w1 where
    1: "accept_fd env opt (ListenSocketFd ts) w = Done (Inr (p, w1))" "TcpLinks (proto w1) = TcpLinks (proto w)" "Socks (proto w1) = Socks (proto w)"
      "LinkHeap w1 = LinkHeap w" "SrvTbl w1 = SrvTbl w" "next_tcp (proto w1) = next_tcp (proto w)" "recv_threads (proto w1) = recv_threads (proto w)"
      "proto_step w w1" .
  let ?g = "next_tcp (proto w)"
  obtain w2 where w2: "attach_tcp_link (fresh_tcp_link s pb) p s w1 = (?g, w2)" using 1(6) by (simp add: attach_tcp_link_def Let_def)
  have s: "TcpLinks (proto w2) = (TcpLinks (proto w))(?g := Some ((fresh_tcp_link s pb)\<lparr>SocketFd := p\<rparr>))"
    "LinkHeap w2 = (LinkHeap w)(s := Some (lk\<lparr>pProtoPriv := Some ?g\<rparr>))" "Socks (proto w2) = Socks (proto w)"
    "recv_threads (proto w2) = recv_threads (proto w)" "SrvTbl w2 = SrvTbl w"
    using w2 1 assms(6) by (auto simp: attach_tcp_link_def Let_def)
  have "acceptClient_ofProtoTCP env i s opt w = tcp_accept_negotiate env sv ?g p s w2"
    using assms(2-6) pb 1(1) w2 s(5) by (simp add: acceptClient_ofProtoTCP_def derefSrv_def deref_def)
  from that [OF this refl s(1-4) attach_step [OF w2 1(8)]] show ?thesis .
qed

text \<open>Both links have their objects and sockets, and the client's usage has been sent.\<close>

definition half_open ::
  "'x tcp_world \<Rightarrow> nat \<Rightarrow> nat \<Rightarrow> TcpLinkObject_T \<Rightarrow> LinkObject_T \<Rightarrow> nat \<Rightarrow> nat \<Rightarrow> TcpLinkObject_T \<Rightarrow> LinkObject_T \<Rightarrow> bool" where
  "half_open w c f lf kc s g lg ks \<longleftrightarrow> f \<noteq> g \<and> c \<noteq> s \<and> TcpLinks (proto w) f = Some lf \<and> TcpLinks (proto w) g = Some lg \<and>
     LinkHeap w c = Some kc \<and> pProtoPriv kc = Some f \<and> LinkHeap w s = Some ks \<and> pProtoPriv ks = Some g \<and>
     conn (Socks (proto w)) (SocketFd lf) (SocketFd lg) \<and> conn (Socks (proto w)) (SocketFd lg) (SocketFd lf) \<and>
     arrived w lf = [] \<and> arrived w lg = map RxByte (usage_frame (Usage kc))"

lemma half_openD:
  assumes "half_open w c f lf kc s g lg ks"
  shows "f \<noteq> g" "c \<noteq> s" "TcpLinks (proto w) f = Some lf" "TcpLinks (proto w) g = Some lg" "LinkHeap w c = Some kc"
    "pProtoPriv kc = Some f" "LinkHeap w s = Some ks" "pProtoPriv ks = Some g"
    "conn (Socks (proto w)) (SocketFd lf) (SocketFd lg)" "conn (Socks (proto w)) (SocketFd lg) (SocketFd lf)"
    "arrived w lf = []" "arrived w lg = map RxByte (usage_frame (Usage kc))" "Socks (proto w) (SocketFd lg) \<noteq> None"
  using assms by (auto simp: half_open_def conn_def)

text \<open>After the client's half, in any world \<open>v\<close> with the same protocol state that has a link object \<open>s\<close> for the server.\<close>

lemma half_opens:
  assumes "env_works env" "env_works env'" "te_others env' = Done" "LinkHeap w c = Some lkc"
    "SrvProtoPriv sv = Some t" "TcpSrvs (proto w) t = Some ts"
    "listening (Port (ConnSrvURI args)) w = Some (ListenSocketFd ts)"
    "map_of (Listeners (proto w)) (ListenSocketFd ts) = Some L" "li_pending L = []"
  obtains f lf w1 where "tcp_connect_begin env c args opt w = Done (Inr (f, SocketFd lf, w1))"
    "LinkHeap w1 = (LinkHeap w)(c := Some (lkc\<lparr>pProtoPriv := Some f\<rparr>))" "SrvTbl w1 = SrvTbl w"
    "link_step c (attached f) w w1"
    "\<forall>v s lks i. proto v = proto w1 \<longrightarrow> LinkHeap v c = LinkHeap w1 c \<longrightarrow> LinkHeap v s = Some lks \<longrightarrow> c \<noteq> s \<longrightarrow> SrvTbl v ! i = Some sv \<longrightarrow>
      (\<exists>g lg w2. acceptClient_ofProtoTCP env' i s opt' v = tcp_accept_negotiate env' sv g (SocketFd lg) s w2 \<and>
        half_open w2 c f lf (lkc\<lparr>pProtoPriv := Some f\<rparr>) s g lg (lks\<lparr>pProtoPriv := Some g\<rparr>) \<and>
        link_step s (attached g) v w2)"
proof -
  from connect_begin_works [OF assms(1,4,7,8), of opt, unfolded assms(9) append_Nil] obtain f fd p pb w1 where
    1: "tcp_connect_begin env c args opt w = Done (Inr (f, fd, w1))" "f = next_tcp (proto w)" "fd \<noteq> p"
      "TcpLinks (proto w1) = (TcpLinks (proto w))(f := Some ((fresh_tcp_link c pb)\<lparr>SocketFd := fd\<rparr>))"
      "next_tcp (proto w1) = f + 1" "LinkHeap w1 = (LinkHeap w)(c := Some (lkc\<lparr>pProtoPriv := Some f\<rparr>))" "SrvTbl w1 = SrvTbl w"
      "TcpSrvs (proto w1) = TcpSrvs (proto w)" "map_of (Listeners (proto w1)) (ListenSocketFd ts) = Some (L\<lparr>li_pending := [p]\<rparr>)"
      "recv_threads (proto w1) = recv_threads (proto w)" and
    c1: "conn (Socks (proto w1)) fd p" "conn (Socks (proto w1)) p fd" "inbox (Socks (proto w1)) fd = []"
      "inbox (Socks (proto w1)) p = map RxByte (usage_frame (Usage lkc))" and
    step: "link_step c (attached f) w w1" .
  let ?lf = "(fresh_tcp_link c pb)\<lparr>SocketFd := fd\<rparr>"
  have "\<exists>g lg w2. acceptClient_ofProtoTCP env' i s opt' v = tcp_accept_negotiate env' sv g (SocketFd lg) s w2 \<and>
      half_open w2 c f ?lf (lkc\<lparr>pProtoPriv := Some f\<rparr>) s g lg (lks\<lparr>pProtoPriv := Some g\<rparr>) \<and> link_step s (attached g) v w2"
    if v: "proto v = proto w1" "LinkHeap v c = LinkHeap w1 c" "LinkHeap v s = Some lks" "c \<noteq> s" "SrvTbl v ! i = Some sv" for v s lks i
  proof -
    have pv: "TcpSrvs (proto v) t = Some ts" "map_of (Listeners (proto v)) (ListenSocketFd ts) = Some (L\<lparr>li_pending := [p]\<rparr>)"
      "li_pending (L\<lparr>li_pending := [p]\<rparr>) = p # []" "next_tcp (proto v) = f + 1" using v(1) 1(5,8,9) assms(6) by simp_all
    from accept_begins [OF assms(2,3) v(5) assms(5) pv(1) v(3) pv(2,3), of opt'] obtain g pb' w2 where
      2: "acceptClient_ofProtoTCP env' i s opt' v = tcp_accept_negotiate env' sv g p s w2" "g = f + 1"
        "TcpLinks (proto w2) = (TcpLinks (proto v))(g := Some ((fresh_tcp_link s pb')\<lparr>SocketFd := p\<rparr>))"
        "LinkHeap w2 = (LinkHeap v)(s := Some (lks\<lparr>pProtoPriv := Some g\<rparr>))" "Socks (proto w2) = Socks (proto v)" "link_step s (attached g) v w2" unfolding pv(4) .
    let ?lg = "(fresh_tcp_link s pb')\<lparr>SocketFd := p\<rparr>"
    have "half_open w2 c f ?lf (lkc\<lparr>pProtoPriv := Some f\<rparr>) s g ?lg (lks\<lparr>pProtoPriv := Some g\<rparr>)"
      using 1(4,6) 2(2-5) c1 v by (simp add: half_open_def)
    moreover have "acceptClient_ofProtoTCP env' i s opt' v = tcp_accept_negotiate env' sv g (SocketFd ?lg) s w2" using 2(1) by simp
    ultimately show ?thesis using 2(6) by blast
  qed
  moreover have "SocketFd ?lf = fd" by simp
  ultimately show ?thesis using that [of f ?lf w1] 1(1,6,7) step by simp
qed

lemma half_open_agrees:
  assumes "half_open w c f lf kc s g lg ks" "env_works env" "env_works env'" "args_fit args (Usage kc)"
    "negotiateLinkRole (UsageCapabilites sv) (Usage kc) = u" "u \<noteq> IOC_LinkUsageUndefined"
  obtains w1 where "tcp_accept_negotiate env' sv g (SocketFd lg) s w = Done (IOC_RESULT_SUCCESS, w1)"
    "LinkHeap w1 = (LinkHeap w)(s := Some (ks\<lparr>Usage := u\<rparr>))" "link_step s (\<lambda>k. k\<lparr>Usage := u\<rparr>) w w1"
    "\<forall>v. proto v = proto w1 \<longrightarrow> LinkHeap v = LinkHeap w1 \<longrightarrow> (\<exists>w2 lf' lg'. tcp_connect_end env f (SocketFd lf) c args v = Done (IOC_RESULT_SUCCESS, w2) \<and>
       tcp_pair w2 c f lf' s g lg' \<and> arrived w2 lf' = [] \<and> arrived w2 lg' = [] \<and> LinkHeap w2 = LinkHeap v \<and> proto_step v w2)"
proof -
  note h = half_openD [OF assms(1)]
  let ?lg = "(accepted_end sv lg)\<lparr>RecvThreadRunning := True\<rparr>"
  have "negotiateLinkRole (UsageCapabilites sv) (Usage kc) \<noteq> IOC_LinkUsageUndefined" using assms(5,6) by simp
  from accept_negotiates [OF assms(3) h(4,7,10,13,12) this, unfolded h(11) append_Nil assms(5)] obtain w1 where
    1: "tcp_accept_negotiate env' sv g (SocketFd lg) s w = Done (IOC_RESULT_SUCCESS, w1)" "same_socks (Socks (proto w)) (Socks (proto w1))"
      "arrived w1 lg = []" "arrived w1 lf = map RxByte (put_usage u)" "TcpLinks (proto w1) = (TcpLinks (proto w))(g := Some ?lg)"
      "LinkHeap w1 = (LinkHeap w)(s := Some (ks\<lparr>Usage := u\<rparr>))" "recv_threads (proto w1) = recv_threads (proto w) @ [g]"
      "link_step s (\<lambda>k. k\<lparr>Usage := u\<rparr>) w w1" by blast
  have c1: "conn (Socks (proto w1)) (SocketFd lf) (SocketFd lg)" "conn (Socks (proto w1)) (SocketFd lg) (SocketFd lf)"
    using same_socks_conn [OF 1(2)] h(9,10) by auto
  have "\<exists>w2 lf' lg'. tcp_connect_end env f (SocketFd lf) c args v = Done (IOC_RESULT_SUCCESS, w2) \<and>
       tcp_pair w2 c f lf' s g lg' \<and> arrived w2 lf' = [] \<and> arrived w2 lg' = [] \<and> LinkHeap w2 = LinkHeap v \<and> proto_step v w2"
    if v: "proto v = proto w1" "LinkHeap v = LinkHeap w1" for v
  proof -
    have l1: "TcpLinks (proto v) f = Some lf" "LinkHeap v c = Some kc" "Socks (proto v) (SocketFd lf) \<noteq> None"
      "arrived v lf = map RxByte (put_usage u)"
      using 1(4-6) h(1-3,5) c1(2) v by (auto simp: conn_def)
    from connect_end_works [OF assms(2) l1 assms(6,4)] obtain l' w2 where
      2: "tcp_connect_end env f (SocketFd lf) c args v = Done (IOC_RESULT_SUCCESS, w2)" "SocketFd l' = SocketFd lf"
        "took (Socks (proto v)) (SocketFd lf) [] (Socks (proto w2))"
        "TcpLinks (proto w2) = (TcpLinks (proto v))(f := Some (l'\<lparr>RecvThreadRunning := True\<rparr>))" "LinkHeap w2 = LinkHeap v"
        "recv_threads (proto w2) = recv_threads (proto v) @ [f]" "proto_step v w2" .
    let ?lf = "l'\<lparr>RecvThreadRunning := True\<rparr>"
    have c2: "conn (Socks (proto w2)) (SocketFd lf) (SocketFd lg)" "conn (Socks (proto w2)) (SocketFd lg) (SocketFd lf)"
      using took_conn [OF 2(3)] c1 v by auto
    have "end_of w2 c f" "end_of w2 s g" using h 1(6) 2(5) v by (simp_all add: end_of_def)
    moreover have "receiving w2 f ?lf" "receiving w2 g ?lg" using c2 h(1) 1(5,7) 2(2,4,6) v by (auto simp: receiving_def conn_def)
    ultimately have "tcp_pair w2 c f ?lf s g ?lg" using c2 h(1) 2(2) by (simp add: tcp_pair_def)
    moreover have "SocketFd lg \<noteq> SocketFd lf" using c1 by (simp add: conn_def)
    then have "arrived w2 ?lf = []" "arrived w2 ?lg = []" using took_inbox [OF 2(3)] 1(3) 2(2) v by simp_all
    ultimately show ?thesis using 2(1,5,7) by blast
  qed
  then show ?thesis using that [OF 1(1,6,8)] by blast
qed

lemma half_open_refused:
  assumes "half_open w c f lf kc s g lg ks" "negotiateLinkRole (UsageCapabilites sv) (Usage kc) = IOC_LinkUsageUndefined"
  obtains w1 w2 where "tcp_accept_negotiate env' sv g (SocketFd lg) s w = Done (IOC_RESULT_INVALID_PARAM, w1)"
    "tcp_connect_end env f (SocketFd lf) c args w1 = Done (IOC_RESULT_INCOMPATIBLE_USAGE, w2)"
    "LinkHeap w2 = LinkHeap w" "TcpLinks (proto w2) f = None" "TcpLinks (proto w2) g = None"
proof -
  note h = half_openD [OF assms(1)]
  from accept_refuses [OF h(10,13,12) assms(2), of env' g s] obtain ss where
    1: "tcp_accept_negotiate env' sv g (SocketFd lg) s w = Done (IOC_RESULT_INVALID_PARAM, free_tcp_link g (setSocks ss w))"
      "ss (SocketFd lf) \<noteq> None" "inbox ss (SocketFd lf) = map RxByte (put_usage IOC_LinkUsageUndefined) @ [RxEof]"
    unfolding h(11) append_Nil by blast
  let ?w1 = "free_tcp_link g (setSocks ss w)"
  have "Socks (proto ?w1) (SocketFd lf) \<noteq> None"
    "inbox (Socks (proto ?w1)) (SocketFd lf) = map RxByte (put_usage IOC_LinkUsageUndefined) @ [RxEof]"
    using 1(2,3) by (simp_all add: free_tcp_link_def)
  from connect_end_refused [OF this, of env f c args] obtain s2 where
    "tcp_connect_end env f (SocketFd lf) c args ?w1 = Done (IOC_RESULT_INCOMPATIBLE_USAGE, free_tcp_link f (setSocks s2 ?w1))" .
  from that [OF 1(1) this] show ?thesis by (simp add: free_tcp_link_def)
qed

section \<open>Properties\<close>

text \<open>C11: A TCP connect met by an accept.  The client goes to wait in the state \<open>w1\<close>, there the accept returns and
  leaves \<open>w2\<close>, and whenever the other threads have taken \<open>w1\<close> to \<open>w2\<close> the connect returns.  When the usages go
  together, both calls return success, the server's link gets the role that complements the client's, and the two
  links are connected with both receiver threads running and nothing left on the wire.  Otherwise the accept
  returns that a parameter is invalid and the connect that the usages are incompatible; both TCP links are gone,
  but the library's links still hold their addresses.\<close>

theorem tcp_connect_meets_accept:
  assumes "env_works env" "env_works env'" "te_others env' = Done" "LinkHeap w c = Some lkc" "LinkHeap w s = Some lks" "c \<noteq> s"
    "SrvTbl w ! i = Some sv" "SrvProtoPriv sv = Some t" "TcpSrvs (proto w) t = Some ts"
    "listening (Port (ConnSrvURI args)) w = Some (ListenSocketFd ts)"
    "map_of (Listeners (proto w)) (ListenSocketFd ts) = Some L" "li_pending L = []" "args_fit args (Usage lkc)"
    "role = negotiateLinkRole (UsageCapabilites sv) (Usage lkc)"
  shows "if role \<noteq> IOC_LinkUsageUndefined
    then \<exists>f g lf lg w1 w2 w'. acceptClient_ofProtoTCP env' i s opt' w1 = Done (IOC_RESULT_SUCCESS, w2) \<and>
      (\<forall>turn. turn w1 = Done w2 \<longrightarrow>
        connectService_ofProtoTCP (env\<lparr>te_others := turn\<rparr>) c args opt w = Done (IOC_RESULT_SUCCESS, w')) \<and>
      tcp_pair w' c f lf s g lg \<and> arrived w' lf = [] \<and> arrived w' lg = [] \<and>
      LinkHeap w' s = Some (lks\<lparr>pProtoPriv := Some g, Usage := role\<rparr>) \<and> complementary role (Usage lkc)
    else \<exists>f g w1 w2 w'. acceptClient_ofProtoTCP env' i s opt' w1 = Done (IOC_RESULT_INVALID_PARAM, w2) \<and>
      (\<forall>turn. turn w1 = Done w2 \<longrightarrow>
        connectService_ofProtoTCP (env\<lparr>te_others := turn\<rparr>) c args opt w = Done (IOC_RESULT_INCOMPATIBLE_USAGE, w')) \<and>
      LinkHeap w' c = Some (lkc\<lparr>pProtoPriv := Some f\<rparr>) \<and> TcpLinks (proto w') f = None \<and>
      LinkHeap w' s = Some (lks\<lparr>pProtoPriv := Some g\<rparr>) \<and> TcpLinks (proto w') g = None"
proof -
  from half_opens [OF assms(1-4,8-12), of opt opt'] obtain f lf w1 where
    0: "tcp_connect_begin env c args opt w = Done (Inr (f, SocketFd lf, w1))"
      "LinkHeap w1 = (LinkHeap w)(c := Some (lkc\<lparr>pProtoPriv := Some f\<rparr>))" "SrvTbl w1 = SrvTbl w" "link_step c (attached f) w w1" and
    half: "\<forall>v s lks i. proto v = proto w1 \<longrightarrow> LinkHeap v c = LinkHeap w1 c \<longrightarrow> LinkHeap v s = Some lks \<longrightarrow> c \<noteq> s \<longrightarrow> SrvTbl v ! i = Some sv \<longrightarrow>
      (\<exists>g lg w2. acceptClient_ofProtoTCP env' i s opt' v = tcp_accept_negotiate env' sv g (SocketFd lg) s w2 \<and>
        half_open w2 c f lf (lkc\<lparr>pProtoPriv := Some f\<rparr>) s g lg (lks\<lparr>pProtoPriv := Some g\<rparr>) \<and> link_step s (attached g) v w2)" .
  have "LinkHeap w1 s = Some lks" "SrvTbl w1 ! i = Some sv" using 0(2,3) assms(5-7) by simp_all
  with half assms(6) obtain g lg w2 where
    1: "tcp_connect_begin env c args opt w = Done (Inr (f, SocketFd lf, w1))"
      "acceptClient_ofProtoTCP env' i s opt' w1 = tcp_accept_negotiate env' sv g (SocketFd lg) s w2"
      "half_open w2 c f lf (lkc\<lparr>pProtoPriv := Some f\<rparr>) s g lg (lks\<lparr>pProtoPriv := Some g\<rparr>)" using 0(1) by blast
  have connect: "connectService_ofProtoTCP (env\<lparr>te_others := turn\<rparr>) c args opt w =
      tcp_connect_end env f (SocketFd lf) c args w3" if "turn w1 = Done w3" for turn w3
    using 1(1) that by (simp add: connectService_ofProtoTCP_def)
  show ?thesis
  proof (cases "role = IOC_LinkUsageUndefined")
    case False
    have "args_fit args (Usage (lkc\<lparr>pProtoPriv := Some f\<rparr>))"
      "negotiateLinkRole (UsageCapabilites sv) (Usage (lkc\<lparr>pProtoPriv := Some f\<rparr>)) = role" using assms(13,14) by simp_all
    from half_open_agrees [OF 1(3) assms(1,2) this False] obtain w3 where
      3: "tcp_accept_negotiate env' sv g (SocketFd lg) s w2 = Done (IOC_RESULT_SUCCESS, w3)"
        "LinkHeap w3 = (LinkHeap w2)(s := Some (lks\<lparr>pProtoPriv := Some g, Usage := role\<rparr>))"
        "link_step s (\<lambda>k. k\<lparr>Usage := role\<rparr>) w2 w3" and
      later: "\<forall>v. proto v = proto w3 \<longrightarrow> LinkHeap v = LinkHeap w3 \<longrightarrow> (\<exists>w4 lf' lg'. tcp_connect_end env f (SocketFd lf) c args v = Done (IOC_RESULT_SUCCESS, w4) \<and>
        tcp_pair w4 c f lf' s g lg' \<and> arrived w4 lf' = [] \<and> arrived w4 lg' = [] \<and> LinkHeap w4 = LinkHeap v \<and> proto_step v w4)" .
    from later obtain w4 lf' lg' where
      "tcp_connect_end env f (SocketFd lf) c args w3 = Done (IOC_RESULT_SUCCESS, w4)" "tcp_pair w4 c f lf' s g lg'"
      "arrived w4 lf' = []" "arrived w4 lg' = []" "LinkHeap w4 = LinkHeap w3" by blast
    moreover note 3(1)
    moreover have "LinkHeap w3 s = Some (lks\<lparr>pProtoPriv := Some g, Usage := role\<rparr>)" using 3(2) by simp
    moreover have "complementary role (Usage lkc)" using negotiated_complementary [of "UsageCapabilites sv" "Usage lkc"] False assms(14)
      by (simp add: IOC_LinkUsageUndefined_def)
    moreover have "acceptClient_ofProtoTCP env' i s opt' w1 = Done (IOC_RESULT_SUCCESS, w3)" using 1(2) 3(1) by simp
    moreover have "\<forall>turn. turn w1 = Done w3 \<longrightarrow>
        connectService_ofProtoTCP (env\<lparr>te_others := turn\<rparr>) c args opt w = Done (IOC_RESULT_SUCCESS, w4)"
      using connect calculation(1) by simp
    moreover have "LinkHeap w4 s = Some (lks\<lparr>pProtoPriv := Some g, Usage := role\<rparr>)" using calculation(5,7) by simp
    ultimately show ?thesis unfolding if_P [OF False] by (intro exI conjI)
  next
    case True
    then have "negotiateLinkRole (UsageCapabilites sv) (Usage (lkc\<lparr>pProtoPriv := Some f\<rparr>)) = IOC_LinkUsageUndefined"
      using assms(14) by simp
    from half_open_refused [OF 1(3) this, of env' env args] obtain w3 w4 where
      4: "tcp_accept_negotiate env' sv g (SocketFd lg) s w2 = Done (IOC_RESULT_INVALID_PARAM, w3)"
      "tcp_connect_end env f (SocketFd lf) c args w3 = Done (IOC_RESULT_INCOMPATIBLE_USAGE, w4)"
      "LinkHeap w4 = LinkHeap w2" "TcpLinks (proto w4) f = None" "TcpLinks (proto w4) g = None" .
    have "acceptClient_ofProtoTCP env' i s opt' w1 = Done (IOC_RESULT_INVALID_PARAM, w3)" using 1(2) 4(1) by simp
    moreover have "\<forall>turn. turn w1 = Done w3 \<longrightarrow>
        connectService_ofProtoTCP (env\<lparr>te_others := turn\<rparr>) c args opt w = Done (IOC_RESULT_INCOMPATIBLE_USAGE, w4)"
      using connect 4(2) by simp
    moreover have "LinkHeap w4 c = Some (lkc\<lparr>pProtoPriv := Some f\<rparr>)" "LinkHeap w4 s = Some (lks\<lparr>pProtoPriv := Some g\<rparr>)"
      using 4(3) half_openD(5,7) [OF 1(3)] by simp_all
    ultimately have "\<exists>f g w1 w2 w'. acceptClient_ofProtoTCP env' i s opt' w1 = Done (IOC_RESULT_INVALID_PARAM, w2) \<and>
      (\<forall>turn. turn w1 = Done w2 \<longrightarrow>
        connectService_ofProtoTCP (env\<lparr>te_others := turn\<rparr>) c args opt w = Done (IOC_RESULT_INCOMPATIBLE_USAGE, w')) \<and>
      LinkHeap w' c = Some (lkc\<lparr>pProtoPriv := Some f\<rparr>) \<and> TcpLinks (proto w') f = None \<and>
      LinkHeap w' s = Some (lks\<lparr>pProtoPriv := Some g\<rparr>) \<and> TcpLinks (proto w') g = None"
      using 4(4,5) by (intro exI conjI)
    then show ?thesis using True by simp
  qed
qed

text \<open>A process with a TCP service that receives data, on port 9000, and two links without a connection, the first
  of which wants the role \<open>u\<close>.\<close>

definition tcp_service :: ServiceObject_T where
  "tcp_service = (new_service 0 \<lparr>ArgSrvURI = \<lparr>rawProtocol = Some ''tcp'', rawHost = Some ''localprocess'', rawPath = Some ''data'', rawPort = 9000\<rparr>,
     ArgFlags = 0, ArgUsageCapabilites = IOC_LinkUsageDatReceiver, ArgEvt = None, ArgCmd = None, ArgDat = None,
     ArgOnAutoAccepted_F = None, ArgSrvPriv = 0\<rparr>)\<lparr>SrvProtoPriv := Some 0\<rparr>"

definition service_world :: "usage \<Rightarrow> tcp_state ioc_world" where
  "service_world u = (init_world (tcp_init\<lparr>TcpSrvs := (\<lambda>_. None)(0 := Some \<lparr>tSrvObj = 0, ListenSocketFd = 3, tPort = 9000\<rparr>),
       Listeners := [(3, \<lparr>li_port = 9000, li_pending = []\<rparr>)], next_fd := 4\<rparr>))
     \<lparr>SrvTbl := (replicate 32 None)[0 := Some tcp_service],
      LinkHeap := (\<lambda>_. None)(0 := Some ((new_link 0)\<lparr>Usage := u\<rparr>), 1 := Some (new_link 1))\<rparr>"

definition connect_args :: IOC_ConnArgs_T where
  "connect_args = \<lparr>ConnSrvURI = \<lparr>pProtocol = ''tcp'', pHost = ''localprocess'', pPath = ''data'', Port = 9000\<rparr>, ConnUsage = 0,
     ConnUsageArgs = None\<rparr>"

abbreviation accepting_env :: "unit tcp_env" where
  "accepting_env \<equiv> sample_tcp_env\<lparr>te_others := (\<lambda>w. bindO (acceptClient_ofProtoTCP sample_tcp_env 0 1 None w) (\<lambda>(_, w'). Done w'))\<rparr>"

theorem tcp_connect_meets_accept_witness:
  "(\<exists>f g lf lg w1 w2 w'. acceptClient_ofProtoTCP sample_tcp_env 0 1 None w1 = Done (IOC_RESULT_SUCCESS, w2) \<and>
     connectService_ofProtoTCP accepting_env 0 connect_args None (service_world IOC_LinkUsageDatSender) =
      Done (IOC_RESULT_SUCCESS, w') \<and> tcp_pair w' 0 f lf 1 g lg) \<and>
   (\<exists>w1 w2 w'. acceptClient_ofProtoTCP sample_tcp_env 0 1 None w1 = Done (IOC_RESULT_INVALID_PARAM, w2) \<and>
     connectService_ofProtoTCP accepting_env 0 connect_args None (service_world IOC_LinkUsageDatReceiver) =
      Done (IOC_RESULT_INCOMPATIBLE_USAGE, w'))"
proof -
  have env: "env_works sample_tcp_env" "env_works sample_tcp_env" "te_others sample_tcp_env = Done"
    by (auto simp: env_works_def sample_tcp_env_def tx_ok_def)
  have w: "LinkHeap (service_world u) 0 = Some ((new_link 0)\<lparr>Usage := u\<rparr>)" "LinkHeap (service_world u) 1 = Some (new_link 1)"
    "SrvTbl (service_world u) ! 0 = Some tcp_service" "TcpSrvs (proto (service_world u)) 0 = Some \<lparr>tSrvObj = 0, ListenSocketFd = 3, tPort = 9000\<rparr>"
    "listening (Port (ConnSrvURI connect_args)) (service_world u) = Some (ListenSocketFd \<lparr>tSrvObj = 0, ListenSocketFd = 3, tPort = 9000\<rparr>)"
    "map_of (Listeners (proto (service_world u))) (ListenSocketFd \<lparr>tSrvObj = 0, ListenSocketFd = 3, tPort = 9000\<rparr>) =
       Some \<lparr>li_port = 9000, li_pending = []\<rparr>" for u
    by (simp_all add: service_world_def init_world_def listening_def connect_args_def)
  have s: "SrvProtoPriv tcp_service = Some 0" "li_pending \<lparr>li_port = 9000, li_pending = []\<rparr> = []" "(0::nat) \<noteq> 1"
    "args_fit connect_args u" for u by (simp_all add: tcp_service_def args_fit_def connect_args_def)
  have role: "negotiateLinkRole (UsageCapabilites tcp_service) IOC_LinkUsageDatSender \<noteq> IOC_LinkUsageUndefined"
    "negotiateLinkRole (UsageCapabilites tcp_service) IOC_LinkUsageDatReceiver = IOC_LinkUsageUndefined"
    by (simp_all add: tcp_service_def new_service_def negotiateLinkRole_def has_usage_def usage_defs)
  note c = tcp_connect_meets_accept [where opt = None and opt' = None, OF env w(1,2) s(3) w(3) s(1) w(4,5,6) s(2,4) refl]
  from c [of IOC_LinkUsageDatSender] role(1) obtain f g lf lg w1 w2 w' where
    1: "acceptClient_ofProtoTCP sample_tcp_env 0 1 None w1 = Done (IOC_RESULT_SUCCESS, w2)"
      "\<forall>turn. turn w1 = Done w2 \<longrightarrow> connectService_ofProtoTCP (sample_tcp_env\<lparr>te_others := turn\<rparr>) 0 connect_args None
        (service_world IOC_LinkUsageDatSender) = Done (IOC_RESULT_SUCCESS, w')" "tcp_pair w' 0 f lf 1 g lg" by simp blast
  have "connectService_ofProtoTCP accepting_env 0 connect_args None (service_world IOC_LinkUsageDatSender) =
      Done (IOC_RESULT_SUCCESS, w')" by (rule 1(2) [rule_format]) (simp add: 1(1) del: One_nat_def)
  with 1 have "\<exists>f g lf lg w1 w2 w'. acceptClient_ofProtoTCP sample_tcp_env 0 1 None w1 = Done (IOC_RESULT_SUCCESS, w2) \<and>
      connectService_ofProtoTCP accepting_env 0 connect_args None (service_world IOC_LinkUsageDatSender) =
      Done (IOC_RESULT_SUCCESS, w') \<and> tcp_pair w' 0 f lf 1 g lg" by blast
  moreover from c [of IOC_LinkUsageDatReceiver] role(2) obtain w1 w2 w' where
    2: "acceptClient_ofProtoTCP sample_tcp_env 0 1 None w1 = Done (IOC_RESULT_INVALID_PARAM, w2)"
      "\<forall>turn. turn w1 = Done w2 \<longrightarrow> connectService_ofProtoTCP (sample_tcp_env\<lparr>te_others := turn\<rparr>) 0 connect_args None
        (service_world IOC_LinkUsageDatReceiver) = Done (IOC_RESULT_INCOMPATIBLE_USAGE, w')" by simp blast
  have "connectService_ofProtoTCP accepting_env 0 connect_args None (service_world IOC_LinkUsageDatReceiver) =
      Done (IOC_RESULT_INCOMPATIBLE_USAGE, w')" by (rule 2(2) [rule_format]) (simp add: 2(1) del: One_nat_def)
  with 2(1) have "\<exists>w1 w2 w'. acceptClient_ofProtoTCP sample_tcp_env 0 1 None w1 = Done (IOC_RESULT_INVALID_PARAM, w2) \<and>
      connectService_ofProtoTCP accepting_env 0 connect_args None (service_world IOC_LinkUsageDatReceiver) =
      Done (IOC_RESULT_INCOMPATIBLE_USAGE, w')" by blast
  ultimately show ?thesis ..
qed

end
