(* ===== verification/TcpMethods.thy ===== *)
theory TcpMethods
  imports FifoMethods TcpFaults TcpNegotiate
begin

text \<open>
  Both protocols side by side: the array of method tables of \<^verbatim>\<open>IOC_Service.c\<close>, what the TCP protocol promises
  to the service layer, and what going online and closing a link do through that layer.
\<close>

section \<open>The array of protocols\<close>

definition mIOC_SrvProtoMethods :: "'x tcp_state_ext fifo_env \<Rightarrow> 'x tcp_env \<Rightarrow> 'x tcp_state_scheme SrvProtoMethods list" where
  "mIOC_SrvProtoMethods fenv tenv = [gIOC_SrvProtoFifoMethods fenv, gIOC_SrvProtoTCPMethods tenv]"

lemma tcp_methods_sel [simp]:
  "mIOC_SrvProtoMethods fenv tenv ! 1 = gIOC_SrvProtoTCPMethods tenv" "mIOC_SrvProtoMethods fenv tenv ! Suc 0 = gIOC_SrvProtoTCPMethods tenv"
  "mProtocol (gIOC_SrvProtoTCPMethods tenv) = ''tcp''" "OpCloseLink (gIOC_SrvProtoTCPMethods tenv) = closeLink_ofProtoTCP"
  "OpOnlineService (gIOC_SrvProtoTCPMethods tenv) = onlineService_ofProtoTCP tenv"
  "OpOfflineService (gIOC_SrvProtoTCPMethods tenv) = offlineService_ofProtoTCP"
  by (simp_all add: mIOC_SrvProtoMethods_def gIOC_SrvProtoTCPMethods_def)

lemma proto_index_tcp: "proto_index ''tcp'' (mIOC_SrvProtoMethods fenv tenv) = Some 1"
  by (simp add: proto_index_def mIOC_SrvProtoMethods_def gIOC_SrvProtoTCPMethods_def)

section \<open>The TCP protocol keeps its promise\<close>

lemma tcp_frame:
  "(\<exists>p. x = w\<lparr>proto := p\<rparr>) \<Longrightarrow> \<exists>p. free_tcp_link f x = w\<lparr>proto := p\<rparr>"
  "(\<exists>p. x = w\<lparr>proto := p\<rparr>) \<Longrightarrow> \<exists>p. closeW fd x = w\<lparr>proto := p\<rparr>"
  "(\<exists>p. x = w\<lparr>proto := p\<rparr>) \<Longrightarrow> \<exists>p. close_listener fd x = w\<lparr>proto := p\<rparr>"
  "(\<exists>p. x = w\<lparr>proto := p\<rparr>) \<Longrightarrow> \<exists>p. x\<lparr>proto := q\<rparr> = w\<lparr>proto := p\<rparr>"
  by (auto simp: free_tcp_link_def closeW_def setSocks_def setListeners_def close_listener_def split: option.split)

lemma setSrv_proto: "setSrv i h (w\<lparr>proto := p\<rparr>) = (setSrv i h w)\<lparr>proto := p\<rparr>"
  by (simp add: setSrv_def)

interpretation tcp_protocol: link_protocol closeLink_ofProtoTCP offlineService_ofProtoTCP
proof (unfold_locales, goal_cases)
  case (1 a w r w')
  then consider "w' = w" | x where "w' = setLink a (\<lambda>k. k\<lparr>pProtoPriv := None\<rparr>) x" "\<exists>p. x = w\<lparr>proto := p\<rparr>"
    by (auto simp: closeLink_ofProtoTCP_def deref_Done tderef_Done Let_def split: option.splits if_splits
        intro!: tcp_frame frame_refl)
  then show ?case
  proof cases
    case 1
    then show ?thesis by (intro exI [of _ "proto w"] exI [of _ "\<lambda>l. l"]) (simp add: setLink_def option.map_ident)
  next
    case (2 x)
    then obtain p where "x = w\<lparr>proto := p\<rparr>" by blast
    then show ?thesis using 2(1) by (intro exI [of _ p] exI [of _ "\<lambda>k. k\<lparr>pProtoPriv := None\<rparr>"]) (simp add: setLink_proto)
  qed
next
  case (2 i w r w')
  then obtain s where s: "SrvTbl w ! i = Some s" by (auto simp: offlineService_ofProtoTCP_def derefSrv_Done)
  show ?case
  proof (cases "SrvProtoPriv s")
    case None
    then have "w' = w" using 2 s by (simp add: offlineService_ofProtoTCP_def derefSrv_def)
    then show ?thesis by (intro exI [of _ "proto w"] exI [of _ "\<lambda>s. s"]) (simp add: setSrv_def option.map_ident)
  next
    case (Some t)
    then obtain ts where ts: "TcpSrvs (proto w) t = Some ts"
      using 2 s by (auto simp: offlineService_ofProtoTCP_def derefSrv_def split: option.splits)
    let ?v = "if 0 \<le> ListenSocketFd ts then close_listener (ListenSocketFd ts) w else w"
    have w': "w' = setSrv i (\<lambda>s. s\<lparr>SrvProtoPriv := None\<rparr>) (?v\<lparr>proto := (proto ?v)\<lparr>TcpSrvs := (TcpSrvs (proto ?v))(t := None)\<rparr>\<rparr>)"
      using 2 s Some ts by (simp add: offlineService_ofProtoTCP_def derefSrv_def Let_def del: if_split)
    have "\<exists>p. ?v = w\<lparr>proto := p\<rparr>" using tcp_frame(3) [OF frame_refl] frame_refl by (cases "0 \<le> ListenSocketFd ts") simp_all
    then obtain p where "?v = w\<lparr>proto := p\<rparr>" by blast
    then show ?thesis unfolding w' by (intro exI [of _ "p\<lparr>TcpSrvs := (TcpSrvs p)(t := None)\<rparr>"] exI [of _ "\<lambda>s. s\<lparr>SrvProtoPriv := None\<rparr>"])
        (simp add: setSrv_proto)
  qed
qed

lemma find_new: "find P xs = None \<Longrightarrow> P x \<Longrightarrow> find P (xs @ [x]) = Some x"
  by (induction xs) (simp_all split: if_splits)

section \<open>Properties\<close>

text \<open>C37: Closing a TCP link through the library.  The call succeeds and removes exactly that link from the
  table together with its TCP object and thread.  The peer's thread, on its next turn, records that the link
  is broken and ends; from then on receiving on the peer reports the broken link even though the data that
  arrived before is still in its buffer.\<close>

theorem tcp_close_breaks_peer:
  assumes "links_ok w" "i < 32" "LinkTbl w ! i = Some a" "LinkHeap w a = Some lk" "pMethods lk = Some 1"
    "tcp_pair w a f lf b g lg" "0 \<le> SocketFd lf" "arrived w lg = []"
  shows "\<exists>w1 w2 l2. IOC_closeLink (mIOC_SrvProtoMethods fenv env) (LinkObjTblIdxToLinkID i) w = Done (IOC_RESULT_SUCCESS, w1) \<and>
    links_ok w1 \<and> (\<forall>j<32. getLinkObjByLinkID (LinkObjTblIdxToLinkID j) w1 =
      (if j = i then None else getLinkObjByLinkID (LinkObjTblIdxToLinkID j) w)) \<and>
    TcpLinks (proto w1) f = None \<and> f \<notin> set (recv_threads (proto w1)) \<and>
    recv_turn env g w1 = Done w2 \<and> g \<notin> set (recv_threads (proto w2)) \<and> TcpLinks (proto w2) g = Some l2 \<and>
    RecvError l2 = IOC_RESULT_LINK_BROKEN \<and> pb_bytes (tPollingBuffer l2) = pb_bytes (tPollingBuffer lg) \<and>
    recvData_ofProtoTCP env b d opt w2 = Done (IOC_RESULT_LINK_BROKEN, d, w2)"
proof -
  let ?v = "setLink a (\<lambda>l. l\<lparr>ConnState := IOC_LinkConnStateDisconnecting, IsConnected := False\<rparr>) w"
  have p: "tcp_pair ?v a f lf b g lg" "arrived ?v lg = []"
    using assms(6,8) by (auto simp: tcp_pair_def end_of_def receiving_def setLink_def split: option.splits)
  from close_pair [OF p(1) assms(7)] obtain v1 where
    v: "closeLink_ofProtoTCP a ?v = Done (IOC_RESULT_SUCCESS, v1)" "TcpLinks (proto v1) f = None"
      "f \<notin> set (recv_threads (proto v1))" "receiving v1 g lg" "arrived v1 lg = [RxEof]" "end_of v1 b g"
    unfolding p(2) append_Nil by (metis fun_upd_same)
  have "OpCloseLink (mIOC_SrvProtoMethods fenv env ! 1) = closeLink_ofProtoTCP" by simp
  from tcp_protocol.closeLink_removes [OF assms(1-5) this v(1)] obtain w1 where
    1: "IOC_closeLink (mIOC_SrvProtoMethods fenv env) (LinkObjTblIdxToLinkID i) w = Done (IOC_RESULT_SUCCESS, w1)" "links_ok w1"
      "LinkTbl w1 = (LinkTbl w)[i := None]" "LinkHeap w1 = (LinkHeap w)(a := None)" "proto w1 = proto v1" by blast
  have "a \<noteq> b" using tcp_pairD(1-3) [OF assms(6)] by (auto simp: end_of_def split: option.splits)
  then have "end_of w1 b g" using tcp_pairD(2) [OF assms(6)] 1(4) by (simp add: end_of_def)
  moreover have "receiving w1 g lg" "arrived w1 lg = [RxEof]" using v(4,5) 1(5) by (simp_all add: receiving_def)
  ultimately have r: "receiving w1 g lg" "arrived w1 lg = [RxEof]" "end_of w1 b g" by blast+
  obtain w2 l2 where 2: "recv_turn env g w1 = Done w2" "g \<notin> set (recv_threads (proto w2))" "TcpLinks (proto w2) g = Some l2"
    "RecvError l2 = IOC_RESULT_LINK_BROKEN" "pb_bytes (tPollingBuffer l2) = pb_bytes (tPollingBuffer lg)"
    "\<forall>d opt. recvData_ofProtoTCP env b d opt w2 = Done (IOC_RESULT_LINK_BROKEN, d, w2)"
    by (rule peer_sees_end [OF r, of env])
  have "\<forall>j<32. getLinkObjByLinkID (LinkObjTblIdxToLinkID j) w1 =
      (if j = i then None else getLinkObjByLinkID (LinkObjTblIdxToLinkID j) w)"
    using assms(1,2) 1(3) by (simp add: links_ok_def nth_list_update)
  moreover have "TcpLinks (proto w1) f = None" "f \<notin> set (recv_threads (proto w1))" using v(2,3) 1(5) by simp_all
  ultimately show ?thesis using 1(1,2) 2 by blast
qed

definition table_world :: "tcp_state ioc_world" where
  "table_world = (pair_world id)\<lparr>LinkHeap := (\<lambda>_. None)(0 := Some ((new_link 0)\<lparr>pProtoPriv := Some 0, pMethods := Some 1\<rparr>),
       1 := Some ((new_link 1)\<lparr>pProtoPriv := Some 1, pMethods := Some 1\<rparr>)),
     LinkTbl := (replicate 32 None)[0 := Some 0, 1 := Some 1], next_addr := 2, LinkCount := 2\<rparr>"

lemma table_world_ok: "links_ok table_world"
proof -
  have t: "LinkTbl table_world = Some 0 # Some 1 # replicate 30 None" "LinkCount table_world = 2" "next_addr table_world = 2"
    "\<not> LinkTblLocked table_world"
    by (simp_all add: table_world_def pair_world_def init_world_def eval_nat_numeral)
  have "LinkHeap table_world = (\<lambda>_. None)(0 := Some ((new_link 0)\<lparr>pProtoPriv := Some 0, pMethods := Some 1\<rparr>),
    1 := Some ((new_link 1)\<lparr>pProtoPriv := Some 1, pMethods := Some 1\<rparr>))" by (simp add: table_world_def)
  moreover have "LinkTbl table_world ! i = Some a \<longleftrightarrow> a = i \<and> i < 2" if "i < 32" for i a
    using that by (auto simp: t(1) nth_Cons')
  ultimately show ?thesis using t by (auto simp: links_ok_def used_def new_link_def intro: exI [of _ 0] exI [of _ 1])
qed

theorem tcp_close_breaks_peer_witness:
  "\<exists>w1 w2. IOC_closeLink (mIOC_SrvProtoMethods (witness_env None) sample_tcp_env) (LinkObjTblIdxToLinkID 0) table_world =
      Done (IOC_RESULT_SUCCESS, w1) \<and> recv_turn sample_tcp_env 1 w1 = Done w2 \<and>
    recvData_ofProtoTCP sample_tcp_env 1 (room 2) None w2 = Done (IOC_RESULT_LINK_BROKEN, room 2, w2)"
proof -
  have "tcp_pair table_world 0 0 (example_end 3 0) 1 1 (example_end 4 1)" "arrived table_world (example_end 4 1) = []"
    using pair_world_pair [of id] by (simp_all add: table_world_def tcp_pair_def end_of_def receiving_def example_end_def)
  moreover have "LinkTbl table_world ! 0 = Some 0" by (simp add: table_world_def)
  moreover have "LinkHeap table_world 0 = Some ((new_link 0)\<lparr>pProtoPriv := Some 0, pMethods := Some 1\<rparr>)" by (simp add: table_world_def)
  moreover have "0 \<le> SocketFd (example_end 3 0)" by (simp add: example_end_def)
  ultimately show ?thesis
    using tcp_close_breaks_peer [OF table_world_ok, of 0 0 _ 0 "example_end 3 0" 1 1 "example_end 4 1" "witness_env None" sample_tcp_env "room 2" None]
    by force
qed

text \<open>C38: Putting a TCP service online.  The service gets the TCP method table and, with a port of its own,
  can be reached there.  When the port is taken by another service the call reports an unsupported protocol,
  and the new service is gone again.\<close>

theorem tcp_service_online:
  assumes "services_ok w" "FailNextAllocCount w \<le> 0" "te_mem env" "te_socket env" "te_bind env" "te_listen env"
    "ArgSrvURI a = \<lparr>rawProtocol = Some ''tcp'', rawHost = Some h, rawPath = Some q, rawPort = n\<rparr>"
    "\<not> (\<exists>s. Some s \<in> set (SrvTbl w) \<and> SrvURI s = \<lparr>pProtocol = ''tcp'', pHost = h, pPath = q, Port = n\<rparr>)"
    "used (SrvTbl w) \<noteq> 32" "ArgUsageCapabilites a AND IOC_LinkUsageMask \<noteq> 0"
  shows "if listening n w = None
    then \<exists>i w' s. IOC_onlineService (mIOC_SrvProtoMethods fenv env) True True True True (Some a) w =
        Done (IOC_RESULT_SUCCESS, Some (of_nat i), w') \<and> getSrvObjBySrvID (of_nat i) w' = Some s \<and> SrvMethods s = Some 1 \<and>
        (n \<noteq> 0 \<longrightarrow> listening n w' = Some (next_fd (proto w)))
    else \<exists>w'. IOC_onlineService (mIOC_SrvProtoMethods fenv env) True True True True (Some a) w =
        Done (IOC_RESULT_NOT_SUPPORT, None, w') \<and> SrvTbl w' = SrvTbl w \<and> proto w' = proto w"
proof -
  let ?ms = "mIOC_SrvProtoMethods fenv env"
  from allocSrvObj_spec(3) [OF assms(1,2,7,8,9)] obtain i w1 where
    1: "i < 32" "SrvTbl w ! i = None" "allocSrvObj True True a w = Done (IOC_RESULT_SUCCESS, Some i, w1)"
      "w1 = w\<lparr>SrvTbl := (SrvTbl w)[i := Some (new_service i a)], ServiceCount := ServiceCount w + 1\<rparr>" "services_ok w1" by blast
  have len: "length (SrvTbl w) = 32" using assms(1) by (simp add: services_ok_def)
  have s1: "SrvTbl w1 ! i = Some (new_service i a)" using 1(1,4) len by simp
  have new: "SrvURI (new_service i a) = \<lparr>pProtocol = ''tcp'', pHost = h, pPath = q, Port = n\<rparr>" "SrvMethods (new_service i a) = None"
    "SrvID (new_service i a) = of_nat i" using assms(7) by (simp_all add: new_service_def)
  have l1: "listening n w1 = listening n w" "proto w1 = proto w" by (simp_all add: 1(4) listening_def)
  have args: "isValidSrvArgs (Some a)" using assms(7,10) by (simp add: isValidSrvArgs_def)
  have by_proto: "onlineServiceByProto ?ms i w1 = bindO (bindO (onlineService_ofProtoTCP env i w1) (\<lambda>(r, w2).
           Done (r, if r = IOC_RESULT_SUCCESS then setSrv i (\<lambda>s. s\<lparr>SrvMethods := Some 1\<rparr>) w2 else w2)))
       (\<lambda>(r, w2). derefSrv i w2 (\<lambda>s1. Done (if SrvMethods s1 = None then IOC_RESULT_NOT_SUPPORT else r, w2)))"
    using s1 new(1) by (simp add: onlineServiceByProto_def derefSrv_def proto_index_tcp cong: if_cong)
  show ?thesis
  proof (cases "listening n w = None")
    case False
    then have "onlineService_ofProtoTCP env i w1 = Done (IOC_RESULT_BUG, w1)"
      using assms(3,4) s1 new(1) l1(1) by (simp add: onlineService_ofProtoTCP_def derefSrv_def)
    then have "onlineServiceByProto ?ms i w1 = Done (IOC_RESULT_NOT_SUPPORT, w1)"
      using by_proto s1 new(2) by (simp add: derefSrv_def)
    moreover have "freeSrvObj i w1 = Done (w1\<lparr>SrvTbl := (SrvTbl w1)[i := None], ServiceCount := ServiceCount w1 - 1\<rparr>)"
      using freeSrvObj_keeps(1) [OF 1(5,1) s1] .
    moreover have "(SrvTbl w1)[i := None] = SrvTbl w" using 1(2) by (simp add: 1(4) list_update_same_conv len 1(1))
    ultimately show ?thesis using False args 1(3) l1(2) by (simp add: IOC_onlineService_def)
  next
    case True
    obtain w2 where 2: "onlineService_ofProtoTCP env i w1 = Done (IOC_RESULT_SUCCESS, w2)"
      "SrvTbl w2 = (SrvTbl w1)[i := Some ((new_service i a)\<lparr>SrvProtoPriv := Some (next_tcp (proto w))\<rparr>)]"
      "Listeners (proto w2) = Listeners (proto w) @ [(next_fd (proto w), \<lparr>li_port = n, li_pending = []\<rparr>)]"
      using assms(3-6) s1 new(1) l1 True by (simp add: onlineService_ofProtoTCP_def derefSrv_def setSrv_def setListeners_def Let_def)
    have s2: "SrvTbl w2 ! i = Some ((new_service i a)\<lparr>SrvProtoPriv := Some (next_tcp (proto w))\<rparr>)"
      using 2(2) 1(1,4) len by simp
    let ?w3 = "setSrv i (\<lambda>s. s\<lparr>SrvMethods := Some 1\<rparr>) w2" and ?s = "(new_service i a)\<lparr>SrvProtoPriv := Some (next_tcp (proto w)), SrvMethods := Some 1\<rparr>"
    have s3: "SrvTbl ?w3 ! i = Some ?s" using s2 2(2) 1(1,4) len by (simp add: setSrv_def)
    then have "onlineServiceByProto ?ms i w1 = Done (IOC_RESULT_SUCCESS, ?w3)"
      using by_proto 2(1) by (simp add: derefSrv_def)
    moreover have "\<exists>c. IOC_onlineService ?ms True True True True (Some a) w =
        Done (IOC_RESULT_SUCCESS, Some (of_nat i), ?w3\<lparr>conles := c\<rparr>)"
      using calculation args 1(3) s3 new(3)
      by (auto simp: IOC_onlineService_def derefSrv_def updateConlesEventSubState_def Let_def intro: exI [of _ "conles ?w3"])
    then obtain c where "IOC_onlineService ?ms True True True True (Some a) w = Done (IOC_RESULT_SUCCESS, Some (of_nat i), ?w3\<lparr>conles := c\<rparr>)" ..
    moreover have "getSrvObjBySrvID (of_nat i) (?w3\<lparr>conles := c\<rparr>) = Some ?s"
      using s3 1(1) by (simp add: getSrvObjBySrvID_def MAX_IOC_SRV_OBJ_NUM_def unat_of_nat word_less_nat_alt)
    moreover have "listening n (?w3\<lparr>conles := c\<rparr>) = Some (next_fd (proto w))" if "n \<noteq> 0"
    proof -
      have "find (\<lambda>(_, l). li_port l = n) (Listeners (proto w)) = None" using True that by (simp add: listening_def)
      then have "find (\<lambda>(_, l). li_port l = n) (Listeners (proto w) @ [(next_fd (proto w), \<lparr>li_port = n, li_pending = []\<rparr>)]) =
        Some (next_fd (proto w), \<lparr>li_port = n, li_pending = []\<rparr>)" by (simp add: find_new)
      then show ?thesis using that 2(3) by (simp add: listening_def setSrv_def)
    qed
    ultimately show ?thesis using True by auto
  qed
qed

definition tcp_srv_args :: IOC_SrvArgs_T where
  "tcp_srv_args = sample_srv_args\<lparr>ArgSrvURI := \<lparr>rawProtocol = Some ''tcp'', rawHost = Some ''localhost'', rawPath = Some ''svc'', rawPort = 9000\<rparr>\<rparr>"

theorem tcp_service_online_witness:
  "\<exists>i w' s. IOC_onlineService (mIOC_SrvProtoMethods (witness_env None) sample_tcp_env) True True True True (Some tcp_srv_args)
      (init_world tcp_init) = Done (IOC_RESULT_SUCCESS, Some (of_nat i), w') \<and> getSrvObjBySrvID (of_nat i) w' = Some s \<and>
    SrvMethods s = Some 1 \<and> listening 9000 w' = Some (next_fd tcp_init)"
proof -
  let ?w = "init_world tcp_init"
  have "FailNextAllocCount ?w \<le> 0" "te_mem sample_tcp_env" "te_socket sample_tcp_env" "te_bind sample_tcp_env" "te_listen sample_tcp_env"
    by (simp_all add: init_world_def sample_tcp_env_def)
  moreover have "ArgSrvURI tcp_srv_args = \<lparr>rawProtocol = Some ''tcp'', rawHost = Some ''localhost'', rawPath = Some ''svc'', rawPort = 9000\<rparr>"
    "ArgUsageCapabilites tcp_srv_args AND IOC_LinkUsageMask \<noteq> 0"
    by (simp_all add: tcp_srv_args_def sample_srv_args_def IOC_LinkUsageMask_def usage_defs)
  moreover have "\<not> (\<exists>s. Some s \<in> set (SrvTbl ?w) \<and> SrvURI s = u)" "used (SrvTbl ?w) \<noteq> 32" for u
    by (simp_all add: init_world_def used_def)
  moreover have "listening 9000 ?w = None" by (simp add: init_world_def listening_def tcp_init_def fifo_state.defs)
  ultimately show ?thesis
    using tcp_service_online [OF links_ok_init(2), of tcp_init sample_tcp_env tcp_srv_args "''localhost''" "''svc''" 9000 "witness_env None"]
    by (simp add: init_world_def)
qed

end
