(* ===== verification/TcpService.thy ===== *)
theory TcpService
  imports TcpMethods
begin

text \<open>
  Connecting over TCP through the library: \<^verbatim>\<open>IOC_connectService\<close> in one thread and \<^verbatim>\<open>IOC_acceptClient\<close> in
  another one, on top of the handshake of \<open>TcpNegotiate\<close>.
\<close>

section \<open>A service that is ready\<close>

text \<open>Online with the TCP protocol, accepting by hand, with no client waiting, and subscribing to nothing by itself.\<close>

definition tcp_ready :: "nat \<Rightarrow> nat \<Rightarrow> TcpServiceObject_T \<Rightarrow> ServiceObject_T \<Rightarrow> 'x tcp_world \<Rightarrow> bool" where
  "tcp_ready i t ts so w \<longleftrightarrow> i < 32 \<and> length (SrvTbl w) = 32 \<and> SrvTbl w ! i = Some so \<and>
     Flags so AND IOC_SRVFLAG_AUTO_ACCEPT = 0 \<and> SrvMethods so = Some 1 \<and> SrvEvt so = None \<and> SrvProtoPriv so = Some t \<and>
     TcpSrvs (proto w) t = Some ts \<and> pProtocol (SrvURI so) = ''tcp'' \<and>
     listening (Port (SrvURI so)) w = Some (ListenSocketFd ts) \<and>
     (\<exists>L. map_of (Listeners (proto w)) (ListenSocketFd ts) = Some L \<and> li_pending L = [])"

text \<open>A server thread that accepts by hand while the client waits, and does nothing else.\<close>

definition tcp_accept_turn ::
  "'x tcp_state_scheme SrvProtoMethods list \<Rightarrow> nat \<Rightarrow> IOC_Options_T option \<Rightarrow> 'x tcp_world \<Rightarrow> 'x tcp_world outcome" where
  "tcp_accept_turn ms i opt w = bindO (IOC_acceptClient ms True True True (of_nat i) opt w) (\<lambda>(_, _, w'). Done w')"

lemma links_ok_step: "links_ok w \<Longrightarrow> link_step a h w w' \<Longrightarrow> \<forall>l. ID (h l) = ID l \<Longrightarrow> links_ok w'"
  using links_ok_setLink [where w = w and a = a and f = h] link_stepD(6) [of a h w w'] by (metis links_ok_proto)

lemma tcp_pair_setLink:
  "tcp_pair w c f lf s g lg \<Longrightarrow> \<forall>l. pProtoPriv (h l) = pProtoPriv l \<Longrightarrow> tcp_pair (setLink a h w) c f lf s g lg"
  by (auto simp: tcp_pair_def end_of_def receiving_def split: option.splits)

text \<open>The server's side: the new link is the other half of the connection, and the client's call can finish.\<close>

lemma accept_service_tcp:
  assumes ok: "links_ok v" "FailNextAllocCount v \<le> 0" "first_index (\<lambda>slot. slot = None) (LinkTbl v) = Some k"
    and so: "i < 32" "length (SrvTbl v) = 32" "SrvTbl v ! i = Some so" "Flags so AND IOC_SRVFLAG_AUTO_ACCEPT = 0"
      "SrvMethods so = Some 1" "SrvEvt so = None"
    and half: "\<forall>u. proto u = proto v \<longrightarrow> LinkHeap u c = LinkHeap v c \<longrightarrow>
        LinkHeap u (next_addr v) = Some (server_link so (new_link k)) \<longrightarrow> SrvTbl u ! i = Some so \<longrightarrow>
      (\<exists>g lg w2. acceptClient_ofProtoTCP env' i (next_addr v) opt u = tcp_accept_negotiate env' so g (SocketFd lg) (next_addr v) w2 \<and>
        half_open w2 c f lf kc (next_addr v) g lg ((server_link so (new_link k))\<lparr>pProtoPriv := Some g\<rparr>) \<and>
        link_step (next_addr v) (attached g) u w2)"
    and c: "c \<noteq> next_addr v" "env_works env" "env_works env'" "args_fit args (Usage kc)" "role = negotiateLinkRole (UsageCapabilites so) (Usage kc)"
      "role \<noteq> IOC_LinkUsageUndefined"
  obtains g w3 w5 lf' lg' where
    "IOC_acceptClient (mIOC_SrvProtoMethods fenv env') True True True (of_nat i) opt v =
      Done (IOC_RESULT_SUCCESS, Some (LinkObjTblIdxToLinkID k), w3)"
    "tcp_connect_end env f (SocketFd lf) c args w3 = Done (IOC_RESULT_SUCCESS, w5)" "tcp_pair w5 c f lf' (next_addr v) g lg'"
    "arrived w5 lf' = []" "arrived w5 lg' = []" "LinkTbl w5 = (LinkTbl v)[k := Some (next_addr v)]"
    "SrvTbl w5 = (SrvTbl v)[i := Some (track_manual (LinkObjTblIdxToLinkID k) so)]" "LinkHeap w5 c = Some kc"
    "LinkHeap w5 (next_addr v) = Some ((server_link so (new_link k))\<lparr>pProtoPriv := Some g, Usage := role\<rparr>)"
proof -
  let ?b = "next_addr v" and ?id = "LinkObjTblIdxToLinkID k" and ?ks = "server_link so (new_link k)"
  let ?u = "setLink ?b (server_link so) (with_new_link k v)"
  have "SrvTbl ?u ! i = Some so" "LinkHeap ?u c = LinkHeap v c" "LinkHeap ?u ?b = Some ?ks" "proto ?u = proto v" using so(3) c(1) by simp_all
  from half [rule_format, OF this(4,2,3,1)] obtain g lg w2 where
    2: "acceptClient_ofProtoTCP env' i ?b opt ?u = tcp_accept_negotiate env' so g (SocketFd lg) ?b w2"
      "half_open w2 c f lf kc ?b g lg (?ks\<lparr>pProtoPriv := Some g\<rparr>)" "link_step ?b (attached g) ?u w2" by blast
  from half_open_agrees [OF 2(2) c(2,3,4) c(5) [symmetric] c(6)] obtain w3 where
    3: "tcp_accept_negotiate env' so g (SocketFd lg) ?b w2 = Done (IOC_RESULT_SUCCESS, w3)"
      "LinkHeap w3 = (LinkHeap w2)(?b := Some (?ks\<lparr>pProtoPriv := Some g, Usage := role\<rparr>))" "link_step ?b (\<lambda>k. k\<lparr>Usage := role\<rparr>) w2 w3" and
    later: "\<forall>v. proto v = proto w3 \<longrightarrow> LinkHeap v = LinkHeap w3 \<longrightarrow> (\<exists>w5 lf' lg'. tcp_connect_end env f (SocketFd lf) c args v = Done (IOC_RESULT_SUCCESS, w5) \<and>
      tcp_pair w5 c f lf' ?b g lg' \<and> arrived w5 lf' = [] \<and> arrived w5 lg' = [] \<and> LinkHeap w5 = LinkHeap v \<and> proto_step v w5)" .
  let ?lk = "?ks\<lparr>pProtoPriv := Some g, Usage := role\<rparr>" and ?w4 = "setSrv i (track_manual ?id) w3"
  have t3: "SrvTbl w3 = SrvTbl v" "LinkTbl w3 = (LinkTbl v)[k := Some ?b]" "LinkHeap w3 ?b = Some ?lk"
    using link_stepD(1,3) [OF 3(3)] link_stepD(1,3) [OF 2(3)] 3(2) by (simp_all add: setLink_def)
  have "IOC_acceptClient (mIOC_SrvProtoMethods fenv env') True True True (of_nat i) opt v = Done (IOC_RESULT_SUCCESS, Some ?id, ?w4)"
    using accept_by_proto [OF ok so(1,3-6), of "mIOC_SrvProtoMethods fenv env'" opt w3 ?lk] 2(1) 3(1) t3(1,3) so(2)
    by (simp add: gIOC_SrvProtoTCPMethods_def)
  moreover have "proto ?w4 = proto w3" "LinkHeap ?w4 = LinkHeap w3" "LinkTbl ?w4 = LinkTbl w3"
    "SrvTbl ?w4 = (SrvTbl v)[i := Some (track_manual ?id so)]" using t3 so(3) by (simp_all add: setSrv_def)
  moreover from later this(1,2) obtain w5 lf' lg' where "tcp_connect_end env f (SocketFd lf) c args ?w4 = Done (IOC_RESULT_SUCCESS, w5)"
    "tcp_pair w5 c f lf' ?b g lg'" "arrived w5 lf' = []" "arrived w5 lg' = []" "LinkHeap w5 = LinkHeap ?w4" "proto_step ?w4 w5" by blast
  moreover have "LinkHeap w3 c = Some kc" using 3(2) half_openD(2,5) [OF 2(2)] by simp
  ultimately show ?thesis using that proto_stepD [of ?w4 w5] t3 by simp
qed

section \<open>Properties\<close>

text \<open>The client's side: while it waits, the accepting thread finds the new connection.\<close>

lemma connect_service_tcp:
  assumes ok: "links_ok w" "FailNextAllocCount w \<le> 0" "first_index (\<lambda>slot. slot = None) (LinkTbl w) = Some c"
      "first_index (\<lambda>slot. slot = None) ((LinkTbl w)[c := Some (next_addr w)]) = Some k"
    and rs: "tcp_ready i t ts so w" and args: "ConnSrvURI args = SrvURI so" "args_fit args (ConnUsage args)"
    and env: "env_works env" "env_works env'" "te_others env' = Done"
    and role: "role = negotiateLinkRole (UsageCapabilites so) (ConnUsage args)" "role \<noteq> IOC_LinkUsageUndefined"
  defines "a \<equiv> next_addr w"
  obtains f g lf lg w1 w2 w' where
    "IOC_acceptClient (mIOC_SrvProtoMethods fenv env') True True True (of_nat i) opt' w1 =
      Done (IOC_RESULT_SUCCESS, Some (LinkObjTblIdxToLinkID k), w2)"
    "\<forall>turn. turn w1 = Done w2 \<longrightarrow> connectService_ofProtoTCP (env\<lparr>te_others := turn\<rparr>) a args opt
      (setLink a (client_link args) (with_new_link c w)) = Done (IOC_RESULT_SUCCESS, w')"
    "tcp_pair w' a f lf (a + 1) g lg" "arrived w' lf = []" "arrived w' lg = []"
    "LinkTbl w' = (LinkTbl w)[c := Some a, k := Some (a + 1)]"
    "SrvTbl w' = (SrvTbl w)[i := Some (track_manual (LinkObjTblIdxToLinkID k) so)]"
    "LinkHeap w' a = Some ((client_link args (new_link c))\<lparr>pProtoPriv := Some f\<rparr>)"
    "LinkHeap w' (a + 1) = Some ((server_link so (new_link k))\<lparr>pProtoPriv := Some g, Usage := role\<rparr>)"
proof -
  let ?v = "setLink a (client_link args) (with_new_link c w)" and ?kc = "client_link args (new_link c)"
  note al = alloc_new_link [OF ok(1-3)]
  have v: "LinkHeap ?v a = Some ?kc" "proto ?v = proto w" "SrvTbl ?v = SrvTbl w" "next_addr ?v = a + 1"
    "LinkTbl ?v = (LinkTbl w)[c := Some a]" "FailNextAllocCount ?v = FailNextAllocCount w" by (simp_all add: a_def)
  have okv: "links_ok ?v" by (rule links_ok_setLink) (use al(2) in simp_all)
  note r = rs [unfolded tcp_ready_def]
  from r obtain L where L: "map_of (Listeners (proto ?v)) (ListenSocketFd ts) = Some L" "li_pending L = []"
    unfolding v(2) by blast
  have "listening (Port (SrvURI so)) ?v = listening (Port (SrvURI so)) w" by (simp only: listening_def v(2))
  then have lis: "listening (Port (ConnSrvURI args)) ?v = Some (ListenSocketFd ts)" "SrvProtoPriv so = Some t" "TcpSrvs (proto ?v) t = Some ts"
    using r args(1) v(2) by simp_all
  from half_opens [OF env(1-3) v(1) lis(2,3,1) L, of opt opt'] obtain f lf w1 where
    1: "tcp_connect_begin env a args opt ?v = Done (Inr (f, SocketFd lf, w1))"
      "LinkHeap w1 = (LinkHeap ?v)(a := Some (?kc\<lparr>pProtoPriv := Some f\<rparr>))" "SrvTbl w1 = SrvTbl ?v" "link_step a (attached f) ?v w1" and
    half: "\<forall>v s lks i. proto v = proto w1 \<longrightarrow> LinkHeap v a = LinkHeap w1 a \<longrightarrow> LinkHeap v s = Some lks \<longrightarrow> a \<noteq> s \<longrightarrow> SrvTbl v ! i = Some so \<longrightarrow>
      (\<exists>g lg w2. acceptClient_ofProtoTCP env' i s opt' v = tcp_accept_negotiate env' so g (SocketFd lg) s w2 \<and>
        half_open w2 a f lf (?kc\<lparr>pProtoPriv := Some f\<rparr>) s g lg (lks\<lparr>pProtoPriv := Some g\<rparr>) \<and> link_step s (attached g) v w2)" .
  let ?kf = "?kc\<lparr>pProtoPriv := Some f\<rparr>"
  note d = link_stepD [OF 1(4), unfolded v]
  have ok1: "links_ok w1" by (rule links_ok_step [OF okv 1(4)]) simp
  have ok2: "FailNextAllocCount w1 \<le> 0" "first_index (\<lambda>slot. slot = None) (LinkTbl w1) = Some k" "a \<noteq> next_addr w1"
    using d ok(2,4) by (simp_all add: a_def)
  have so: "i < 32" "length (SrvTbl w1) = 32" "SrvTbl w1 ! i = Some so" "Flags so AND IOC_SRVFLAG_AUTO_ACCEPT = 0"
    "SrvMethods so = Some 1" "SrvEvt so = None" using r d(3) by simp_all
  have us: "args_fit args (Usage ?kf)" "role = negotiateLinkRole (UsageCapabilites so) (Usage ?kf)" using args(2) role(1) by simp_all
  have half': "\<forall>u. proto u = proto w1 \<longrightarrow> LinkHeap u a = LinkHeap w1 a \<longrightarrow>
      LinkHeap u (next_addr w1) = Some (server_link so (new_link k)) \<longrightarrow> SrvTbl u ! i = Some so \<longrightarrow>
      (\<exists>g lg w2. acceptClient_ofProtoTCP env' i (next_addr w1) opt' u = tcp_accept_negotiate env' so g (SocketFd lg) (next_addr w1) w2 \<and>
        half_open w2 a f lf ?kf (next_addr w1) g lg ((server_link so (new_link k))\<lparr>pProtoPriv := Some g\<rparr>) \<and>
        link_step (next_addr w1) (attached g) u w2)"
    using half [rule_format, OF _ _ _ ok2(3)] by simp
  from accept_service_tcp [OF ok1 ok2(1,2) so half' ok2(3) env(1,2) us role(2)] obtain g w3 w5 lf' lg' where
    2: "IOC_acceptClient (mIOC_SrvProtoMethods fenv env') True True True (of_nat i) opt' w1 =
      Done (IOC_RESULT_SUCCESS, Some (LinkObjTblIdxToLinkID k), w3)"
    "tcp_connect_end env f (SocketFd lf) a args w3 = Done (IOC_RESULT_SUCCESS, w5)" "tcp_pair w5 a f lf' (next_addr w1) g lg'"
    "arrived w5 lf' = []" "arrived w5 lg' = []" "LinkTbl w5 = (LinkTbl w1)[k := Some (next_addr w1)]"
    "SrvTbl w5 = (SrvTbl w1)[i := Some (track_manual (LinkObjTblIdxToLinkID k) so)]" "LinkHeap w5 a = Some ?kf"
    "LinkHeap w5 (next_addr w1) = Some ((server_link so (new_link k))\<lparr>pProtoPriv := Some g, Usage := role\<rparr>)" .
  have "\<forall>turn. turn w1 = Done w3 \<longrightarrow>
      connectService_ofProtoTCP (env\<lparr>te_others := turn\<rparr>) a args opt ?v = Done (IOC_RESULT_SUCCESS, w5)"
    using 1(1) 2(2) by (simp add: connectService_ofProtoTCP_def)
  from that [OF 2(1) this, of f lf' g lg'] show ?thesis using 2(3-9) d by simp
qed

text \<open>C6: A client that connects over TCP while a server thread accepts by hand.  The client goes to wait in the state
  \<open>w1\<close>; there the accept returns success with the new identifier \<open>k\<close> and leaves \<open>w2\<close>; and whenever the other threads
  have taken \<open>w1\<close> to \<open>w2\<close>, the connect returns success with the new identifier \<open>c\<close>.  The two links are the ends of one
  connection with both receiver threads running and nothing on the wire, with the client's usage and the negotiated
  role, and the service tracks its link.  As with FIFO, the client's link is reported as connected and the service's
  as disconnected.\<close>

theorem tcp_connect_through_library:
  assumes ok: "links_ok w" "FailNextAllocCount w \<le> 0" "used (LinkTbl w) \<le> 30"
    and rs: "tcp_ready i t ts so w"
    and args: "ConnSrvURI args = SrvURI so" "args_fit args (ConnUsage args)"
      "ConnUsage args \<noteq> IOC_LinkUsageEvtConsumer \<or> ConnUsageArgs args = None"
    and env: "env_works env" "env_works env'" "te_others env' = Done"
    and role: "role = negotiateLinkRole (UsageCapabilites so) (ConnUsage args)" "role \<noteq> IOC_LinkUsageUndefined"
  shows "\<exists>c k w1 w2 w' a b f g lf lg.
    IOC_acceptClient (mIOC_SrvProtoMethods fenv' env') True True True (of_nat i) opt' w1 = Done (IOC_RESULT_SUCCESS, Some k, w2) \<and>
    (\<forall>turn. turn w1 = Done w2 \<longrightarrow>
      IOC_connectService (mIOC_SrvProtoMethods fenv (env\<lparr>te_others := turn\<rparr>)) True True True (Some args) opt w =
      Done (IOC_RESULT_SUCCESS, Some c, w')) \<and>
    getLinkObjByLinkID c w = None \<and> getLinkObjByLinkID k w = None \<and> c \<noteq> k \<and>
    getLinkObjByLinkID c w' = Some a \<and> getLinkObjByLinkID k w' = Some b \<and>
    tcp_pair w' a f lf b g lg \<and> arrived w' lf = [] \<and> arrived w' lg = [] \<and>
    SrvTbl w' ! i = Some (track_manual k so) \<and> role_of w' a = ConnUsage args \<and> role_of w' b = role \<and>
    IOC_getLinkConnState c True w' = Done (IOC_RESULT_SUCCESS, Some IOC_LinkConnStateConnected) \<and>
    IOC_getLinkConnState k True w' = Done (IOC_RESULT_SUCCESS, Some IOC_LinkConnStateDisconnected)"
proof -
  have len: "length (LinkTbl w) = 32" using ok(1) by (simp add: links_ok_def)
  obtain c where c: "first_index (\<lambda>slot. slot = None) (LinkTbl w) = Some c"
    using first_free [of "LinkTbl w"] len ok(3) by (cases "first_index (\<lambda>slot. slot = None) (LinkTbl w)") auto
  have cl: "c < 32" "LinkTbl w ! c = None" using first_indexD [OF c] len by auto
  let ?a = "next_addr w" and ?up = "\<lambda>l. l\<lparr>pMethods := Some 1, ConnState := IOC_LinkConnStateConnected, IsConnected := True\<rparr>"
  obtain k where k: "first_index (\<lambda>slot. slot = None) ((LinkTbl w)[c := Some ?a]) = Some k" "k < 32" "k \<noteq> c"
    using second_free [OF len ok(3) c] by blast
  have kw: "LinkTbl w ! k = None" using first_indexD [OF k(1)] k(2,3) len by auto
  from connect_service_tcp [OF ok(1,2) c k(1) rs args(1,2) env role, where opt = opt and opt' = opt' and fenv = fenv']
  obtain f g lf lg v1 v2 w1 where
    acc: "IOC_acceptClient (mIOC_SrvProtoMethods fenv' env') True True True (of_nat i) opt' v1 =
      Done (IOC_RESULT_SUCCESS, Some (LinkObjTblIdxToLinkID k), v2)" and
    1: "\<forall>turn. turn v1 = Done v2 \<longrightarrow> connectService_ofProtoTCP (env\<lparr>te_others := turn\<rparr>) ?a args opt
      (setLink ?a (client_link args) (with_new_link c w)) = Done (IOC_RESULT_SUCCESS, w1)"
    "tcp_pair w1 ?a f lf (?a + 1) g lg" "arrived w1 lf = []" "arrived w1 lg = []"
    "LinkTbl w1 = (LinkTbl w)[c := Some ?a, k := Some (?a + 1)]"
    "SrvTbl w1 = (SrvTbl w)[i := Some (track_manual (LinkObjTblIdxToLinkID k) so)]"
    "LinkHeap w1 ?a = Some ((client_link args (new_link c))\<lparr>pProtoPriv := Some f\<rparr>)"
    "LinkHeap w1 (?a + 1) = Some ((server_link so (new_link k))\<lparr>pProtoPriv := Some g, Usage := role\<rparr>)" .
  let ?kc = "(client_link args (new_link c))\<lparr>pProtoPriv := Some f\<rparr>" and ?w2 = "setLink ?a ?up w1"
  have tcp: "pProtocol (ConnSrvURI args) = ''tcp''" "i < 32" "length (SrvTbl w) = 32" using rs args(1) by (simp_all add: tcp_ready_def)
  have res: "\<forall>turn. turn v1 = Done v2 \<longrightarrow>
      IOC_connectService (mIOC_SrvProtoMethods fenv (env\<lparr>te_others := turn\<rparr>)) True True True (Some args) opt w =
      Done (IOC_RESULT_SUCCESS, Some (LinkObjTblIdxToLinkID c), ?w2)"
    using connect_by_proto [OF ok(1,2) c, of args "mIOC_SrvProtoMethods fenv (env\<lparr>te_others := _\<rparr>)" 1 opt w1 ?kc] tcp(1) args(3) 1(1,7)
    by (simp add: proto_index_tcp gIOC_SrvProtoTCPMethods_def)
  have t: "LinkTbl ?w2 ! c = Some ?a" "LinkTbl ?w2 ! k = Some (?a + 1)" "SrvTbl ?w2 ! i = Some (track_manual (LinkObjTblIdxToLinkID k) so)"
    using 1(5,6) cl(1) k(2,3) len tcp(2,3) by simp_all
  have h: "LinkHeap ?w2 ?a = Some (?up ?kc)"
    "LinkHeap ?w2 (?a + 1) = Some ((server_link so (new_link k))\<lparr>pProtoPriv := Some g, Usage := role\<rparr>)" using 1(7,8) by simp_all
  have ends: "tcp_pair ?w2 ?a f lf (?a + 1) g lg" "arrived ?w2 lf = []" "arrived ?w2 lg = []"
    using tcp_pair_setLink [OF 1(2), of ?up] 1(3,4) by simp_all
  have roles: "role_of ?w2 ?a = ConnUsage args" "role_of ?w2 (?a + 1) = role" using h by (simp_all only: role_of_def option.case) simp_all
  have ids: "getLinkObjByLinkID (LinkObjTblIdxToLinkID c) w = None" "getLinkObjByLinkID (LinkObjTblIdxToLinkID k) w = None"
      "LinkObjTblIdxToLinkID c \<noteq> LinkObjTblIdxToLinkID k" "getLinkObjByLinkID (LinkObjTblIdxToLinkID c) ?w2 = Some ?a"
      "getLinkObjByLinkID (LinkObjTblIdxToLinkID k) ?w2 = Some (?a + 1)"
    using cl k(2,3) kw t by simp_all
  have states: "IOC_getLinkConnState (LinkObjTblIdxToLinkID c) True ?w2 = Done (IOC_RESULT_SUCCESS, Some IOC_LinkConnStateConnected)"
      "IOC_getLinkConnState (LinkObjTblIdxToLinkID k) True ?w2 = Done (IOC_RESULT_SUCCESS, Some IOC_LinkConnStateDisconnected)"
    using getLinkConnState_slot [OF cl(1) t(1) h(1)] getLinkConnState_slot [OF k(2) t(2) h(2)] by simp_all
  show ?thesis using acc res ids ends t(3) roles states by (intro exI conjI)
qed

text \<open>The process of \<open>service_world\<close> with its service in use and no links yet.\<close>

definition online_world :: "tcp_state ioc_world" where
  "online_world = (init_world (proto (service_world 0)))
     \<lparr>SrvTbl := (replicate 32 None)[0 := Some (tcp_service\<lparr>SrvMethods := Some 1\<rparr>)]\<rparr>"

abbreviation accept_turn_env :: "unit tcp_env" where
  "accept_turn_env \<equiv> sample_tcp_env\<lparr>te_others := tcp_accept_turn (mIOC_SrvProtoMethods (witness_env None) sample_tcp_env) 0 None\<rparr>"

theorem tcp_connect_through_library_witness:
  "\<exists>c k w1 w2 w'. IOC_acceptClient (mIOC_SrvProtoMethods (witness_env None) sample_tcp_env) True True True 0 None w1 =
      Done (IOC_RESULT_SUCCESS, Some k, w2) \<and>
    IOC_connectService (mIOC_SrvProtoMethods (witness_env None) accept_turn_env) True True True
      (Some (connect_args\<lparr>ConnUsage := IOC_LinkUsageDatSender\<rparr>)) None online_world = Done (IOC_RESULT_SUCCESS, Some c, w') \<and>
    IOC_getLinkConnState c True w' = Done (IOC_RESULT_SUCCESS, Some IOC_LinkConnStateConnected)"
proof -
  let ?args = "connect_args\<lparr>ConnUsage := IOC_LinkUsageDatSender\<rparr>" and ?so = "tcp_service\<lparr>SrvMethods := Some 1\<rparr>"
    and ?ts = "\<lparr>tSrvObj = 0, ListenSocketFd = 3, tPort = 9000\<rparr>"
  have ok: "links_ok online_world" "FailNextAllocCount online_world \<le> 0" "used (LinkTbl online_world) \<le> 30"
    using links_ok_init(1) [of "proto (service_world 0)"]
    by (simp_all add: links_ok_def online_world_def) (simp_all add: init_world_def used_def)
  have p: "proto online_world = proto (service_world u)" for u
    by (simp add: online_world_def service_world_def init_world_def)
  have "TcpSrvs (proto online_world) 0 = Some ?ts" "listening 9000 online_world = Some (ListenSocketFd ?ts)"
    "map_of (Listeners (proto online_world)) (ListenSocketFd ?ts) = Some \<lparr>li_port = 9000, li_pending = []\<rparr>"
    by (simp_all add: online_world_def service_world_def init_world_def listening_def)
  moreover have "SrvTbl online_world ! 0 = Some ?so" "length (SrvTbl online_world) = 32" by (simp_all add: online_world_def)
  moreover have "Flags ?so = 0" "SrvEvt ?so = None" "SrvProtoPriv ?so = Some 0" "pProtocol (SrvURI ?so) = ''tcp''" "Port (SrvURI ?so) = 9000"
    by (simp_all add: tcp_service_def new_service_def)
  ultimately have rs: "tcp_ready 0 0 ?ts ?so online_world" by (simp add: tcp_ready_def)
  have args: "ConnSrvURI ?args = SrvURI ?so" "args_fit ?args (ConnUsage ?args)" "ConnUsageArgs ?args = None"
    by (simp_all add: tcp_service_def new_service_def connect_args_def args_fit_def)
  have env: "env_works sample_tcp_env" "env_works sample_tcp_env" "te_others sample_tcp_env = Done"
    by (auto simp: env_works_def sample_tcp_env_def tx_ok_def)
  have role: "negotiateLinkRole (UsageCapabilites ?so) (ConnUsage ?args) \<noteq> IOC_LinkUsageUndefined"
    by (simp add: tcp_service_def new_service_def negotiateLinkRole_def has_usage_def usage_defs)
  let ?acc = "IOC_acceptClient (mIOC_SrvProtoMethods (witness_env None) sample_tcp_env) True True True 0 None"
  from tcp_connect_through_library [OF ok rs args(1,2) _ env refl role, of "witness_env None" None "witness_env None" None] args(3)
  obtain c k w1 w2 w' where 1: "?acc w1 = Done (IOC_RESULT_SUCCESS, Some k, w2)"
    "\<forall>turn. turn w1 = Done w2 \<longrightarrow> IOC_connectService (mIOC_SrvProtoMethods (witness_env None) (sample_tcp_env\<lparr>te_others := turn\<rparr>))
       True True True (Some ?args) None online_world = Done (IOC_RESULT_SUCCESS, Some c, w')"
    "IOC_getLinkConnState c True w' = Done (IOC_RESULT_SUCCESS, Some IOC_LinkConnStateConnected)" by auto
  have "IOC_connectService (mIOC_SrvProtoMethods (witness_env None) accept_turn_env) True True True (Some ?args) None online_world =
      Done (IOC_RESULT_SUCCESS, Some c, w')" by (rule 1(2) [rule_format]) (simp add: tcp_accept_turn_def 1(1))
  then show ?thesis using 1(1,3) by blast
qed

end
