(* ===== verification/TcpPolling.thy ===== *)
theory TcpPolling
  imports TcpCommand
begin

text \<open>
  Commands over TCP to an executor without a callback, which fetches its commands with \<^verbatim>\<open>IOC_waitCMD\<close> and
  answers them with \<^verbatim>\<open>IOC_ackCMD\<close>.
\<close>

section \<open>Fetching and acknowledging\<close>

text \<open>A request as the polling executor gets it, and the descriptor that goes back.\<close>

definition polled_cmd :: "IOC_CmdDesc_T \<Rightarrow> IOC_CmdDesc_T" where
  "polled_cmd d = seen_cmd (pending_cmd d)"

definition acked_cmd :: "IOC_CmdDesc_T \<Rightarrow> IOC_CmdDesc_T" where
  "acked_cmd c = (if is_request c
     then c\<lparr>Status := (if CmdResult c = IOC_RESULT_SUCCESS then IOC_CMD_STATUS_SUCCESS else IOC_CMD_STATUS_FAILED)\<rparr> else c)"

lemma acked_sel:
  "\<not> is_request (acked_cmd c)" "cmd_ok (acked_cmd c) \<longleftrightarrow> cmd_ok c" "OutPayload (acked_cmd c) = OutPayload c"
  "InPayload (acked_cmd c) = InPayload c" "CmdResult (acked_cmd c) = CmdResult c"
  by (simp_all add: acked_cmd_def is_request_def cmd_ok_def)

lemma polled_sel:
  assumes "payload_wf (InPayload d)"
  shows "CmdID (polled_cmd d) = CmdID d" "payload_bytes (InPayload (polled_cmd d)) = payload_bytes (InPayload d)"
  using request_of_sel [OF assms] by (simp_all add: request_of_def polled_cmd_def)

lemma wait_queued:
  assumes "end_of w b g" "TcpLinks (proto w) g = Some l" "tcp_cmdq_ok l" "tcp_cmdq l = c # cs"
  shows "waitCmd_ofProtoTCP env b opt w = Done (IOC_RESULT_SUCCESS, Some c, setTcp g (\<lambda>l. snd (tcp_cmd_pop l)) w)"
proof -
  have "IncomingCmdCount l \<noteq> 0" using assms(4) length_tcp_cmdq [of l] by (auto simp del: length_tcp_cmdq)
  then have "command_wait g timed ts w = Done (False, w)" for timed ts
    using assms(2) by (subst command_wait.simps) simp
  moreover have "fst (tcp_cmd_pop l) = c" using tcp_cmd_pop_spec [OF assms(3,4)] by auto
  ultimately show ?thesis using assms(2) by (simp add: waitCmd_ofProtoTCP_def with_tcp_end [OF assms(1,2)])
qed

lemma ack_pair:
  assumes "tcp_pair w a f lf b g lg" "payload_wf (OutPayload c)" "cpData (InPayload c) \<noteq> Some []"
  obtains ss d' where "ackCmd_ofProtoTCP b c w = Done (IOC_RESULT_SUCCESS, d', setSocks ss w)"
    "gave (Socks (proto w)) (SocketFd lf) (response_frame (acked_cmd c)) ss"
proof -
  note p = tcp_pairD [OF assms(1)]
  from send_desc_conn [OF p(7), of "acked_cmd c"] obtain s1 where
    1: "send_two (SocketFd lg) (tcp_header TCP_MSG_COMMAND (of_nat sizeof_CmdDesc)) (put_cmd (acked_cmd c)) w =
        Done (IOC_RESULT_SUCCESS, setSocks s1 w)"
      "gave (Socks (proto w)) (SocketFd lf) (tcp_header TCP_MSG_COMMAND (of_nat sizeof_CmdDesc) @ put_cmd (acked_cmd c)) s1" by blast
  have "payload_wf (OutPayload (acked_cmd c))" using assms(2) by (simp add: acked_sel)
  from send_out_conn [OF conn_setSocks [OF p(7) 1(2)] this] obtain s2 where
    2: "send_out_payload (SocketFd lg) (acked_cmd c) (setSocks s1 w) = Done (setSocks s2 w)"
      "gave s1 (SocketFd lf) (payload_frame (OutPayload (acked_cmd c))) s2" by auto
  have "gave (Socks (proto w)) (SocketFd lf) (response_frame (acked_cmd c)) s2"
    using gave_trans [OF 1(2) 2(2)] by (simp add: cmd_frame_def)
  moreover have "\<exists>d'. ackCmd_ofProtoTCP b c w = Done (IOC_RESULT_SUCCESS, d', setSocks s2 w)"
    using 1(1) 2(1) assms(3)
    by (auto simp: ackCmd_ofProtoTCP_def with_tcp_end [OF p(2,10)] acked_sel Let_def simp flip: acked_cmd_def split: option.split)
  ultimately show ?thesis using that by blast
qed

section \<open>One command served\<close>

text \<open>The executor's thread receives the request; its application fetches it, works on the descriptor and
  acknowledges it.\<close>

definition serve_one ::
  "'x tcp_env \<Rightarrow> nat \<Rightarrow> nat \<Rightarrow> (IOC_CmdDesc_T \<Rightarrow> IOC_CmdDesc_T) \<Rightarrow> 'x tcp_world \<Rightarrow> 'x tcp_world outcome" where
  "serve_one env g b ex w = bindO (recv_turn env g w) (\<lambda>w1. bindO (waitCmd_ofProtoTCP env b None w1) (\<lambda>(_, c, w2). case c of
     None \<Rightarrow> Done w2
   | Some c \<Rightarrow> bindO (ackCmd_ofProtoTCP b (ex c) w2) (\<lambda>(_, _, w3). Done w3)))"

lemma serve_turn:
  assumes "tcp_pair w a f lf b g lg" "arrived w lg = map RxByte (request_frame d) @ r0" "cmd_ok d" "payload_wf (InPayload d)"
    "fst (tCmdUsageArgs lg) = None" "tcp_cmdq_ok lg" "tcp_cmdq lg = []" "\<forall>n. te_malloc te n"
    "payload_wf (OutPayload (ex (polled_cmd d)))" "cpData (InPayload (ex (polled_cmd d))) \<noteq> Some []"
  obtains w' lg' where "serve_one te g b ex w = Done w'" "tcp_pair w' a f lf b g lg'" "tcp_cmdq lg' = []" "arrived w' lg' = r0"
    "arrived w' lf = arrived w lf @ map RxByte (response_frame (acked_cmd (ex (polled_cmd d))))"
proof -
  let ?c = "ex (polled_cmd d)" and ?put = "\<lambda>l. snd (tcp_cmd_put (polled_cmd d) l)"
  let ?l = "snd (tcp_cmd_pop (?put lg))"
  have "IncomingCmdCount lg < 16" using assms(7) length_tcp_cmdq [of lg] by (simp del: length_tcp_cmdq)
  from tcp_cmd_put_spec [OF assms(6) this, of "polled_cmd d"] have
    q: "tcp_cmdq_ok (?put lg)" "tcp_cmdq (?put lg) = [polled_cmd d]" using assms(7) by auto
  have l: "SocketFd (?put lg) = SocketFd lg" "RecvThreadRunning (?put lg) = RecvThreadRunning lg"
    "SocketFd ?l = SocketFd (?put lg)" "RecvThreadRunning ?l = RecvThreadRunning (?put lg)"
    by (simp_all add: tcp_cmd_put_def tcp_cmd_pop_def)
  have p: "cmd_ok (pending_cmd d)" "is_request (pending_cmd d)" using assms(3) by (simp_all add: cmd_ok_def is_request_def)
  from turn_request_queued [OF tcp_pairD(5) [OF assms(1)] _ p _ assms(8,5), of r0] assms(2,4) obtain ss where
    1: "took (Socks (proto w)) (SocketFd lg) r0 ss" "recv_turn te g w = Done (setTcp g ?put (setSocks ss w))"
    by (auto simp: polled_cmd_def)
  let ?w1 = "setTcp g ?put (setSocks ss w)" and ?w2 = "setTcp g (\<lambda>l. snd (tcp_cmd_pop l)) (setTcp g ?put (setSocks ss w))"
  have p1: "tcp_pair ?w1 a f lf b g (?put lg)" using tcp_pair_setTcp2 [where h = ?put, OF tcp_pair_took [OF assms(1) 1(1)] l(1,2)] .
  have p2: "tcp_pair ?w2 a f lf b g ?l" using tcp_pair_setTcp2 [where h = "\<lambda>l. snd (tcp_cmd_pop l)", OF p1 l(3,4)] .
  note wait = wait_queued [OF tcp_pairD(2,10) [OF p1] q, of te None]
  obtain s2 d' where ack: "ackCmd_ofProtoTCP b ?c ?w2 = Done (IOC_RESULT_SUCCESS, d', setSocks s2 ?w2)"
    "gave (Socks (proto ?w2)) (SocketFd lf) (response_frame (acked_cmd ?c)) s2" by (rule ack_pair [OF p2 assms(9,10)])
  then have 2: "ackCmd_ofProtoTCP b ?c ?w2 = Done (IOC_RESULT_SUCCESS, d', setSocks s2 ?w2)"
    "gave ss (SocketFd lf) (response_frame (acked_cmd ?c)) s2" by simp_all
  have "serve_one te g b ex w = Done (setSocks s2 ?w2)" using 1(2) wait 2(1) by (simp add: serve_one_def)
  moreover have "tcp_pair (setSocks s2 ?w2) a f lf b g ?l"
    by (rule tcp_pair_gave [OF p2 ack(2)])
  moreover have "tcp_cmdq ?l = []" using tcp_cmd_pop_spec [OF q] by auto
  moreover have "SocketFd lf \<noteq> SocketFd lg" using tcp_pairD(8) [OF assms(1)] .
  ultimately show ?thesis using that gave_inbox [OF 2(2)] took_inbox [OF 1(1)] l by simp
qed

section \<open>Properties\<close>

text \<open>C39: A command over TCP to an executor that polls.  The executor's thread queues the request, its
  application fetches it with the identifier and the bytes of the caller's input payload and acknowledges it.  The
  call returns success with the result and the output bytes of the acknowledged descriptor, and a status that
  follows from the result unless the application set one.  The queue and the wire are empty again.\<close>

theorem tcp_cmd_poll_roundtrip:
  assumes "tcp_pair w a f lf b g lg" "arrived w lf = []" "arrived w lg = []" "0 \<le> SocketFd lf"
    "cmd_ok d" "payload_wf (InPayload d)" "payload_wf (OutPayload d)"
    "fst (tCmdUsageArgs lg) = None" "tcp_cmdq_ok lg" "tcp_cmdq lg = []" "c = ex (polled_cmd d)"
    "cmd_ok c" "payload_wf (OutPayload c)" "cpData (InPayload c) \<noteq> Some []" "\<forall>n. te_malloc te n" "\<forall>n. te_malloc env n"
    "te_exec env = [(False, \<lambda>w. bindO (serve_one te g b ex w) (recv_turn te f))]"
  shows "\<exists>d' w' lf' lg'. execCmd_ofProtoTCP env a d opt w = Done (IOC_RESULT_SUCCESS, d', w') \<and>
    answered d (acked_cmd c) (payload_bytes (OutPayload c)) d' \<and>
    CmdID (polled_cmd d) = CmdID d \<and> payload_bytes (InPayload (polled_cmd d)) = payload_bytes (InPayload d) \<and>
    tcp_pair w' a f lf' b g lg' \<and> arrived w' lf' = [] \<and> arrived w' lg' = [] \<and> tcp_cmdq lg' = []"
proof -
  from exec_pair [OF assms(1,4,6,7,17,16)] obtain ss where
    1: "gave (Socks (proto w)) (SocketFd lg) (request_frame d) ss"
      "tcp_pair (setSocks ss (exec_cleared f w)) a f (cleared_end lf) b g lg" and
    exec: "\<And>w3 l3 q. bindO (serve_one te g b ex (setSocks ss (exec_cleared f w))) (recv_turn te f) = Done w3 \<Longrightarrow>
      TcpLinks (proto w3) f = Some l3 \<Longrightarrow> CmdResponseReady l3 \<Longrightarrow> RecvError l3 = IOC_RESULT_SUCCESS \<Longrightarrow>
      OutPayload (CmdResponse l3) = q \<Longrightarrow> payload_wf q \<Longrightarrow>
      \<exists>d'. execCmd_ofProtoTCP env a d opt w = Done (IOC_RESULT_SUCCESS, d', w3) \<and> answered d (CmdResponse l3) (payload_bytes q) d'"
    by metis
  let ?w1 = "setSocks ss (exec_cleared f w)"
  have in1: "arrived ?w1 lg = map RxByte (request_frame d) @ []" "arrived ?w1 (cleared_end lf) = []"
    using gave_inbox [OF 1(1)] assms(2,3) tcp_pairD(8) [OF assms(1)] by simp_all
  from serve_turn [where ex = ex, OF 1(2) in1(1) assms(5,6,8-10,15) assms(13,14) [unfolded assms(11)]] obtain w2 lg' where
    2: "serve_one te g b ex ?w1 = Done w2" "tcp_pair w2 a f (cleared_end lf) b g lg'" "tcp_cmdq lg' = []" "arrived w2 lg' = []"
      "arrived w2 (cleared_end lf) = map RxByte (response_frame (acked_cmd c)) @ []"
    unfolding in1(2) by (auto simp: assms(11))
  have c: "cmd_ok (acked_cmd c)" "\<not> is_request (acked_cmd c)" "payload_wf (OutPayload (acked_cmd c))"
    using assms(12,13) by (simp_all add: acked_sel)
  from response_turn [OF 2(2,5) c assms(15)] obtain w3 lf' where
    3: "recv_turn te f w2 = Done w3" "tcp_pair w3 a f lf' b g lg'" "arrived w3 lf' = []" "arrived w3 lg' = arrived w2 lg'"
      "CmdResponseReady lf'" "RecvError lf' = IOC_RESULT_SUCCESS" "Status (CmdResponse lf') = Status (acked_cmd c)"
      "CmdResult (CmdResponse lf') = CmdResult (acked_cmd c)" "payload_wf (OutPayload (CmdResponse lf'))"
      "payload_bytes (OutPayload (CmdResponse lf')) = payload_bytes (OutPayload c)" by (auto simp: acked_sel(3))
  have "bindO (serve_one te g b ex ?w1) (recv_turn te f) = Done w3" using 2(1) 3(1) by simp
  from exec [OF this tcp_pairD(9) [OF 3(2)] 3(5,6) refl 3(9)] obtain d' where
    "execCmd_ofProtoTCP env a d opt w = Done (IOC_RESULT_SUCCESS, d', w3)" "answered d (acked_cmd c) (payload_bytes (OutPayload c)) d'"
    using 3(7,8,10) by (auto simp: answered_def)
  moreover have "arrived w3 lg' = []" using 3(4) 2(4) by simp
  ultimately show ?thesis using 3(2,3) 2(3) polled_sel [OF assms(6)] by blast
qed

text \<open>An application that answers with its input.\<close>

theorem tcp_cmd_poll_roundtrip_witness:
  "\<exists>d' w'. execCmd_ofProtoTCP (sample_tcp_env\<lparr>te_exec := [(False, \<lambda>w. bindO (serve_one sample_tcp_env 1 1 echo w) (recv_turn sample_tcp_env 0))]\<rparr>)
      0 (echo_cmd 5) None (pair_world id) = Done (IOC_RESULT_SUCCESS, d', w') \<and>
    Status d' = IOC_CMD_STATUS_SUCCESS \<and> payload_bytes (OutPayload d') = [1, 2, 3]"
proof -
  let ?env = "sample_tcp_env\<lparr>te_exec := [(False, \<lambda>w. bindO (serve_one sample_tcp_env 1 1 echo w) (recv_turn sample_tcp_env 0))]\<rparr>"
  let ?c = "echo (polled_cmd (echo_cmd 5))" and ?l = "example_end 4 1"
  have pair: "tcp_pair (pair_world id) 0 0 (example_end 3 0) 1 1 ?l" "arrived (pair_world id) (example_end 3 0) = []" "arrived (pair_world id) ?l = []"
    using pair_world_pair [of id] by (simp_all add: example_end_def)
  have m: "0 \<le> SocketFd (example_end 3 0)" "\<forall>n. te_malloc sample_tcp_env n" "\<forall>n. te_malloc ?env n"
    "te_exec ?env = [(False, \<lambda>w. bindO (serve_one sample_tcp_env 1 1 echo w) (recv_turn sample_tcp_env 0))]"
    by (simp_all add: example_end_def sample_tcp_env_def)
  have l: "fst (tCmdUsageArgs ?l) = None" "tcp_cmdq_ok ?l" "tcp_cmdq ?l = []"
    by (simp_all add: example_end_def fresh_tcp_link_def tcp_cmdq_ok_def tcp_cmdq_def)
  have "InPayload (polled_cmd (echo_cmd 5)) = InPayload (echo_cmd 5)" "OutPayload (polled_cmd (echo_cmd 5)) = zero_payload"
    "CmdMsgDesc (polled_cmd (echo_cmd 5)) = zero_msg" "pExecContext (polled_cmd (echo_cmd 5)) = None"
    "CmdResult (polled_cmd (echo_cmd 5)) = IOC_RESULT_SUCCESS" "Status (polled_cmd (echo_cmd 5)) = IOC_CMD_STATUS_PENDING"
    by (simp_all add: polled_cmd_def seen_cmd_def far_cmd_def near_payload_def far_payload_def echo_cmd_def zero_cmd_def zero_payload_def)
  then have c: "cmd_ok ?c" "payload_wf (OutPayload ?c)" "cpData (InPayload ?c) \<noteq> Some []" "payload_bytes (OutPayload ?c) = [1, 2, 3]"
    "Status (acked_cmd ?c) = IOC_CMD_STATUS_SUCCESS"
    by (simp_all add: echo_def IOC_CmdDesc_setOutPayload_def IOC_CmdDesc_getInData_def IOC_CmdDesc_getInDataLen_def setPayload_def
        payload_data_def payload_len_def payload_bytes_def payload_wf_def cmd_ok_def echo_cmd_def zero_cmd_def zero_payload_def
        blit_def msg_ok_def zero_msg_def long_ok_def Let_def acked_cmd_def is_request_def)
  from tcp_cmd_poll_roundtrip [where opt = None and d = "echo_cmd 5", OF pair m(1) echo_cmd_ok l refl c(1-3) m(2-4)]
  show ?thesis by (auto simp: answered_def c(4,5))
qed

section \<open>A run of the protocol\<close>

text \<open>An environment made of the protocol's own steps: callbacks that leave notes, and a caller's wait during which
  the executor's thread, its application and the caller's own thread take their turns.\<close>

abbreviation serving_env :: "unit tcp_env" where
  "serving_env \<equiv> sample_tcp_env\<lparr>te_exec := [(False, \<lambda>w. bindO (serve_one sample_tcp_env 1 1 echo w) (recv_turn sample_tcp_env 0))]\<rparr>"

lemma note_call_step: "tcp_step\<^sup>*\<^sup>* w (note_call F p i bs w)"
  by (rule r_into_rtranclp, rule tcp_step.Elsewhere) (simp_all add: note_call_def)

lemma sample_env_by: "env_by tcp_step\<^sup>*\<^sup>* sample_tcp_env"
  using note_call_step setOutPayload_wf by (auto simp: env_by_def sample_tcp_env_def turns_by_def)

lemma serve_one_steps:
  assumes "serve_one sample_tcp_env g b ex w = Done w'"
  shows "tcp_step\<^sup>*\<^sup>* w w'"
proof -
  from assms obtain w1 r c w2 where 1: "recv_turn sample_tcp_env g w = Done w1" "waitCmd_ofProtoTCP sample_tcp_env b None w1 = Done (r, c, w2)"
    and 2: "w' = w2 \<or> (\<exists>d r d'. ackCmd_ofProtoTCP b d w2 = Done (r, d', w'))"
    by (auto simp: serve_one_def outcome_simps split: option.splits) blast
  have "tcp_step w w1" "tcp_step w1 w2" using 1 sample_env_by by (blast intro: tcp_step.intros)+
  moreover have "w' = w2 \<or> tcp_step w2 w'" using 2 by (blast intro: tcp_step.intros)
  ultimately show ?thesis by (meson converse_rtranclp_into_rtranclp rtranclp.rtrancl_refl)
qed

lemma serving_env_by: "env_by tcp_step\<^sup>*\<^sup>* serving_env"
proof -
  have "tcp_step\<^sup>*\<^sup>* w w'" if turn: "bindO (serve_one sample_tcp_env 1 1 echo w) (recv_turn sample_tcp_env 0) = Done w'" for w w'
  proof -
    from turn obtain w1 where "serve_one sample_tcp_env 1 1 echo w = Done w1" "recv_turn sample_tcp_env 0 w1 = Done w'"
      by (auto simp: outcome_simps)
    then show ?thesis using serve_one_steps sample_env_by by (meson rtranclp.rtrancl_into_rtrancl tcp_step.Turn)
  qed
  then show ?thesis using sample_env_by by (simp add: env_by_def turns_by_def)
qed

text \<open>A request arrives at the executor's link and its receiver thread queues it.\<close>

theorem tcp_links_well_formed_witness:
  "env_by tcp_step\<^sup>*\<^sup>* serving_env \<and>
   (\<exists>w' l. tcp_step\<^sup>*\<^sup>* (pair_world id) w' \<and> TcpLinks (proto w') 1 = Some l \<and> IncomingCmdCount l = 1 \<and>
      pb_inv (tPollingBuffer l) \<and> (\<forall>c\<in>set (tcp_cmdq l). cmd_wf c) \<and> cmd_wf (CmdResponse l))"
proof -
  let ?d = "pending_cmd (echo_cmd 5)" and ?l = "example_end 4 1" and ?w = "pair_world id"
  let ?ss = "(Socks (proto ?w))(4 := Some (sock0\<lparr>so_in := map RxByte (request_frame (echo_cmd 5)), so_peer := Some 3\<rparr>))"
  let ?w1 = "setSocks ?ss ?w" and ?put = "\<lambda>l. snd (tcp_cmd_put (seen_cmd ?d) l)"
  have l: "receiving ?w1 1 ?l" "arrived ?w1 ?l = map RxByte (request_frame (echo_cmd 5)) @ []" "fst (tCmdUsageArgs ?l) = None"
    using tcp_pairD(5) [OF pair_world_pair(1) [of id]]
    by (simp_all add: receiving_def example_end_def inbox_def fresh_tcp_link_def)
  have d: "cmd_ok ?d" "is_request ?d" "payload_wf (InPayload ?d)" "\<forall>n. te_malloc sample_tcp_env n"
    using echo_cmd_ok by (simp_all add: cmd_ok_def is_request_def sample_tcp_env_def)
  from turn_request_queued [OF l(1) _ d l(3), of "[]"] l(2) obtain s2 where
    2: "recv_turn sample_tcp_env 1 ?w1 = Done (setTcp 1 ?put (setSocks s2 ?w1))" by auto
  let ?w2 = "setTcp 1 ?put (setSocks s2 ?w1)"
  have run: "tcp_step\<^sup>*\<^sup>* ?w ?w2"
    using tcp_step.Arrive [of ?w ?ss] tcp_step.Turn [OF sample_env_by 2] by (meson rtranclp.rtrancl_into_rtrancl rtranclp.rtrancl_refl)
  have links: "TcpLinks (proto ?w) = (\<lambda>_. None)(0 := Some (example_end 3 0), 1 := Some ?l)" "next_tcp (proto ?w) = 2"
    by (simp_all add: pair_world_def init_world_def)
  have "tcp_link_ok (example_end fd k)" for fd k
    by (simp add: example_end_def) (simp add: fresh_tcp_link_def tcp_link_ok_def tcp_cmdq_ok_def)
  then have ok: "tcp_ok ?w" using links by (simp add: tcp_ok_def)
  have "TcpLinks (proto ?w2) 1 = Some (?put ?l)" "IncomingCmdCount (?put ?l) = 1"
    using links by (simp_all add: tcp_cmd_put_def example_end_def fresh_tcp_link_def)
  then show ?thesis using tcp_links_well_formed [OF run ok, of 1 "?put ?l"] serving_env_by run by blast
qed

end
