(* ===== verification/Spec2Isabelle.thy ===== *)
theory Spec2Isabelle
  imports Printers PollingBuffer ConlesEvent ServiceTable TcpService TcpPolling
begin

text \<open>
  A model of the inter-object communication library IOC (\<^verbatim>\<open>src/Include/IOC\<close>, \<^verbatim>\<open>src/Source\<close>), with
  the theorems that say what its parts do.

  \<^bold>\<open>The program.\<close>  Objects of one or several processes exchange events, commands and data.  A process
  puts services online and connects to them; every connection is a pair of links, one on each
  side, named by link identifiers.  \<^verbatim>\<open>IOC_Service.c\<close> keeps the tables of services and links and finds
  the protocol by the name in the service's URI.  A protocol is a table of functions; the FIFO
  protocol connects objects of one process, the TCP protocol those of different ones.  The calls on
  a link (\<^verbatim>\<open>IOC_Event.c\<close>, \<^verbatim>\<open>IOC_Data.c\<close>, \<^verbatim>\<open>IOC_Command.c\<close>) check their arguments and go to the link's
  protocol.  Events can also be sent without a connection, on the automatic link
  (\<^verbatim>\<open>_IOC_ConlesEvent.c\<close>), which has a list of subscribers, a queue and a thread of its own.

  \<^bold>\<open>The theories.\<close>
    \<^item> \<open>Prelude\<close>: outcomes of C code, arrays, and the interfaces \<open>bounded_queue\<close> and \<open>byte_stream\<close>.
    \<^item> \<open>BaseTypes\<close>: result codes, states, usages, options, identifiers (\<^verbatim>\<open>IOC_Types.h\<close>, \<^verbatim>\<open>IOC_Option.h\<close>,
      \<^verbatim>\<open>IOC_EvtID.h\<close>, \<^verbatim>\<open>IOC_CmdID.h\<close>, \<^verbatim>\<open>IOC_Result.c\<close>).
    \<^item> \<open>EvtDescQueue\<close>: the queue of event descriptors (\<^verbatim>\<open>_IOC_EvtDescQueue.c\<close>), a \<open>bounded_queue\<close>.
    \<^item> \<open>Helpers\<close>: time differences, names, command and data descriptors (\<^verbatim>\<open>IOC_Helpers.h\<close>,
      \<^verbatim>\<open>IOC_CmdDesc.h\<close>, \<^verbatim>\<open>IOC_DatDesc.h\<close>, \<^verbatim>\<open>IOC_SrvTypes.h\<close>).
    \<^item> \<open>Printers\<close>: the one-line texts of descriptors and service URIs (\<^verbatim>\<open>IOC_EvtDesc.h\<close>, \<^verbatim>\<open>IOC_CmdDesc.h\<close>,
      \<^verbatim>\<open>IOC_SrvTypes.h\<close>), with what can be read back from them.
    \<^item> \<open>PollingBuffer\<close>: the circular byte buffers of both protocols, two implementations of \<open>byte_stream\<close>.
    \<^item> \<open>ConlesEvent\<close>: connectionless events (\<^verbatim>\<open>_IOC_ConlesEvent.c\<close>).
    \<^item> \<open>ServiceTable\<close>: the state of the library (\<open>ioc_world\<close>) and its tables (\<^verbatim>\<open>IOC_Service.c\<close>,
      \<^verbatim>\<open>_IOC_Types.h\<close>).
    \<^item> \<open>FifoLink\<close>, \<open>FifoHandshake\<close>, \<open>FifoEvent\<close>, \<open>FifoCommand\<close>, \<open>FifoData\<close>: the FIFO protocol
      (\<^verbatim>\<open>_IOC_SrvProtoFifo.c\<close>): its objects with connecting, accepting and closing; the handshake as a
      transition system; events; commands; data.
    \<^item> \<open>ConetApi\<close>: the calls on a link (\<^verbatim>\<open>IOC_Event.c\<close>, \<^verbatim>\<open>_IOC_ConetEvent.c\<close>, \<^verbatim>\<open>IOC_Data.c\<close>,
      \<^verbatim>\<open>IOC_Command.c\<close>, \<^verbatim>\<open>IOC_Capability.c\<close>).
    \<^item> \<open>ServiceApi\<close>: the calls on services and the daemon threads (\<^verbatim>\<open>IOC_Service.c\<close>).
    \<^item> \<open>FifoMethods\<close>: the method table of the FIFO protocol, the interface \<open>link_protocol\<close> that the
      service layer relies on, and what the service layer does on top of the FIFO protocol.
    \<^item> \<open>TcpWire\<close>: message headers, the memory images of descriptors, and sending and receiving all of a
      message (\<^verbatim>\<open>_IOC_SrvProtoTCP.c\<close>, as the theories that follow).
    \<^item> \<open>TcpLink\<close>, \<open>TcpThread\<close>, \<open>TcpCalls\<close>: the TCP protocol's objects with going online, connecting,
      accepting and closing; the receiver thread of a link, one message per turn; the calls on a link.
    \<^item> \<open>TcpInvariant\<close>: the well-formedness of TCP links over all sequences of calls, turns and arriving bytes.
    \<^item> \<open>TcpTraffic\<close>, \<open>TcpData\<close>, \<open>TcpCommand\<close>, \<open>TcpPolling\<close>: two connected links with their threads: events, data, commands.
    \<^item> \<open>TcpNegotiate\<close>, \<open>TcpFaults\<close>: connecting met by accepting; a peer that closes, a receive timeout.
    \<^item> \<open>TcpMethods\<close>: the array of both method tables, the TCP protocol as an instance of \<open>link_protocol\<close>, and
      what the service layer does on top of it.
    \<^item> \<open>TcpService\<close>: connecting over TCP through the library, from \<^verbatim>\<open>IOC_connectService\<close> in one thread and
      \<^verbatim>\<open>IOC_acceptClient\<close> in another one to the connected links.

  \<^bold>\<open>How C is modelled.\<close>  A call returns \<open>Done\<close> its result and the new state, or \<open>Abort\<close> (a failed
  assertion, \<^verbatim>\<open>_IOC_LogBug\<close>, \<^verbatim>\<open>_IOC_LogNotTested\<close>, a null or dangling pointer that is followed), or
  \<open>Block\<close> (it waits for a mutex its own thread holds, or for a signal nobody sends).  Counters and
  identifiers are words of their C width; sizes that an invariant keeps small are natural numbers.
  Link and service objects of the protocols live on heaps, so that a freed object whose address is
  still stored is a dangling pointer of the model too.  Times, the answers of the C library's
  allocation and thread creation, user callbacks, and what other threads do while a call waits are
  parameters.  A waiting call takes the list of these turns as an argument, one for each time it
  wakes up, and is \<open>Block\<close> when the list ends; the theorems say how many turns they need.
  Operations that hold a mutex for their whole length are atomic; the handshake of connecting and
  accepting, where they do not, is the step relation \<open>fifo_step\<close> on their atomic pieces.  There a close is
  two steps, taking the mutex of its end and what it does with it, and other operations may hold the mutex
  of any end in between, so that the \<^verbatim>\<open>trylock\<close> on the peer can fail.  A thread that a send has started runs
  either before the send goes on (\<open>early_turn\<close>) or later, at any time (\<open>run_async\<close>).  A connect is met by an
  accept in the state \<open>w1\<close> in which it goes to wait: the theorems give the accept's result there, its state
  \<open>w2\<close> afterwards, and the result of the connect whenever the other threads have taken \<open>w1\<close> to \<open>w2\<close>.  The
  step relation \<open>tcp_step\<close> of the TCP protocol lets callbacks and the other threads, while a call or a turn
  is under way, take any number of the same steps themselves (\<open>env_by\<close>).

  \<^bold>\<open>Sockets.\<close>  A socket holds the bytes that have arrived and not been read, with the ends and errors
  of the stream between them, the name of its peer, and what the kernel does to later calls: how many
  bytes it takes at each \<^verbatim>\<open>send\<close>, where it cuts the stream for \<^verbatim>\<open>recv\<close>, which errors it reports.  These
  lists are arbitrary, so the theorems hold for every way of splitting and joining segments.  \<^verbatim>\<open>recv\<close>
  with nothing to read is \<open>Block\<close>: the turn of a receiver thread is then tried again later, which is
  sound because the thread is the only reader of its socket.  Pointers inside a descriptor that crosses
  the wire arrive as null or non-null only.

  \<^bold>\<open>What is shown.\<close>  For the queues and buffers: refinement of bounded queues and byte streams over
  arbitrary sequences of operations.  For connectionless events: subscribing and unsubscribing
  refine a finite map, posts deliver exactly once and in order, and what a callback may not do.  For
  the tables: allocation, lookup, release, uniqueness.  For the FIFO protocol: symmetry of peers over
  all interleavings and the one way in which a peer pointer dangles, the result of the handshake, delivery of events, round trips of commands, data
  links as byte streams, batching, asynchronous delivery.  For the service layer: connecting and
  accepting composed, closing, going offline.  For the TCP protocol: receiving whole messages however the
  kernel cuts the stream, the invariant of its objects, the negotiation of two usages up to the calls of the
  library, data links as channels, round trips of commands by callback and by polling, and what happens
  when a peer closes or a timeout ends a receiver.  Several theorems state what the code does where a
  comment or the name of a call suggests otherwise (deadlocks, lost events and responses, leaked
  table slots, states that change when they are read).

  \<^bold>\<open>Not modelled.\<close>  Logging; null strings in the URI of connection arguments; the command queues in
  \<^verbatim>\<open>IOC_Command.c\<close> that nothing uses; a daemon thread that is cancelled in the middle of one of its turns; sockets
  of the operating system that are not created by the library.
\<close>

end
